(* ===== verification/Prelude.thy ===== *)
theory Prelude
  imports Main "HOL-Library.AList" "HOL-Library.Sublist"
begin

section \<open>Shared vocabulary of the honeypot model\<close>

text \<open>
  What every component theory uses: the exceptions that the source can raise, the result
  type of code that may raise, the collections of facts that carry the component proofs,
  and generic lemmas on association lists (a Python dict keeps its insertion order, so a
  dict whose order matters is an association list) and on lists.
\<close>

named_theorems wf_intros "introduction rules: an operation keeps a well-formedness invariant"
named_theorems frame_simps "fields and parts of a state that an operation leaves alone"

subsection \<open>Exceptions and results\<close>

text \<open>
  The exceptions that attacker input can provoke in the modelled code. A Python call that may
  raise returns \<open>pyexn + 'a\<close>; the state it had reached is returned beside it, since a Python
  object keeps the mutations made before the exception.
\<close>

datatype pyexn = KeyError | ValueError | IndexError | OSError | TypeError | AttributeError
  | RecursionError

type_synonym 'a result = "pyexn + 'a"

fun is_ok :: "'a result \<Rightarrow> bool" where
  "is_ok (Inr _) = True"
| "is_ok (Inl _) = False"

lemma is_ok_iff: "is_ok r \<longleftrightarrow> (\<exists>x. r = Inr x)"
  by (cases r) auto

fun bind_result :: "'a result \<Rightarrow> ('a \<Rightarrow> 'b result) \<Rightarrow> 'b result" where
  "bind_result (Inl e) f = Inl e"
| "bind_result (Inr x) f = f x"

lemma bind_result_Inr_iff: "bind_result r f = Inr y \<longleftrightarrow> (\<exists>x. r = Inr x \<and> f x = Inr y)"
  by (cases r) auto

lemma bind_result_Inl_iff:
  "bind_result r f = Inl e \<longleftrightarrow> r = Inl e \<or> (\<exists>x. r = Inr x \<and> f x = Inl e)"
  by (cases r) auto

lemma bind_result_split:
  "P (bind_result r f) \<longleftrightarrow> (\<forall>e. r = Inl e \<longrightarrow> P (Inl e)) \<and> (\<forall>x. r = Inr x \<longrightarrow> P (f x))"
  by (cases r) auto

subsection \<open>Insertion-ordered dictionaries\<close>

text \<open>
  A dict is an association list with distinct keys. Assignment is \<^const>\<open>AList.update\<close> (it
  replaces the value in place or appends the new key), \<open>pop\<close> and \<open>del\<close> are
  \<^const>\<open>AList.delete\<close>, \<open>get\<close> is \<^const>\<open>map_of\<close>.
\<close>

definition dict_setdefault :: "'k \<Rightarrow> 'v \<Rightarrow> ('k \<times> 'v) list \<Rightarrow> ('k \<times> 'v) list" where
  "dict_setdefault k v d = (if map_of d k = None then AList.update k v d else d)"

lemma map_of_update [simp]: "map_of (AList.update k v d) = (map_of d)(k \<mapsto> v)"
  by (simp add: update_conv')

lemma map_of_delete [simp]: "map_of (AList.delete k d) = (map_of d)(k := None)"
  by (rule delete_conv')

lemma map_of_setdefault:
  "map_of (dict_setdefault k v d) = (if map_of d k = None then (map_of d)(k \<mapsto> v) else map_of d)"
  by (simp add: dict_setdefault_def)

lemma snd_set_update: "snd ` set (AList.update k v d) \<subseteq> insert v (snd ` set d)"
  by (induction d) auto

lemma snd_set_delete: "snd ` set (AList.delete k d) \<subseteq> snd ` set d"
  by (auto simp: AList.delete_eq)

lemma snd_set_setdefault: "snd ` set (dict_setdefault k v d) \<subseteq> insert v (snd ` set d)"
  using snd_set_update [of k v d] by (auto simp: dict_setdefault_def)

lemma distinct_setdefault:
  "distinct (map fst d) \<Longrightarrow> distinct (map fst (dict_setdefault k v d))"
  by (simp add: dict_setdefault_def distinct_update)

lemma map_of_in_snd_set: "map_of d k = Some v \<Longrightarrow> v \<in> snd ` set d"
  by (metis image_eqI map_of_SomeD snd_conv)

text \<open>
  \<open>d.pop(next(iter(d)))\<close> in a \<open>while len(d) > n\<close> loop drops the oldest keys until \<open>n\<close> are left.
\<close>

fun trim_oldest :: "nat \<Rightarrow> 'a list \<Rightarrow> 'a list" where
  "trim_oldest n [] = []"
| "trim_oldest n (x # xs) = (if length (x # xs) > n then trim_oldest n xs else x # xs)"

lemma trim_oldest_eq: "trim_oldest n xs = drop (length xs - n) xs"
  by (induction xs) (auto simp: Suc_diff_le)

lemma length_trim_oldest: "length (trim_oldest n xs) = min n (length xs)"
  by (simp add: trim_oldest_eq)

lemma set_trim_oldest: "set (trim_oldest n xs) \<subseteq> set xs"
  by (simp add: trim_oldest_eq set_drop_subset)

subsection \<open>Lists\<close>

lemma butlast_snoc_last: "xs \<noteq> [] \<Longrightarrow> xs = butlast xs @ [last xs]"
  by simp

lemma nth_append_shift: "i < length ys \<Longrightarrow> (xs @ ys) ! (i + length xs) = ys ! i"
  by (simp add: add.commute nth_append)

lemma subseq_length: "subseq xs ys \<Longrightarrow> length xs \<le> length ys"
  by (rule list_emb_length)

lemma subseq_subset: "subseq xs ys \<Longrightarrow> set xs \<subseteq> set ys"
  unfolding subseq_conv_nths by (auto dest: in_set_nthsD)

lemma subseq_distinct_list: "subseq xs ys \<Longrightarrow> distinct ys \<Longrightarrow> distinct xs"
  unfolding subseq_conv_nths by (auto intro: distinct_nthsI)

end
