(* ===== verification/Limiter.thy ===== *)
theory Limiter
  imports Prelude
begin

section \<open>Concurrent connections per source address\<close>

text \<open>
  \<open>honeypot/listeners/limiter.py\<close>: the cap on concurrent connections that both listeners share,
  its interface as a locale, and what a listener that acquires on connect and releases on
  disconnect gets from it.
\<close>

subsection \<open>ConnectionLimiter\<close>

text \<open>
  \<open>_counts\<close> is a \<open>defaultdict(int)\<close>; a key whose count reaches zero is deleted. A cap of zero or
  less disables the limiter.
\<close>

record limiter =
  max_per_ip :: int
  counts :: "string \<rightharpoonup> nat"

definition new_limiter :: "int \<Rightarrow> limiter" where
  "new_limiter m = \<lparr>max_per_ip = m, counts = Map.empty\<rparr>"

definition conn_count :: "limiter \<Rightarrow> string \<Rightarrow> nat" where
  "conn_count l ip = (case counts l ip of None \<Rightarrow> 0 | Some n \<Rightarrow> n)"

definition try_acquire :: "string \<Rightarrow> limiter \<Rightarrow> bool \<times> limiter" where
  "try_acquire ip l =
     (if max_per_ip l \<le> 0 then (True, l)
      else
        let l1 = l\<lparr>counts := (counts l)(ip \<mapsto> conn_count l ip)\<rparr>
        in if int (conn_count l1 ip) \<ge> max_per_ip l then (False, l1)
           else (True, l1\<lparr>counts := (counts l1)(ip \<mapsto> conn_count l1 ip + 1)\<rparr>))"

definition release :: "string \<Rightarrow> limiter \<Rightarrow> limiter" where
  "release ip l =
     (if conn_count l ip = 0 then l
      else
        let l1 = l\<lparr>counts := (counts l)(ip \<mapsto> conn_count l ip - 1)\<rparr>
        in if conn_count l1 ip \<le> 0 then l1\<lparr>counts := (counts l1)(ip := None)\<rparr> else l1)"

text \<open>No zero count is kept: an address without connections costs no memory.\<close>

definition limiter_inv :: "limiter \<Rightarrow> bool" where
  "limiter_inv l \<longleftrightarrow> (\<forall>ip. counts l ip \<noteq> Some 0) \<and> (max_per_ip l \<le> 0 \<longrightarrow> counts l = Map.empty)"

definition limiter_cap :: "limiter \<Rightarrow> nat option" where
  "limiter_cap l = (if max_per_ip l \<le> 0 then None else Some (nat (max_per_ip l)))"

lemma conn_count_upd:
  "conn_count (l\<lparr>counts := c\<rparr>) ip = (case c ip of None \<Rightarrow> 0 | Some n \<Rightarrow> n)"
  by (simp add: conn_count_def)

lemma conn_count_eq_0: "limiter_inv l \<Longrightarrow> conn_count l ip = 0 \<longleftrightarrow> counts l ip = None"
  by (cases "counts l ip") (auto simp: conn_count_def limiter_inv_def intro!: gr0I)

lemma limiter_inv_new: "limiter_inv (new_limiter m)"
  by (simp add: limiter_inv_def new_limiter_def)

lemma try_acquire_spec:
  assumes "limiter_inv l" and "try_acquire ip l = (ok, l')"
  shows "limiter_inv l'" and "max_per_ip l' = max_per_ip l"
    and "ok \<longleftrightarrow> max_per_ip l \<le> 0 \<or> int (conn_count l ip) < max_per_ip l"
    and "conn_count l' = (if ok \<and> \<not> max_per_ip l \<le> 0
           then (conn_count l)(ip := Suc (conn_count l ip)) else conn_count l)"
  using assms
  by (auto simp: try_acquire_def limiter_inv_def Let_def conn_count_def fun_eq_iff
      split: if_splits option.splits)

lemma release_spec:
  assumes "limiter_inv l"
  shows "limiter_inv (release ip l)" and "max_per_ip (release ip l) = max_per_ip l"
    and "conn_count (release ip l) = (conn_count l)(ip := conn_count l ip - 1)"
  using assms
  by (auto simp: release_def limiter_inv_def Let_def conn_count_def fun_eq_iff
      split: if_splits option.splits intro!: gr0I)

subsection \<open>The interface the listeners use\<close>

text \<open>
  What a listener relies on: a granted acquire adds one to the address's count unless the limiter
  counts nothing (no cap), a refused one changes no count, a release takes one off, and the answer
  is decided by the count and the cap alone.
\<close>

locale slot_limiter =
  fixes acquire :: "'ip \<Rightarrow> 'l \<Rightarrow> bool \<times> 'l"
    and give_back :: "'ip \<Rightarrow> 'l \<Rightarrow> 'l"
    and held :: "'l \<Rightarrow> 'ip \<Rightarrow> nat"
    and cap :: "'l \<Rightarrow> nat option"
    and inv :: "'l \<Rightarrow> bool"
  assumes acquire_inv: "inv l \<Longrightarrow> inv (snd (acquire ip l))"
    and acquire_cap: "inv l \<Longrightarrow> cap (snd (acquire ip l)) = cap l"
    and acquire_answer: "inv l \<Longrightarrow>
      fst (acquire ip l) \<longleftrightarrow> (case cap l of None \<Rightarrow> True | Some n \<Rightarrow> held l ip < n)"
    and acquire_held: "inv l \<Longrightarrow> held (snd (acquire ip l)) =
      (if fst (acquire ip l) \<and> cap l \<noteq> None then (held l)(ip := Suc (held l ip)) else held l)"
    and give_back_inv: "inv l \<Longrightarrow> inv (give_back ip l)"
    and give_back_cap: "inv l \<Longrightarrow> cap (give_back ip l) = cap l"
    and give_back_held: "inv l \<Longrightarrow> held (give_back ip l) = (held l)(ip := held l ip - 1)"

text \<open>
  A listener: on a connection it asks for a slot and either serves the connection or drops it; when
  a served connection ends it gives the slot back. The list holds the source addresses of the
  connections being served.
\<close>

datatype 'ip conn_event = Connect 'ip | Disconnect 'ip

fun listener_step ::
  "('ip \<Rightarrow> 'l \<Rightarrow> bool \<times> 'l) \<Rightarrow> ('ip \<Rightarrow> 'l \<Rightarrow> 'l) \<Rightarrow> 'l \<times> 'ip list \<Rightarrow> 'ip conn_event
     \<Rightarrow> 'l \<times> 'ip list" where
  "listener_step acq rel (l, conns) (Connect ip) =
     (case acq ip l of (ok, l') \<Rightarrow> (l', if ok then ip # conns else conns))"
| "listener_step acq rel (l, conns) (Disconnect ip) =
     (if ip \<in> set conns then (rel ip l, remove1 ip conns) else (l, conns))"

definition listener_run ::
  "('ip \<Rightarrow> 'l \<Rightarrow> bool \<times> 'l) \<Rightarrow> ('ip \<Rightarrow> 'l \<Rightarrow> 'l) \<Rightarrow> 'l \<Rightarrow> 'ip conn_event list
     \<Rightarrow> 'l \<times> 'ip list" where
  "listener_run acq rel l evs = foldl (listener_step acq rel) (l, []) evs"

lemma count_list_remove1:
  "count_list (remove1 x xs) y = count_list xs y - (if x = y then 1 else 0)"
proof (induction xs)
  case (Cons a xs)
  have "x = y \<Longrightarrow> a \<noteq> y \<or> count_list xs y = count_list xs y" by simp
  with Cons show ?case by auto
qed simp

context slot_limiter
begin

definition listener_ok :: "nat option \<Rightarrow> 'l \<times> 'ip list \<Rightarrow> bool" where
  "listener_ok c s \<longleftrightarrow> inv (fst s) \<and> cap (fst s) = c
     \<and> (\<forall>n. c = Some n \<longrightarrow> (\<forall>ip. held (fst s) ip = count_list (snd s) ip
                                \<and> count_list (snd s) ip \<le> n))"

lemma listener_step_ok: "listener_ok c s \<Longrightarrow> listener_ok c (listener_step acquire give_back s e)"
proof (cases e)
  case (Connect ip)
  assume ok: "listener_ok c s"
  obtain l conns where s: "s = (l, conns)" by (cases s)
  obtain b l' where a: "acquire ip l = (b, l')" by (cases "acquire ip l")
  from ok s have l: "inv l" "cap l = c" by (auto simp: listener_ok_def)
  have "inv l'" "cap l' = c"
    using acquire_inv [OF l(1), of ip] acquire_cap [OF l(1), of ip] l a by auto
  moreover have "held l' x = count_list (if b then ip # conns else conns) x
      \<and> count_list (if b then ip # conns else conns) x \<le> n" if "c = Some n" for n x
    using acquire_held [OF l(1), of ip] acquire_answer [OF l(1), of ip] ok that l a
    by (auto simp: listener_ok_def s Suc_le_eq)
  ultimately show ?thesis by (simp add: listener_ok_def s Connect a)
next
  case (Disconnect ip)
  assume ok: "listener_ok c s"
  obtain l conns where s: "s = (l, conns)" by (cases s)
  from ok s have l: "inv l" "cap l = c" by (auto simp: listener_ok_def)
  show ?thesis
  proof (cases "ip \<in> set conns")
    case True
    have "held (give_back ip l) x = count_list (remove1 ip conns) x
        \<and> count_list (remove1 ip conns) x \<le> n" if "c = Some n" for n x
      using give_back_held [OF l(1), of ip] ok that
      by (auto simp: listener_ok_def s count_list_remove1 intro: diff_le_self le_trans)
    with True l give_back_inv [OF l(1)] give_back_cap [OF l(1)] show ?thesis
      by (simp add: listener_ok_def s Disconnect)
  next
    case False
    with ok show ?thesis by (simp add: s Disconnect)
  qed
qed

lemma listener_run_ok:
  assumes "inv l" and "\<And>ip. held l ip = 0"
  shows "listener_ok (cap l) (listener_run acquire give_back l evs)"
proof -
  have "listener_ok (cap l) (foldl (listener_step acquire give_back) s evs)"
    if "listener_ok (cap l) s" for s
    using that by (induction evs arbitrary: s) (simp_all add: listener_step_ok)
  moreover have "listener_ok (cap l) (l, [])" using assms by (simp add: listener_ok_def)
  ultimately show ?thesis by (simp add: listener_run_def)
qed

end

interpretation conn_limiter: slot_limiter try_acquire release conn_count limiter_cap limiter_inv
proof unfold_locales
  fix l :: limiter and ip :: string
  assume inv: "limiter_inv l"
  obtain ok l' where a: "try_acquire ip l = (ok, l')" by (cases "try_acquire ip l")
  note spec = try_acquire_spec [OF inv a]
  show "limiter_inv (snd (try_acquire ip l))"
    and "limiter_cap (snd (try_acquire ip l)) = limiter_cap l"
    and "fst (try_acquire ip l)
      \<longleftrightarrow> (case limiter_cap l of None \<Rightarrow> True | Some n \<Rightarrow> conn_count l ip < n)"
    and "conn_count (snd (try_acquire ip l)) =
      (if fst (try_acquire ip l) \<and> limiter_cap l \<noteq> None
       then (conn_count l)(ip := Suc (conn_count l ip)) else conn_count l)"
    using spec by (auto simp: a limiter_cap_def)
  show "limiter_inv (release ip l)" "limiter_cap (release ip l) = limiter_cap l"
    "conn_count (release ip l) = (conn_count l)(ip := conn_count l ip - 1)"
    using release_spec [OF inv] by (auto simp: limiter_cap_def)
qed

subsection \<open>What the cap guarantees\<close>

lemma held_new: "conn_count (new_limiter m) ip = 0"
  by (simp add: conn_count_def new_limiter_def)

lemma limiter_cap_new: "limiter_cap (new_limiter m) = (if m \<le> 0 then None else Some (nat m))"
  by (simp add: limiter_cap_def new_limiter_def)

text \<open>
  C16. With a positive cap, at every point of any history of connects and disconnects, no source
  address has more than the cap's number of connections being served, and the limiter's count for
  an address is exactly that number: no slot leaks, none is given back twice.
\<close>
theorem cap_holds_and_counts_exact:
  assumes "0 < m"
  shows "case listener_run try_acquire release (new_limiter m) evs of (l, conns) \<Rightarrow>
      \<forall>ip. conn_count l ip = count_list conns ip \<and> int (count_list conns ip) \<le> m"
proof -
  obtain l conns where s: "listener_run try_acquire release (new_limiter m) evs = (l, conns)"
    by (cases "listener_run try_acquire release (new_limiter m) evs")
  have "conn_limiter.listener_ok (limiter_cap (new_limiter m)) (l, conns)"
    using conn_limiter.listener_run_ok [OF limiter_inv_new held_new, of m evs] s by simp
  then have "\<forall>ip. conn_count l ip = count_list conns ip \<and> count_list conns ip \<le> nat m"
    using assms by (simp add: conn_limiter.listener_ok_def limiter_cap_new)
  then show ?thesis using assms by (simp add: s le_nat_iff)
qed

theorem cap_holds_and_counts_exact_witness:
  "case listener_run try_acquire release (new_limiter 1)
      [Connect ''10.0.0.1'', Connect ''10.0.0.1'', Disconnect ''10.0.0.1''] of (l, conns) \<Rightarrow>
    \<forall>ip. conn_count l ip = count_list conns ip \<and> int (count_list conns ip) \<le> 1"
  using cap_holds_and_counts_exact [of 1] by simp

text \<open>
  Memory is bounded by what is live: when every served connection has ended, the limiter keeps
  no entry for any address.
\<close>

theorem idle_limiter_is_empty:
  assumes "listener_run try_acquire release (new_limiter m) evs = (l, [])"
  shows "counts l = Map.empty"
proof -
  have ok: "conn_limiter.listener_ok (limiter_cap (new_limiter m)) (l, [])"
    using conn_limiter.listener_run_ok [OF limiter_inv_new held_new, of m evs] assms by simp
  show ?thesis
  proof (cases "m \<le> 0")
    case True
    with ok have "max_per_ip l \<le> 0"
      by (auto simp: conn_limiter.listener_ok_def limiter_cap_def new_limiter_def split: if_splits)
    with ok show ?thesis by (simp add: conn_limiter.listener_ok_def limiter_inv_def)
  next
    case False
    with ok have "limiter_inv l" "\<forall>ip. conn_count l ip = 0"
      by (auto simp: conn_limiter.listener_ok_def limiter_cap_new)
    then show ?thesis by (auto simp: conn_count_eq_0)
  qed
qed

theorem idle_limiter_is_empty_witness:
  "counts (fst (listener_run try_acquire release (new_limiter 2)
      [Connect ''a'', Connect ''b'', Disconnect ''a'', Disconnect ''b''])) = Map.empty"
proof -
  let ?run = "listener_run try_acquire release (new_limiter 2)
      [Connect ''a'', Connect ''b'', Disconnect ''a'', Disconnect ''b'']"
  obtain l conns where s: "?run = (l, conns)" by (cases ?run)
  moreover have "snd ?run = []"
    by (simp add: listener_run_def try_acquire_def new_limiter_def conn_count_def Let_def)
  ultimately show ?thesis using idle_limiter_is_empty [of 2 _ l] by simp
qed

end
