(* ===== verification/Py_Text.thy ===== *)
theory Py_Text
  imports Prelude "HOL-Library.List_Lexorder" "HOL-Library.Char_ord"
begin

section \<open>Python's str methods\<close>

text \<open>
  The methods of Python's \<open>str\<close> that the modelled code calls. A \<open>str\<close> is a list of characters,
  and a character of the model is a code point below 256: the code compares with ASCII
  constants only, and the classifications below (white space, line ends, case) are Python's on
  that range.
\<close>

subsection \<open>Character classes\<close>

definition is_space :: "char \<Rightarrow> bool" where
  "is_space c \<longleftrightarrow>
     (let n = (of_char c :: nat) in (9 \<le> n \<and> n \<le> 13) \<or> (28 \<le> n \<and> n \<le> 32) \<or> n = 133 \<or> n = 160)"

definition is_line_end :: "char \<Rightarrow> bool" where
  "is_line_end c \<longleftrightarrow>
     (let n = (of_char c :: nat) in (10 \<le> n \<and> n \<le> 13) \<or> (28 \<le> n \<and> n \<le> 30) \<or> n = 133)"

definition is_digit :: "char \<Rightarrow> bool" where
  "is_digit c \<longleftrightarrow> (let n = (of_char c :: nat) in 48 \<le> n \<and> n \<le> 57)"

definition is_alpha_ascii :: "char \<Rightarrow> bool" where
  "is_alpha_ascii c \<longleftrightarrow>
     (let n = (of_char c :: nat) in (65 \<le> n \<and> n \<le> 90) \<or> (97 \<le> n \<and> n \<le> 122))"

definition lower_char :: "char \<Rightarrow> char" where
  "lower_char c =
     (let n = (of_char c :: nat)
      in if (65 \<le> n \<and> n \<le> 90) \<or> (192 \<le> n \<and> n \<le> 222 \<and> n \<noteq> 215) then char_of (n + 32) else c)"

definition lower :: "string \<Rightarrow> string" where
  "lower s = map lower_char s"

lemma line_end_is_space: "is_line_end c \<Longrightarrow> is_space c"
  by (auto simp: is_line_end_def is_space_def Let_def)

lemma length_lower [simp]: "length (lower s) = length s"
  by (simp add: lower_def)

subsection \<open>Stripping\<close>

definition lstrip :: "string \<Rightarrow> string" where
  "lstrip s = dropWhile is_space s"

definition rstrip :: "string \<Rightarrow> string" where
  "rstrip s = rev (dropWhile is_space (rev s))"

definition strip :: "string \<Rightarrow> string" where
  "strip s = rstrip (lstrip s)"

text \<open>\<open>s.rstrip("\n")\<close> and \<open>s.strip("/")\<close>: stripping one given character.\<close>

definition rstrip_char :: "char \<Rightarrow> string \<Rightarrow> string" where
  "rstrip_char d s = rev (dropWhile (\<lambda>c. c = d) (rev s))"

definition strip_char :: "char \<Rightarrow> string \<Rightarrow> string" where
  "strip_char d s = rstrip_char d (dropWhile (\<lambda>c. c = d) s)"

lemma set_rstrip: "set (rstrip s) \<subseteq> set s"
  unfolding rstrip_def using set_dropWhileD [of _ is_space "rev s"] by auto

lemma set_lstrip: "set (lstrip s) \<subseteq> set s"
  unfolding lstrip_def using set_dropWhileD [of _ is_space s] by auto

lemma set_strip: "set (strip s) \<subseteq> set s"
  unfolding strip_def using set_rstrip [of "lstrip s"] set_lstrip [of s] by blast

lemma rstrip_eq_Nil_iff: "rstrip s = [] \<longleftrightarrow> (\<forall>c \<in> set s. is_space c)"
  by (simp add: rstrip_def)

lemma lstrip_eq_Nil_iff: "lstrip s = [] \<longleftrightarrow> (\<forall>c \<in> set s. is_space c)"
  by (simp add: lstrip_def)

lemma lstrip_head: "lstrip s = c # cs \<Longrightarrow> \<not> is_space c"
  by (simp add: lstrip_def dropWhile_eq_Cons_conv)

lemma strip_eq_Nil_iff: "strip s = [] \<longleftrightarrow> (\<forall>c \<in> set s. is_space c)"
proof -
  have "(\<forall>c \<in> set (lstrip s). is_space c) \<longleftrightarrow> lstrip s = []"
    by (cases "lstrip s") (auto dest: lstrip_head)
  then show ?thesis by (simp add: strip_def rstrip_eq_Nil_iff lstrip_eq_Nil_iff)
qed

lemma rstrip_last: "rstrip s \<noteq> [] \<Longrightarrow> \<not> is_space (last (rstrip s))"
  using hd_dropWhile [of is_space "rev s"] by (auto simp: rstrip_def last_rev)

lemma rstrip_Cons_nonspace: "\<not> is_space c \<Longrightarrow> rstrip (c # cs) = c # rstrip cs"
  by (auto simp: rstrip_def dropWhile_append)

lemma strip_ends_nonspace:
  assumes "strip s \<noteq> []"
  shows "\<not> is_space (hd (strip s))" and "\<not> is_space (last (strip s))"
proof -
  obtain c cs where l: "lstrip s = c # cs"
    using assms by (cases "lstrip s") (auto simp: strip_def rstrip_def)
  then have "\<not> is_space c" by (rule lstrip_head)
  then show "\<not> is_space (hd (strip s))" by (simp add: strip_def l rstrip_Cons_nonspace)
  show "\<not> is_space (last (strip s))" using assms unfolding strip_def by (rule rstrip_last)
qed

lemma rstrip_idem: "s \<noteq> [] \<Longrightarrow> \<not> is_space (last s) \<Longrightarrow> rstrip s = s"
  by (cases s rule: rev_cases) (auto simp: rstrip_def)

lemma lstrip_idem: "s \<noteq> [] \<Longrightarrow> \<not> is_space (hd s) \<Longrightarrow> lstrip s = s"
  by (cases s) (auto simp: lstrip_def)

lemma strip_strip [simp]: "strip (strip s) = strip s"
proof (cases "strip s = []")
  case True
  show ?thesis unfolding True by (simp add: strip_def lstrip_def rstrip_def)
next
  case False
  then have "lstrip (strip s) = strip s" using strip_ends_nonspace(1) [OF False]
    by (intro lstrip_idem) auto
  then have "strip (strip s) = rstrip (strip s)" by (simp add: strip_def [of "strip s"])
  with False strip_ends_nonspace(2) [OF False] show ?thesis by (simp add: rstrip_idem)
qed

subsection \<open>Splitting and joining\<close>

fun split_on :: "('a \<Rightarrow> bool) \<Rightarrow> 'a list \<Rightarrow> 'a list list" where
  "split_on p [] = [[]]"
| "split_on p (c # cs) =
     (if p c then [] # split_on p cs
      else (case split_on p cs of [] \<Rightarrow> [[c]] | w # ws \<Rightarrow> (c # w) # ws))"

text \<open>\<open>s.split()\<close> and \<open>s.split(d)\<close> for a one-character \<open>d\<close>.\<close>

definition split_ws :: "string \<Rightarrow> string list" where
  "split_ws s = filter (\<lambda>w. w \<noteq> []) (split_on is_space s)"

definition split_char :: "char \<Rightarrow> string \<Rightarrow> string list" where
  "split_char d s = split_on (\<lambda>c. c = d) s"

text \<open>\<open>s.split(None, 1)\<close>: the first word and what follows it, unless that is blank.\<close>

definition split_ws1 :: "string \<Rightarrow> string list" where
  "split_ws1 s =
     (let t = lstrip s; w = takeWhile (\<lambda>c. \<not> is_space c) t; r = lstrip (drop (length w) t)
      in if t = [] then [] else if r = [] then [w] else [w, r])"

fun join :: "string \<Rightarrow> string list \<Rightarrow> string" where
  "join sep [] = []"
| "join sep [s] = s"
| "join sep (s # t # ss) = s @ sep @ join sep (t # ss)"

text \<open>\<open>s.splitlines()\<close>: a carriage return and a line feed together end one line.\<close>

fun splitlines :: "string \<Rightarrow> string list" where
  "splitlines [] = []"
| "splitlines [c] = (if is_line_end c then [[]] else [[c]])"
| "splitlines (c # d # cs) =
     (if c = CHR 0x0D \<and> d = CHR 0x0A then [] # splitlines cs
      else if is_line_end c then [] # splitlines (d # cs)
      else (case splitlines (d # cs) of [] \<Rightarrow> [[c]] | l # ls \<Rightarrow> (c # l) # ls))"

lemma split_on_not_Nil [simp]: "split_on p s \<noteq> []"
  by (induction s) (auto split: list.splits)

lemma split_on_free: "w \<in> set (split_on p s) \<Longrightarrow> c \<in> set w \<Longrightarrow> \<not> p c"
  by (induction s arbitrary: w) (fastforce split: list.splits if_splits)+

lemma split_on_no_sep: "(\<forall>c \<in> set s. \<not> p c) \<Longrightarrow> split_on p s = [s]"
  by (induction s) auto

lemma set_split_on: "w \<in> set (split_on p s) \<Longrightarrow> set w \<subseteq> set s"
  by (induction s arbitrary: w) (fastforce split: list.splits if_splits)+

lemma length_split_on: "length (split_on p s) = Suc (length (filter p s))"
  by (induction s) (auto split: list.splits)

lemma split_char_free: "w \<in> set (split_char d s) \<Longrightarrow> d \<notin> set w"
  unfolding split_char_def using split_on_free [of w "\<lambda>c. c = d" s] by blast

lemma split_char_not_Nil [simp]: "split_char d s \<noteq> []"
  by (simp add: split_char_def)

text \<open>Splitting at a character and joining with it gives the text back.\<close>

lemma join_Cons: "ss \<noteq> [] \<Longrightarrow> join sep (s # ss) = s @ sep @ join sep ss"
  by (cases ss) auto

lemma join_split_char: "join [d] (split_char d s) = s"
  unfolding split_char_def
proof (induction s)
  case Nil
  show ?case by simp
next
  case (Cons c cs)
  show ?case
  proof (cases "c = d")
    case True
    then show ?thesis using Cons by (simp add: join_Cons)
  next
    case False
    obtain w ws where w: "split_on (\<lambda>c. c = d) cs = w # ws"
      by (cases "split_on (\<lambda>c. c = d) cs") auto
    then have "join [d] ((c # w) # ws) = c # join [d] (w # ws)"
      by (cases ws) auto
    with False w Cons show ?thesis by simp
  qed
qed

lemma split_on_append_sep:
  "(\<forall>c \<in> set w. \<not> p c) \<Longrightarrow> p d \<Longrightarrow> split_on p (w @ d # s) = w # split_on p s"
  by (induction w) auto

text \<open>The converse: words free of the separator, joined and split again.\<close>

lemma split_char_join:
  "ss \<noteq> [] \<Longrightarrow> (\<forall>s \<in> set ss. d \<notin> set s) \<Longrightarrow> split_char d (join [d] ss) = ss"
proof (induction ss)
  case (Cons s ss)
  then show ?case
  proof (cases ss)
    case Nil
    with Cons.prems show ?thesis by (auto simp: split_char_def intro!: split_on_no_sep)
  next
    case (Cons t ts)
    then have "split_char d (join [d] (s # ss)) = split_char d (s @ d # join [d] ss)" by simp
    also have "\<dots> = s # split_char d (join [d] ss)"
      using Cons.prems unfolding split_char_def by (intro split_on_append_sep) auto
    finally show ?thesis using Cons Cons.IH Cons.prems by simp
  qed
qed simp

lemma split_ws_words: "w \<in> set (split_ws s) \<Longrightarrow> w \<noteq> [] \<and> (\<forall>c \<in> set w. \<not> is_space c)"
  by (auto simp: split_ws_def dest: split_on_free)

lemma split_on_all_Nil: "(\<forall>w \<in> set (split_on p s). w = []) \<longleftrightarrow> (\<forall>c \<in> set s. p c)"
proof (induction s)
  case (Cons c cs)
  then show ?case by (cases "split_on p cs") (auto split: list.splits)
qed simp

lemma split_ws_eq_Nil_iff: "split_ws s = [] \<longleftrightarrow> (\<forall>c \<in> set s. is_space c)"
  by (simp add: split_ws_def filter_empty_conv split_on_all_Nil)

lemma splitlines_free: "l \<in> set (splitlines s) \<Longrightarrow> c \<in> set l \<Longrightarrow> \<not> is_line_end c"
  by (induction s arbitrary: l rule: splitlines.induct) (fastforce split: list.splits if_splits)+

lemma splitlines_no_end: "s \<noteq> [] \<Longrightarrow> (\<forall>c \<in> set s. \<not> is_line_end c) \<Longrightarrow> splitlines s = [s]"
  by (induction s rule: splitlines.induct) (auto simp: is_line_end_def)

subsection \<open>Searching and replacing\<close>

definition startswith :: "string \<Rightarrow> string \<Rightarrow> bool" where
  "startswith s p \<longleftrightarrow> take (length p) s = p"

definition endswith :: "string \<Rightarrow> string \<Rightarrow> bool" where
  "endswith s p \<longleftrightarrow> startswith (rev s) (rev p)"

text \<open>\<open>needle in haystack\<close>.\<close>

fun contains :: "string \<Rightarrow> string \<Rightarrow> bool" where
  "contains needle [] = (needle = [])"
| "contains needle (c # cs) = (startswith (c # cs) needle \<or> contains needle cs)"

text \<open>
  \<open>s.replace(old, new)\<close>, with \<open>limit\<close> the optional count. Replacing the empty string inserts
  \<open>new\<close> before every character and at the end, as Python does.
\<close>

fun replace_empty :: "string \<Rightarrow> nat option \<Rightarrow> string \<Rightarrow> string" where
  "replace_empty new (Some 0) s = s"
| "replace_empty new k [] = new"
| "replace_empty new k (c # cs) = new @ c # replace_empty new (map_option (\<lambda>n. n - 1) k) cs"

function replace_sub :: "string \<Rightarrow> string \<Rightarrow> nat option \<Rightarrow> string \<Rightarrow> string" where
  "replace_sub old new k s =
     (if old = [] \<or> k = Some 0 \<or> s = [] then s
      else if startswith s old
        then new @ replace_sub old new (map_option (\<lambda>n. n - 1) k) (drop (length old) s)
        else hd s # replace_sub old new k (tl s))"
  by pat_completeness auto
termination
  by (relation "measure (\<lambda>(old, new, k, s). length s)")
    (auto simp: neq_Nil_conv)

declare replace_sub.simps [simp del]

definition replace :: "string \<Rightarrow> string \<Rightarrow> nat option \<Rightarrow> string \<Rightarrow> string" where
  "replace old new k s = (if old = [] then replace_empty new k s else replace_sub old new k s)"

text \<open>\<open>s.find(c)\<close>, with \<open>None\<close> for -1, and \<open>s.partition(c)\<close>, \<open>s.rpartition(c)\<close>.\<close>

definition find_char :: "char \<Rightarrow> string \<Rightarrow> nat option" where
  "find_char c s = (if c \<in> set s then Some (length (takeWhile (\<lambda>d. d \<noteq> c) s)) else None)"

definition before :: "char \<Rightarrow> string \<Rightarrow> string" where
  "before c s = takeWhile (\<lambda>d. d \<noteq> c) s"

definition after :: "char \<Rightarrow> string \<Rightarrow> string" where
  "after c s = drop 1 (dropWhile (\<lambda>d. d \<noteq> c) s)"

text \<open>\<open>s.rsplit(c, 1)[-1]\<close>, which is also \<open>s.rpartition(c)[2]\<close>.\<close>

definition after_last :: "char \<Rightarrow> string \<Rightarrow> string" where
  "after_last c s = rev (takeWhile (\<lambda>d. d \<noteq> c) (rev s))"

lemma startswith_iff: "startswith s p \<longleftrightarrow> (\<exists>r. s = p @ r)"
proof
  assume "startswith s p"
  then have "s = p @ drop (length p) s" by (metis append_take_drop_id startswith_def)
  then show "\<exists>r. s = p @ r" by blast
next
  assume "\<exists>r. s = p @ r"
  then show "startswith s p" by (auto simp: startswith_def)
qed

lemma startswith_append [simp]: "startswith (p @ r) p"
  by (simp add: startswith_def)

lemma endswith_iff: "endswith s p \<longleftrightarrow> (\<exists>r. s = r @ p)"
proof -
  have "(\<exists>r. rev s = rev p @ r) \<longleftrightarrow> (\<exists>r. s = r @ p)"
    by (metis rev_append rev_rev_ident)
  then show ?thesis by (simp add: endswith_def startswith_iff)
qed

lemma contains_iff: "contains needle hay \<longleftrightarrow> (\<exists>u v. hay = u @ needle @ v)"
proof (induction hay)
  case Nil
  then show ?case by auto
next
  case (Cons c cs)
  have "(\<exists>u v. c # cs = u @ needle @ v)
      \<longleftrightarrow> (\<exists>v. c # cs = needle @ v) \<or> (\<exists>u v. cs = u @ needle @ v)"
    by (metis append_Cons append_Nil neq_Nil_conv list.inject)
  with Cons show ?case by (simp add: startswith_iff)
qed

lemma contains_single: "contains [c] s \<longleftrightarrow> c \<in> set s"
  by (induction s) (auto simp: startswith_def)

lemma replace_absent: "\<not> contains old s \<Longrightarrow> replace old new k s = s"
proof (cases "old = []")
  case True
  then have "contains old s" by (metis append_Nil contains_iff)
  then show "\<not> contains old s \<Longrightarrow> replace old new k s = s" by simp
next
  case False
  assume "\<not> contains old s"
  with False have "replace_sub old new k s = s"
  proof (induction s)
    case Nil
    show ?case by (subst replace_sub.simps) simp
  next
    case (Cons c cs)
    then show ?case by (subst replace_sub.simps) auto
  qed
  with False show ?thesis by (simp add: replace_def)
qed

lemma after_last_free: "c \<notin> set (after_last c s)"
  by (auto simp: after_last_def dest: set_takeWhileD)

lemma set_after_last: "set (after_last c s) \<subseteq> set s"
  by (auto simp: after_last_def dest: set_takeWhileD)

subsection \<open>Numbers\<close>

text \<open>\<open>str(n)\<close> of a natural number, and \<open>f"{s:>w}"\<close>.\<close>

fun digits_of :: "nat \<Rightarrow> string" where
  "digits_of n =
     (if n < 10 then [char_of (48 + n)] else digits_of (n div 10) @ [char_of (48 + n mod 10)])"

declare digits_of.simps [simp del]

definition rjust :: "nat \<Rightarrow> string \<Rightarrow> string" where
  "rjust w s = replicate (w - length s) (CHR '' '') @ s"

definition ljust :: "nat \<Rightarrow> string \<Rightarrow> string" where
  "ljust w s = s @ replicate (w - length s) (CHR '' '')"

definition digit_value :: "char \<Rightarrow> nat" where
  "digit_value c = of_char c - 48"

definition decimal_value :: "string \<Rightarrow> nat" where
  "decimal_value ds = foldl (\<lambda>n c. 10 * n + digit_value c) 0 ds"

text \<open>
  \<open>int(s)\<close> of a string of digits raises \<open>ValueError\<close> past 4300 digits (the interpreter's limit on
  string to integer conversion, the default since Python 3.11).
\<close>

definition max_int_digits :: nat where
  "max_int_digits = 4300"

definition int_of_digits :: "string \<Rightarrow> nat result" where
  "int_of_digits ds =
     (if ds = [] \<or> \<not> list_all is_digit ds \<or> length ds > max_int_digits then Inl ValueError
      else Inr (decimal_value ds))"

text \<open>
  \<open>int(s)\<close> of any string: surrounding white space, a sign, and single underscores between digits
  are allowed.
\<close>

definition strip_underscores :: "string \<Rightarrow> string option" where
  "strip_underscores s =
     (let parts = split_char (CHR ''_'') s
      in if list_all (\<lambda>p. p \<noteq> []) parts then Some (concat parts) else None)"

definition py_int :: "string \<Rightarrow> int result" where
  "py_int s =
     (let t = strip s;
          neg = startswith t ''-'';
          u = (if neg \<or> startswith t ''+'' then drop 1 t else t)
      in case strip_underscores u of
           None \<Rightarrow> Inl ValueError
         | Some ds \<Rightarrow>
             bind_result (int_of_digits ds) (\<lambda>n. Inr (if neg then - int n else int n)))"

lemma is_digit_char_of: "(n :: nat) < 10 \<Longrightarrow> is_digit (char_of (48 + n))"
  by (simp add: is_digit_def Let_def)

lemma digits_of_digits: "list_all is_digit (digits_of n)"
proof (induction n rule: digits_of.induct)
  case (1 n)
  then show ?case by (subst digits_of.simps) (simp add: is_digit_char_of)
qed

lemma digits_of_not_Nil [simp]: "digits_of n \<noteq> []"
  by (subst digits_of.simps) simp

lemma digit_value_char_of: "(n :: nat) < 10 \<Longrightarrow> digit_value (char_of (48 + n)) = n"
  by (simp add: digit_value_def)

text \<open>Printing a number and reading it back.\<close>

lemma decimal_value_digits_of: "decimal_value (digits_of n) = n"
proof (induction n rule: digits_of.induct)
  case (1 n)
  show ?case
  proof (cases "n < 10")
    case True
    then show ?thesis by (subst digits_of.simps) (simp add: decimal_value_def digit_value_char_of)
  next
    case False
    with 1 have "decimal_value (digits_of (n div 10)) = n div 10" by simp
    moreover have "n mod 10 < 10" by simp
    ultimately show ?thesis using False
      by (subst digits_of.simps) (simp add: decimal_value_def digit_value_char_of)
  qed
qed

lemma digits_of_hd: "n \<noteq> 0 \<Longrightarrow> hd (digits_of n) \<noteq> CHR ''0''"
proof (induction n rule: digits_of.induct)
  case (1 n)
  show ?case
  proof (cases "n < 10")
    case True
    with "1.prems" have "n \<in> {1, 2, 3, 4, 5, 6, 7, 8, 9}" by auto
    then show ?thesis by (subst digits_of.simps) (auto simp: char_of_eq_iff)
  next
    case False
    then have "hd (digits_of (n div 10)) \<noteq> CHR ''0''" using 1 by simp
    with False show ?thesis by (subst digits_of.simps) simp
  qed
qed

lemma digits_of_0 [simp]: "digits_of 0 = ''0''"
  by (subst digits_of.simps) (simp add: char_of_eq_iff)

lemma digits_of_chars: "c \<in> set (digits_of n) \<Longrightarrow> is_digit c"
  using digits_of_digits [of n] by (auto simp: list_all_iff)

lemma length_digits_of: "n < 10 ^ Suc k \<Longrightarrow> length (digits_of n) \<le> Suc k"
proof (induction k arbitrary: n)
  case 0
  then show ?case by (subst digits_of.simps) simp
next
  case (Suc k)
  then have "n div 10 < 10 ^ Suc k" by simp
  with Suc.IH have "length (digits_of (n div 10)) \<le> Suc k" by blast
  then show ?case by (subst digits_of.simps) simp
qed

lemma length_rjust: "length (rjust w s) = max w (length s)"
  by (simp add: rjust_def)

end
