(* ===== verification/Ip_Address.thy ===== *)
theory Ip_Address
  imports Py_Text
begin

section \<open>IP addresses and the outbound destination guard\<close>

text \<open>
  \<open>honeypot/fetcher/ssrf_guard.py\<close> and what it uses of Python's \<open>ipaddress\<close> module (3.11,
  the version the image runs, in its last releases: 3.11.12 and later): the textual parsers and the
  address classes. An address is its integer value; a network is its base address and prefix length.
\<close>

subsection \<open>Parsing\<close>

definition parse_octet :: "string \<Rightarrow> nat option" where
  "parse_octet s =
     (if s = [] \<or> \<not> list_all is_digit s \<or> length s > 3 \<or> (s \<noteq> ''0'' \<and> hd s = CHR ''0'') then None
      else let n = decimal_value s in if n > 255 then None else Some n)"

definition parse_ipv4 :: "string \<Rightarrow> nat option" where
  "parse_ipv4 s =
     (if CHR ''/'' \<in> set s then None
      else case map parse_octet (split_char (CHR ''.'') s) of
             [Some a, Some b, Some c, Some d] \<Rightarrow> Some (((a * 256 + b) * 256 + c) * 256 + d)
           | _ \<Rightarrow> None)"

definition hex_value :: "char \<Rightarrow> nat option" where
  "hex_value c =
     (let n = (of_char c :: nat)
      in if 48 \<le> n \<and> n \<le> 57 then Some (n - 48)
         else if 97 \<le> n \<and> n \<le> 102 then Some (n - 87)
         else if 65 \<le> n \<and> n \<le> 70 then Some (n - 55) else None)"

text \<open>An empty hextet raises in \<open>int("", 16)\<close>, so it is refused like a long one.\<close>

definition parse_hextet :: "string \<Rightarrow> nat option" where
  "parse_hextet s =
     (if s = [] \<or> length s > 4 \<or> list_ex (\<lambda>c. hex_value c = None) s then None
      else Some (foldl (\<lambda>n c. 16 * n + the (hex_value c)) 0 s))"

fun parse_hextets :: "string list \<Rightarrow> nat \<Rightarrow> nat option" where
  "parse_hextets [] acc = Some acc"
| "parse_hextets (p # ps) acc =
     (case parse_hextet p of None \<Rightarrow> None | Some h \<Rightarrow> parse_hextets ps (acc * 2 ^ 16 + h))"

definition hex_digit :: "nat \<Rightarrow> char" where
  "hex_digit n = char_of (if n < 10 then 48 + n else 87 + n)"

fun hex_of :: "nat \<Rightarrow> string" where
  "hex_of n = (if n < 16 then [hex_digit n] else hex_of (n div 16) @ [hex_digit (n mod 16)])"

declare hex_of.simps [simp del]

text \<open>The dotted-quad suffix becomes two hextets.\<close>

definition expand_v4_suffix :: "string list \<Rightarrow> string list option" where
  "expand_v4_suffix parts =
     (if CHR ''.'' \<in> set (last parts) then
        (case parse_ipv4 (last parts) of
           None \<Rightarrow> None
         | Some v \<Rightarrow> Some (butlast parts @ [hex_of (v div 2 ^ 16), hex_of (v mod 2 ^ 16)]))
      else Some parts)"

text \<open>The inner empty parts (positions other than the first and the last).\<close>

definition inner_empties :: "string list \<Rightarrow> nat list" where
  "inner_empties parts = filter (\<lambda>i. parts ! i = []) [1..<length parts - 1]"

definition parse_ipv6_parts :: "string list \<Rightarrow> nat option" where
  "parse_ipv6_parts parts =
     (if length parts > 9 then None
      else case inner_empties parts of
        [] \<Rightarrow>
          (if length parts \<noteq> 8 \<or> hd parts = [] \<or> last parts = [] then None
           else parse_hextets parts 0)
      | [skip] \<Rightarrow>
          (let hi0 = skip; lo0 = length parts - skip - 1;
               lead = (hd parts = []); trail = (last parts = []);
               hi = (if lead then hi0 - 1 else hi0);
               lo = (if trail then lo0 - 1 else lo0)
           in if (lead \<and> hi \<noteq> 0) \<or> (trail \<and> lo \<noteq> 0) \<or> 8 < hi + lo + 1 then None
              else case parse_hextets (take hi parts) 0 of
                     None \<Rightarrow> None
                   | Some v \<Rightarrow>
                       parse_hextets (drop (length parts - lo) parts)
                         (v * 2 ^ (16 * (8 - (hi + lo)))))
      | _ \<Rightarrow> None)"

definition parse_ipv6 :: "string \<Rightarrow> nat option" where
  "parse_ipv6 s =
     (let addr = before (CHR ''%'') s; scope = after (CHR ''%'') s
      in if CHR ''/'' \<in> set s then None
         else if CHR ''%'' \<in> set s \<and> (scope = [] \<or> CHR ''%'' \<in> set scope) then None
         else let parts = split_char (CHR '':'') addr
              in if length parts < 3 then None
                 else case expand_v4_suffix parts of None \<Rightarrow> None | Some ps \<Rightarrow> parse_ipv6_parts ps)"

datatype ip_address = V4 nat | V6 nat

definition parse_ip :: "string \<Rightarrow> ip_address option" where
  "parse_ip s =
     (case parse_ipv4 s of
        Some v \<Rightarrow> Some (V4 v)
      | None \<Rightarrow> map_option V6 (parse_ipv6 s))"

subsection \<open>Address classes\<close>

definition in_net :: "nat \<Rightarrow> nat \<Rightarrow> nat \<times> nat \<Rightarrow> bool" where
  "in_net width ip net \<longleftrightarrow>
     (case net of (base, len) \<Rightarrow> ip div 2 ^ (width - len) = base div 2 ^ (width - len))"

definition quad :: "nat \<Rightarrow> nat \<Rightarrow> nat \<Rightarrow> nat \<Rightarrow> nat" where
  "quad a b c d = ((a * 256 + b) * 256 + c) * 256 + d"

definition v4_private_networks :: "(nat \<times> nat) list" where
  "v4_private_networks =
    [(quad 0 0 0 0, 8), (quad 10 0 0 0, 8), (quad 127 0 0 0, 8), (quad 169 254 0 0, 16),
     (quad 172 16 0 0, 12), (quad 192 0 0 0, 24), (quad 192 0 0 170, 31), (quad 192 0 2 0, 24),
     (quad 192 168 0 0, 16), (quad 198 18 0 0, 15), (quad 198 51 100 0, 24),
     (quad 203 0 113 0, 24), (quad 240 0 0 0, 4), (quad 255 255 255 255, 32)]"

definition v4_private_exceptions :: "(nat \<times> nat) list" where
  "v4_private_exceptions = [(quad 192 0 0 9, 32), (quad 192 0 0 10, 32)]"

definition v4_is_private :: "nat \<Rightarrow> bool" where
  "v4_is_private ip \<longleftrightarrow>
     list_ex (in_net 32 ip) v4_private_networks \<and> \<not> list_ex (in_net 32 ip) v4_private_exceptions"

text \<open>An IPv6 base address is given by its leading hextets.\<close>

definition hextets :: "nat list \<Rightarrow> nat" where
  "hextets hs = foldl (\<lambda>n h. n * 2 ^ 16 + h) 0 hs * 2 ^ (16 * (8 - length hs))"

definition v6_private_networks :: "(nat \<times> nat) list" where
  "v6_private_networks =
    [(1, 128), (0, 128), (0xFFFF * 2 ^ 32, 96), (hextets [0x64, 0xFF9B, 1], 48),
     (hextets [0x100], 64), (hextets [0x2001], 23), (hextets [0x2001, 0xDB8], 32),
     (hextets [0x2002], 16), (hextets [0x3FFF], 20), (hextets [0xFC00], 7), (hextets [0xFE80], 10)]"

definition v6_private_exceptions :: "(nat \<times> nat) list" where
  "v6_private_exceptions =
    [(hextets [0x2001, 1] + 1, 128), (hextets [0x2001, 1] + 2, 128), (hextets [0x2001, 3], 32),
     (hextets [0x2001, 4, 0x112], 48), (hextets [0x2001, 0x20], 28), (hextets [0x2001, 0x30], 28)]"

definition v6_reserved_networks :: "(nat \<times> nat) list" where
  "v6_reserved_networks =
    [(0, 8), (hextets [0x100], 8), (hextets [0x200], 7), (hextets [0x400], 6),
     (hextets [0x800], 5), (hextets [0x1000], 4), (hextets [0x4000], 3), (hextets [0x6000], 3),
     (hextets [0x8000], 3), (hextets [0xA000], 3), (hextets [0xC000], 3), (hextets [0xE000], 4),
     (hextets [0xF000], 5), (hextets [0xF800], 6), (hextets [0xFE00], 9)]"

text \<open>
  \<open>IPv6Address.ipv4_mapped\<close>: the IPv4 address a mapped one carries. The classes of a mapped address
  are those of the address it carries (\<open>is_loopback\<close> apart, which asks for \<open>::1\<close> only).
\<close>

definition ipv4_mapped :: "nat \<Rightarrow> nat option" where
  "ipv4_mapped ip = (if ip div 2 ^ 32 = 0xFFFF then Some (ip mod 2 ^ 32) else None)"

definition v6_is_private :: "nat \<Rightarrow> bool" where
  "v6_is_private ip \<longleftrightarrow>
     (case ipv4_mapped ip of
        Some v \<Rightarrow> v4_is_private v
      | None \<Rightarrow> list_ex (in_net 128 ip) v6_private_networks
           \<and> \<not> list_ex (in_net 128 ip) v6_private_exceptions)"

fun is_private :: "ip_address \<Rightarrow> bool" where
  "is_private (V4 ip) = v4_is_private ip"
| "is_private (V6 ip) = v6_is_private ip"

fun is_loopback :: "ip_address \<Rightarrow> bool" where
  "is_loopback (V4 ip) = in_net 32 ip (quad 127 0 0 0, 8)"
| "is_loopback (V6 ip) = (ip = 1)"

definition v4_is_link_local :: "nat \<Rightarrow> bool" where
  "v4_is_link_local ip \<longleftrightarrow> in_net 32 ip (quad 169 254 0 0, 16)"

definition v4_is_reserved :: "nat \<Rightarrow> bool" where
  "v4_is_reserved ip \<longleftrightarrow> in_net 32 ip (quad 240 0 0 0, 4)"

definition v4_is_multicast :: "nat \<Rightarrow> bool" where
  "v4_is_multicast ip \<longleftrightarrow> in_net 32 ip (quad 224 0 0 0, 4)"

definition v4_is_unspecified :: "nat \<Rightarrow> bool" where
  "v4_is_unspecified ip \<longleftrightarrow> ip = 0"

lemmas v4_class_defs = v4_is_link_local_def v4_is_reserved_def v4_is_multicast_def
  v4_is_unspecified_def

fun is_link_local :: "ip_address \<Rightarrow> bool" where
  "is_link_local (V4 ip) = v4_is_link_local ip"
| "is_link_local (V6 ip) =
     (case ipv4_mapped ip of
        Some v \<Rightarrow> v4_is_link_local v | None \<Rightarrow> in_net 128 ip (hextets [0xFE80], 10))"

fun is_reserved :: "ip_address \<Rightarrow> bool" where
  "is_reserved (V4 ip) = v4_is_reserved ip"
| "is_reserved (V6 ip) =
     (case ipv4_mapped ip of
        Some v \<Rightarrow> v4_is_reserved v | None \<Rightarrow> list_ex (in_net 128 ip) v6_reserved_networks)"

fun is_multicast :: "ip_address \<Rightarrow> bool" where
  "is_multicast (V4 ip) = v4_is_multicast ip"
| "is_multicast (V6 ip) =
     (case ipv4_mapped ip of
        Some v \<Rightarrow> v4_is_multicast v | None \<Rightarrow> in_net 128 ip (hextets [0xFF00], 8))"

fun is_unspecified :: "ip_address \<Rightarrow> bool" where
  "is_unspecified (V4 ip) = v4_is_unspecified ip"
| "is_unspecified (V6 ip) =
     (case ipv4_mapped ip of Some v \<Rightarrow> v4_is_unspecified v | None \<Rightarrow> ip = 0)"

subsection \<open>The guard\<close>

definition is_blocked_address :: "string \<Rightarrow> bool" where
  "is_blocked_address address =
     (case parse_ip address of
        None \<Rightarrow> True
      | Some ip \<Rightarrow> is_private ip \<or> is_loopback ip \<or> is_link_local ip
                     \<or> is_reserved ip \<or> is_multicast ip \<or> is_unspecified ip)"

text \<open>
  \<open>SafeTCPConnector._resolve_host\<close>: \<open>results\<close> is what the connector's own resolution returned (the
  addresses of the host, or the exception it raised). All of them are checked before any is used.
\<close>

datatype resolve_error = Blocked_Destination string | Resolver_Failed

definition safe_resolve_host :: "string \<Rightarrow> string list option \<Rightarrow> resolve_error + string list" where
  "safe_resolve_host host results =
     (case results of
        None \<Rightarrow> Inl Resolver_Failed
      | Some addrs \<Rightarrow>
          if list_ex is_blocked_address addrs
          then Inl (Blocked_Destination
                 (''destination for '' @ [CHR 0x27] @ host @ [CHR 0x27]
                    @ '' is not a permitted public address''))
          else Inr addrs)"

subsection \<open>Dotted quads\<close>

definition dotted :: "nat \<Rightarrow> nat \<Rightarrow> nat \<Rightarrow> nat \<Rightarrow> string" where
  "dotted a b c d = join ''.'' (map digits_of [a, b, c, d])"

lemma parse_octet_digits_of: "n \<le> 255 \<Longrightarrow> parse_octet (digits_of n) = Some n"
  using length_digits_of [of n 2] digits_of_hd [of n]
  by (cases "n = 0")
    (simp_all add: parse_octet_def Let_def digits_of_digits decimal_value_digits_of,
      simp add: is_digit_def decimal_value_def digit_value_def)

lemma digits_of_no_sep: "\<not> is_digit x \<Longrightarrow> x \<notin> set (digits_of n)"
  using digits_of_chars by blast

lemma set_dotted: "c \<in> set (dotted a b c' d) \<Longrightarrow> is_digit c \<or> c = CHR ''.''"
  by (auto simp: dotted_def dest: digits_of_chars)

lemma parse_ipv4_dotted:
  assumes "a \<le> 255" and "b \<le> 255" and "c \<le> 255" and "d \<le> 255"
  shows "parse_ipv4 (dotted a b c d) = Some (quad a b c d)"
proof -
  have "CHR ''/'' \<notin> set (dotted a b c d)"
    using set_dotted [of "CHR ''/''" a b c d] by (auto simp: is_digit_def)
  moreover have "\<not> is_digit (CHR ''.'')" by (simp add: is_digit_def)
  then have "split_char (CHR ''.'') (dotted a b c d) = map digits_of [a, b, c, d]"
    unfolding dotted_def by (intro split_char_join) (auto dest: digits_of_no_sep)
  ultimately show ?thesis
    using assms by (simp add: parse_ipv4_def parse_octet_digits_of quad_def)
qed

lemma quad_div:
  assumes "b < 256" and "c < 256" and "d < 256"
  shows quad_div8: "quad a b c d div 256 = (a * 256 + b) * 256 + c"
    and quad_div16: "quad a b c d div 65536 = a * 256 + b"
    and quad_div24: "quad a b c d div 16777216 = a"
    and quad_div17: "quad a b c d div 131072 = a * 128 + b div 2"
    and quad_div20: "quad a b c d div 1048576 = a * 16 + b div 16"
    and quad_div28: "quad a b c d div 268435456 = a div 16"
    and quad_div1: "quad a b c d div 2 = ((a * 256 + b) * 256 + c) * 128 + d div 2"
proof -
  let ?q = "quad a b c d"
  have [simp]: "b div 256 = 0" "c div 256 = 0" "d div 256 = 0" using assms by auto
  have "\<And>x. (x * 256 + d) div 256 = x" by simp
  then show 8: "?q div 256 = (a * 256 + b) * 256 + c" unfolding quad_def .
  have "?q div 65536 = ?q div 256 div 256" by (simp flip: div_mult2_eq)
  also have "\<And>x. (x * 256 + c) div 256 = x" by simp
  then have "?q div 256 div 256 = a * 256 + b" unfolding 8 .
  finally show 16: "?q div 65536 = a * 256 + b" .
  have "?q div 16777216 = ?q div 65536 div 256" by (simp flip: div_mult2_eq)
  also have "\<dots> = a" unfolding 16 by simp
  finally show 24: "?q div 16777216 = a" .
  have "?q div 131072 = ?q div 65536 div 2" by (simp flip: div_mult2_eq)
  also have "\<dots> = a * 128 + b div 2" unfolding 16 by simp
  finally show "?q div 131072 = a * 128 + b div 2" .
  have "?q div 1048576 = ?q div 65536 div 16" by (simp flip: div_mult2_eq)
  also have "\<dots> = a * 16 + b div 16" unfolding 16 by simp
  finally show "?q div 1048576 = a * 16 + b div 16" .
  have "?q div 268435456 = ?q div 16777216 div 16" by (simp flip: div_mult2_eq)
  then show "?q div 268435456 = a div 16" unfolding 24 .
  have "\<And>x. (x * 256 + d) div 2 = x * 128 + d div 2" by simp
  then show "?q div 2 = ((a * 256 + b) * 256 + c) * 128 + d div 2" unfolding quad_def .
qed

lemma pair_eq_iff:
  assumes "y < m" and "y' < m"
  shows "x * m + y = x' * m + y' \<longleftrightarrow> x = x' \<and> (y :: nat) = y'"
proof
  assume eq: "x * m + y = x' * m + y'"
  have "(x * m + y) div m = x" "(x' * m + y') div m = x'" using assms by auto
  with eq show "x = x' \<and> y = y'" by auto
qed simp

lemma quad_eq_iff:
  assumes "b < 256" and "c < 256" and "d < 256" and "b' < 256" and "c' < 256" and "d' < 256"
  shows "quad a b c d = quad a' b' c' d' \<longleftrightarrow> a = a' \<and> b = b' \<and> c = c' \<and> d = d'"
  unfolding quad_def pair_eq_iff [OF assms(3,6)] pair_eq_iff [OF assms(2,5)]
    pair_eq_iff [OF assms(1,4)] by simp

text \<open>The addresses the guard refuses, octet by octet.\<close>

definition refused_quad :: "nat \<Rightarrow> nat \<Rightarrow> nat \<Rightarrow> nat \<Rightarrow> bool" where
  "refused_quad a b c d \<longleftrightarrow>
     a = 0 \<or> a = 10 \<or> a = 127 \<or> a \<ge> 224
     \<or> (a = 169 \<and> b = 254) \<or> (a = 172 \<and> 16 \<le> b \<and> b \<le> 31) \<or> (a = 192 \<and> b = 168)
     \<or> (a = 192 \<and> b = 0 \<and> c = 0 \<and> d \<noteq> 9 \<and> d \<noteq> 10) \<or> (a = 192 \<and> b = 0 \<and> c = 2)
     \<or> (a = 198 \<and> (b = 18 \<or> b = 19)) \<or> (a = 198 \<and> b = 51 \<and> c = 100)
     \<or> (a = 203 \<and> b = 0 \<and> c = 113)"

text \<open>Membership in a network of dotted quads, by prefix length.\<close>

lemma in_net_quad:
  assumes lt: "b < 256" "c < 256" "d < 256" and lt': "b' < 256" "c' < 256" "d' < 256"
  shows "in_net 32 (quad a b c d) (quad a' b' c' d', 8) \<longleftrightarrow> a = a'"
    and "in_net 32 (quad a b c d) (quad a' b' c' d', 16) \<longleftrightarrow> a = a' \<and> b = b'"
    and "in_net 32 (quad a b c d) (quad a' b' c' d', 24) \<longleftrightarrow> a = a' \<and> b = b' \<and> c = c'"
    and "in_net 32 (quad a b c d) (quad a' b' c' d', 32) \<longleftrightarrow> a = a' \<and> b = b' \<and> c = c' \<and> d = d'"
    and "in_net 32 (quad a b c d) (quad a' b' c' d', 15) \<longleftrightarrow> a = a' \<and> b div 2 = b' div 2"
    and "in_net 32 (quad a b c d) (quad a' b' c' d', 12) \<longleftrightarrow> a = a' \<and> b div 16 = b' div 16"
    and "in_net 32 (quad a b c d) (quad a' b' c' d', 4) \<longleftrightarrow> a div 16 = a' div 16"
    and "in_net 32 (quad a b c d) (quad a' b' c' d', 31)
           \<longleftrightarrow> a = a' \<and> b = b' \<and> c = c' \<and> d div 2 = d' div 2"
proof -
  have less: "b div 2 < 128" "b' div 2 < 128" "b div 16 < 16" "b' div 16 < 16"
    "d div 2 < 128" "d' div 2 < 128"
    using assms by auto
  note q = quad_div [OF lt] quad_div [OF lt'] quad_eq_iff [OF lt lt']
    pair_eq_iff [OF lt(3) lt'(3)] pair_eq_iff [OF lt(2) lt'(2)] pair_eq_iff [OF lt(1) lt'(1)]
    pair_eq_iff [OF less(1,2)] pair_eq_iff [OF less(3,4)] pair_eq_iff [OF less(5,6)]
  show "in_net 32 (quad a b c d) (quad a' b' c' d', 8) \<longleftrightarrow> a = a'"
    and "in_net 32 (quad a b c d) (quad a' b' c' d', 16) \<longleftrightarrow> a = a' \<and> b = b'"
    and "in_net 32 (quad a b c d) (quad a' b' c' d', 24) \<longleftrightarrow> a = a' \<and> b = b' \<and> c = c'"
    and "in_net 32 (quad a b c d) (quad a' b' c' d', 32) \<longleftrightarrow> a = a' \<and> b = b' \<and> c = c' \<and> d = d'"
    and "in_net 32 (quad a b c d) (quad a' b' c' d', 15) \<longleftrightarrow> a = a' \<and> b div 2 = b' div 2"
    and "in_net 32 (quad a b c d) (quad a' b' c' d', 12) \<longleftrightarrow> a = a' \<and> b div 16 = b' div 16"
    and "in_net 32 (quad a b c d) (quad a' b' c' d', 4) \<longleftrightarrow> a div 16 = a' div 16"
    and "in_net 32 (quad a b c d) (quad a' b' c' d', 31)
           \<longleftrightarrow> a = a' \<and> b = b' \<and> c = c' \<and> d div 2 = d' div 2"
    by (simp_all add: in_net_def q del: distrib_right_numeral)
qed

lemma quad_private:
  assumes "a < 256" and "b < 256" and "c < 256" and "d < 256"
  shows "v4_is_private (quad a b c d) \<longleftrightarrow> refused_quad a b c d \<and> \<not> (224 \<le> a \<and> a < 240)"
proof -
  have range: "b div 16 = 1 \<longleftrightarrow> 16 \<le> b \<and> b \<le> 31" "b div 2 = 9 \<longleftrightarrow> b = 18 \<or> b = 19"
    "a div 16 = 15 \<longleftrightarrow> 240 \<le> a"
    using assms(1) by linarith+
  note nets = v4_is_private_def v4_private_networks_def v4_private_exceptions_def
    in_net_quad range [unfolded One_nat_def] refused_quad_def
  consider "a = 192" | "a = 198" | "a = 172" | "a \<notin> {192, 198, 172}" by blast
  then show ?thesis
  proof cases
    case 1
    with assms(2-4) show ?thesis by (simp add: nets) (cases "b = 0"; cases "c = 0"; simp)
  next
    case 4
    then have "a \<noteq> 192" "a \<noteq> 198" "a \<noteq> 172" by auto
    with assms have "v4_is_private (quad a b c d) \<longleftrightarrow>
        a = 0 \<or> a = 10 \<or> a = 127 \<or> (a = 169 \<and> b = 254) \<or> (a = 203 \<and> b = 0 \<and> c = 113)
        \<or> 240 \<le> a \<or> (a = 255 \<and> b = 255 \<and> c = 255 \<and> d = 255)"
      by (simp add: nets)
    moreover have "refused_quad a b c d \<longleftrightarrow>
        a = 0 \<or> a = 10 \<or> a = 127 \<or> 224 \<le> a \<or> (a = 169 \<and> b = 254)
        \<or> (a = 203 \<and> b = 0 \<and> c = 113)"
      using \<open>a \<noteq> 192\<close> \<open>a \<noteq> 198\<close> \<open>a \<noteq> 172\<close> by (simp add: refused_quad_def)
    moreover have "240 \<le> a \<longleftrightarrow> 224 \<le> a \<and> \<not> a < 240" "a = 255 \<longrightarrow> 240 \<le> a"
      "a = 0 \<or> a = 10 \<or> a = 127 \<or> a = 169 \<or> a = 203 \<longrightarrow> \<not> 224 \<le> a" by auto
    ultimately show ?thesis by argo
  qed (use assms(2-4) in \<open>simp_all add: nets\<close>)
qed

lemma quad_reserved:
  assumes "a < 256" and "b < 256" and "c < 256" and "d < 256"
  shows "in_net 32 (quad a b c d) (quad 240 0 0 0, 4) \<longleftrightarrow> 240 \<le> a"
    and "in_net 32 (quad a b c d) (quad 224 0 0 0, 4) \<longleftrightarrow> 224 \<le> a \<and> a < 240"
proof -
  have "a div 16 = 15 \<longleftrightarrow> 240 \<le> a" "a div 16 = 14 \<longleftrightarrow> 224 \<le> a \<and> a < 240"
    using assms(1) by linarith+
  with assms show "in_net 32 (quad a b c d) (quad 240 0 0 0, 4) \<longleftrightarrow> 240 \<le> a"
    and "in_net 32 (quad a b c d) (quad 224 0 0 0, 4) \<longleftrightarrow> 224 \<le> a \<and> a < 240"
    by (simp_all add: in_net_quad)
qed

lemma quad_0: "quad a b c d = 0 \<longleftrightarrow> a = 0 \<and> b = 0 \<and> c = 0 \<and> d = 0"
  by (simp add: quad_def)

lemma parse_ip_dotted:
  "a \<le> 255 \<Longrightarrow> b \<le> 255 \<Longrightarrow> c \<le> 255 \<Longrightarrow> d \<le> 255 \<Longrightarrow>
   parse_ip (dotted a b c d) = Some (V4 (quad a b c d))"
  by (simp add: parse_ip_def parse_ipv4_dotted)

text \<open>
  The IPv4 addresses that are not public destinations: the ones above, and the shared address space
  100.64.0.0/10 behind carrier-grade NAT.
\<close>

definition shared_space :: "nat \<Rightarrow> nat \<Rightarrow> bool" where
  "shared_space a b \<longleftrightarrow> a = 100 \<and> 64 \<le> b \<and> b \<le> 127"

definition not_public_quad :: "nat \<Rightarrow> nat \<Rightarrow> nat \<Rightarrow> nat \<Rightarrow> bool" where
  "not_public_quad a b c d \<longleftrightarrow> refused_quad a b c d \<or> shared_space a b"

text \<open>
  C5. Over all 2^32 IPv4 destinations, written as dotted quads, the outbound guard refuses the
  addresses that are not public (this network, 10/8, loopback, link-local, 172.16/12, 192.168/16, the
  protocol and documentation blocks, benchmarking, multicast, the reserved top and the shared
  address space) with exactly one exception: the shared address space 100.64.0.0/10, which it lets
  through although the module's documentation promises to refuse every non-public address. No
  public address is refused.
\<close>
theorem guard_ipv4_exact:
  assumes "a \<le> 255" and "b \<le> 255" and "c \<le> 255" and "d \<le> 255"
  shows "is_blocked_address (dotted a b c d)
           \<longleftrightarrow> not_public_quad a b c d \<and> \<not> shared_space a b"
proof -
  have lt: "a < 256" "b < 256" "c < 256" "d < 256" using assms by auto
  have "is_blocked_address (dotted a b c d) \<longleftrightarrow>
    v4_is_private (quad a b c d) \<or> a = 127 \<or> (a = 169 \<and> b = 254) \<or> 240 \<le> a
      \<or> (224 \<le> a \<and> a < 240) \<or> (a = 0 \<and> b = 0 \<and> c = 0 \<and> d = 0)"
    using lt by (simp add: is_blocked_address_def parse_ip_dotted [OF assms] in_net_quad(1,2)
        v4_class_defs quad_reserved quad_0)
  also have "\<dots> \<longleftrightarrow> refused_quad a b c d"
  proof -
    have "a = 127 \<or> (a = 169 \<and> b = 254) \<or> 240 \<le> a \<or> (224 \<le> a \<and> a < 240)
      \<or> (a = 0 \<and> b = 0 \<and> c = 0 \<and> d = 0) \<Longrightarrow> refused_quad a b c d"
      by (elim disjE) (simp_all add: refused_quad_def)
    then show ?thesis unfolding quad_private [OF lt] by argo
  qed
  also have "\<dots> \<longleftrightarrow> not_public_quad a b c d \<and> \<not> shared_space a b"
    by (auto simp: not_public_quad_def shared_space_def refused_quad_def)
  finally show ?thesis .
qed

lemma guard_ipv4_exact_witness:
  "is_blocked_address (dotted 192 168 1 1) \<and> \<not> is_blocked_address (dotted 8 8 8 8)
   \<and> \<not> is_blocked_address (dotted 100 64 0 1) \<and> not_public_quad 100 64 0 1"
  using guard_ipv4_exact [of 192 168 1 1] guard_ipv4_exact [of 8 8 8 8]
    guard_ipv4_exact [of 100 64 0 1]
  by (simp add: refused_quad_def not_public_quad_def shared_space_def)

text \<open>
  The guard is all-or-nothing: it hands on the resolver's addresses, unchanged, exactly when
  every one of them parses and is in none of the refused classes; one refused or unreadable address
  among them makes the whole connection fail, and so does a resolver failure.
\<close>
theorem guard_all_or_nothing:
  "safe_resolve_host host results = Inr addrs \<longleftrightarrow>
     results = Some addrs \<and>
     (\<forall>s \<in> set addrs. \<exists>ip. parse_ip s = Some ip \<and> \<not> is_private ip \<and> \<not> is_loopback ip
        \<and> \<not> is_link_local ip \<and> \<not> is_reserved ip \<and> \<not> is_multicast ip \<and> \<not> is_unspecified ip)"
proof -
  have ok: "\<not> is_blocked_address s \<longleftrightarrow>
    (\<exists>ip. parse_ip s = Some ip \<and> \<not> is_private ip \<and> \<not> is_loopback ip
        \<and> \<not> is_link_local ip \<and> \<not> is_reserved ip \<and> \<not> is_multicast ip \<and> \<not> is_unspecified ip)" for s
    by (cases "parse_ip s") (auto simp: is_blocked_address_def)
  show ?thesis
    unfolding ok [symmetric] by (cases results) (auto simp: safe_resolve_host_def list_ex_iff)
qed

lemma guard_all_or_nothing_witness:
  "safe_resolve_host ''h'' (Some [dotted 8 8 8 8]) = Inr [dotted 8 8 8 8]"
  unfolding guard_all_or_nothing
  by (simp add: parse_ip_dotted quad_private refused_quad_def in_net_quad v4_class_defs quad_reserved
      quad_0)

text \<open>An IPv4-mapped IPv6 address is judged by the address it carries.\<close>

lemma ipv4_mapped_of: "v < 2 ^ 32 \<Longrightarrow> ipv4_mapped (0xFFFF * 2 ^ 32 + v) = Some v"
  using div_mult_self3 [of "2 ^ 32" "0xFFFF" v] mod_mult_self3 [of "0xFFFF" "2 ^ 32" v]
  unfolding ipv4_mapped_def by simp

lemma mapped_judged_alike:
  assumes "v < 2 ^ 32"
  shows "is_private (V6 (0xFFFF * 2 ^ 32 + v)) = is_private (V4 v)"
    and "is_link_local (V6 (0xFFFF * 2 ^ 32 + v)) = is_link_local (V4 v)"
    and "is_reserved (V6 (0xFFFF * 2 ^ 32 + v)) = is_reserved (V4 v)"
    and "is_multicast (V6 (0xFFFF * 2 ^ 32 + v)) = is_multicast (V4 v)"
    and "is_unspecified (V6 (0xFFFF * 2 ^ 32 + v)) = is_unspecified (V4 v)"
  by (simp_all only: is_private.simps v6_is_private_def is_link_local.simps is_reserved.simps
      is_multicast.simps is_unspecified.simps ipv4_mapped_of [OF assms] option.case)

text \<open>
  The shared address space 100.64.0.0/10 (carrier-grade NAT), which is not globally reachable,
  is let through: the guard asks for the absence of the non-public classes, not for
  \<open>is_global\<close>, and Python puts that block in none of them.
\<close>

theorem guard_passes_shared_space:
  assumes "64 \<le> b" and "b \<le> 127" and "c \<le> 255" and "d \<le> 255"
  shows "safe_resolve_host host (Some [dotted 100 b c d]) = Inr [dotted 100 b c d]"
proof -
  have lt: "(100::nat) < 256" "b < 256" "c < 256" "d < 256" using assms by auto
  have "\<not> v4_is_private (quad 100 b c d)"
    unfolding quad_private [OF lt] by (simp add: refused_quad_def)
  with lt have "\<not> is_blocked_address (dotted 100 b c d)"
    using parse_ip_dotted [of 100 b c d] assms
    by (simp add: is_blocked_address_def in_net_quad v4_class_defs quad_0)
  then show ?thesis by (simp add: safe_resolve_host_def)
qed

lemma guard_passes_shared_space_witness:
  "safe_resolve_host ''cgnat.example'' (Some [dotted 100 64 0 1]) = Inr [dotted 100 64 0 1]"
  using guard_passes_shared_space [of 64 0 1 "''cgnat.example''"] by simp

end
