(* ===== verification/Elf.thy ===== *)
theory Elf
  imports Py_Text "HOL-Library.Word"
begin

unbundle bit_operations_syntax

section \<open>Static file-type detection\<close>

text \<open>
  \<open>honeypot/fetcher/elf.py\<close>: the detector that classifies a captured sample by its magic number
  and, for ELF, by the fixed header fields. A byte is an \<open>8 word\<close>, \<open>e_machine\<close> a \<open>16 word\<close> and
  \<open>e_flags\<close> a \<open>32 word\<close>. A dict subscript that could miss is a \<open>KeyError\<close> of the result type.
\<close>

type_synonym byte = "8 word"

subsection \<open>Tables\<close>

definition EM_NAMES :: "(nat \<times> string) list" where
  "EM_NAMES =
    [(2, ''EM_SPARC''), (3, ''EM_386''), (4, ''EM_68K''), (8, ''EM_MIPS''),
     (10, ''EM_MIPS_RS3_LE''), (15, ''EM_PARISC''), (18, ''EM_SPARC32PLUS''), (20, ''EM_PPC''),
     (21, ''EM_PPC64''), (22, ''EM_S390''), (40, ''EM_ARM''), (42, ''EM_SH''),
     (43, ''EM_SPARCV9''), (50, ''EM_IA_64''), (62, ''EM_X86_64''), (92, ''EM_OPENRISC''),
     (93, ''EM_ARC_COMPACT''), (94, ''EM_XTENSA''), (113, ''EM_NIOS2''), (183, ''EM_AARCH64''),
     (189, ''EM_MICROBLAZE''), (195, ''EM_ARC_COMPACT2''), (243, ''EM_RISCV''),
     (252, ''EM_CSKY''), (258, ''EM_LOONGARCH'')]"

definition MAGIC_SIGNATURES :: "(byte list \<times> string) list" where
  "MAGIC_SIGNATURES =
    [([0x4D, 0x5A], ''pe''), ([0x50, 0x4B, 0x03, 0x04], ''zip''),
     ([0x1F, 0x8B], ''gzip''), ([0x23, 0x21], ''script'')]"

definition MIPS_ARCH :: "(32 word \<times> string) list" where
  "MIPS_ARCH =
    [(0x00000000, ''MIPS-I''), (0x10000000, ''MIPS-II''), (0x20000000, ''MIPS-III''),
     (0x30000000, ''MIPS-IV''), (0x40000000, ''MIPS-V''), (0x50000000, ''MIPS32''),
     (0x60000000, ''MIPS64''), (0x70000000, ''MIPS32r2''), (0x80000000, ''MIPS64r2''),
     (0x90000000, ''MIPS32r6''), (0xA0000000, ''MIPS64r6'')]"

definition MIPS_ABI :: "(32 word \<times> string) list" where
  "MIPS_ABI =
    [(0x1000, ''o32''), (0x2000, ''o64''), (0x3000, ''eabi32''), (0x4000, ''eabi64'')]"

definition RISCV_FLOAT_ABI :: "(32 word \<times> string) list" where
  "RISCV_FLOAT_ABI =
    [(0, ''soft-float''), (2, ''single-float''), (4, ''double-float''), (6, ''quad-float'')]"

definition SH_MACH :: "(32 word \<times> string) list" where
  "SH_MACH =
    [(0x01, ''sh1''), (0x02, ''sh2''), (0x03, ''sh3''), (0x04, ''sh-dsp''), (0x05, ''sh3-dsp''),
     (0x06, ''sh4al-dsp''), (0x08, ''sh3e''), (0x09, ''sh4''), (0x0A, ''sh5''), (0x0B, ''sh2e''),
     (0x0C, ''sh4a''), (0x0D, ''sh2a''), (0x10, ''sh4-nofpu''), (0x11, ''sh4a-nofpu''),
     (0x12, ''sh4-nommu-nofpu''), (0x13, ''sh2a-nofpu''), (0x14, ''sh3-nommu''),
     (0x15, ''sh2a-nofpu-or-sh4-nommu-nofpu''), (0x16, ''sh2a-nofpu-or-sh3-nommu''),
     (0x17, ''sh2a-or-sh4''), (0x18, ''sh2a-or-sh3e'')]"

subsection \<open>Detection\<close>

record detected =
  file_type :: string
  is_elf :: bool
  bitness :: "nat option"
  machine :: "string option"
  endianness :: "string option"
  flags :: "32 word option"
  abi :: "string option"

definition plain_detected :: "string \<Rightarrow> bool \<Rightarrow> detected" where
  "plain_detected t e =
     \<lparr>file_type = t, is_elf = e, bitness = None, machine = None, endianness = None,
      flags = None, abi = None\<rparr>"

text \<open>
  \<open>struct.unpack_from\<close> with an endianness mark: \<open>None\<close> is \<open>struct.error\<close> (the buffer is too short).
\<close>

definition unpack_u16 :: "bool \<Rightarrow> byte list \<Rightarrow> nat \<Rightarrow> 16 word option" where
  "unpack_u16 little d off =
     (if length d < off + 2 then None
      else let a = unat (d ! off); b = unat (d ! (off + 1))
           in Some (word_of_nat (if little then a + 256 * b else 256 * a + b)))"

definition unpack_u32 :: "bool \<Rightarrow> byte list \<Rightarrow> nat \<Rightarrow> 32 word option" where
  "unpack_u32 little d off =
     (if length d < off + 4 then None
      else let a = unat (d ! off); b = unat (d ! (off + 1));
               c = unat (d ! (off + 2)); e = unat (d ! (off + 3))
           in Some (word_of_nat
                (if little then a + 2 ^ 8 * b + 2 ^ 16 * c + 2 ^ 24 * e
                 else 2 ^ 24 * a + 2 ^ 16 * b + 2 ^ 8 * c + e)))"

definition machine_name :: "16 word \<Rightarrow> string" where
  "machine_name e_machine =
     (case map_of EM_NAMES (unat e_machine) of
        Some n \<Rightarrow> n
      | None \<Rightarrow> ''EM_UNKNOWN('' @ digits_of (unat e_machine) @ '')'')"

definition decode_flags :: "string option \<Rightarrow> 32 word option \<Rightarrow> string option result" where
  "decode_flags mach fl =
     (case fl of
        None \<Rightarrow> Inr None
      | Some f \<Rightarrow>
          if mach = Some ''EM_ARM'' then
            let eabi = unat (drop_bit 24 f);
                version = (if eabi \<noteq> 0 then ''EABI'' @ digits_of eabi else ''pre-EABI'');
                float = (if f AND 0x400 \<noteq> 0 then [''hard-float'']
                         else if f AND 0x200 \<noteq> 0 then [''soft-float''] else []);
                be8 = (if f AND 0x00800000 \<noteq> 0 then [''BE8''] else [])
            in Inr (Some (join '' '' ([version] @ float @ be8)))
          else if mach = Some ''EM_MIPS'' \<or> mach = Some ''EM_MIPS_RS3_LE'' then
            let arch = (case map_of MIPS_ARCH (f AND 0xF0000000) of
                          Some a \<Rightarrow> a | None \<Rightarrow> ''MIPS?'');
                ab = map_of MIPS_ABI (f AND 0x0000F000);
                ab' = (if ab = None \<and> f AND 0x00000020 \<noteq> 0 then Some ''n32'' else ab)
            in Inr (Some (case ab' of Some a \<Rightarrow> arch @ '' '' @ a | None \<Rightarrow> arch))
          else if mach = Some ''EM_SH'' then Inr (map_of SH_MACH (f AND 0x1F))
          else if mach = Some ''EM_RISCV'' then
            (case map_of RISCV_FLOAT_ABI (f AND 0x6) of
               None \<Rightarrow> Inl KeyError
             | Some fl_abi \<Rightarrow>
                 Inr (Some (join '' ''
                   ((if f AND 0x1 \<noteq> 0 then [''RVC''] else []) @ [fl_abi]
                    @ (if f AND 0x8 \<noteq> 0 then [''RVE''] else [])
                    @ (if f AND 0x10 \<noteq> 0 then [''TSO''] else [])))))
          else Inr None)"

definition parse_elf_header :: "byte list \<Rightarrow> detected result" where
  "parse_elf_header d =
     (if length d < 20 then Inr (plain_detected ''elf'' True)
      else
        let ei_class = d ! 4; ei_data = d ! 5;
            bits = map_of [(1, 32), (2, 64)] ei_class;
            endian = map_of [(1, ''little''), (2, ''big'')] ei_data;
            little = (ei_data = 1);
            mach = map_option machine_name (unpack_u16 little d 18);
            fl = (case map_of [(1, 36), (2, 48)] ei_class of
                    None \<Rightarrow> None
                  | Some off \<Rightarrow> unpack_u32 little d off)
        in bind_result (decode_flags mach fl)
             (\<lambda>ab. Inr \<lparr>file_type = ''elf'', is_elf = True, bitness = bits, machine = mach,
                       endianness = endian, flags = fl, abi = ab\<rparr>))"

definition elf_magic :: "byte list" where
  "elf_magic = [0x7F, 0x45, 0x4C, 0x46]"

fun match_magic :: "(byte list \<times> string) list \<Rightarrow> byte list \<Rightarrow> string option" where
  "match_magic [] d = None"
| "match_magic ((sig, name) # sigs) d =
     (if take (length sig) d = sig then Some name else match_magic sigs d)"

definition detect :: "byte list \<Rightarrow> detected result" where
  "detect d =
     (if take 4 d = elf_magic then parse_elf_header d
      else case match_magic MAGIC_SIGNATURES d of
             Some name \<Rightarrow> Inr (plain_detected name False)
           | None \<Rightarrow> Inr (plain_detected ''unknown'' False))"

datatype arch = Riscv32 | Riscv64

definition arch_matches_persona :: "detected \<Rightarrow> arch \<Rightarrow> bool option" where
  "arch_matches_persona det persona_arch =
     (if \<not> is_elf det \<or> machine det \<noteq> Some ''EM_RISCV'' then None
      else let expected_bits = (if persona_arch = Riscv64 then 64 else 32)
           in Some (bitness det = Some expected_bits))"

subsection \<open>Words and bytes\<close>

lemma and_six_cases: "(f :: 32 word) AND 6 \<in> {0, 2, 4, 6}"
proof -
  let ?x = "f AND 6"
  have "unat ?x \<le> unat (6 :: 32 word)"
    using word_and_le1 [of f 6] by (simp only: word_le_nat_alt)
  then have "unat ?x \<in> {0, 1, 2, 3, 4, 5, 6}" by auto
  then have x: "?x \<in> {0, 1, 2, 3, 4, 5, 6}"
    by (auto simp: word_unat_eq_iff)
  have "?x AND 1 = f AND (6 AND 1)" by (rule and.assoc)
  then have "?x AND 1 = 0" by simp
  with x show ?thesis by auto
qed

lemma word_of_nat_unat: "word_of_nat (unat w) = (w :: 'a::len word)"
  by simp

lemma bytes_of_nat:
  assumes "(n :: nat) < 2 ^ 32"
  shows "n mod 256 + 256 * (n div 2 ^ 8 mod 256) + 65536 * (n div 2 ^ 16 mod 256)
           + 16777216 * (n div 2 ^ 24 mod 256) = n"
proof -
  define a b c where "a = n div 256" and "b = a div 256" and "c = b div 256"
  have "n = 256 * a + n mod 256" "a = 256 * b + a mod 256" "b = 256 * c + b mod 256" "c < 256"
    using assms by (auto simp: a_def b_def c_def)
  moreover have "n div 2 ^ 8 = a" "n div 2 ^ 16 = b" "n div 2 ^ 24 = c"
    by (simp_all add: a_def b_def c_def flip: div_mult2_eq)
  ultimately show ?thesis by simp
qed

text \<open>The bytes of a word, least significant first or last: the inverse of the two readers.\<close>

definition byte_at :: "nat \<Rightarrow> 'a::len word \<Rightarrow> byte" where
  "byte_at n w = ucast (drop_bit n w)"

definition pack_u16 :: "bool \<Rightarrow> 16 word \<Rightarrow> byte list" where
  "pack_u16 little w = (if little then [byte_at 0 w, byte_at 8 w] else [byte_at 8 w, byte_at 0 w])"

definition pack_u32 :: "bool \<Rightarrow> 32 word \<Rightarrow> byte list" where
  "pack_u32 little w =
     (if little then [byte_at 0 w, byte_at 8 w, byte_at 16 w, byte_at 24 w]
      else [byte_at 24 w, byte_at 16 w, byte_at 8 w, byte_at 0 w])"

lemma unat_byte_at: "unat (byte_at n w) = unat w div 2 ^ n mod 256"
proof -
  have "unat (byte_at n w) = take_bit 8 (drop_bit n (unat w))"
    by (simp add: byte_at_def unsigned_ucast_eq unat_drop_bit_eq)
  then show ?thesis by (simp add: take_bit_eq_mod drop_bit_eq_div)
qed

lemma unpack_pack_u16: "unpack_u16 little (xs @ pack_u16 little w @ ys) (length xs) = Some w"
proof -
  have "unat w < 2 ^ 16" using unsigned_less [of w] by simp
  then have "unat w mod 256 + 256 * (unat w div 2 ^ 8 mod 256) = unat w" by simp
  then have "unat (byte_at 0 w) + 256 * unat (byte_at 8 w) = unat w"
    by (simp only: unat_byte_at power_0 div_by_1)
  then have "word_of_nat (unat (byte_at 0 w) + 256 * unat (byte_at 8 w)) = w"
    by (simp only: word_of_nat_unat)
  then show ?thesis
    by (simp add: unpack_u16_def pack_u16_def nth_append Let_def add.commute)
qed

lemma unpack_pack_u32: "unpack_u32 little (xs @ pack_u32 little w @ ys) (length xs) = Some w"
proof -
  have "unat w < 2 ^ 32" using unsigned_less [of w] by simp
  then have "unat (byte_at 0 w) + 256 * unat (byte_at 8 w)
      + 65536 * unat (byte_at 16 w) + 16777216 * unat (byte_at 24 w) = unat w"
    using bytes_of_nat [of "unat w"] by (simp only: unat_byte_at power_0 div_by_1)
  then have "word_of_nat (unat (byte_at 0 w) + 256 * unat (byte_at 8 w)
      + 65536 * unat (byte_at 16 w) + 16777216 * unat (byte_at 24 w)) = w"
    by (simp only: word_of_nat_unat)
  then show ?thesis
    by (simp add: unpack_u32_def pack_u32_def nth_append Let_def algebra_simps)
qed

lemma unpack_u16_take: "off + 2 \<le> n \<Longrightarrow> unpack_u16 little (take n d) off = unpack_u16 little d off"
  by (simp add: unpack_u16_def Let_def min_def)

lemma unpack_u32_take: "off + 4 \<le> n \<Longrightarrow> unpack_u32 little (take n d) off = unpack_u32 little d off"
  by (simp add: unpack_u32_def Let_def min_def)

subsection \<open>The decoder never raises\<close>

lemma riscv_float_abi_hit: "map_of RISCV_FLOAT_ABI (f AND 6) \<noteq> None"
  using and_six_cases [of f] by (auto simp: RISCV_FLOAT_ABI_def)

lemma decode_flags_total: "\<exists>ab. decode_flags mach fl = Inr ab"
proof (cases fl)
  case (Some f)
  obtain s where "map_of RISCV_FLOAT_ABI (f AND 6) = Some s"
    using riscv_float_abi_hit [of f] by blast
  then show ?thesis by (simp add: decode_flags_def Some Let_def)
qed (simp add: decode_flags_def)

lemma parse_elf_header_ok:
  "\<exists>t. parse_elf_header d = Inr t \<and> is_elf t \<and> file_type t = ''elf''"
proof (cases "length d < 20")
  case True
  then show ?thesis by (simp add: parse_elf_header_def plain_detected_def)
next
  case False
  define fl where "fl = (case map_of [(1, 36), (2, 48)] (d ! 4) of
      None \<Rightarrow> None | Some off \<Rightarrow> unpack_u32 (d ! 5 = 1) d off)"
  obtain ab where
    "decode_flags (map_option machine_name (unpack_u16 (d ! 5 = 1) d 18)) fl = Inr ab"
    using decode_flags_total by blast
  with False show ?thesis by (simp add: parse_elf_header_def Let_def fl_def)
qed

lemma machine_name_riscv: "machine_name m = ''EM_RISCV'' \<longleftrightarrow> m = 243"
proof -
  have "machine_name m = ''EM_RISCV'' \<longleftrightarrow> unat m = 243"
    by (simp add: machine_name_def EM_NAMES_def)
  also have "\<dots> \<longleftrightarrow> m = 243" by (simp add: word_unat_eq_iff)
  finally show ?thesis .
qed

lemma detect_classifies:
  obtains t where "detect d = Inr t" and "is_elf t \<longleftrightarrow> take 4 d = elf_magic"
    and "file_type t = ''elf'' \<longleftrightarrow> take 4 d = elf_magic"
proof (cases "take 4 d = elf_magic")
  case True
  then show ?thesis using that parse_elf_header_ok [of d] by (auto simp: detect_def)
next
  case False
  have "match_magic MAGIC_SIGNATURES d \<noteq> Some ''elf''" by (simp add: MAGIC_SIGNATURES_def)
  with False that show ?thesis
    by (cases "match_magic MAGIC_SIGNATURES d") (auto simp: detect_def plain_detected_def)
qed

text \<open>
  The detector is total: on every byte string it returns a classification, never an exception
  (the subscript of the RISC-V float ABI table cannot miss), and it says ELF exactly for the ELF
  magic.
\<close>
theorem detect_total:
  "\<exists>t. detect d = Inr t \<and> (is_elf t \<longleftrightarrow> take 4 d = elf_magic)
     \<and> (file_type t = ''elf'' \<longleftrightarrow> take 4 d = elf_magic)"
  using detect_classifies [of d] by blast

lemma unpack_u16_prefix: "unpack_u16 little (xs @ pack_u16 little w @ ys) n = Some w"
  if "length xs = n"
  using unpack_pack_u16 [of little xs w ys] that by simp

lemma unpack_u32_prefix: "unpack_u32 little (xs @ pack_u32 little w @ ys) n = Some w"
  if "length xs = n"
  using unpack_pack_u32 [of little xs w ys] that by simp

text \<open>
  A file whose header has the given class, byte order, machine and flags word; \<open>pad\<close>, \<open>addrs\<close> and
  \<open>rest\<close> are the bytes between and after these fields.
\<close>

definition elf_file ::
  "bool \<Rightarrow> bool \<Rightarrow> byte list \<Rightarrow> 16 word \<Rightarrow> byte list \<Rightarrow> 32 word \<Rightarrow> byte list \<Rightarrow> byte list" where
  "elf_file is64 little pad m addrs f rest =
     elf_magic @ [if is64 then 2 else 1, if little then 1 else 2] @ pad
       @ pack_u16 little m @ addrs @ pack_u32 little f @ rest"

definition header_widths :: "bool \<Rightarrow> byte list \<Rightarrow> byte list \<Rightarrow> bool" where
  "header_widths is64 pad addrs \<longleftrightarrow> length pad = 12 \<and> length addrs = (if is64 then 28 else 16)"

lemma elf_file_fields:
  assumes "header_widths is64 pad addrs" and d: "d = elf_file is64 little pad m addrs f rest"
  shows "take 4 d = elf_magic" and "d ! 4 = (if is64 then 2 else 1)"
    and "d ! 5 = (if little then 1 else 2)" and "\<not> length d < 20"
    and "unpack_u16 little d 18 = Some m"
    and "unpack_u32 little d (if is64 then 48 else 36) = Some f"
proof -
  let ?hd = "elf_magic @ [if is64 then 2 else 1, if little then 1 else 2] @ pad"
  note w = assms(1) [unfolded header_widths_def]
  show "take 4 d = elf_magic" "d ! 4 = (if is64 then 2 else 1)"
    "d ! 5 = (if little then 1 else 2)" "\<not> length d < 20"
    using w by (simp_all add: d elf_file_def elf_magic_def pack_u16_def)
  have "length ?hd = 18" using w by (simp add: elf_magic_def)
  then show "unpack_u16 little d 18 = Some m"
    using unpack_u16_prefix [of ?hd 18 little m] by (simp add: d elf_file_def)
  have "length (?hd @ pack_u16 little m @ addrs) = (if is64 then 48 else 36)"
    using w by (simp add: elf_magic_def pack_u16_def)
  then show "unpack_u32 little d (if is64 then 48 else 36) = Some f"
    using unpack_u32_prefix [of "?hd @ pack_u16 little m @ addrs" _ little f rest]
    by (simp only: d elf_file_def append_assoc)
qed

lemma detect_elf_file:
  assumes "header_widths is64 pad addrs"
    and "decode_flags (Some (machine_name m)) (Some f) = Inr ab"
  shows "detect (elf_file is64 little pad m addrs f rest)
    = Inr \<lparr>file_type = ''elf'', is_elf = True, bitness = Some (if is64 then 64 else 32),
           machine = Some (machine_name m),
           endianness = Some (if little then ''little'' else ''big''), flags = Some f, abi = ab\<rparr>"
proof -
  define d where "d = elf_file is64 little pad m addrs f rest"
  note fields = elf_file_fields [OF assms(1) d_def]
  have "(d ! 5 = 1) = little" using fields(3) by simp
  then have "parse_elf_header d
    = Inr \<lparr>file_type = ''elf'', is_elf = True, bitness = Some (if is64 then 64 else 32),
           machine = Some (machine_name m),
           endianness = Some (if little then ''little'' else ''big''), flags = Some f, abi = ab\<rparr>"
    using fields assms(2) by (cases is64; cases little) (simp_all add: parse_elf_header_def Let_def)
  then show ?thesis by (simp add: detect_def fields(1) flip: d_def)
qed

text \<open>
  C34. Reading back an ELF header: for both classes and both byte orders, the machine and the flags
  word written at the header's offsets are the ones the detector reports, whatever the other
  bytes are.
\<close>
theorem detect_reads_header:
  assumes "header_widths is64 pad addrs"
  shows "\<exists>t. detect (elf_file is64 little pad m addrs f rest) = Inr t
    \<and> bitness t = Some (if is64 then 64 else 32) \<and> machine t = Some (machine_name m)
    \<and> endianness t = Some (if little then ''little'' else ''big'') \<and> flags t = Some f
    \<and> decode_flags (machine t) (flags t) = Inr (abi t)"
proof -
  obtain ab where "decode_flags (Some (machine_name m)) (Some f) = Inr ab"
    using decode_flags_total by blast
  then show ?thesis using detect_elf_file [OF assms] by simp
qed

theorem detect_reads_header_witness:
  "\<exists>t. detect (elf_file True True (replicate 12 0) 243 (replicate 28 0) 5 []) = Inr t
    \<and> bitness t = Some 64 \<and> machine t = Some (machine_name 243)
    \<and> endianness t = Some ''little'' \<and> flags t = Some 5
    \<and> decode_flags (machine t) (flags t) = Inr (abi t)"
  using detect_reads_header [of True "replicate 12 0" "replicate 28 0" True 243 5 "[]"]
  by (simp add: header_widths_def)

lemma match_magic_take:
  "(\<forall>(sig, name) \<in> set sigs. length sig \<le> n) \<Longrightarrow> match_magic sigs (take n d) = match_magic sigs d"
  by (induction sigs) (auto simp: min_def)

lemma parse_elf_header_take: "parse_elf_header (take 64 d) = parse_elf_header d"
proof -
  have "map_of [(1 :: byte, 36), (2, 48)] (d ! 4) = Some off \<Longrightarrow>
      unpack_u32 little (take 64 d) off = unpack_u32 little d off" for off little
    by (rule unpack_u32_take) (auto split: if_splits)
  then show ?thesis
    by (simp add: parse_elf_header_def unpack_u16_take Let_def min_def cong: option.case_cong)
qed

text \<open>
  The fetcher hands the detector only the first 64 bytes of a sample; no byte after them could
  change the classification.
\<close>

lemma detect_prefix: "detect (take 64 d) = detect d"
proof -
  have "match_magic MAGIC_SIGNATURES (take 64 d) = match_magic MAGIC_SIGNATURES d"
    by (rule match_magic_take) (simp add: MAGIC_SIGNATURES_def)
  then show ?thesis by (simp add: detect_def parse_elf_header_take min_def)
qed

text \<open>
  The persona comparison judges RISC-V ELF files and nothing else: for a file with the given
  header it is undecided unless the machine field is 243, and then says whether the class has the
  persona's width.
\<close>
theorem arch_judgement:
  assumes "header_widths is64 pad addrs"
    and "detect (elf_file is64 little pad m addrs f rest) = Inr t"
  shows "arch_matches_persona t a = (if m = 243 then Some (is64 = (a = Riscv64)) else None)"
proof -
  obtain ab where "decode_flags (Some (machine_name m)) (Some f) = Inr ab"
    using decode_flags_total by blast
  from detect_elf_file [OF assms(1) this, of little rest] assms(2)
  have "is_elf t" "machine t = Some (machine_name m)" "bitness t = Some (if is64 then 64 else 32)"
    by auto
  then show ?thesis
    by (cases is64; cases a) (simp_all add: arch_matches_persona_def machine_name_riscv)
qed

theorem arch_judgement_witness:
  "\<exists>t. detect (elf_file False True (replicate 12 0) 243 (replicate 16 0) 1 []) = Inr t
     \<and> arch_matches_persona t Riscv64 = Some False"
proof -
  have w: "header_widths False (replicate 12 0) (replicate 16 0)" by (simp add: header_widths_def)
  obtain ab where "decode_flags (Some (machine_name 243)) (Some 1) = Inr ab"
    using decode_flags_total by blast
  note d = detect_elf_file [OF w this, of True "[]"]
  show ?thesis using arch_judgement [OF w d, of Riscv64] d by auto
qed

end
