(* ===== verification/Help_Text.thy ===== *)
theory Help_Text
  imports Py_Text
begin

section \<open>The --help texts\<close>

text \<open>
  The table of \<open>honeypot/shell/help_text.py\<close>, entry by entry, in two parts. A line starts a new row
  of the joined list; \<open>tab\<close> is the tabulator.
\<close>

definition tab :: string where
  "tab = [CHR 0x09]"

definition newline_str :: string where
  "newline_str = [CHR 0x0A]"

definition help_files :: "(string \<times> string) list" where
  "help_files =
    [(''ls'', join newline_str [
        ''Usage: ls [-1AacCdeFilnpLRrSsTtuvwxXhk] [FILE]...'',
        [],
        ''List directory contents'',
        [],
        tab @ ''-1'' @ tab @ ''List in a single column'',
        tab @ ''-a'' @ tab @ ''Do not hide entries starting with .'',
        tab @ ''-A'' @ tab @ ''Do not list implied . and ..'',
        tab @ ''-C'' @ tab @ ''List by columns'',
        tab @ ''-d'' @ tab @ ''List directory entries instead of contents'',
        tab @ ''-F'' @ tab @ ''Append indicator (one of */=@|) to entries'',
        tab @ ''-i'' @ tab @ ''List inode numbers'',
        tab @ ''-l'' @ tab @ ''Use a long listing format'',
        tab @ ''-L'' @ tab @ ''Follow symbolic links'',
        tab @ ''-n'' @ tab @ ''List numeric UIDs and GIDs instead of names'',
        tab @ ''-p'' @ tab @ ''Append indicator to directories'',
        tab @ ''-R'' @ tab @ ''List subdirectories recursively'',
        tab @ ''-r'' @ tab @ ''Sort in reverse order'',
        tab @ ''-S'' @ tab @ ''Sort by file size'',
        tab @ ''-s'' @ tab @ ''Print size of each file, in blocks'',
        tab @ ''-t'' @ tab @ ''Sort by modification time'',
        tab @ ''-u'' @ tab @ ''Sort by last access time'',
        tab @ ''-X'' @ tab @ ''Sort by extension'',
        tab @ ''-h'' @ tab @ ''Print sizes in human readable format (e.g., 1K 234M 2G)'']),
     (''cp'', join newline_str [
        ''Usage: cp [OPTIONS] SOURCE DEST'',
        [],
        ''Copy SOURCE to DEST, or multiple SOURCEs to DIRECTORY'',
        [],
        tab @ ''-a'' @ tab @ ''Same as -dpR'',
        tab @ ''-d,-P'' @ tab @ ''Preserve symlinks'',
        tab @ ''-H,-L'' @ tab @ ''Follow symlinks'',
        tab @ ''-p'' @ tab @ ''Preserve file attributes if possible'',
        tab @ ''-f'' @ tab @ ''Overwrite'',
        tab @ ''-i'' @ tab @ ''Prompt before overwrite'',
        tab @ ''-R,-r'' @ tab @ ''Recurse'',
        tab @ ''-l,-s'' @ tab @ ''Create (sym)links'']),
     (''mv'', join newline_str [
        ''Usage: mv [OPTIONS] SOURCE DEST'',
        ''   or: mv [OPTIONS] SOURCE... DIRECTORY'',
        [],
        ''Rename SOURCE to DEST, or move SOURCE(s) to DIRECTORY'',
        [],
        tab @ ''-f'' @ tab @ ''Don'' @ [CHR 0x27] @ ''t prompt before overwriting'',
        tab @ ''-i'' @ tab @ ''Interactive, prompt before overwrite'']),
     (''rm'', join newline_str [
        ''Usage: rm [OPTIONS] FILE...'',
        [],
        ''Remove (unlink) FILEs'',
        [],
        tab @ ''-i'' @ tab @ ''Always prompt before removing'',
        tab @ ''-f'' @ tab @ ''Never prompt'',
        tab @ ''-R,-r'' @ tab @ ''Recurse'']),
     (''cat'', join newline_str [
        ''Usage: cat [-u] [FILE]...'',
        [],
        ''Concatenate FILEs and print them to stdout'',
        [],
        tab @ ''-u'' @ tab @ ''Use unbuffered I/O (ignored)'']),
     (''echo'', join newline_str [
        ''Usage: echo [-neE] [ARG]...'',
        [],
        ''Print the specified ARGs to stdout'',
        [],
        tab @ ''-n'' @ tab @ ''Suppress trailing newline'',
        tab @ ''-e'' @ tab @ ''Interpret backslash escapes (i.e., '' @ [CHR 0x5C] @ ''t=tab)'',
        tab @ ''-E'' @ tab @ ''Don'' @ [CHR 0x27] @ ''t interpret backslash escapes (default)'']),
     (''mkdir'', join newline_str [
        ''Usage: mkdir [OPTIONS] DIRECTORY...'',
        [],
        ''Create DIRECTORY'',
        [],
        tab @ ''-m MODE'' @ tab @ ''Mode'',
        tab @ ''-p'' @ tab @ ''No error if exists; make parent directories as needed'']),
     (''touch'', join newline_str [
        ''Usage: touch [-c] [-d DATE] FILE...'',
        [],
        ''Update the last-modified date on FILEs'',
        [],
        tab @ ''-c'' @ tab @ ''Do not create files'',
        tab @ ''-d DT'' @ tab @ ''Date/time to use'']),
     (''ps'', join newline_str [
        ''Usage: ps'',
        [],
        ''Show list of processes'',
        [],
        tab @ ''-o COL1,COL2=HEADER'' @ tab @ ''Select columns for display'',
        tab @ ''-T'' @ tab @ ''Show threads'']),
     (''chmod'', join newline_str [
        ''Usage: chmod [-Rcvf] MODE[,MODE]... FILE...'',
        [],
        ''Each MODE is one or more of the letters ugoa, one of the'',
        ''symbols +-= and one or more of the letters rwxXst'',
        [],
        tab @ ''-R'' @ tab @ ''Recurse'',
        tab @ ''-c'' @ tab @ ''List changed files'',
        tab @ ''-v'' @ tab @ ''List all files'',
        tab @ ''-f'' @ tab @ ''Hide errors'']),
     (''grep'', join newline_str [
        ''Usage: grep [-HhrilLnqvsoweFEABCz] PATTERN [FILE]...'',
        [],
        ''Search for PATTERN in FILEs (or stdin)'',
        [],
        tab @ ''-H'' @ tab @ ''Add '' @ [CHR 0x27] @ ''filename:'' @ [CHR 0x27] @ '' prefix'',
        tab @ ''-h'' @ tab @ ''Do not add '' @ [CHR 0x27] @ ''filename:'' @ [CHR 0x27] @ '' prefix'',
        tab @ ''-r'' @ tab @ ''Recurse'',
        tab @ ''-i'' @ tab @ ''Ignore case'',
        tab @ ''-l'' @ tab @ ''Show only names of files that match'',
        tab @ ''-L'' @ tab @ ''Show only names of files that don'' @ [CHR 0x27] @ ''t match'',
        tab @ ''-n'' @ tab @ ''Print line number with output lines'',
        tab @ ''-q'' @ tab @ ''Don'' @ [CHR 0x27] @ ''t print anything, return 0 if PATTERN is found'',
        tab @ ''-v'' @ tab @ ''Select non-matching lines'',
        tab @ ''-s'' @ tab @ ''Suppress open and read errors'',
        tab @ ''-o'' @ tab @ ''Show only the matching part of the line'',
        tab @ ''-c'' @ tab @ ''Show only count of matching lines'',
        tab @ ''-w'' @ tab @ ''Match whole words only'',
        tab @ ''-e PTRN'' @ tab @ ''Pattern to match'',
        tab @ ''-A N'' @ tab @ ''Print N lines of trailing context'',
        tab @ ''-B N'' @ tab @ ''Print N lines of leading context'']),
     (''sed'', join newline_str [
        ''Usage: sed [-inrzE] [-f FILE]... [-e CMD]... [FILE]...'',
        [],
        tab @ ''-e CMD'' @ tab @ ''Add CMD to sed commands to be executed'',
        tab @ ''-f FILE'' @ tab @ ''Add FILE contents to sed commands to be executed'',
        tab @ ''-i'' @ tab @ ''Edit files in-place (else write to stdout)'',
        tab @ ''-n'' @ tab @ ''Suppress automatic printing of pattern space'',
        tab @ ''-r,-E'' @ tab @ ''Use extended regex syntax'',
        [],
        ''If no -e or -f, the first non-option argument is the sed command''])]"

definition help_system :: "(string \<times> string) list" where
  "help_system =
    [(''awk'', join newline_str [
        ''Usage: awk [OPTIONS] [AWK_PROGRAM] [FILE]...'',
        [],
        tab @ ''-v VAR=VAL'' @ tab @ ''Set variable'',
        tab @ ''-F SEP'' @ tab @ ''Use SEP as field separator'',
        tab @ ''-f FILE'' @ tab @ ''Read program from FILE'']),
     (''ifconfig'', join newline_str [
        ''Usage: ifconfig [-a] interface [address]'',
        [],
        ''Configure a network interface'',
        [],
        tab @ ''[[-]broadcast [ADDRESS]] [[-]pointopoint [ADDRESS]]'',
        tab @ ''[netmask ADDRESS] [dstaddr ADDRESS]'',
        tab @ ''[outfill NN] [keepalive NN]'',
        tab @ ''[hw ether|infiniband ADDRESS] [metric NN] [mtu NN]'',
        tab @ ''[[-]trailers] [[-]arp] [[-]allmulti]'',
        tab @ ''[multicast] [[-]promisc] [txqueuelen NN] [[-]dynamic]'',
        tab @ ''[mem_start NN] [io_addr NN] [irq NN]'',
        tab @ ''[up|down] ...'']),
     (''ping'', join newline_str [
        ''Usage: ping [OPTIONS] HOST'',
        [],
        ''Send ICMP ECHO_REQUEST packets to network hosts'',
        [],
        tab @ ''-4,-6'' @ tab @ ''Force IP or IPv6 name resolution'',
        tab @ ''-c CNT'' @ tab @ ''Send only CNT pings'',
        tab @ ''-s SIZE'' @ tab @ ''Send SIZE data bytes in packets (default 56)'',
        tab @ ''-I IFACE/IP'' @ tab @ ''Use interface or IP address as source'',
        tab @ ''-W SEC'' @ tab @ ''Seconds to wait for the first response'',
        tab @ ''-w SEC'' @ tab @ ''Seconds until ping exits'',
        tab @ ''-q'' @ tab @ ''Quiet, only displays output at start and when finished'']),
     (''top'', join newline_str [
        ''Usage: top [-b] [-nCOUNT] [-dSECONDS] [-m]'',
        [],
        ''Provide a view of process activity in real time.'',
        ''Read the status of all processes from /proc each SECONDS'',
        ''and display a screenful of them.'',
        [],
        tab @ ''-b'' @ tab @ ''Run in batch mode'',
        tab @ ''-n COUNT'' @ tab @ ''Exit after COUNT iterations'',
        tab @ ''-d SECONDS'' @ tab @ ''Delay between updates'',
        tab @ ''-m'' @ tab @ ''Same as top -m'']),
     (''vi'', join newline_str [
        ''Usage: vi [OPTIONS] [FILE]...'',
        [],
        ''Edit FILE'',
        [],
        tab @ ''-c CMD'' @ tab @ ''Initial command to run ($EXINIT and .exrc are disabled)'',
        tab @ ''-H'' @ tab @ ''Long help message'',
        tab @ ''-R'' @ tab @ ''Read-only - do not write to the files'',
        tab @ ''-s'' @ tab @ ''Script mode (skip initialization)'']),
     (''mount'', join newline_str [
        ''Usage: mount [flags] DEVICE NODE [-o OPT,OPT]'',
        [],
        ''Mount a filesystem. Filesystem autodetection requires /proc.'',
        [],
        tab @ ''-a'' @ tab @ ''Mount all filesystems in fstab'',
        tab @ ''-f'' @ tab @ ''Dry run'',
        tab @ ''-i'' @ tab @ ''Don'' @ [CHR 0x27] @ ''t run mount helper'',
        tab @ ''-r'' @ tab @ ''Read-only mount'',
        tab @ ''-w'' @ tab @ ''Read-write mount (default)'',
        tab @ ''-t FSTYPE'' @ tab @ ''Filesystem type'',
        tab @ ''-O OPT'' @ tab @ ''Mount only filesystems with option OPT (with -a)'']),
     (''ip'', join newline_str [
        ''Usage: ip [OPTIONS] {address | route | link | tunnel | rule} {COMMAND}'',
        [],
        tab @ ''-f[amily] {inet|inet6|link}'' @ tab @ ''Select address family'',
        tab @ ''-o[neline]'' @ tab @ ''Output each record on a single line'']),
     (''uname'', join newline_str [
        ''Usage: uname [-amnrsvp]'',
        [],
        ''Print system information'',
        [],
        tab @ ''-a'' @ tab @ ''Print all'',
        tab @ ''-m'' @ tab @ ''The machine (hardware) type'',
        tab @ ''-n'' @ tab @ ''Hostname'',
        tab @ ''-r'' @ tab @ ''Kernel release'',
        tab @ ''-s'' @ tab @ ''Kernel name (default)'',
        tab @ ''-v'' @ tab @ ''Kernel version'',
        tab @ ''-p'' @ tab @ ''Processor type'']),
     (''whoami'', join newline_str [
        ''Usage: whoami'',
        [],
        ''Print the user name associated with the current effective user ID'']),
     (''id'', join newline_str [
        ''Usage: id [OPTIONS] [USER]'',
        [],
        ''Print information about USER or the current user'',
        [],
        tab @ ''-u'' @ tab @ ''Print user ID'',
        tab @ ''-g'' @ tab @ ''Print group ID'',
        tab @ ''-G'' @ tab @ ''Print supplementary group IDs'',
        tab @ ''-n'' @ tab @ ''Print name instead of number'',
        tab @ ''-r'' @ tab @ ''Print real ID instead of effective ID'']),
     (''df'', join newline_str [
        ''Usage: df [-Pkmhai] [-B SIZE] [FILESYSTEM]...'',
        [],
        ''Print filesystem usage statistics'',
        [],
        tab @ ''-P'' @ tab @ ''POSIX output format'',
        tab @ ''-k'' @ tab @ ''1024-byte blocks (default)'',
        tab @ ''-m'' @ tab @ ''1M-byte blocks'',
        tab @ ''-h'' @ tab @ ''Human readable (e.g. 1K 243M 2G)'',
        tab @ ''-a'' @ tab @ ''Show all filesystems'',
        tab @ ''-i'' @ tab @ ''Inode information'',
        tab @ ''-B SIZE'' @ tab @ ''Blocksize'']),
     (''free'', join newline_str [
        ''Usage: free'',
        [],
        ''Display the amount of free and used system memory'']),
     (''pwd'', join newline_str [
        ''Usage: pwd'',
        [],
        ''Print the full filename of the current working directory'']),
     (''wget'', join newline_str [
        ''Usage: wget [-c|--continue] [--spider] [-q|--quiet]'',
        tab @ ''[-O|--output-document FILE] [--header '' @ [CHR 0x27] @ ''header: value'' @ [CHR 0x27] @ '']'',
        tab @ ''[-Y|--proxy on/off] [-P DIR] [-U|--user-agent AGENT]'',
        tab @ ''[-T SEC] URL...'',
        [],
        ''Retrieve files via HTTP or FTP'',
        [],
        tab @ ''-s'' @ tab @ ''Spider mode - only check file existence'',
        tab @ ''-c'' @ tab @ ''Continue retrieval of aborted transfer'',
        tab @ ''-q'' @ tab @ ''Quiet'',
        tab @ ''-P DIR'' @ tab @ ''Save to DIR (default cwd)'',
        tab @ ''-O FILE'' @ tab @ ''Save to FILE ('' @ [CHR 0x27] @ ''-'' @ [CHR 0x27] @ '' for stdout)'',
        tab @ ''-T SEC'' @ tab @ ''Network read timeout is SEC seconds'',
        tab @ ''-U STR'' @ tab @ ''Use STR for User-Agent header'',
        tab @ ''--no-check-certificate'' @ tab @ ''Don'' @ [CHR 0x27] @ ''t validate the server'' @ [CHR 0x27] @ ''s certificate''])]"

definition help_text :: "string \<rightharpoonup> string" where
  "help_text = map_of (help_files @ help_system)"

end
