(* ===== verification/Persona.thy ===== *)
theory Persona
  imports Elf Help_Text
begin

section \<open>The fake device: persona and system state\<close>

text \<open>
  \<open>honeypot/shell/persona.py\<close> (what the configuration renders to) and
  \<open>honeypot/shell/sysstate.py\<close> (the numbers that drift). The clock and the pseudo-random generator
  are not code of the repository: what the renderers draw from them is a \<open>reading\<close>, and the bounds
  the drawing code gives are \<open>reading_ok\<close>. The floats that are printed with one or two decimals
  are kept as tenths and hundredths.
\<close>

record persona =
  p_arch :: arch
  p_hostname :: string
  p_kernel_version :: string
  p_isa :: string
  p_uarch :: string
  p_mmu :: string
  p_hart_count :: nat
  p_os_release_name :: string
  p_os_release_version :: string
  p_ssh_banner :: string
  p_telnet_banner :: string

definition busybox_applets :: "string list" where
  "busybox_applets =
    [''sh'', ''ash'', ''cat'', ''ls'', ''cp'', ''mv'', ''rm'', ''mkdir'', ''touch'', ''echo'',
     ''ps'', ''wget'', ''tftp'', ''chmod'', ''grep'', ''sed'', ''awk'', ''ifconfig'', ''ping'',
     ''top'', ''vi'', ''reboot'', ''mount'', ''ip'']"

definition bin_listing :: "string list" where
  "bin_listing = sort (remdups busybox_applets)"

definition uname_m :: "persona \<Rightarrow> string" where
  "uname_m p = (if p_arch p = Riscv64 then ''riscv64'' else ''riscv32'')"

definition uname_a :: "persona \<Rightarrow> string" where
  "uname_a p =
     (let machine = (if p_arch p = Riscv64 then ''riscv64'' else ''riscv32'')
      in ''Linux '' @ p_hostname p @ '' '' @ p_kernel_version p @ '' ''
         @ [CHR 0x23] @ ''1 SMP PREEMPT '' @ machine @ '' GNU/Linux'')"

definition proc_cpuinfo :: "persona \<Rightarrow> string" where
  "proc_cpuinfo p =
     join newline_str
       (map (\<lambda>hart.
          ''processor'' @ tab @ '': '' @ digits_of hart @ newline_str
          @ ''hart'' @ tab @ tab @ '': '' @ digits_of hart @ newline_str
          @ ''isa'' @ tab @ tab @ '': '' @ p_isa p @ newline_str
          @ ''mmu'' @ tab @ tab @ '': '' @ p_mmu p @ newline_str
          @ ''uarch'' @ tab @ tab @ '': '' @ p_uarch p @ newline_str) [0..<p_hart_count p])"

definition proc_version :: "persona \<Rightarrow> string" where
  "proc_version p =
     ''Linux version '' @ p_kernel_version p @ '' (buildroot@buildroot) (gcc version 10.3.0) ''
     @ ''#1 SMP PREEMPT''"

definition quoted :: "string \<Rightarrow> string" where
  "quoted s = [CHR 0x22] @ s @ [CHR 0x22]"

definition etc_os_release :: "persona \<Rightarrow> string" where
  "etc_os_release p =
     ''NAME='' @ quoted (p_os_release_name p) @ newline_str
     @ ''VERSION='' @ quoted (p_os_release_version p) @ newline_str
     @ ''ID='' @ lower (p_os_release_name p) @ newline_str
     @ ''VERSION_ID='' @ quoted (p_os_release_version p) @ newline_str
     @ ''PRETTY_NAME='' @ quoted (p_os_release_name p @ '' '' @ p_os_release_version p) @ newline_str"

definition etc_issue :: "persona \<Rightarrow> string" where
  "etc_issue p =
     (let ls = splitlines (p_telnet_banner p);
          ls' = (if ls \<noteq> [] \<and> lower (rstrip_char (CHR '':'') (strip (last ls))) = ''login''
                 then butlast ls else ls)
      in join newline_str ls' @ newline_str)"

subsection \<open>Readings of the clock and the generator\<close>

record reading =
  rd_uptime :: nat
  rd_idle :: nat
  rd_load :: "nat \<times> nat \<times> nat"
  rd_used_kb :: nat
  rd_usr :: nat
  rd_sys :: nat
  rd_rx_packets :: nat
  rd_rx_size :: nat
  rd_tx_packets :: nat
  rd_tx_size :: nat

text \<open>
  \<open>uniform(0.16, 0.24)\<close> of 256000 KB; \<open>uniform(0.5, 4.0)\<close> and \<open>uniform(0.3, 2.5)\<close> percent;
  \<open>randint(350, 850)\<close> and \<open>randint(250, 650)\<close> bytes per packet.
\<close>

definition total_kb :: nat where
  "total_kb = 256000"

definition reading_ok :: "reading \<Rightarrow> bool" where
  "reading_ok r \<longleftrightarrow>
     40960 \<le> rd_used_kb r \<and> rd_used_kb r \<le> 61440
     \<and> 5 \<le> rd_usr r \<and> rd_usr r \<le> 40 \<and> 3 \<le> rd_sys r \<and> rd_sys r \<le> 25
     \<and> 350 \<le> rd_rx_size r \<and> rd_rx_size r \<le> 850 \<and> 250 \<le> rd_tx_size r \<and> rd_tx_size r \<le> 650"

definition memory_kb :: "reading \<Rightarrow> nat \<times> nat \<times> nat" where
  "memory_kb r = (total_kb, rd_used_kb r, total_kb - rd_used_kb r)"

definition cpu_percentages :: "reading \<Rightarrow> nat \<times> nat \<times> nat" where
  "cpu_percentages r = (rd_usr r, rd_sys r, 1000 - rd_usr r - rd_sys r)"

record counters =
  rx_packets :: nat
  tx_packets :: nat
  rx_bytes :: nat
  tx_bytes :: nat

definition network_counters :: "reading \<Rightarrow> counters" where
  "network_counters r =
     \<lparr>rx_packets = rd_rx_packets r, tx_packets = rd_tx_packets r,
      rx_bytes = rd_rx_packets r * rd_rx_size r, tx_bytes = rd_tx_packets r * rd_tx_size r\<rparr>"

text \<open>Printing with one and two decimals; a quotient is rounded to the nearest, ties to even.\<close>

definition fixed1 :: "nat \<Rightarrow> string" where
  "fixed1 n = digits_of (n div 10) @ ''.'' @ digits_of (n mod 10)"

definition fixed2 :: "nat \<Rightarrow> string" where
  "fixed2 n = digits_of (n div 100) @ ''.'' @ digits_of (n mod 100 div 10) @ digits_of (n mod 10)"

definition round_half_even :: "nat \<Rightarrow> nat \<Rightarrow> nat" where
  "round_half_even a b =
     (let q = a div b; r = a mod b
      in if 2 * r < b then q else if 2 * r > b then q + 1 else if even q then q else q + 1)"

definition format_bytes_human :: "nat \<Rightarrow> string" where
  "format_bytes_human n =
     (if n \<ge> 1048576 then fixed1 (round_half_even (10 * n) 1048576) @ '' MiB''
      else fixed1 (round_half_even (10 * n) 1024) @ '' KiB'')"

definition uptime_line :: "reading \<Rightarrow> string" where
  "uptime_line r = fixed2 (rd_uptime r) @ '' '' @ fixed2 (rd_idle r) @ newline_str"

definition loadavg_line :: "nat \<Rightarrow> reading \<Rightarrow> string" where
  "loadavg_line hart_count r =
     (case rd_load r of (one, five, fifteen) \<Rightarrow>
        fixed2 one @ '' '' @ fixed2 five @ '' '' @ fixed2 fifteen
        @ '' 1/'' @ digits_of (85 + hart_count) @ '' 1234'' @ newline_str)"

text \<open>The persona of \<open>configs/riscv32.yaml\<close>, for concrete runs.\<close>

definition openwrt_persona :: persona where
  "openwrt_persona =
     \<lparr>p_arch = Riscv32, p_hostname = ''openwrt'', p_kernel_version = ''5.4.61'',
      p_isa = ''rv32imafdc'', p_uarch = ''allwinner,d1'', p_mmu = ''none'', p_hart_count = 1,
      p_os_release_name = ''OpenWrt'', p_os_release_version = ''21.02'',
      p_ssh_banner = ''Allwinner D1 RISC-V Linux (OpenWrt)'',
      p_telnet_banner = ''Allwinner D1 RISC-V Linux (OpenWrt)'' @ newline_str @ ''login: '' @ newline_str\<rparr>"

subsection \<open>Facts\<close>

lemma set_bin_listing: "set bin_listing = set busybox_applets"
  by (simp add: bin_listing_def)

lemma distinct_bin_listing: "distinct bin_listing"
  by (simp add: bin_listing_def)

lemma round_half_even_close:
  assumes "0 < b"
  shows "2 * a \<le> 2 * (round_half_even a b * b) + b" and "2 * (round_half_even a b * b) \<le> 2 * a + b"
proof -
  have eq: "a = a div b * b + a mod b" by simp
  have lt: "a mod b < b" using assms by simp
  define q where "q = a div b"
  define r where "r = a mod b"
  have a: "a = q * b + r" and r: "r < b" using eq lt by (simp_all add: q_def r_def)
  show "2 * a \<le> 2 * (round_half_even a b * b) + b" and "2 * (round_half_even a b * b) \<le> 2 * a + b"
    using r unfolding round_half_even_def Let_def q_def [symmetric] r_def [symmetric]
    by (auto simp: a algebra_simps)
qed

text \<open>
  The memory and CPU figures are consistent on every call: used and free add up to the total,
  the three CPU shares to 100 percent, with the margins the drawing bounds give; so \<open>free\<close> and
  \<open>top\<close> never show a negative or an overflowing column.
\<close>

theorem system_figures_consistent:
  assumes "reading_ok r"
  shows "(case memory_kb r of (tot, used, avail) \<Rightarrow>
           used + avail = tot \<and> 40960 \<le> used \<and> used < avail)
    \<and> (case cpu_percentages r of (usr, sysp, idle) \<Rightarrow> usr + sysp + idle = 1000 \<and> 935 \<le> idle)"
  using assms by (auto simp: reading_ok_def memory_kb_def cpu_percentages_def total_kb_def)

lemma system_figures_consistent_witness:
  "case memory_kb \<lparr>rd_uptime = 0, rd_idle = 0, rd_load = (3, 2, 1), rd_used_kb = 50000, rd_usr = 5,
      rd_sys = 3, rd_rx_packets = 0, rd_rx_size = 350, rd_tx_packets = 0, rd_tx_size = 250\<rparr> of
     (tot, used, avail) \<Rightarrow> used + avail = tot \<and> used < avail"
  using system_figures_consistent [of "\<lparr>rd_uptime = 0, rd_idle = 0, rd_load = (3, 2, 1),
      rd_used_kb = 50000, rd_usr = 5, rd_sys = 3, rd_rx_packets = 0, rd_rx_size = 350,
      rd_tx_packets = 0, rd_tx_size = 250\<rparr>"]
  by (simp add: reading_ok_def memory_kb_def)

end
