(* ===== verification/Fake_FS.thy ===== *)
theory Fake_FS
  imports Persona
begin

section \<open>The fake filesystem\<close>

text \<open>
  \<open>honeypot/shell/filesystem.py\<close>. A \<open>FakeDir\<close> is a mutable object that several names can come to
  share (\<open>mv\<close> re-parents the object itself), so directories live in an explicit store: a list of
  entry dicts, addressed by position, with the root at address 0. Files, symlinks and dynamic
  files are never mutated in place; they are values. Nothing is freed: an address that no path
  reaches is not observable.
\<close>

subsection \<open>State\<close>

datatype dynamic = Uptime_File | Loadavg_File

datatype node = Dir nat | File string "nat option" | Link string | Dyn dynamic

type_synonym entries = "(string \<times> node) list"

record fakefs =
  fs_dirs :: "entries list"
  fs_cwd :: "string list"
  fs_persona :: persona

definition entries_of :: "fakefs \<Rightarrow> nat \<Rightarrow> entries" where
  "entries_of fs a = (if a < length (fs_dirs fs) then fs_dirs fs ! a else [])"

definition set_entry :: "nat \<Rightarrow> string \<Rightarrow> node \<Rightarrow> fakefs \<Rightarrow> fakefs" where
  "set_entry a k n fs = fs\<lparr>fs_dirs := (fs_dirs fs)[a := AList.update k n (entries_of fs a)]\<rparr>"

definition del_entry :: "nat \<Rightarrow> string \<Rightarrow> fakefs \<Rightarrow> fakefs" where
  "del_entry a k fs = fs\<lparr>fs_dirs := (fs_dirs fs)[a := AList.delete k (entries_of fs a)]\<rparr>"

text \<open>\<open>FakeDir()\<close>: a new empty directory at the next address.\<close>

definition new_dir :: "fakefs \<Rightarrow> nat \<times> fakefs" where
  "new_dir fs = (length (fs_dirs fs), fs\<lparr>fs_dirs := fs_dirs fs @ [[]]\<rparr>)"

fun is_dir_node :: "node \<Rightarrow> bool" where
  "is_dir_node (Dir _) = True"
| "is_dir_node _ = False"

subsection \<open>Paths\<close>

definition resolve_part :: "string list \<Rightarrow> string \<Rightarrow> string list" where
  "resolve_part base part =
     (if part \<in> set ['''', ''.''] then base
      else if part = ''..'' then
        (if length base > 1 \<or> (base \<noteq> [] \<and> base \<noteq> [''root''])
         then (if base \<noteq> [''root''] then butlast base else base) else base)
      else base @ [part])"

definition resolve :: "fakefs \<Rightarrow> string \<Rightarrow> string list" where
  "resolve fs p =
     (let (base, parts) =
            (if startswith p ''/''
             then (if p \<in> set ['''', ''/''] then [''root''] else [],
                   split_char (CHR ''/'') (strip_char (CHR ''/'') p))
             else (fs_cwd fs, split_char (CHR ''/'') p));
          r = foldl resolve_part base parts
      in if r = [] then [''root''] else r)"

fun lookup_from :: "fakefs \<Rightarrow> node \<Rightarrow> string list \<Rightarrow> node option" where
  "lookup_from fs n [] = Some n"
| "lookup_from fs n (p # ps) =
     (if p = ''root'' then lookup_from fs n ps
      else case n of
             Dir a \<Rightarrow> (case map_of (entries_of fs a) p of None \<Rightarrow> None | Some m \<Rightarrow> lookup_from fs m ps)
           | _ \<Rightarrow> None)"

definition lookup :: "fakefs \<Rightarrow> string list \<Rightarrow> node option" where
  "lookup fs parts = lookup_from fs (Dir 0) parts"

text \<open>The symlink loop, with the hops it has left.\<close>

fun follow :: "fakefs \<Rightarrow> nat \<Rightarrow> node option \<Rightarrow> string list \<Rightarrow> node option" where
  "follow fs (Suc hops) (Some (Link t)) parent =
     follow fs hops
       (case lookup fs parent of Some (Dir a) \<Rightarrow> map_of (entries_of fs a) t | _ \<Rightarrow> None) parent"
| "follow fs hops n parent = n"

definition resolve_symlink :: "fakefs \<Rightarrow> node option \<Rightarrow> string list \<Rightarrow> node option" where
  "resolve_symlink fs n parent = follow fs 8 n parent"

subsection \<open>Operations\<close>

definition cwd_display :: "fakefs \<Rightarrow> string" where
  "cwd_display fs =
     (if fs_cwd fs = [''root''] then ''/''
      else ''/'' @ join ''/'' (filter (\<lambda>p. p \<noteq> ''root'') (fs_cwd fs)))"

definition chdir :: "string \<Rightarrow> fakefs \<Rightarrow> string option \<times> fakefs" where
  "chdir p fs =
     (let target = resolve fs p
      in case lookup fs target of
           Some (Dir _) \<Rightarrow> (None, fs\<lparr>fs_cwd := target\<rparr>)
         | None \<Rightarrow> (Some (''sh: cd: '' @ p @ '': No such file or directory''), fs)
         | Some _ \<Rightarrow> (Some (''sh: cd: '' @ p @ '': Not a directory''), fs))"

text \<open>A missing path argument prints as \<open>None\<close> in the f-strings of the listings.\<close>

definition show_opt :: "string option \<Rightarrow> string" where
  "show_opt p = (case p of None \<Rightarrow> ''None'' | Some s \<Rightarrow> s)"

definition opt_target :: "fakefs \<Rightarrow> string option \<Rightarrow> string list" where
  "opt_target fs p = (case p of Some (c # cs) \<Rightarrow> resolve fs (c # cs) | _ \<Rightarrow> fs_cwd fs)"

definition listdir :: "string option \<Rightarrow> fakefs \<Rightarrow> string + string list" where
  "listdir p fs =
     (case lookup fs (opt_target fs p) of
        Some (Dir a) \<Rightarrow> Inr (sort (map fst (entries_of fs a)))
      | None \<Rightarrow> Inl (''ls: '' @ show_opt p @ '': No such file or directory'')
      | Some _ \<Rightarrow> Inr [case p of None \<Rightarrow> [] | Some s \<Rightarrow> s])"

definition listdir_nodes :: "string option \<Rightarrow> fakefs \<Rightarrow> string + entries" where
  "listdir_nodes p fs =
     (case lookup fs (opt_target fs p) of
        Some (Dir a) \<Rightarrow> Inr (entries_of fs a)
      | None \<Rightarrow> Inl (''ls: '' @ show_opt p @ '': No such file or directory'')
      | Some n \<Rightarrow> Inr [(case p of None \<Rightarrow> [] | Some s \<Rightarrow> s, n)])"

definition generate :: "persona \<Rightarrow> reading \<Rightarrow> dynamic \<Rightarrow> string" where
  "generate p r d =
     (case d of Uptime_File \<Rightarrow> uptime_line r | Loadavg_File \<Rightarrow> loadavg_line (p_hart_count p) r)"

definition read_file :: "reading \<Rightarrow> fakefs \<Rightarrow> string \<Rightarrow> string option" where
  "read_file r fs p =
     (let target = resolve fs p
      in case resolve_symlink fs (lookup fs target) (butlast target) of
           Some (Dyn d) \<Rightarrow> Some (generate (fs_persona fs) r d)
         | Some (File content _) \<Rightarrow> Some content
         | _ \<Rightarrow> None)"

definition write_file :: "string \<Rightarrow> string \<Rightarrow> fakefs \<Rightarrow> fakefs" where
  "write_file p content fs =
     (let target = resolve fs p
      in case lookup fs (butlast target) of
           Some (Dir a) \<Rightarrow> set_entry a (last target) (File content None) fs
         | _ \<Rightarrow> fs)"

definition make_dir :: "string \<Rightarrow> fakefs \<Rightarrow> fakefs" where
  "make_dir p fs =
     (let target = resolve fs p
      in case lookup fs (butlast target) of
           Some (Dir a) \<Rightarrow>
             (if map_of (entries_of fs a) (last target) = None
              then (let (b, fs') = new_dir fs in set_entry a (last target) (Dir b) fs')
              else fs)
         | _ \<Rightarrow> fs)"

definition remove :: "string \<Rightarrow> fakefs \<Rightarrow> fakefs" where
  "remove p fs =
     (let target = resolve fs p
      in case lookup fs (butlast target) of
           Some (Dir a) \<Rightarrow> del_entry a (last target) fs
         | _ \<Rightarrow> fs)"

definition exists_path :: "fakefs \<Rightarrow> string \<Rightarrow> bool" where
  "exists_path fs p \<longleftrightarrow> lookup fs (resolve fs p) \<noteq> None"

definition is_dir :: "fakefs \<Rightarrow> string \<Rightarrow> bool" where
  "is_dir fs p \<longleftrightarrow> (case lookup fs (resolve fs p) of Some (Dir _) \<Rightarrow> True | _ \<Rightarrow> False)"

text \<open>
  \<open>deepcopy(node)\<close> copies the object graph under \<open>node\<close>, sharing and cycles included. Copying the
  whole store, with every address moved up by its size, makes the same graph at the moved address;
  the copies of directories outside the graph are unreachable.
\<close>

fun shift_node :: "nat \<Rightarrow> node \<Rightarrow> node" where
  "shift_node k (Dir a) = Dir (a + k)"
| "shift_node k n = n"

definition shift_entries :: "nat \<Rightarrow> entries \<Rightarrow> entries" where
  "shift_entries k es = map (\<lambda>(name, n). (name, shift_node k n)) es"

definition clone_graph :: "node \<Rightarrow> fakefs \<Rightarrow> node \<times> fakefs" where
  "clone_graph n fs =
     (if is_dir_node n
      then (shift_node (length (fs_dirs fs)) n,
            fs\<lparr>fs_dirs := fs_dirs fs @ map (shift_entries (length (fs_dirs fs))) (fs_dirs fs)\<rparr>)
      else (n, fs))"

text \<open>
  \<open>copy.deepcopy\<close> is recursive, and CPython bounds the depth of calls. One node takes six frames
  (\<open>deepcopy\<close>, \<open>_reconstruct\<close>, and \<open>deepcopy\<close> and \<open>_deepcopy_dict\<close> for the attribute dict and again for
  what it holds), a directory's entries are copied from the innermost of them, a key takes two frames
  and an object that the memo holds one. \<open>frames\<close> is what the interpreter has left; the result is
  the memo's directories, or \<open>None\<close> when the depth is exceeded.
\<close>

definition copy_frames :: nat where
  "copy_frames = 6"

function copy_walk :: "nat \<Rightarrow> fakefs \<Rightarrow> entries \<Rightarrow> nat list \<Rightarrow> nat list option" where
  "copy_walk frames fs [] seen = Some seen"
| "copy_walk frames fs ((name, n) # es) seen =
     (if frames < 2 then None
      else case n of
             Dir a \<Rightarrow>
               (if a \<in> set seen then copy_walk frames fs es seen
                else if frames < copy_frames then None
                else case copy_walk (frames - copy_frames) fs (entries_of fs a) (a # seen) of
                       None \<Rightarrow> None
                     | Some seen' \<Rightarrow> copy_walk frames fs es seen')
           | _ \<Rightarrow> if frames < copy_frames then None else copy_walk frames fs es seen)"
  by pat_completeness auto
termination
  by (relation "measures [\<lambda>(frames, fs, es, seen). frames, \<lambda>(frames, fs, es, seen). length es]")
    (auto simp: copy_frames_def)

definition copy_fits :: "nat \<Rightarrow> node \<Rightarrow> fakefs \<Rightarrow> bool" where
  "copy_fits frames n fs \<longleftrightarrow>
     copy_frames \<le> frames
     \<and> (case n of
          Dir a \<Rightarrow> copy_walk (frames - copy_frames) fs (entries_of fs a) [a] \<noteq> None
        | _ \<Rightarrow> True)"

definition deepcopy :: "nat \<Rightarrow> node \<Rightarrow> fakefs \<Rightarrow> (node \<times> fakefs) result" where
  "deepcopy frames n fs = (if copy_fits frames n fs then Inr (clone_graph n fs) else Inl RecursionError)"

text \<open>\<open>entries[k] = deepcopy(node)\<close>: the copy is made before the entry is written.\<close>

definition copy_to :: "nat \<Rightarrow> nat \<Rightarrow> string \<Rightarrow> node \<Rightarrow> fakefs \<Rightarrow> string option result \<times> fakefs" where
  "copy_to frames d k n fs =
     (case deepcopy frames n fs of
        Inl e \<Rightarrow> (Inl e, fs)
      | Inr (m, fs') \<Rightarrow> (Inr None, set_entry d k m fs'))"

definition copy_node :: "nat \<Rightarrow> string \<Rightarrow> string \<Rightarrow> fakefs \<Rightarrow> string option result \<times> fakefs" where
  "copy_node frames src dst fs =
     (case lookup fs (resolve fs src) of
        None \<Rightarrow> (Inr (Some (''cp: cannot stat '' @ [CHR 0x27] @ src @ [CHR 0x27]
                     @ '': No such file or directory'')), fs)
      | Some n \<Rightarrow>
          (let dst_parts = resolve fs dst
           in case lookup fs dst_parts of
                Some (Dir d) \<Rightarrow> copy_to frames d (last (resolve fs src)) n fs
              | _ \<Rightarrow>
                  (case lookup fs (butlast dst_parts) of
                     Some (Dir a) \<Rightarrow> copy_to frames a (last dst_parts) n fs
                   | _ \<Rightarrow> (Inr (Some (''cp: cannot create '' @ [CHR 0x27] @ dst @ [CHR 0x27]
                             @ '': No such file or directory'')), fs))))"

text \<open>\<open>del d[k]\<close>, which raises \<open>KeyError\<close> when the key is not there.\<close>

definition py_del :: "nat \<Rightarrow> string \<Rightarrow> fakefs \<Rightarrow> unit result \<times> fakefs" where
  "py_del a k fs =
     (if map_of (entries_of fs a) k = None then (Inl KeyError, fs) else (Inr (), del_entry a k fs))"

definition move_to :: "nat \<Rightarrow> string \<Rightarrow> node \<Rightarrow> nat \<Rightarrow> string \<Rightarrow> fakefs \<Rightarrow> string option result \<times> fakefs"
  where
  "move_to d name n src_dir src_name fs =
     (let (r, fs') = py_del src_dir src_name (set_entry d name n fs)
      in (bind_result r (\<lambda>_. Inr None), fs'))"

definition move_node :: "string \<Rightarrow> string \<Rightarrow> fakefs \<Rightarrow> string option result \<times> fakefs" where
  "move_node src dst fs =
     (let src_parts = resolve fs src
      in case (lookup fs src_parts, lookup fs (butlast src_parts)) of
           (Some n, Some (Dir s)) \<Rightarrow>
             (let dst_parts = resolve fs dst
              in case lookup fs dst_parts of
                   Some (Dir d) \<Rightarrow> move_to d (last src_parts) n s (last src_parts) fs
                 | _ \<Rightarrow>
                     (case lookup fs (butlast dst_parts) of
                        Some (Dir a) \<Rightarrow> move_to a (last dst_parts) n s (last src_parts) fs
                      | _ \<Rightarrow> (Inr (Some (''mv: can'' @ [CHR 0x27] @ ''t stat '' @ [CHR 0x27] @ dst
                                @ [CHR 0x27] @ '': No such file or directory'')), fs)))
         | _ \<Rightarrow> (Inr (Some (''mv: can'' @ [CHR 0x27] @ ''t stat '' @ [CHR 0x27] @ src
                   @ [CHR 0x27] @ '': No such file or directory'')), fs))"

subsection \<open>The seeded tree\<close>

text \<open>\<open>_mkdirs\<close> below a directory; the result is the last directory.\<close>

fun mkdirs_from :: "nat \<Rightarrow> string list \<Rightarrow> fakefs \<Rightarrow> nat \<times> fakefs" where
  "mkdirs_from a [] fs = (a, fs)"
| "mkdirs_from a (part # parts) fs =
     (case map_of (entries_of fs a) part of
        Some (Dir b) \<Rightarrow> mkdirs_from b parts fs
      | _ \<Rightarrow> (let (b, fs') = new_dir fs in mkdirs_from b parts (set_entry a part (Dir b) fs')))"

definition mkdirs :: "string list \<Rightarrow> fakefs \<Rightarrow> nat \<times> fakefs" where
  "mkdirs parts fs = mkdirs_from 0 parts fs"

definition setdefault_entry :: "nat \<Rightarrow> string \<Rightarrow> node \<Rightarrow> fakefs \<Rightarrow> fakefs" where
  "setdefault_entry a k n fs = (if map_of (entries_of fs a) k = None then set_entry a k n fs else fs)"

definition busybox_size_bytes :: nat where
  "busybox_size_bytes = 934128"

text \<open>
  \<open>sample\<close> is the garbled text shown as the content of the busybox binary; it comes out of the
  standard library's generator.
\<close>

definition seed_bin :: "string \<Rightarrow> fakefs \<Rightarrow> fakefs" where
  "seed_bin sample fs =
     (let (b, fs1) = mkdirs [''bin''] fs;
          fs2 = setdefault_entry b ''busybox'' (File sample (Some busybox_size_bytes)) fs1;
          fs3 = fold (\<lambda>applet. setdefault_entry b applet (Link ''busybox'')) bin_listing fs2
      in snd (mkdirs [''usr'', ''bin''] fs3))"

definition seed_proc :: "fakefs \<Rightarrow> fakefs" where
  "seed_proc fs =
     (let (d, fs1) = mkdirs [''proc''] fs; p = fs_persona fs
      in set_entry d ''loadavg'' (Dyn Loadavg_File)
          (set_entry d ''uptime'' (Dyn Uptime_File)
           (set_entry d ''version'' (File (proc_version p) None)
            (set_entry d ''cpuinfo'' (File (proc_cpuinfo p) None) fs1))))"

definition seed_etc :: "fakefs \<Rightarrow> fakefs" where
  "seed_etc fs =
     (let (d, fs1) = mkdirs [''etc''] fs; p = fs_persona fs
      in set_entry d ''passwd'' (File (''root:x:0:0:root:/root:/bin/sh'' @ newline_str) None)
          (set_entry d ''issue'' (File (etc_issue p) None)
           (set_entry d ''os-release'' (File (etc_os_release p) None) fs1)))"

definition seed :: "string \<Rightarrow> fakefs \<Rightarrow> fakefs" where
  "seed sample fs =
     fold (\<lambda>parts fs. snd (mkdirs parts fs)) [[''root''], [''tmp''], [''home''], [''var'', ''run'']]
       (seed_etc (seed_proc (seed_bin sample fs)))"

text \<open>Seeding does not look at the working directory, which the constructor sets last.\<close>

definition new_fs :: "string \<Rightarrow> persona \<Rightarrow> fakefs" where
  "new_fs sample p = seed sample \<lparr>fs_dirs = [[]], fs_cwd = [''root''], fs_persona = p\<rparr>"

subsection \<open>Well-formedness\<close>

text \<open>
  Every directory reference is an address of the store; the entry dicts have distinct keys that
  are proper path components; so are the components of the working directory, which is never
  empty.
\<close>

definition name_ok :: "string \<Rightarrow> bool" where
  "name_ok k \<longleftrightarrow> k \<notin> {[], ''.'', ''..''} \<and> CHR ''/'' \<notin> set k"

fun node_ok :: "nat \<Rightarrow> node \<Rightarrow> bool" where
  "node_ok k (Dir a) \<longleftrightarrow> a < k"
| "node_ok k _ \<longleftrightarrow> True"

definition entries_ok :: "nat \<Rightarrow> entries \<Rightarrow> bool" where
  "entries_ok k es \<longleftrightarrow> distinct (map fst es) \<and> (\<forall>(name, n) \<in> set es. name_ok name \<and> node_ok k n)"

definition path_ok :: "string list \<Rightarrow> bool" where
  "path_ok ps \<longleftrightarrow> ps \<noteq> [] \<and> (\<forall>p \<in> set ps. name_ok p)"

definition wf_fs :: "fakefs \<Rightarrow> bool" where
  "wf_fs fs \<longleftrightarrow> fs_dirs fs \<noteq> [] \<and> (\<forall>es \<in> set (fs_dirs fs). entries_ok (length (fs_dirs fs)) es)
     \<and> path_ok (fs_cwd fs)"

lemma node_ok_mono: "node_ok k n \<Longrightarrow> k \<le> l \<Longrightarrow> node_ok l n"
  by (cases n) auto

lemma entries_ok_mono: "entries_ok k es \<Longrightarrow> k \<le> l \<Longrightarrow> entries_ok l es"
  by (auto simp: entries_ok_def intro: node_ok_mono)

lemma entries_ok_Suc: "entries_ok k es \<Longrightarrow> entries_ok (Suc k) es"
  by (erule entries_ok_mono) simp

lemma entries_ok_Nil [simp]: "entries_ok k []"
  by (simp add: entries_ok_def)

lemma entries_ok_update:
  "entries_ok k es \<Longrightarrow> name_ok name \<Longrightarrow> node_ok k n \<Longrightarrow> entries_ok k (AList.update name n es)"
proof -
  assume es: "entries_ok k es" and n: "name_ok name" "node_ok k n"
  have "set (AList.update name n es) \<subseteq> insert (name, n) (set es)"
    by (induction es) auto
  with es n show ?thesis by (auto simp: entries_ok_def distinct_update)
qed

lemma entries_ok_delete: "entries_ok k es \<Longrightarrow> entries_ok k (AList.delete name es)"
  by (auto simp: entries_ok_def AList.delete_eq distinct_map_filter)

lemma entries_of_ok: "wf_fs fs \<Longrightarrow> entries_ok (length (fs_dirs fs)) (entries_of fs a)"
  by (auto simp: wf_fs_def entries_of_def)

lemma entries_of_node_ok:
  assumes "wf_fs fs" and "map_of (entries_of fs a) k = Some n"
  shows "node_ok (length (fs_dirs fs)) n" and "name_ok k"
  using entries_of_ok [OF assms(1), of a] map_of_SomeD [OF assms(2)] by (auto simp: entries_ok_def)

lemma set_entry_fields [simp]:
  "fs_cwd (set_entry a k n fs) = fs_cwd fs" "fs_persona (set_entry a k n fs) = fs_persona fs"
  "length (fs_dirs (set_entry a k n fs)) = length (fs_dirs fs)"
  by (simp_all add: set_entry_def)

lemma del_entry_fields [simp]:
  "fs_cwd (del_entry a k fs) = fs_cwd fs" "fs_persona (del_entry a k fs) = fs_persona fs"
  "length (fs_dirs (del_entry a k fs)) = length (fs_dirs fs)"
  by (simp_all add: del_entry_def)

lemma set_entry_wf [wf_intros]:
  assumes "wf_fs fs" and "name_ok k" and "node_ok (length (fs_dirs fs)) n"
  shows "wf_fs (set_entry a k n fs)"
proof -
  have "set ((fs_dirs fs)[a := AList.update k n (entries_of fs a)])
      \<subseteq> insert (AList.update k n (entries_of fs a)) (set (fs_dirs fs))"
    by (rule set_update_subset_insert)
  with assms entries_ok_update [OF entries_of_ok] show ?thesis
    by (auto simp: wf_fs_def set_entry_def)
qed

lemma del_entry_wf [wf_intros]:
  assumes "wf_fs fs"
  shows "wf_fs (del_entry a k fs)"
proof -
  have "set ((fs_dirs fs)[a := AList.delete k (entries_of fs a)])
      \<subseteq> insert (AList.delete k (entries_of fs a)) (set (fs_dirs fs))"
    by (rule set_update_subset_insert)
  with assms entries_ok_delete [OF entries_of_ok] show ?thesis
    by (auto simp: wf_fs_def del_entry_def)
qed

lemma new_dir_wf:
  assumes "wf_fs fs" and "new_dir fs = (b, fs')"
  shows "wf_fs fs'" and "node_ok (length (fs_dirs fs')) (Dir b)" and "b = length (fs_dirs fs)"
    and "fs_cwd fs' = fs_cwd fs" and "fs_persona fs' = fs_persona fs"
  using assms by (auto simp: new_dir_def wf_fs_def intro!: entries_ok_Suc)

lemma new_dir_entries:
  "new_dir fs = (b, fs') \<Longrightarrow> entries_of fs' a = entries_of fs a"
  by (auto simp: new_dir_def entries_of_def nth_append)

lemma entries_of_set_entry:
  "entries_of (set_entry a k n fs) b =
     (if a = b \<and> a < length (fs_dirs fs) then AList.update k n (entries_of fs a) else entries_of fs b)"
  by (simp add: entries_of_def set_entry_def)

lemma entries_of_del_entry:
  "entries_of (del_entry a k fs) b =
     (if a = b \<and> a < length (fs_dirs fs) then AList.delete k (entries_of fs a) else entries_of fs b)"
  by (simp add: entries_of_def del_entry_def)

subsubsection \<open>Paths\<close>

lemma resolve_part_ok:
  "\<forall>p \<in> set base. name_ok p \<Longrightarrow> CHR ''/'' \<notin> set part \<Longrightarrow> \<forall>p \<in> set (resolve_part base part). name_ok p"
  by (auto simp: resolve_part_def name_ok_def dest: in_set_butlastD)

lemma resolve_parts_ok:
  "\<forall>p \<in> set base. name_ok p \<Longrightarrow> \<forall>part \<in> set parts. CHR ''/'' \<notin> set part \<Longrightarrow>
   \<forall>p \<in> set (foldl resolve_part base parts). name_ok p"
proof (induction parts arbitrary: base)
  case (Cons part parts)
  then have "\<forall>p \<in> set (resolve_part base part). name_ok p" by (intro resolve_part_ok) auto
  with Cons show ?case by simp
qed simp

lemma name_ok_root [simp]: "name_ok ''root''"
  by (simp add: name_ok_def)

lemma resolve_path_ok:
  assumes "path_ok (fs_cwd fs)"
  shows "path_ok (resolve fs p)"
proof -
  obtain base parts where bp: "(if startswith p ''/''
             then (if p \<in> set [[], ''/''] then [''root''] else [],
                   split_char (CHR ''/'') (strip_char (CHR ''/'') p))
             else (fs_cwd fs, split_char (CHR ''/'') p)) = (base, parts)"
    by (metis surj_pair)
  then have "\<forall>q \<in> set base. name_ok q" using assms by (auto simp: path_ok_def split: if_splits)
  moreover have "\<forall>part \<in> set parts. CHR ''/'' \<notin> set part"
    using bp split_char_free by (auto split: if_splits)
  ultimately have "\<forall>q \<in> set (foldl resolve_part base parts). name_ok q" by (rule resolve_parts_ok)
  then show ?thesis unfolding resolve_def bp by (auto simp: path_ok_def Let_def)
qed

lemma resolve_not_Nil [simp]: "resolve fs p \<noteq> []"
  by (simp add: resolve_def Let_def split: prod.splits)

lemma resolve_last_ok: "wf_fs fs \<Longrightarrow> name_ok (last (resolve fs p))"
  using resolve_path_ok [of fs p] by (auto simp: wf_fs_def path_ok_def)

lemma lookup_from_ok:
  "wf_fs fs \<Longrightarrow> node_ok (length (fs_dirs fs)) n \<Longrightarrow> lookup_from fs n ps = Some m \<Longrightarrow>
   node_ok (length (fs_dirs fs)) m"
  by (induction fs n ps rule: lookup_from.induct)
    (auto split: if_splits node.splits option.splits dest: entries_of_node_ok)

lemma lookup_ok: "wf_fs fs \<Longrightarrow> lookup fs ps = Some m \<Longrightarrow> node_ok (length (fs_dirs fs)) m"
  unfolding lookup_def by (rule lookup_from_ok [where n = "Dir 0"]) (auto simp: wf_fs_def)

subsubsection \<open>Every operation keeps the store well formed\<close>

lemma write_file_wf [wf_intros]: "wf_fs fs \<Longrightarrow> wf_fs (write_file p c fs)"
  unfolding write_file_def Let_def
  by (auto split: option.splits node.splits intro!: set_entry_wf resolve_last_ok)

lemma remove_wf [wf_intros]: "wf_fs fs \<Longrightarrow> wf_fs (remove p fs)"
  unfolding remove_def Let_def
  by (auto split: option.splits node.splits intro!: del_entry_wf)

lemma make_dir_wf [wf_intros]: "wf_fs fs \<Longrightarrow> wf_fs (make_dir p fs)"
  unfolding make_dir_def Let_def
  by (auto split: option.splits node.splits prod.splits dest: new_dir_wf(1,2)
      intro!: set_entry_wf resolve_last_ok)

lemma chdir_wf [wf_intros]: "wf_fs fs \<Longrightarrow> wf_fs (snd (chdir p fs))"
  using resolve_path_ok [of fs p]
  by (auto simp: chdir_def Let_def wf_fs_def split: option.splits node.splits)

lemma shift_entries_ok: "entries_ok k es \<Longrightarrow> entries_ok (k + k) (shift_entries k es)"
proof -
  have "node_ok k n \<Longrightarrow> node_ok (k + k) (shift_node k n)" for n by (cases n) auto
  then show "entries_ok k es \<Longrightarrow> entries_ok (k + k) (shift_entries k es)"
    by (auto simp: entries_ok_def shift_entries_def case_prod_beta comp_def)
qed

lemma clone_graph_wf:
  assumes "wf_fs fs" and "node_ok (length (fs_dirs fs)) n" and "clone_graph n fs = (m, fs')"
  shows "wf_fs fs'" and "node_ok (length (fs_dirs fs')) m"
    and "fs_cwd fs' = fs_cwd fs" and "fs_persona fs' = fs_persona fs"
    and "length (fs_dirs fs) \<le> length (fs_dirs fs')"
proof -
  have "es \<in> set (fs_dirs fs) \<Longrightarrow> entries_ok (length (fs_dirs fs) + length (fs_dirs fs)) es" for es
    using assms(1) by (auto simp: wf_fs_def intro: entries_ok_mono)
  moreover have "es \<in> set (fs_dirs fs) \<Longrightarrow>
      entries_ok (length (fs_dirs fs) + length (fs_dirs fs)) (shift_entries (length (fs_dirs fs)) es)" for es
    using assms(1) by (intro shift_entries_ok) (auto simp: wf_fs_def)
  ultimately show "wf_fs fs'"
    using assms(1,3) by (auto simp: clone_graph_def wf_fs_def split: if_splits)
  show "node_ok (length (fs_dirs fs')) m" "fs_cwd fs' = fs_cwd fs" "fs_persona fs' = fs_persona fs"
    "length (fs_dirs fs) \<le> length (fs_dirs fs')"
    using assms(2,3) by (cases n; auto simp: clone_graph_def)+
qed

lemma deepcopy_Inr: "deepcopy frames n fs = Inr r \<longleftrightarrow> copy_fits frames n fs \<and> r = clone_graph n fs"
  by (auto simp: deepcopy_def)

text \<open>The outcomes of \<open>cp\<close>: nothing is changed, or a copy is put into a directory.\<close>

lemma copy_node_cases:
  obtains (unchanged) "snd (copy_node frames src dst fs) = fs" "fst (copy_node frames src dst fs) \<noteq> Inr None"
  | (into) n d m fs1 where "lookup fs (resolve fs src) = Some n" "lookup fs (resolve fs dst) = Some (Dir d)"
      "clone_graph n fs = (m, fs1)"
      "copy_node frames src dst fs = (Inr None, set_entry d (last (resolve fs src)) m fs1)"
  | (onto) n d m fs1 where "lookup fs (resolve fs src) = Some n"
      "\<nexists>e. lookup fs (resolve fs dst) = Some (Dir e)" "lookup fs (butlast (resolve fs dst)) = Some (Dir d)"
      "clone_graph n fs = (m, fs1)"
      "copy_node frames src dst fs = (Inr None, set_entry d (last (resolve fs dst)) m fs1)"
proof (cases "lookup fs (resolve fs src)")
  case None
  then show thesis by (intro unchanged) (simp_all add: copy_node_def)
next
  case (Some n)
  obtain m fs1 where c: "clone_graph n fs = (m, fs1)" by fastforce
  have to: "copy_to frames d k n fs = (if copy_fits frames n fs then (Inr None, set_entry d k m fs1)
      else (Inl RecursionError, fs))" for d k
    by (simp add: copy_to_def deepcopy_def c)
  show thesis
  proof (cases "\<exists>d. lookup fs (resolve fs dst) = Some (Dir d)")
    case True
    then obtain d where d: "lookup fs (resolve fs dst) = Some (Dir d)" ..
    then have "copy_node frames src dst fs = copy_to frames d (last (resolve fs src)) n fs"
      by (simp add: copy_node_def Some)
    then show thesis using into [OF Some d c] unchanged by (auto simp: to split: if_splits)
  next
    case False
    show thesis
    proof (cases "\<exists>d. lookup fs (butlast (resolve fs dst)) = Some (Dir d)")
      case True
      then obtain d where d: "lookup fs (butlast (resolve fs dst)) = Some (Dir d)" ..
      then have "copy_node frames src dst fs = copy_to frames d (last (resolve fs dst)) n fs"
        using False by (auto simp: copy_node_def Some Let_def split: option.splits node.splits)
      then show thesis using onto [OF Some False d c] unchanged by (auto simp: to split: if_splits)
    next
      case no_parent: False
      show thesis
        by (rule unchanged)
          (use False no_parent in \<open>auto simp: copy_node_def Some Let_def split: option.splits node.splits\<close>)
    qed
  qed
qed

lemma copy_node_exn: "fst (copy_node frames src dst fs) = Inl e \<Longrightarrow> e = RecursionError"
  by (auto simp: copy_node_def copy_to_def deepcopy_def Let_def
      split: option.splits node.splits prod.splits if_splits)

lemma copy_node_wf [wf_intros]:
  assumes "wf_fs fs"
  shows "wf_fs (snd (copy_node frames src dst fs))"
proof -
  have put: "wf_fs (set_entry a k m fs')"
    if "lookup fs ps = Some n" and "clone_graph n fs = (m, fs')" and "name_ok k" for ps n m fs' a k
    using clone_graph_wf [OF assms lookup_ok [OF assms that(1)] that(2)] that(3)
    by (intro set_entry_wf)
  show ?thesis
    by (cases frames src dst fs rule: copy_node_cases)
      (auto simp: assms intro: put resolve_last_ok [OF assms])
qed

lemma py_del_wf: "wf_fs fs \<Longrightarrow> wf_fs (snd (py_del a k fs))"
  by (simp add: py_del_def del_entry_wf)

lemma move_to_wf:
  "wf_fs fs \<Longrightarrow> name_ok k \<Longrightarrow> node_ok (length (fs_dirs fs)) n \<Longrightarrow> wf_fs (snd (move_to d k n s sk fs))"
  using py_del_wf [OF set_entry_wf, of fs k n s sk d]
  by (auto simp: move_to_def split: prod.splits)

lemma move_node_wf [wf_intros]:
  assumes "wf_fs fs"
  shows "wf_fs (snd (move_node src dst fs))"
  unfolding move_node_def Let_def
  using assms resolve_last_ok [OF assms] lookup_ok [OF assms]
  by (auto split: option.splits node.splits intro!: move_to_wf)

lemma setdefault_entry_wf [wf_intros]:
  "wf_fs fs \<Longrightarrow> name_ok k \<Longrightarrow> node_ok (length (fs_dirs fs)) n \<Longrightarrow> wf_fs (setdefault_entry a k n fs)"
  by (simp add: setdefault_entry_def set_entry_wf)

subsubsection \<open>Reachable filesystems\<close>

text \<open>
  A session's filesystem is seeded once and then only changed by the operations, in any order and
  with any arguments (also after an operation that raised).
\<close>

inductive fs_step :: "fakefs \<Rightarrow> fakefs \<Rightarrow> bool" where
  step_chdir: "fs_step fs (snd (chdir p fs))"
| step_write: "fs_step fs (write_file p c fs)"
| step_mkdir: "fs_step fs (make_dir p fs)"
| step_remove: "fs_step fs (remove p fs)"
| step_copy: "fs_step fs (snd (copy_node frames src dst fs))"
| step_move: "fs_step fs (snd (move_node src dst fs))"

inductive_cases fs_stepE: "fs_step fs fs'"

inductive fs_reach :: "fakefs \<Rightarrow> fakefs \<Rightarrow> bool" where
  reach_refl: "fs_reach fs fs"
| reach_step: "fs_reach fs fs' \<Longrightarrow> fs_step fs' fs'' \<Longrightarrow> fs_reach fs fs''"

lemma fs_step_wf: "fs_step fs fs' \<Longrightarrow> wf_fs fs \<Longrightarrow> wf_fs fs'"
  by (induction rule: fs_step.induct) (auto intro: wf_intros)

lemma fs_reach_wf: "fs_reach fs fs' \<Longrightarrow> wf_fs fs \<Longrightarrow> wf_fs fs'"
  by (induction rule: fs_reach.induct) (auto intro: fs_step_wf)

lemma mkdirs_from_wf:
  "wf_fs fs \<Longrightarrow> \<forall>p \<in> set parts. name_ok p \<Longrightarrow> mkdirs_from a parts fs = (b, fs') \<Longrightarrow>
   wf_fs fs' \<and> fs_cwd fs' = fs_cwd fs \<and> fs_persona fs' = fs_persona fs"
proof (induction parts arbitrary: a fs)
  case (Cons part parts)
  obtain c fs1 where n: "new_dir fs = (c, fs1)" by (cases "new_dir fs")
  note nd = new_dir_wf [OF Cons.prems(1) n]
  have "wf_fs (set_entry a part (Dir c) fs1)"
    using nd(1,2) Cons.prems(2) by (intro set_entry_wf) auto
  then have new: "mkdirs_from c parts (set_entry a part (Dir c) fs1) = (b, fs') \<Longrightarrow> ?case"
    using Cons.IH [of "set_entry a part (Dir c) fs1" c] Cons.prems(2) nd by simp
  show ?case
    using Cons.prems Cons.IH [OF Cons.prems(1)] new n
    by (simp split: option.splits node.splits)
qed simp

lemma mkdirs_wf:
  "wf_fs fs \<Longrightarrow> \<forall>p \<in> set parts. name_ok p \<Longrightarrow>
   wf_fs (snd (mkdirs parts fs)) \<and> fs_cwd (snd (mkdirs parts fs)) = fs_cwd fs
   \<and> fs_persona (snd (mkdirs parts fs)) = fs_persona fs"
  using mkdirs_from_wf [of fs parts 0] by (cases "mkdirs_from 0 parts fs") (simp add: mkdirs_def)

lemma fold_setdefault_wf:
  "wf_fs fs \<Longrightarrow> \<forall>k \<in> set ks. name_ok k \<Longrightarrow>
   wf_fs (fold (\<lambda>k. setdefault_entry b k (Link t)) ks fs)"
  by (induction ks arbitrary: fs) (simp_all add: setdefault_entry_wf)

lemma bin_listing_names: "\<forall>k \<in> set bin_listing. name_ok k"
  unfolding set_bin_listing by (simp add: busybox_applets_def name_ok_def)

lemma seed_bin_wf:
  assumes "wf_fs fs"
  shows "wf_fs (seed_bin sample fs)"
proof -
  obtain b fs1 where m: "mkdirs [''bin''] fs = (b, fs1)" by (cases "mkdirs [''bin''] fs")
  have "wf_fs fs1" using mkdirs_wf [OF assms, of "[''bin'']"] by (simp add: m name_ok_def)
  then have "wf_fs (setdefault_entry b ''busybox'' (File sample (Some busybox_size_bytes)) fs1)"
    by (intro setdefault_entry_wf) (simp_all add: name_ok_def)
  then have "wf_fs (fold (\<lambda>applet. setdefault_entry b applet (Link ''busybox'')) bin_listing
      (setdefault_entry b ''busybox'' (File sample (Some busybox_size_bytes)) fs1))"
    using bin_listing_names by (rule fold_setdefault_wf)
  then show ?thesis
    using mkdirs_wf [of _ "[''usr'', ''bin'']"] by (simp add: seed_bin_def m Let_def name_ok_def)
qed

lemma seed_proc_wf: "wf_fs fs \<Longrightarrow> wf_fs (seed_proc fs)"
  using mkdirs_wf [of fs "[''proc'']"]
  by (auto simp: seed_proc_def Let_def name_ok_def split: prod.splits intro!: set_entry_wf)

lemma seed_etc_wf: "wf_fs fs \<Longrightarrow> wf_fs (seed_etc fs)"
  using mkdirs_wf [of fs "[''etc'']"]
  by (auto simp: seed_etc_def Let_def name_ok_def split: prod.splits intro!: set_entry_wf)

lemma wf_cwd: "wf_fs fs \<Longrightarrow> path_ok c \<Longrightarrow> wf_fs (fs\<lparr>fs_cwd := c\<rparr>)"
  by (simp add: wf_fs_def)

lemma seed_wf: "wf_fs fs \<Longrightarrow> wf_fs (seed sample fs)"
  by (simp add: seed_def seed_bin_wf seed_proc_wf seed_etc_wf mkdirs_wf name_ok_def)

lemma new_fs_wf: "wf_fs (new_fs sample p)"
  unfolding new_fs_def by (rule seed_wf) (simp add: wf_fs_def path_ok_def)

text \<open>
  C10. The filesystem a session starts with, and every filesystem that any sequence of operations
  with any arguments leads to, is well formed: no dangling directory reference, no duplicate or
  ill-formed name in a directory, a non-empty working directory of proper components.
\<close>
theorem filesystem_always_well_formed:
  "fs_reach (new_fs sample p) fs \<Longrightarrow> wf_fs fs"
  using fs_reach_wf new_fs_wf by blast

lemma filesystem_always_well_formed_witness:
  "wf_fs (write_file ''/tmp/a'' ''x'' (new_fs [] openwrt_persona))"
  by (rule filesystem_always_well_formed [where sample = "[]" and p = openwrt_persona])
    (rule reach_step [OF reach_refl step_write])

subsection \<open>Looking up after a change\<close>

text \<open>The directory entries that a lookup consults.\<close>

fun trace :: "fakefs \<Rightarrow> node \<Rightarrow> string list \<Rightarrow> (nat \<times> string) set" where
  "trace fs n [] = {}"
| "trace fs n (p # ps) =
     (if p = ''root'' then trace fs n ps
      else case n of
             Dir a \<Rightarrow> insert (a, p)
               (case map_of (entries_of fs a) p of None \<Rightarrow> {} | Some m \<Rightarrow> trace fs m ps)
           | _ \<Rightarrow> {})"

lemma lookup_from_frame:
  "(\<And>a k. (a, k) \<in> trace fs n ps \<Longrightarrow> map_of (entries_of fs' a) k = map_of (entries_of fs a) k) \<Longrightarrow>
   lookup_from fs' n ps = lookup_from fs n ps"
  by (induction fs n ps rule: lookup_from.induct)
    (auto split: node.splits option.splits)

lemma map_of_set_entry:
  "map_of (entries_of (set_entry a k n fs) b) l =
     (if a = b \<and> k = l \<and> a < length (fs_dirs fs) then Some n else map_of (entries_of fs b) l)"
  by (auto simp: entries_of_set_entry)

lemma map_of_del_entry:
  "map_of (entries_of (del_entry a k fs) b) l =
     (if a = b \<and> k = l \<and> a < length (fs_dirs fs) then None else map_of (entries_of fs b) l)"
  by (auto simp: entries_of_del_entry)

lemma lookup_from_set_entry:
  "(a, k) \<notin> trace fs n ps \<Longrightarrow> lookup_from (set_entry a k m fs) n ps = lookup_from fs n ps"
  by (rule lookup_from_frame) (auto simp: map_of_set_entry)

lemma lookup_from_del_entry:
  "(a, k) \<notin> trace fs n ps \<Longrightarrow> lookup_from (del_entry a k fs) n ps = lookup_from fs n ps"
  by (rule lookup_from_frame) (auto simp: map_of_del_entry)

lemma lookup_from_append:
  "lookup_from fs n (ps @ qs) =
     (case lookup_from fs n ps of None \<Rightarrow> None | Some m \<Rightarrow> lookup_from fs m qs)"
  by (induction fs n ps rule: lookup_from.induct)
    (auto split: node.splits option.splits)

text \<open>A part named \<open>root\<close> is skipped.\<close>

lemma lookup_from_filter: "lookup_from fs n (filter (\<lambda>p. p \<noteq> ''root'') ps) = lookup_from fs n ps"
  by (induction fs n ps rule: lookup_from.induct) (auto split: node.splits option.splits)

lemma lookup_last:
  assumes "ps \<noteq> []" and "last ps \<noteq> ''root''"
  shows "lookup fs ps = (case lookup fs (butlast ps) of
           Some (Dir a) \<Rightarrow> map_of (entries_of fs a) (last ps) | _ \<Rightarrow> None)"
proof -
  have "lookup fs ps = lookup_from fs (Dir 0) (butlast ps @ [last ps])"
    using assms(1) by (simp add: lookup_def)
  also have "\<dots> = (case lookup fs (butlast ps) of
           Some (Dir a) \<Rightarrow> map_of (entries_of fs a) (last ps) | _ \<Rightarrow> None)"
    using assms(2) unfolding lookup_from_append lookup_def [symmetric]
    by (auto split: option.splits node.splits)
  finally show ?thesis .
qed

lemma lookup_last_root:
  "ps \<noteq> [] \<Longrightarrow> last ps = ''root'' \<Longrightarrow> lookup fs ps = lookup fs (butlast ps)"
proof -
  assume "ps \<noteq> []" "last ps = ''root''"
  then have "lookup fs ps = lookup_from fs (Dir 0) (butlast ps @ [''root''])"
    by (metis append_butlast_last_id lookup_def)
  also have "\<dots> = lookup fs (butlast ps)"
    unfolding lookup_from_append lookup_def by (simp split: option.splits)
  finally show ?thesis .
qed

subsubsection \<open>Stores without cycles\<close>

text \<open>
  \<open>rank\<close> grows along every directory entry, so no path visits a directory twice. All operations
  but \<open>mv\<close> keep a store acyclic; \<open>mv\<close> can put a directory below itself.
\<close>

definition ranked :: "(nat \<Rightarrow> nat) \<Rightarrow> fakefs \<Rightarrow> bool" where
  "ranked rank fs \<longleftrightarrow>
     (\<forall>a k b. map_of (entries_of fs a) k = Some (Dir b) \<longrightarrow> rank a < rank b)"

definition acyclic_fs :: "fakefs \<Rightarrow> bool" where
  "acyclic_fs fs \<longleftrightarrow> (\<exists>rank. ranked rank fs)"

lemma lookup_from_not_dir: "\<not> is_dir_node n \<Longrightarrow> lookup_from fs n ps = Some (Dir a) \<Longrightarrow> False"
  by (induction fs n ps rule: lookup_from.induct) (auto split: node.splits if_splits)

lemma lookup_rank:
  "ranked rank fs \<Longrightarrow> lookup_from fs (Dir c) ps = Some (Dir a) \<Longrightarrow> rank c \<le> rank a"
proof (induction ps arbitrary: c)
  case (Cons p ps)
  show ?case
  proof (cases "p = ''root''")
    case False
    with Cons.prems(2) obtain m where m: "map_of (entries_of fs c) p = Some m"
      and l: "lookup_from fs m ps = Some (Dir a)" by (auto split: option.splits)
    then obtain d where d: "m = Dir d" using lookup_from_not_dir by (cases m) fastforce+
    with m Cons.prems(1) have "rank c < rank d" by (auto simp: ranked_def)
    moreover have "rank d \<le> rank a" using Cons.IH [OF Cons.prems(1)] l d by simp
    ultimately show ?thesis by simp
  qed (use Cons in simp)
qed simp

lemma trace_rank:
  "ranked rank fs \<Longrightarrow> lookup_from fs (Dir c) ps = Some (Dir a) \<Longrightarrow> (b, k) \<in> trace fs (Dir c) ps \<Longrightarrow>
   rank b < rank a"
proof (induction ps arbitrary: c)
  case (Cons p ps)
  show ?case
  proof (cases "p = ''root''")
    case False
    with Cons.prems(2) obtain m where m: "map_of (entries_of fs c) p = Some m"
      and l: "lookup_from fs m ps = Some (Dir a)" by (auto split: option.splits)
    then obtain d where d: "m = Dir d" using lookup_from_not_dir by (cases m) fastforce+
    with m Cons.prems(1) have "rank c < rank d" by (auto simp: ranked_def)
    moreover have "rank d \<le> rank a" using lookup_rank [OF Cons.prems(1)] l d by blast
    moreover have "b \<noteq> c \<Longrightarrow> (b, k) \<in> trace fs (Dir d) ps"
      using Cons.prems(3) False m d by auto
    ultimately show ?thesis using Cons.IH [OF Cons.prems(1)] l d by fastforce
  qed (use Cons in simp)
qed simp

lemma acyclic_parent:
  assumes "acyclic_fs fs" and "lookup fs ps = Some (Dir a)"
  shows "(a, k) \<notin> trace fs (Dir 0) ps"
proof -
  obtain rank where "ranked rank fs" using assms(1) by (auto simp: acyclic_fs_def)
  then show ?thesis using trace_rank [of rank fs 0 ps a a k] assms(2) by (auto simp: lookup_def)
qed

lemma ranked_set_other: "ranked rank fs \<Longrightarrow> \<not> is_dir_node n \<Longrightarrow> ranked rank (set_entry a k n fs)"
  by (auto simp: ranked_def map_of_set_entry split: if_splits)

lemma ranked_del: "ranked rank fs \<Longrightarrow> ranked rank (del_entry a k fs)"
  by (auto simp: ranked_def map_of_del_entry split: if_splits)

lemma write_file_acyclic: "acyclic_fs fs \<Longrightarrow> acyclic_fs (write_file p c fs)"
  unfolding acyclic_fs_def write_file_def Let_def
  by (auto split: option.splits node.splits intro!: exI ranked_set_other)

lemma remove_acyclic: "acyclic_fs fs \<Longrightarrow> acyclic_fs (remove p fs)"
  unfolding acyclic_fs_def remove_def Let_def
  by (auto split: option.splits node.splits intro!: exI ranked_del)

lemma chdir_entries [frame_simps]: "entries_of (snd (chdir p fs)) a = entries_of fs a"
  by (auto simp: chdir_def entries_of_def Let_def split: option.splits node.splits)

lemma chdir_acyclic: "acyclic_fs fs \<Longrightarrow> acyclic_fs (snd (chdir p fs))"
  by (simp add: acyclic_fs_def ranked_def chdir_entries)

text \<open>A directory that no entry refers to can be given any rank.\<close>

lemma ranked_set_dir:
  "ranked rank fs \<Longrightarrow> rank a < rank b \<Longrightarrow> ranked rank (set_entry a k (Dir b) fs)"
  by (auto simp: ranked_def map_of_set_entry split: if_splits)

lemma new_dir_acyclic:
  assumes wf: "wf_fs fs" and ac: "acyclic_fs fs" and n: "new_dir fs = (b, fs')"
    and a: "a < length (fs_dirs fs)"
  shows "acyclic_fs (set_entry a k (Dir b) fs')"
proof -
  obtain rank where r: "ranked rank fs" using ac by (auto simp: acyclic_fs_def)
  let ?rank = "rank(b := Suc (rank a))"
  have b: "b = length (fs_dirs fs)" using n by (simp add: new_dir_def)
  have "?rank a < ?rank b" using a by (simp add: b)
  moreover have "ranked ?rank fs'"
    unfolding ranked_def new_dir_entries [OF n]
  proof (intro allI impI)
    fix x l y
    assume e: "map_of (entries_of fs x) l = Some (Dir y)"
    then have "y \<noteq> b" "x \<noteq> b"
      using entries_of_node_ok(1) [OF wf e] by (auto simp: b entries_of_def)
    with r e show "?rank x < ?rank y" by (auto simp: ranked_def)
  qed
  ultimately show ?thesis unfolding acyclic_fs_def by (blast intro: ranked_set_dir)
qed

lemma make_dir_acyclic:
  assumes "wf_fs fs" and "acyclic_fs fs"
  shows "acyclic_fs (make_dir p fs)"
  using assms new_dir_acyclic [OF assms] lookup_ok [OF assms(1)]
  by (fastforce simp: make_dir_def Let_def split: option.splits node.splits prod.splits)

lemma mkdirs_from_acyclic:
  "wf_fs fs \<Longrightarrow> acyclic_fs fs \<Longrightarrow> a < length (fs_dirs fs) \<Longrightarrow> \<forall>p \<in> set parts. name_ok p \<Longrightarrow>
   mkdirs_from a parts fs = (b, fs') \<Longrightarrow> acyclic_fs fs' \<and> b < length (fs_dirs fs')"
proof (induction parts arbitrary: a fs)
  case (Cons part parts)
  obtain c fs1 where n: "new_dir fs = (c, fs1)" by (cases "new_dir fs")
  note nd = new_dir_wf [OF Cons.prems(1) n]
  let ?fs = "set_entry a part (Dir c) fs1"
  have "wf_fs ?fs" using nd(1,2) Cons.prems(4) by (intro set_entry_wf) auto
  moreover have "acyclic_fs ?fs" using Cons.prems(1-3) n by (intro new_dir_acyclic)
  moreover have "c < length (fs_dirs ?fs)" using nd(2) by simp
  ultimately have new: "mkdirs_from c parts ?fs = (b, fs') \<Longrightarrow> ?case"
    using Cons.IH [of ?fs c] Cons.prems(4) by simp
  show ?case
  proof (cases "\<exists>d. map_of (entries_of fs a) part = Some (Dir d)")
    case True
    then obtain d where d: "map_of (entries_of fs a) part = Some (Dir d)" ..
    then have "d < length (fs_dirs fs)" using entries_of_node_ok(1) [OF Cons.prems(1)] by fastforce
    then show ?thesis using Cons.IH [OF Cons.prems(1,2)] Cons.prems(4,5) d by simp
  next
    case False
    then have "mkdirs_from c parts ?fs = (b, fs')"
      using Cons.prems(5) n by (auto split: option.splits node.splits)
    then show ?thesis by (rule new)
  qed
qed simp

lemma mkdirs_acyclic:
  "wf_fs fs \<Longrightarrow> acyclic_fs fs \<Longrightarrow> \<forall>p \<in> set parts. name_ok p \<Longrightarrow> acyclic_fs (snd (mkdirs parts fs))"
  using mkdirs_from_acyclic [of fs 0 parts] by (cases "mkdirs_from 0 parts fs") (auto simp: mkdirs_def wf_fs_def)

lemma acyclic_set_other: "acyclic_fs fs \<Longrightarrow> \<not> is_dir_node n \<Longrightarrow> acyclic_fs (set_entry a k n fs)"
  by (auto simp: acyclic_fs_def intro: ranked_set_other)

lemma seed_bin_acyclic:
  assumes "wf_fs fs" and "acyclic_fs fs"
  shows "acyclic_fs (seed_bin sample fs)"
proof -
  obtain b fs1 where m: "mkdirs [''bin''] fs = (b, fs1)" by (cases "mkdirs [''bin''] fs")
  have fs1: "wf_fs fs1 \<and> acyclic_fs fs1"
    using mkdirs_wf [OF assms(1), of "[''bin'']"] mkdirs_acyclic [OF assms, of "[''bin'']"]
    by (simp add: m name_ok_def)
  have sd: "wf_fs g \<and> acyclic_fs g \<Longrightarrow> name_ok k \<Longrightarrow> \<not> is_dir_node n \<Longrightarrow>
      wf_fs (setdefault_entry b k n g) \<and> acyclic_fs (setdefault_entry b k n g)" for g k n
    using setdefault_entry_wf [of g k n b]
    by (cases n) (auto simp: setdefault_entry_def acyclic_set_other)
  let ?fs2 = "setdefault_entry b ''busybox'' (File sample (Some busybox_size_bytes)) fs1"
  have fs2: "wf_fs ?fs2 \<and> acyclic_fs ?fs2" using fs1 by (intro sd) (auto simp: name_ok_def)
  have "wf_fs g \<and> acyclic_fs g \<Longrightarrow> \<forall>k \<in> set ks. name_ok k \<Longrightarrow>
      wf_fs (fold (\<lambda>k. setdefault_entry b k (Link ''busybox'')) ks g)
      \<and> acyclic_fs (fold (\<lambda>k. setdefault_entry b k (Link ''busybox'')) ks g)" for g ks
    by (induction ks arbitrary: g) (simp_all add: sd)
  from this [OF fs2 bin_listing_names] show ?thesis
    by (simp add: seed_bin_def m Let_def mkdirs_acyclic name_ok_def)
qed

lemma seed_proc_acyclic: "wf_fs fs \<Longrightarrow> acyclic_fs fs \<Longrightarrow> acyclic_fs (seed_proc fs)"
  using mkdirs_acyclic [of fs "[''proc'']"]
  by (cases "mkdirs [''proc''] fs") (simp add: seed_proc_def name_ok_def Let_def acyclic_set_other)

lemma seed_etc_acyclic: "wf_fs fs \<Longrightarrow> acyclic_fs fs \<Longrightarrow> acyclic_fs (seed_etc fs)"
  using mkdirs_acyclic [of fs "[''etc'']"]
  by (cases "mkdirs [''etc''] fs") (simp add: seed_etc_def name_ok_def Let_def acyclic_set_other)

lemma new_fs_acyclic: "acyclic_fs (new_fs sample p)"
proof -
  let ?fs = "\<lparr>fs_dirs = [[]], fs_cwd = [''root''], fs_persona = p\<rparr>"
  have wf: "wf_fs ?fs" by (simp add: wf_fs_def path_ok_def)
  have ac: "acyclic_fs ?fs" by (auto simp: acyclic_fs_def ranked_def entries_of_def)
  have "wf_fs (seed_bin sample ?fs)" "acyclic_fs (seed_bin sample ?fs)"
    using seed_bin_wf [OF wf] seed_bin_acyclic [OF wf ac] by blast+
  then have "wf_fs (seed_etc (seed_proc (seed_bin sample ?fs)))"
      "acyclic_fs (seed_etc (seed_proc (seed_bin sample ?fs)))"
    using seed_proc_wf seed_proc_acyclic seed_etc_wf seed_etc_acyclic by blast+
  then show ?thesis
    by (simp add: new_fs_def seed_def mkdirs_acyclic mkdirs_wf name_ok_def)
qed

subsubsection \<open>Deep copies\<close>

lemma map_of_shift_entries: "map_of (shift_entries k es) name = map_option (shift_node k) (map_of es name)"
  by (induction es) (auto simp: shift_entries_def)

lemma clone_graph_dir:
  assumes "clone_graph n fs = (m, fs')" and "is_dir_node n"
  shows "m = shift_node (length (fs_dirs fs)) n"
    and "a < length (fs_dirs fs) \<Longrightarrow> entries_of fs' a = entries_of fs a"
    and "entries_of fs' (a + length (fs_dirs fs)) = shift_entries (length (fs_dirs fs)) (entries_of fs a)"
    and "length (fs_dirs fs') = length (fs_dirs fs) + length (fs_dirs fs)"
  using assms by (auto simp: clone_graph_def entries_of_def nth_append shift_entries_def)

lemma clone_graph_not_dir:
  "clone_graph n fs = (m, fs') \<Longrightarrow> \<not> is_dir_node n \<Longrightarrow> m = n \<and> fs' = fs"
  by (simp add: clone_graph_def)

lemma shift_dir_iff: "shift_node k n = Dir b \<longleftrightarrow> (\<exists>c. n = Dir c \<and> b = c + k)"
  by (cases n) auto

lemma lookup_from_shift:
  assumes "\<And>a. map_of (entries_of fs' (a + k)) = map_option (shift_node k) \<circ> map_of (entries_of fs a)"
  shows "lookup_from fs' (shift_node k n) ps = map_option (shift_node k) (lookup_from fs n ps)"
proof (induction ps arbitrary: n)
  case (Cons p ps)
  show ?case
  proof (cases "p = ''root''")
    case False
    then show ?thesis by (cases n) (auto simp: assms Cons.IH split: option.splits)
  qed (simp add: Cons.IH)
qed simp

lemma lookup_in_copy:
  assumes "clone_graph n fs = (m, fs')"
  shows "lookup_from fs' m ps = map_option (shift_node (length (fs_dirs fs))) (lookup_from fs n ps)"
proof (cases "is_dir_node n")
  case True
  note d = clone_graph_dir [OF assms True]
  show ?thesis unfolding d(1)
    by (rule lookup_from_shift) (auto simp: d(3) map_of_shift_entries)
next
  case False
  then have "lookup_from fs n ps = Some n \<or> lookup_from fs n ps = None" for ps
    by (induction ps) (cases n; auto)+
  moreover have "shift_node k n = n" for k using False by (cases n) auto
  ultimately show ?thesis using clone_graph_not_dir [OF assms False] by (metis option.map(1,2))
qed

lemma trace_not_dir: "\<not> is_dir_node n \<Longrightarrow> trace fs n ps = {}"
proof (induction ps)
  case (Cons p ps)
  then show ?case by (cases n) auto
qed simp

lemma trace_shift:
  assumes "\<And>a. map_of (entries_of fs' (a + k)) = map_option (shift_node k) \<circ> map_of (entries_of fs a)"
  shows "(b, l) \<in> trace fs' (shift_node k n) ps \<Longrightarrow> k \<le> b"
proof (induction ps arbitrary: n)
  case (Cons p ps)
  show ?case
  proof (cases "p = ''root''")
    case False
    with Cons.prems show ?thesis
      by (cases n) (auto simp: assms split: option.splits dest: Cons.IH)
  qed (use Cons in simp)
qed simp

lemma trace_in_copy:
  assumes "clone_graph n fs = (m, fs')" and "(b, k) \<in> trace fs' m ps"
  shows "length (fs_dirs fs) \<le> b"
proof (cases "is_dir_node n")
  case True
  note d = clone_graph_dir [OF assms(1) True]
  show ?thesis using assms(2) unfolding d(1)
    by (rule trace_shift [rotated]) (auto simp: d(3) map_of_shift_entries)
next
  case False
  with assms show ?thesis by (auto dest!: clone_graph_not_dir simp: trace_not_dir)
qed

lemma clone_graph_old:
  "clone_graph n fs = (m, fs') \<Longrightarrow> a < length (fs_dirs fs) \<Longrightarrow> entries_of fs' a = entries_of fs a"
  by (cases "is_dir_node n") (auto simp: clone_graph_def entries_of_def nth_append)

lemma clone_graph_acyclic:
  assumes wf: "wf_fs fs" and r: "ranked rank fs" and c: "clone_graph n fs = (m, fs')"
    and d: "d < length (fs_dirs fs)"
  shows "acyclic_fs (set_entry d k m fs')"
proof (cases "is_dir_node n")
  case False
  with clone_graph_not_dir [OF c] r show ?thesis
    by (auto simp: acyclic_fs_def intro: ranked_set_other)
next
  case True
  then obtain e where n: "n = Dir e" by (cases n) auto
  let ?N = "length (fs_dirs fs)"
  let ?rank = "\<lambda>x. if x < ?N then rank x else Suc (rank d) + rank (x - ?N)"
  note dc = clone_graph_dir [OF c True]
  have "ranked ?rank fs'"
    unfolding ranked_def
  proof (intro allI impI)
    fix a l b
    assume e: "map_of (entries_of fs' a) l = Some (Dir b)"
    show "?rank a < ?rank b"
    proof (cases "a < ?N")
      case True
      with e have e': "map_of (entries_of fs a) l = Some (Dir b)" by (simp add: dc(2))
      then have "b < ?N" using entries_of_node_ok(1) [OF wf] by fastforce
      with True e' r show ?thesis by (auto simp: ranked_def)
    next
      case False
      then have "map_of (entries_of fs' (a - ?N + ?N)) l = Some (Dir b)" using e by simp
      then obtain b' where "map_of (entries_of fs (a - ?N)) l = Some (Dir b')" "b = b' + ?N"
        unfolding dc(3) map_of_shift_entries by (auto simp: shift_dir_iff)
      with False r show ?thesis by (auto simp: ranked_def)
    qed
  qed
  moreover have "?rank d < ?rank (e + ?N)" using d by simp
  ultimately show ?thesis
    unfolding acyclic_fs_def dc(1) n shift_node.simps by (blast intro: ranked_set_dir)
qed

lemma copy_node_acyclic:
  assumes "wf_fs fs" and "acyclic_fs fs"
  shows "acyclic_fs (snd (copy_node frames src dst fs))"
proof -
  obtain rank where r: "ranked rank fs" using assms(2) by (auto simp: acyclic_fs_def)
  have put: "acyclic_fs (set_entry d k m fs')"
    if "lookup fs ps = Some (Dir d)" and "clone_graph n fs = (m, fs')" for ps d k m n fs'
    using lookup_ok [OF assms(1) that(1)] by (intro clone_graph_acyclic [OF assms(1) r that(2)]) simp
  show ?thesis
    by (cases frames src dst fs rule: copy_node_cases) (auto simp: assms(2) intro: put)
qed

subsubsection \<open>What mv and cp leave\<close>

lemma entries_of_Dir0: "wf_fs fs \<Longrightarrow> 0 < length (fs_dirs fs)"
  by (simp add: wf_fs_def)

lemma resolve_cwd: "fs_cwd fs' = fs_cwd fs \<Longrightarrow> resolve fs' p = resolve fs p"
  by (simp add: resolve_def)

lemma lookup_dir_lt: "wf_fs fs \<Longrightarrow> lookup fs ps = Some (Dir a) \<Longrightarrow> a < length (fs_dirs fs)"
  using lookup_ok [of fs ps "Dir a"] by simp

text \<open>The parent directory and the last name of a path: what the operations on a path change.\<close>

definition parent_dir :: "fakefs \<Rightarrow> string \<Rightarrow> nat \<Rightarrow> bool" where
  "parent_dir fs p a \<longleftrightarrow> lookup fs (butlast (resolve fs p)) = Some (Dir a)"

definition base_name :: "fakefs \<Rightarrow> string \<Rightarrow> string" where
  "base_name fs p = last (resolve fs p)"

lemma lookup_base:
  assumes "parent_dir fs p a" and "base_name fs p \<noteq> ''root''"
  shows "lookup fs (resolve fs p) = map_of (entries_of fs a) (base_name fs p)"
  using assms lookup_last [of "resolve fs p" fs] by (simp add: parent_dir_def base_name_def)

lemma parent_set_entry:
  assumes "acyclic_fs fs" and "parent_dir fs p a"
  shows "parent_dir (set_entry a k n fs) p a" and "parent_dir (del_entry a k fs) p a"
  using assms acyclic_parent [OF assms(1), of "butlast (resolve fs p)" a k]
    resolve_cwd [of "set_entry a k n fs" fs] resolve_cwd [of "del_entry a k fs" fs]
  by (simp_all add: parent_dir_def lookup_def lookup_from_set_entry lookup_from_del_entry)

lemma base_name_set_entry [simp]:
  "base_name (set_entry a k n fs) p = base_name fs p" "base_name (del_entry a k fs) p = base_name fs p"
  using resolve_cwd [of "set_entry a k n fs" fs] resolve_cwd [of "del_entry a k fs" fs]
  by (simp_all add: base_name_def)

lemma follow_not_link: "\<nexists>t. n = Some (Link t) \<Longrightarrow> follow fs h n ps = n"
  by (cases "(fs, h, n, ps)" rule: follow.cases) auto

lemma read_file_of_lookup:
  "lookup fs (resolve fs p) = Some (File c z) \<Longrightarrow> read_file r fs p = Some c"
  "lookup fs (resolve fs p) = None \<Longrightarrow> read_file r fs p = None"
  "lookup fs (resolve fs p) = Some (Dir a) \<Longrightarrow> read_file r fs p = None"
  by (simp_all add: read_file_def resolve_symlink_def Let_def follow_not_link)

lemma write_file_eq:
  "parent_dir fs p a \<Longrightarrow> write_file p c fs = set_entry a (base_name fs p) (File c None) fs"
  by (simp add: write_file_def parent_dir_def base_name_def Let_def)

lemma remove_eq: "parent_dir fs p a \<Longrightarrow> remove p fs = del_entry a (base_name fs p) fs"
  by (simp add: remove_def parent_dir_def base_name_def Let_def)

lemma lookup_written:
  assumes "wf_fs fs" and "acyclic_fs fs" and "parent_dir fs p a" and "base_name fs p \<noteq> ''root''"
  shows "lookup (write_file p c fs) (resolve (write_file p c fs) p) = Some (File c None)"
    and "lookup (remove p fs) (resolve (remove p fs) p) = None"
  using lookup_base [OF parent_set_entry(1) [OF assms(2,3)]] lookup_base [OF parent_set_entry(2) [OF assms(2,3)]]
    lookup_dir_lt [OF assms(1)] assms(3,4)
  by (auto simp: write_file_eq remove_eq map_of_set_entry map_of_del_entry parent_dir_def)

subsubsection \<open>The contract the shell relies on\<close>

text \<open>
  What \<open>echo >\<close>, \<open>cat\<close>, \<open>touch\<close> and \<open>rm\<close> need of a file store, stated once for any state with a
  read, a write and a remove operation.
\<close>

locale file_store =
  fixes inv :: "'s \<Rightarrow> bool"
    and writable :: "'s \<Rightarrow> 'p \<Rightarrow> bool"
    and rd :: "'s \<Rightarrow> 'p \<Rightarrow> 'c option"
    and wr :: "'p \<Rightarrow> 'c \<Rightarrow> 's \<Rightarrow> 's"
    and rm :: "'p \<Rightarrow> 's \<Rightarrow> 's"
  assumes inv_wr: "inv s \<Longrightarrow> inv (wr p c s)"
    and inv_rm: "inv s \<Longrightarrow> inv (rm p s)"
    and writable_wr: "inv s \<Longrightarrow> writable s p \<Longrightarrow> writable (wr p c s) p"
    and writable_rm: "inv s \<Longrightarrow> writable s p \<Longrightarrow> writable (rm p s) p"
    and rd_wr: "inv s \<Longrightarrow> writable s p \<Longrightarrow> rd (wr p c s) p = Some c"
    and rd_rm: "inv s \<Longrightarrow> writable s p \<Longrightarrow> rd (rm p s) p = None"
begin

lemma last_write_wins: "inv s \<Longrightarrow> writable s p \<Longrightarrow> rd (wr p d (wr p c s)) p = Some d"
  by (simp add: rd_wr inv_wr writable_wr)

lemma write_after_remove: "inv s \<Longrightarrow> writable s p \<Longrightarrow> rd (wr p c (rm p s)) p = Some c"
  by (simp add: rd_wr inv_rm writable_rm)

lemma remove_after_write: "inv s \<Longrightarrow> writable s p \<Longrightarrow> rd (rm p (wr p c s)) p = None"
  by (simp add: rd_rm inv_wr writable_wr)

lemma writes_then_read:
  "inv s \<Longrightarrow> writable s p \<Longrightarrow> cs \<noteq> [] \<Longrightarrow> rd (fold (wr p) cs s) p = Some (last cs)"
proof (induction cs arbitrary: s)
  case (Cons c cs)
  then show ?case by (cases cs) (simp_all add: rd_wr inv_wr writable_wr)
qed simp

end

definition fs_good :: "fakefs \<Rightarrow> bool" where
  "fs_good fs \<longleftrightarrow> wf_fs fs \<and> acyclic_fs fs"

definition writable_path :: "fakefs \<Rightarrow> string \<Rightarrow> bool" where
  "writable_path fs p \<longleftrightarrow> (\<exists>a. parent_dir fs p a) \<and> base_name fs p \<noteq> ''root''"

interpretation shell_store: file_store fs_good writable_path "\<lambda>fs. read_file r fs" write_file remove
  for r
proof
  fix fs :: fakefs and p c :: string
  assume good: "fs_good fs"
  show "fs_good (write_file p c fs)" "fs_good (remove p fs)"
    using good by (auto simp: fs_good_def intro: write_file_wf remove_wf write_file_acyclic remove_acyclic)
  assume w: "writable_path fs p"
  then obtain a where a: "parent_dir fs p a" "base_name fs p \<noteq> ''root''"
    by (auto simp: writable_path_def)
  have ac: "acyclic_fs fs" "wf_fs fs" using good by (auto simp: fs_good_def)
  show "writable_path (write_file p c fs) p" "writable_path (remove p fs) p"
    using a parent_set_entry [OF ac(1) a(1)]
    by (auto simp: writable_path_def write_file_eq remove_eq)
  show "read_file r (write_file p c fs) p = Some c" "read_file r (remove p fs) p = None"
    using lookup_written [OF ac(2,1) a] by (simp_all add: read_file_of_lookup)
qed

text \<open>
  Files behave: in any well-formed tree without a directory cycle (every tree that sessions
  reach without \<open>mv\<close>), after a sequence of writes to a path whose parent is a directory the path
  reads back the last text written, and after \<open>rm\<close> it reads as missing.
\<close>
theorem read_after_write_and_remove:
  assumes "wf_fs fs" and "acyclic_fs fs" and "parent_dir fs p a" and "base_name fs p \<noteq> ''root''"
    and "cs \<noteq> []"
  shows "read_file r (fold (write_file p) cs fs) p = Some (last cs)
    \<and> read_file r (remove p (fold (write_file p) cs fs)) p = None"
proof -
  have good: "fs_good fs" and w: "writable_path fs p"
    using assms by (auto simp: fs_good_def writable_path_def)
  have "fs_good (fold (write_file p) cs fs) \<and> writable_path (fold (write_file p) cs fs) p"
    using good w
    by (induction cs arbitrary: fs) (simp_all add: shell_store.inv_wr shell_store.writable_wr)
  with assms(5) good w show ?thesis
    by (simp add: shell_store.writes_then_read shell_store.rd_rm)
qed

lemma read_after_write_and_remove_witness:
  "read_file \<lparr>rd_uptime = 0, rd_idle = 0, rd_load = (0, 0, 0), rd_used_kb = 0, rd_usr = 0, rd_sys = 0,
       rd_rx_packets = 0, rd_rx_size = 0, rd_tx_packets = 0, rd_tx_size = 0\<rparr>
     (fold (write_file ''/a'') [''x'', ''y'']
       \<lparr>fs_dirs = [[]], fs_cwd = [''root''], fs_persona = openwrt_persona\<rparr>) ''/a'' = Some ''y''"
proof -
  let ?fs = "\<lparr>fs_dirs = [[]], fs_cwd = [''root''], fs_persona = openwrt_persona\<rparr>"
  have "resolve ?fs ''/a'' = [''a'']" by code_simp
  then have "parent_dir ?fs ''/a'' 0" "base_name ?fs ''/a'' = ''a''"
    by (simp_all add: parent_dir_def base_name_def lookup_def)
  moreover have "wf_fs ?fs" by (simp add: wf_fs_def path_ok_def)
  moreover have "acyclic_fs ?fs" by (auto simp: acyclic_fs_def ranked_def entries_of_def)
  ultimately show ?thesis
    using read_after_write_and_remove [of ?fs "''/a''" 0 "[''x'', ''y'']"] by simp
qed

subsubsection \<open>cp\<close>

lemma clone_graph_node: "clone_graph n fs = (m, fs') \<Longrightarrow> m = shift_node (length (fs_dirs fs)) n"
  by (cases n) (auto simp: clone_graph_def)

lemma cp_put:
  assumes wf: "wf_fs fs" and c: "clone_graph n fs = (m, fs1)" and n: "lookup fs ps0 = Some n"
    and d: "lookup fs qs = Some (Dir d)" and fs'_def: "fs' = set_entry d k m fs1"
  defines "m' \<equiv> shift_node (length (fs_dirs fs)) n"
  shows "fs_cwd fs' = fs_cwd fs \<and> entries_of fs' d = AList.update k m' (entries_of fs d)"
    and "\<forall>a < length (fs_dirs fs). a \<noteq> d \<longrightarrow> entries_of fs' a = entries_of fs a"
    and "\<forall>ps. lookup_from fs' m' ps = map_option (shift_node (length (fs_dirs fs))) (lookup_from fs n ps)"
    and "\<forall>a l x ps. a < length (fs_dirs fs) \<longrightarrow>
          lookup_from (set_entry a l x fs') m' ps = lookup_from fs' m' ps
          \<and> lookup_from (del_entry a l fs') m' ps = lookup_from fs' m' ps"
proof -
  have m: "m = m'" unfolding m'_def by (rule clone_graph_node [OF c])
  have dlt: "d < length (fs_dirs fs)" using lookup_dir_lt wf d by blast
  note wf1 = clone_graph_wf [OF wf lookup_ok [OF wf n] c]
  have old: "entries_of fs1 a = entries_of fs a" if "a < length (fs_dirs fs)" for a
    using clone_graph_old [OF c that] .
  have stable: "lookup_from fs2 m' ps = lookup_from fs1 m' ps"
    if "\<And>b l. length (fs_dirs fs) \<le> b \<Longrightarrow> map_of (entries_of fs2 b) l = map_of (entries_of fs1 b) l"
    for fs2 ps
    by (rule lookup_from_frame) (use trace_in_copy [OF c] that m in blast)
  have same: "lookup_from fs' m' ps = lookup_from fs1 m' ps" for ps
    using stable [of fs' ps] dlt by (auto simp: fs'_def map_of_set_entry)
  have later: "lookup_from (set_entry a l x fs') m' ps = lookup_from fs1 m' ps"
      "lookup_from (del_entry a l fs') m' ps = lookup_from fs1 m' ps"
    if "a < length (fs_dirs fs)" for a l x ps
    using that dlt
    by (intro stable; auto simp: fs'_def map_of_set_entry map_of_del_entry)+
  show "fs_cwd fs' = fs_cwd fs \<and> entries_of fs' d = AList.update k m' (entries_of fs d)"
    using dlt wf1(3,5) by (simp add: fs'_def entries_of_set_entry old m)
  show "\<forall>a < length (fs_dirs fs). a \<noteq> d \<longrightarrow> entries_of fs' a = entries_of fs a"
    by (simp add: fs'_def entries_of_set_entry old)
  show "\<forall>ps. lookup_from fs' m' ps = map_option (shift_node (length (fs_dirs fs))) (lookup_from fs n ps)"
    unfolding same using lookup_in_copy [OF c] m by simp
  show "\<forall>a l x ps. a < length (fs_dirs fs) \<longrightarrow>
          lookup_from (set_entry a l x fs') m' ps = lookup_from fs' m' ps
          \<and> lookup_from (del_entry a l fs') m' ps = lookup_from fs' m' ps"
    unfolding same using later by blast
qed

text \<open>
  C32. \<open>cp\<close> copies deeply and puts the copy where it belongs: when it reports success, the source
  exists; the copy stands in the destination when that is a directory, under the source's own name,
  and otherwise in the destination's parent under the destination's name; that one entry is all that
  changes in the directories there were, and neither is the working directory moved. The entry's node
  is new (a file's content, or a directory that did not exist), every path below it leads to the
  counterpart of what it led to under the source, and no later change to an entry of a directory that
  existed before can be seen below it, even when the copy was put inside its own source.
\<close>
theorem cp_is_deep:
  assumes "wf_fs fs" and "copy_node frames src dst fs = (Inr None, fs')"
  shows "\<exists>n d k. lookup fs (resolve fs src) = Some n
    \<and> (if \<exists>e. lookup fs (resolve fs dst) = Some (Dir e)
       then lookup fs (resolve fs dst) = Some (Dir d) \<and> k = base_name fs src
       else parent_dir fs dst d \<and> k = base_name fs dst)
    \<and> fs_cwd fs' = fs_cwd fs
    \<and> entries_of fs' d = AList.update k (shift_node (length (fs_dirs fs)) n) (entries_of fs d)
    \<and> (\<forall>a < length (fs_dirs fs). a \<noteq> d \<longrightarrow> entries_of fs' a = entries_of fs a)
    \<and> (\<forall>ps. lookup_from fs' (shift_node (length (fs_dirs fs)) n) ps
          = map_option (shift_node (length (fs_dirs fs))) (lookup_from fs n ps))
    \<and> (\<forall>a l x ps. a < length (fs_dirs fs) \<longrightarrow>
          lookup_from (set_entry a l x fs') (shift_node (length (fs_dirs fs)) n) ps
            = lookup_from fs' (shift_node (length (fs_dirs fs)) n) ps
          \<and> lookup_from (del_entry a l fs') (shift_node (length (fs_dirs fs)) n) ps
            = lookup_from fs' (shift_node (length (fs_dirs fs)) n) ps)"
proof -
  from assms(2) show ?thesis
  proof (cases frames src dst fs rule: copy_node_cases)
    case unchanged
    with assms(2) show ?thesis by simp
  next
    case (into n d m fs1)
    then have fs': "fs' = set_entry d (base_name fs src) m fs1" using assms(2) by (simp add: base_name_def)
    have "if \<exists>e. lookup fs (resolve fs dst) = Some (Dir e)
       then lookup fs (resolve fs dst) = Some (Dir d) \<and> base_name fs src = base_name fs src
       else parent_dir fs dst d \<and> base_name fs src = base_name fs dst"
      using into(2) by simp
    then show ?thesis
      using cp_put [OF assms(1) into(3,1,2) fs'] into(1) by blast
  next
    case (onto n d m fs1)
    then have fs': "fs' = set_entry d (base_name fs dst) m fs1" using assms(2) by (simp add: base_name_def)
    have "if \<exists>e. lookup fs (resolve fs dst) = Some (Dir e)
       then lookup fs (resolve fs dst) = Some (Dir d) \<and> base_name fs dst = base_name fs src
       else parent_dir fs dst d \<and> base_name fs dst = base_name fs dst"
      using onto(2,3) by (simp add: parent_dir_def)
    then show ?thesis
      using cp_put [OF assms(1) onto(4,1,3) fs'] onto(1) by blast
  qed
qed

text \<open>When \<open>cp\<close> reports an error or raises, nothing has changed.\<close>

lemma cp_failure_changes_nothing:
  "fst (copy_node frames src dst fs) \<noteq> Inr None \<Longrightarrow> snd (copy_node frames src dst fs) = fs"
  by (cases frames src dst fs rule: copy_node_cases) simp_all

subsubsection \<open>mv\<close>

lemma move_node_file:
  assumes "lookup fs (resolve fs p) = Some (File c z)" and "parent_dir fs p a"
  shows "move_node p p fs = move_to a (base_name fs p) (File c z) a (base_name fs p) fs"
  using assms by (simp add: move_node_def parent_dir_def base_name_def Let_def)

text \<open>
  \<open>mv f f\<close> destroys the file: it reports success, and the file is gone. (The entry is assigned
  to itself and then deleted.)
\<close>

theorem mv_onto_itself_deletes:
  assumes "wf_fs fs" and "acyclic_fs fs" and "parent_dir fs p a" and "base_name fs p \<noteq> ''root''"
    and "lookup fs (resolve fs p) = Some (File c z)"
  shows "fst (move_node p p fs) = Inr None \<and> read_file r fs p = Some c
    \<and> read_file r (snd (move_node p p fs)) p = None"
proof -
  let ?k = "base_name fs p" and ?f = "File c z"
  let ?fs' = "del_entry a ?k (set_entry a ?k ?f fs)"
  have a: "a < length (fs_dirs fs)" using assms(1,3) lookup_dir_lt by (auto simp: parent_dir_def)
  then have mv: "move_node p p fs = (Inr None, ?fs')"
    using move_node_file [OF assms(5,3)]
    by (simp add: move_to_def py_del_def map_of_set_entry)
  have "parent_dir (set_entry a ?k ?f fs) p a" using parent_set_entry(1) [OF assms(2,3)] .
  moreover have "acyclic_fs (set_entry a ?k ?f fs)" using assms(2) by (simp add: acyclic_set_other)
  ultimately have "parent_dir ?fs' p a" by (intro parent_set_entry(2))
  then have "lookup ?fs' (resolve ?fs' p) = None"
    using lookup_base [of ?fs' p a] a assms(4) by (simp add: map_of_del_entry)
  then show ?thesis using mv assms(5) by (simp add: read_file_of_lookup)
qed

text \<open>
  Where \<open>mv\<close> does what it should: renaming a file to a name that is not a directory, in an
  acyclic tree, moves it. The new path reads as the old one did, the old one is gone, and the
  result is success.
\<close>
theorem mv_renames:
  assumes "wf_fs fs" and "acyclic_fs fs"
    and "parent_dir fs src s" and "base_name fs src \<noteq> ''root''"
    and "parent_dir fs dst d" and "base_name fs dst \<noteq> ''root''"
    and "lookup fs (resolve fs src) = Some (File c z)"
    and "\<nexists>a. lookup fs (resolve fs dst) = Some (Dir a)"
    and "(s, base_name fs src) \<noteq> (d, base_name fs dst)"
    and "(s, base_name fs src) \<notin> trace fs (Dir 0) (butlast (resolve fs dst))"
    and "(d, base_name fs dst) \<notin> trace fs (Dir 0) (butlast (resolve fs src))"
  shows "fst (move_node src dst fs) = Inr None
    \<and> read_file r (snd (move_node src dst fs)) dst = read_file r fs src
    \<and> read_file r (snd (move_node src dst fs)) src = None"
proof -
  let ?k = "base_name fs src" and ?l = "base_name fs dst" and ?f = "File c z"
  let ?g = "set_entry d ?l ?f fs"
  let ?fs' = "del_entry s ?k ?g"
  have lt: "s < length (fs_dirs fs)" "d < length (fs_dirs fs)"
    using assms(1,3,5) lookup_dir_lt by (auto simp: parent_dir_def)
  have src: "map_of (entries_of fs s) ?k = Some ?f"
    using lookup_base [OF assms(3,4)] assms(7) by simp
  have "move_node src dst fs = move_to d ?l ?f s ?k fs"
    using assms(3,5,7,8)
    by (auto simp: move_node_def parent_dir_def base_name_def Let_def split: option.splits node.splits)
  then have mv: "move_node src dst fs = (Inr None, ?fs')"
    using src lt assms(9) by (auto simp: move_to_def py_del_def map_of_set_entry)
  have res: "resolve ?fs' q = resolve fs q" "base_name ?fs' q = base_name fs q" for q
    using resolve_cwd [of ?fs' fs] by simp_all
  have parents: "parent_dir ?fs' src s" "parent_dir ?fs' dst d"
  proof -
    have ac: "acyclic_fs ?g" using assms(2) by (simp add: acyclic_set_other)
    have "parent_dir ?g src s"
      using assms(3,11) resolve_cwd [of ?g fs]
      by (simp add: parent_dir_def lookup_def lookup_from_set_entry)
    then show "parent_dir ?fs' src s" by (rule parent_set_entry(2) [OF ac])
    have "lookup ?fs' (butlast (resolve fs dst)) = lookup fs (butlast (resolve fs dst))"
      using assms(10) acyclic_parent [OF assms(2), of "butlast (resolve fs dst)" d ?l] assms(5)
      unfolding lookup_def parent_dir_def
      by (intro lookup_from_frame) (auto simp: map_of_del_entry map_of_set_entry lookup_def)
    with assms(5) show "parent_dir ?fs' dst d" by (simp add: parent_dir_def res)
  qed
  have "lookup ?fs' (resolve ?fs' dst) = Some ?f"
    using lookup_base [OF parents(2)] assms(6,9) lt res(2)
    by (auto simp: map_of_del_entry map_of_set_entry)
  moreover have "lookup ?fs' (resolve ?fs' src) = None"
    using lookup_base [OF parents(1)] assms(4) lt res(2) by (simp add: map_of_del_entry)
  ultimately show ?thesis using mv assms(7) by (simp add: read_file_of_lookup)
qed

subsubsection \<open>Names and the working directory\<close>

text \<open>
  A file whose own name is \<open>root\<close>, in whatever directory, can be written but never read: the
  lookup skips that component, so the path denotes the directory.
\<close>

theorem file_named_root_unreadable:
  assumes "parent_dir fs p a" and "base_name fs p = ''root''"
  shows "read_file r fs p = None"
  using assms lookup_last_root [of "resolve fs p" fs]
  by (simp add: parent_dir_def base_name_def read_file_of_lookup)

lemma resolve_names:
  "\<forall>p \<in> set ps. name_ok p \<Longrightarrow> foldl resolve_part base ps = base @ ps"
  by (induction ps arbitrary: base) (auto simp: resolve_part_def name_ok_def)

lemma join_names_ends:
  "ps \<noteq> [] \<Longrightarrow> \<forall>p \<in> set ps. name_ok p \<Longrightarrow>
   join ''/'' ps \<noteq> [] \<and> hd (join ''/'' ps) \<noteq> CHR ''/'' \<and> last (join ''/'' ps) \<noteq> CHR ''/''"
proof (induction ps)
  case IC: (Cons p ps)
  have ne: "p \<noteq> []" and free: "CHR ''/'' \<notin> set p"
    using IC.prems(2) by (simp_all add: name_ok_def)
  have p: "p \<noteq> []" "hd p \<noteq> CHR ''/''" "last p \<noteq> CHR ''/''"
    using ne free hd_in_set [OF ne] last_in_set [OF ne] by metis+
  show ?case
  proof (cases ps)
    case (Cons q qs)
    have "join ''/'' ps \<noteq> []" "last (join ''/'' ps) \<noteq> CHR ''/''"
      using IC.IH IC.prems(2) Cons by simp_all
    with p Cons show ?thesis by simp
  qed (use p in simp)
qed simp

lemma strip_slash_join:
  assumes "ps \<noteq> []" and "\<forall>p \<in> set ps. name_ok p"
  shows "strip_char (CHR ''/'') (''/'' @ join ''/'' ps) = join ''/'' ps"
proof -
  let ?j = "join ''/'' ps"
  have e: "?j \<noteq> []" "hd ?j \<noteq> CHR ''/''" "last ?j \<noteq> CHR ''/''"
    using join_names_ends [OF assms] by auto
  then have "dropWhile (\<lambda>c. c = CHR ''/'') ?j = ?j" by (cases ?j) auto
  moreover have "dropWhile (\<lambda>c. c = CHR ''/'') (rev ?j) = rev ?j"
    using e by (cases ?j rule: rev_cases) auto
  ultimately show ?thesis by (simp add: strip_char_def rstrip_char_def)
qed

lemma startswith_first [simp]: "startswith (c # s) [c]"
  by (simp add: startswith_def)

lemma resolve_absolute:
  assumes "ps \<noteq> []" and "\<forall>p \<in> set ps. name_ok p"
  shows "resolve fs (''/'' @ join ''/'' ps) = ps"
proof -
  have "split_char (CHR ''/'') (strip_char (CHR ''/'') (''/'' @ join ''/'' ps)) = ps"
    unfolding strip_slash_join [OF assms]
    using assms by (intro split_char_join) (auto simp: name_ok_def)
  moreover have "''/'' @ join ''/'' ps \<notin> set [[], ''/'']"
    using join_names_ends [OF assms] by simp
  ultimately show ?thesis
    using assms resolve_names [OF assms(2), of "[]"] by (simp add: resolve_def)
qed

lemma resolve_slash: "resolve fs ''/'' = [''root'']"
  by (simp add: resolve_def strip_char_def rstrip_char_def split_char_def resolve_part_def)

text \<open>
  \<open>cd "$(pwd)"\<close> stays: the path that \<open>pwd\<close> prints resolves to the directory the shell is in.
\<close>
theorem pwd_cd_roundtrip:
  assumes "wf_fs fs"
  shows "lookup fs (resolve fs (cwd_display fs)) = lookup fs (fs_cwd fs)"
proof -
  let ?ps = "filter (\<lambda>p. p \<noteq> ''root'') (fs_cwd fs)"
  have same: "lookup fs ?ps = lookup fs (fs_cwd fs)" by (simp add: lookup_def lookup_from_filter)
  show ?thesis
  proof (cases "?ps = []")
    case True
    then have "cwd_display fs = ''/''" by (simp add: cwd_display_def)
    with True same show ?thesis by (simp add: resolve_slash lookup_def)
  next
    case False
    then have "fs_cwd fs \<noteq> [''root'']" by auto
    then have "cwd_display fs = ''/'' @ join ''/'' ?ps" by (simp add: cwd_display_def)
    moreover have "\<forall>p \<in> set ?ps. name_ok p" using assms by (auto simp: wf_fs_def path_ok_def)
    ultimately have "resolve fs (cwd_display fs) = ?ps"
      using resolve_absolute [OF False] by simp
    with same show ?thesis by (simp only:)
  qed
qed

text \<open>
  \<open>ls\<close> in a working directory that has been removed reports the path as \<open>None\<close>, the text of
  the missing argument.
\<close>

theorem ls_in_removed_directory:
  assumes "lookup fs (fs_cwd fs) = None"
  shows "listdir_nodes None fs = Inl ''ls: None: No such file or directory''"
  using assms by (simp add: listdir_nodes_def opt_target_def show_opt_def)

subsubsection \<open>Concrete runs\<close>

text \<open>A store with a file \<open>/a\<close> and an empty directory \<open>/d\<close>.\<close>

definition small_fs :: fakefs where
  "small_fs = \<lparr>fs_dirs = [[(''a'', File ''x'' None), (''d'', Dir 1)], []], fs_cwd = [''root''],
     fs_persona = openwrt_persona\<rparr>"

definition zero_reading :: reading where
  "zero_reading = \<lparr>rd_uptime = 0, rd_idle = 0, rd_load = (0, 0, 0), rd_used_kb = 0, rd_usr = 0,
     rd_sys = 0, rd_rx_packets = 0, rd_rx_size = 0, rd_tx_packets = 0, rd_tx_size = 0\<rparr>"

lemma small_fs_wf: "wf_fs small_fs"
  by (auto simp: small_fs_def wf_fs_def path_ok_def entries_ok_def name_ok_def)

lemma small_fs_acyclic: "acyclic_fs small_fs"
  unfolding acyclic_fs_def ranked_def
proof (intro exI allI impI)
  fix a k b assume "map_of (entries_of small_fs a) k = Some (Dir b)"
  then show "a < b"
    by (cases a; cases "a - 1") (auto simp: small_fs_def entries_of_def split: if_splits)
qed

lemma small_fs_paths:
  "resolve small_fs ''/a'' = [''a'']" "resolve small_fs ''/b'' = [''b'']"
  "resolve small_fs ''/root'' = [''root'']"
  by (simp_all add: resolve_def strip_char_def rstrip_char_def split_char_def resolve_part_def)

lemma small_fs_facts:
  "parent_dir small_fs ''/a'' 0" "base_name small_fs ''/a'' = ''a''"
  "parent_dir small_fs ''/b'' 0" "base_name small_fs ''/b'' = ''b''"
  "parent_dir small_fs ''/root'' 0" "base_name small_fs ''/root'' = ''root''"
  "lookup small_fs [''a''] = Some (File ''x'' None)" "lookup small_fs [''b''] = None"
  by (simp_all add: parent_dir_def base_name_def small_fs_paths lookup_def)
    (simp_all add: small_fs_def entries_of_def)

lemma small_cp: "copy_node 500 ''/'' ''/b'' small_fs = (Inr None, snd (copy_node 500 ''/'' ''/b'' small_fs))"
  by code_simp

lemma cp_is_deep_witness:
  "map_of (entries_of (snd (copy_node 500 ''/'' ''/b'' small_fs)) 0) ''b'' = Some (Dir 2)
     \<and> lookup_from (snd (copy_node 500 ''/'' ''/b'' small_fs)) (Dir 2) [''a''] = Some (File ''x'' None)"
proof -
  let ?fs' = "snd (copy_node 500 ''/'' ''/b'' small_fs)"
  have len: "length (fs_dirs small_fs) = 2" by (simp add: small_fs_def)
  have src: "lookup small_fs (resolve small_fs ''/'') = Some (Dir 0)" by (simp add: resolve_slash lookup_def)
  have content: "lookup_from small_fs (Dir 0) [''a''] = Some (File ''x'' None)"
    using small_fs_facts(7) by (simp only: lookup_def)
  have parent: "parent_dir small_fs ''/b'' d \<Longrightarrow> d = 0" for d
    using small_fs_facts(3) by (simp add: parent_dir_def)
  have nodir: "\<nexists>e. lookup small_fs (resolve small_fs ''/b'') = Some (Dir e)"
    using small_fs_facts(8) by (simp add: small_fs_paths)
  obtain n d k where n: "lookup small_fs (resolve small_fs ''/'') = Some n"
    and dk: "if \<exists>e. lookup small_fs (resolve small_fs ''/b'') = Some (Dir e)
       then lookup small_fs (resolve small_fs ''/b'') = Some (Dir d) \<and> k = base_name small_fs ''/''
       else parent_dir small_fs ''/b'' d \<and> k = base_name small_fs ''/b''"
    and e: "entries_of ?fs' d = AList.update k (shift_node (length (fs_dirs small_fs)) n) (entries_of small_fs d)"
    and l: "\<forall>ps. lookup_from ?fs' (shift_node (length (fs_dirs small_fs)) n) ps
          = map_option (shift_node (length (fs_dirs small_fs))) (lookup_from small_fs n ps)"
    using cp_is_deep [OF small_fs_wf small_cp] by blast
  have node: "n = Dir 0" using n src by simp
  have "d = 0" "k = ''b''" using dk nodir parent small_fs_facts(4) by simp_all
  then have "map_of (entries_of ?fs' 0) ''b'' = Some (Dir 2)" using e by (simp add: node len)
  moreover have "lookup_from ?fs' (Dir 2) [''a''] = Some (File ''x'' None)"
    using l [THEN spec, of "[''a'']"] content by (simp only: node len shift_node.simps add_0 option.map)
  ultimately show ?thesis by (rule conjI)
qed

text \<open>Three nested directories need 18 frames: with 17 the copy raises, and nothing is changed.\<close>

lemma deep_cp_raises:
  "copy_node 17 ''/d'' ''/x'' (make_dir ''/d/e/f'' (make_dir ''/d/e'' small_fs))
     = (Inl RecursionError, make_dir ''/d/e/f'' (make_dir ''/d/e'' small_fs))"
  "fst (copy_node 18 ''/d'' ''/x'' (make_dir ''/d/e/f'' (make_dir ''/d/e'' small_fs))) = Inr None"
  by code_simp+

lemma mv_onto_itself_deletes_witness:
  "fst (move_node ''/a'' ''/a'' small_fs) = Inr None
   \<and> read_file zero_reading (snd (move_node ''/a'' ''/a'' small_fs)) ''/a'' = None"
  using mv_onto_itself_deletes [OF small_fs_wf small_fs_acyclic small_fs_facts(1), of "''x''" None zero_reading]
    small_fs_facts by (simp add: small_fs_paths)

lemma mv_renames_witness:
  "read_file zero_reading (snd (move_node ''/a'' ''/b'' small_fs)) ''/b''
     = read_file zero_reading small_fs ''/a''"
  using mv_renames [OF small_fs_wf small_fs_acyclic small_fs_facts(1) _ small_fs_facts(3),
      of "''x''" None zero_reading] small_fs_facts
  by (simp add: small_fs_paths)

lemma file_named_root_unreadable_witness:
  "read_file zero_reading (write_file ''/root'' ''x'' small_fs) ''/root'' = None"
proof (rule file_named_root_unreadable)
  show "parent_dir (write_file ''/root'' ''x'' small_fs) ''/root'' 0"
    and "base_name (write_file ''/root'' ''x'' small_fs) ''/root'' = ''root''"
    using small_fs_facts parent_set_entry(1) [OF small_fs_acyclic small_fs_facts(5)]
    by (simp_all add: write_file_eq [OF small_fs_facts(5)])
qed

lemma pwd_cd_roundtrip_witness:
  "lookup small_fs (resolve small_fs (cwd_display small_fs)) = lookup small_fs (fs_cwd small_fs)"
  by (rule pwd_cd_roundtrip [OF small_fs_wf])

lemma ls_in_removed_directory_witness:
  "listdir_nodes None (small_fs\<lparr>fs_cwd := [''gone'']\<rparr>)
     = Inl ''ls: None: No such file or directory''"
  by (rule ls_in_removed_directory) (simp add: small_fs_def lookup_def entries_of_def)

end
