(* ===== verification/Url.thy ===== *)
theory Url
  imports Ip_Address
begin

section \<open>Python's urlsplit\<close>

text \<open>
  \<open>urllib.parse.urlsplit\<close> of the standard library (3.11), which the download parser, the fetcher
  and the job queue read URLs with, and the \<open>hostname\<close> attribute of its result. It raises
  \<open>ValueError\<close> for a malformed bracketed host. On the modelled characters the NFKC test of
  \<open>_checknetloc\<close> never raises: no code point below 256 normalises to one of \<open>/?#@:\<close>.
\<close>

definition is_c0_or_space :: "char \<Rightarrow> bool" where
  "is_c0_or_space c \<longleftrightarrow> (of_char c :: nat) \<le> 32"

definition is_scheme_char :: "char \<Rightarrow> bool" where
  "is_scheme_char c \<longleftrightarrow> is_alpha_ascii c \<or> is_digit c \<or> c \<in> set ''+-.''"

definition is_unsafe_url_char :: "char \<Rightarrow> bool" where
  "is_unsafe_url_char c \<longleftrightarrow> c = CHR 0x09 \<or> c = CHR 0x0D \<or> c = CHR 0x0A"

record split_url =
  us_scheme :: string
  us_netloc :: string
  us_path :: string
  us_query :: string
  us_fragment :: string

definition clean_url :: "string \<Rightarrow> string" where
  "clean_url u = filter (\<lambda>c. \<not> is_unsafe_url_char c) (dropWhile is_c0_or_space u)"

definition split_scheme :: "string \<Rightarrow> string \<times> string" where
  "split_scheme u =
     (let s = before (CHR '':'') u
      in if CHR '':'' \<in> set u \<and> s \<noteq> [] \<and> is_alpha_ascii (hd s) \<and> list_all is_scheme_char s
         then (lower s, after (CHR '':'') u) else ([], u))"

definition is_netloc_char :: "char \<Rightarrow> bool" where
  "is_netloc_char c \<longleftrightarrow> c \<noteq> CHR ''/'' \<and> c \<noteq> CHR ''?'' \<and> c \<noteq> CHR ''#''"

definition ipv_future_ok :: "string \<Rightarrow> bool" where
  "ipv_future_ok h \<longleftrightarrow>
     (let r = drop 1 h; hex = takeWhile (\<lambda>c. hex_value c \<noteq> None) r; tail = drop (length hex) r
      in hex \<noteq> [] \<and> startswith tail ''.'' \<and> length tail \<ge> 2 \<and> CHR 0x0A \<notin> set tail)"

definition bracketed_host_ok :: "string \<Rightarrow> bool" where
  "bracketed_host_ok h \<longleftrightarrow>
     (if startswith h ''v'' then ipv_future_ok h
      else case parse_ip h of Some (V6 _) \<Rightarrow> True | _ \<Rightarrow> False)"

definition netloc_ok :: "string \<Rightarrow> bool" where
  "netloc_ok n \<longleftrightarrow>
     (if CHR ''['' \<in> set n \<and> CHR '']'' \<in> set n
      then bracketed_host_ok (before (CHR '']'') (after (CHR ''['') n))
      else CHR ''['' \<notin> set n \<and> CHR '']'' \<notin> set n)"

definition split_netloc :: "string \<Rightarrow> string \<times> string" where
  "split_netloc u =
     (if startswith u ''//''
      then (takeWhile is_netloc_char (drop 2 u), dropWhile is_netloc_char (drop 2 u))
      else ([], u))"

definition urlsplit :: "string \<Rightarrow> split_url result" where
  "urlsplit url =
     (let (sch, rest) = split_scheme (clean_url url); (net, tail) = split_netloc rest
      in if \<not> netloc_ok net then Inl ValueError
         else Inr \<lparr>us_scheme = sch, us_netloc = net,
                us_path = before (CHR ''?'') (before (CHR ''#'') tail),
                us_query = after (CHR ''?'') (before (CHR ''#'') tail),
                us_fragment = after (CHR ''#'') tail\<rparr>)"

text \<open>\<open>SplitResult.hostname\<close>; \<open>None\<close> for no host. The zone of an IPv6 address keeps its case.\<close>

definition host_part :: "string \<Rightarrow> string" where
  "host_part n =
     (let h = after_last (CHR ''@'') n
      in if CHR ''['' \<in> set h then before (CHR '']'') (after (CHR ''['') h)
         else before (CHR '':'') h)"

definition hostname :: "split_url \<Rightarrow> string option" where
  "hostname u =
     (let h = host_part (us_netloc u)
      in if h = [] then None
         else Some (lower (before (CHR ''%'') h) @ drop (length (before (CHR ''%'') h)) h))"

subsection \<open>Facts\<close>

lemma netloc_ok_plain: "CHR ''['' \<notin> set n \<Longrightarrow> CHR '']'' \<notin> set n \<Longrightarrow> netloc_ok n"
  by (simp add: netloc_ok_def)

lemma set_clean_url: "set (clean_url u) \<subseteq> set u"
  by (auto simp: clean_url_def dest: set_dropWhileD)

lemma set_after: "set (after c s) \<subseteq> set s"
  by (auto simp: after_def dest: in_set_dropD set_dropWhileD)

lemma set_before: "set (before c s) \<subseteq> set s"
  by (auto simp: before_def dest: set_takeWhileD)

lemma set_split_scheme: "set (snd (split_scheme u)) \<subseteq> set u"
  using set_after by (auto simp: split_scheme_def Let_def)

lemma set_split_netloc: "set (fst (split_netloc u)) \<subseteq> set u"
  by (auto simp: split_netloc_def dest: set_takeWhileD in_set_dropD)

text \<open>Only a bracket can make \<open>urlsplit\<close> raise.\<close>

lemma urlsplit_no_brackets:
  assumes "CHR ''['' \<notin> set url" and "CHR '']'' \<notin> set url"
  shows "is_ok (urlsplit url)"
proof -
  obtain sch rest where s: "split_scheme (clean_url url) = (sch, rest)" by (cases "split_scheme (clean_url url)")
  obtain net tail where n: "split_netloc rest = (net, tail)" by (cases "split_netloc rest")
  have "set net \<subseteq> set url"
    using set_split_netloc [of rest] set_split_scheme [of "clean_url url"] set_clean_url [of url]
    by (auto simp: s n)
  with assms have "netloc_ok net" by (intro netloc_ok_plain) auto
  then show ?thesis by (simp add: urlsplit_def s n)
qed

lemma takeWhile_append_stop: "(\<forall>x \<in> set xs. P x) \<Longrightarrow> ys = [] \<or> \<not> P (hd ys) \<Longrightarrow>
    takeWhile P (xs @ ys) = xs \<and> dropWhile P (xs @ ys) = ys"
  by (cases ys) (auto simp: takeWhile_append dropWhile_append)

lemma before_append: "c \<notin> set s \<Longrightarrow> before c (s @ c # r) = s"
  by (simp add: before_def takeWhile_append)

lemma after_append: "c \<notin> set s \<Longrightarrow> after c (s @ c # r) = r"
  by (simp add: after_def dropWhile_append)

lemma before_absent: "c \<notin> set s \<Longrightarrow> before c s = s"
  by (auto simp: before_def takeWhile_eq_all_conv)

lemma after_absent: "c \<notin> set s \<Longrightarrow> after c s = []"
proof -
  assume "c \<notin> set s"
  then have "dropWhile (\<lambda>d. d \<noteq> c) s = []" unfolding dropWhile_eq_Nil_conv by blast
  then show "after c s = []" by (simp only: after_def drop_Nil)
qed

lemma after_last_absent: "c \<notin> set s \<Longrightarrow> after_last c s = s"
proof -
  assume "c \<notin> set s"
  then have "takeWhile (\<lambda>d. d \<noteq> c) (rev s) = rev s" unfolding takeWhile_eq_all_conv by auto
  then show "after_last c s = s" by (simp only: after_last_def rev_rev_ident)
qed

text \<open>A URL in the parts it was put together from.\<close>

definition url_char :: "char \<Rightarrow> bool" where
  "url_char c \<longleftrightarrow> (of_char c :: nat) > 32"

definition plain_scheme :: "string \<Rightarrow> bool" where
  "plain_scheme s \<longleftrightarrow> s \<noteq> [] \<and> is_alpha_ascii (hd s) \<and> list_all is_scheme_char s"

lemma url_char_safe: "url_char c \<Longrightarrow> \<not> is_unsafe_url_char c \<and> \<not> is_c0_or_space c"
  by (auto simp: url_char_def is_unsafe_url_char_def is_c0_or_space_def)

lemma clean_url_id: "list_all url_char u \<Longrightarrow> clean_url u = u"
  by (cases u) (auto simp: clean_url_def list_all_iff url_char_safe intro!: filter_True)

lemma scheme_char_url_char: "is_scheme_char c \<Longrightarrow> url_char c \<and> c \<noteq> CHR '':''"
  by (auto simp: is_scheme_char_def url_char_def is_alpha_ascii_def is_digit_def Let_def)

lemma urlsplit_parts:
  assumes s: "plain_scheme s"
    and n: "list_all (\<lambda>c. url_char c \<and> is_netloc_char c) n"
    and p: "list_all url_char p" "CHR ''?'' \<notin> set p" "CHR ''#'' \<notin> set p" "p = [] \<or> hd p = CHR ''/''"
  shows "urlsplit (s @ ''://'' @ n @ p)
    = (if \<not> netloc_ok n then Inl ValueError else Inr \<lparr>us_scheme = lower s, us_netloc = n, us_path = p, us_query = [], us_fragment = []\<rparr>)"
proof -
  let ?u = "s @ ''://'' @ n @ p"
  have "list_all url_char s" using s by (auto simp: plain_scheme_def list_all_iff scheme_char_url_char)
  moreover have "list_all url_char n" using n by (auto simp: list_all_iff)
  moreover have "list_all url_char ''://''" by (simp add: url_char_def)
  ultimately have u: "clean_url ?u = ?u"
    using p(1) by (intro clean_url_id) (simp only: list_all_append)
  have "CHR '':'' \<notin> set s" using s scheme_char_url_char by (auto simp: plain_scheme_def list_all_iff)
  then have "before (CHR '':'') ?u = s" "after (CHR '':'') ?u = ''//'' @ n @ p"
    using before_append [of "CHR '':''" s "''//'' @ n @ p"] after_append [of "CHR '':''" s "''//'' @ n @ p"]
    by simp_all
  then have sch: "split_scheme ?u = (lower s, ''//'' @ n @ p)"
    using s by (simp add: split_scheme_def plain_scheme_def Let_def)
  have "takeWhile is_netloc_char (n @ p) = n \<and> dropWhile is_netloc_char (n @ p) = p"
    using n p by (intro takeWhile_append_stop) (auto simp: list_all_iff is_netloc_char_def)
  then have net: "split_netloc (''//'' @ n @ p) = (n, p)"
    by (simp add: split_netloc_def startswith_def)
  show ?thesis using p
    unfolding urlsplit_def u sch case_prod_conv Let_def net by (simp add: before_absent after_absent)
qed

end
