(* ===== verification/Shell_Lex.thy ===== *)
theory Shell_Lex
  imports Py_Text
begin

section \<open>Splitting and tokenising attacker input\<close>

text \<open>
  The text layer of \<open>honeypot/shell/commands.py\<close>: the chain splitter \<open>split_command_line\<close>, the
  tokeniser \<open>tokenize\<close> (\<open>shlex.split\<close> of the standard library with a white-space fallback), the
  flag parser and the literal \<open>grep\<close> match. The script scanner uses the same functions. A small
  syntax of command lines with a printer states what they recognise.
\<close>

subsection \<open>The chain splitter\<close>

definition max_chain_segments :: nat where
  "max_chain_segments = 30"

text \<open>The loop's variables. \<open>lx_buf\<close> is the text of the segment being read.\<close>

record lexer =
  lx_segments :: "(string \<times> string) list"
  lx_buf :: string
  lx_op :: string
  lx_quote :: "char option"

definition start_lexer :: lexer where
  "start_lexer = \<lparr>lx_segments = [], lx_buf = [], lx_op = '';'', lx_quote = None\<rparr>"

definition flush :: "string \<Rightarrow> lexer \<Rightarrow> lexer" where
  "flush next_op s =
     (let seg = strip (lx_buf s); t = s\<lparr>lx_buf := []\<rparr>
      in if seg \<noteq> [] then t\<lparr>lx_segments := lx_segments s @ [(lx_op s, seg)], lx_op := next_op\<rparr>
         else if lx_segments s \<noteq> [] then t\<lparr>lx_op := next_op\<rparr>
         else t)"

definition push :: "string \<Rightarrow> lexer \<Rightarrow> lexer" where
  "push cs s = s\<lparr>lx_buf := lx_buf s @ cs\<rparr>"

definition set_quote :: "char option \<Rightarrow> lexer \<Rightarrow> lexer" where
  "set_quote q s = s\<lparr>lx_quote := q\<rparr>"

abbreviation (input) "backslash \<equiv> CHR 0x5C"
abbreviation (input) "dquote \<equiv> CHR 0x22"
abbreviation (input) "squote \<equiv> CHR 0x27"
abbreviation (input) "newline \<equiv> CHR 0x0A"

text \<open>One turn of the loop: the new state and the number of characters used.\<close>

definition lex_step :: "lexer \<Rightarrow> char \<Rightarrow> string \<Rightarrow> lexer \<times> nat" where
  "lex_step s c cs =
     (case lx_quote s of
        Some q \<Rightarrow>
          (if c = q then (set_quote None (push [c] s), 1)
           else if c = backslash \<and> q = dquote \<and> cs \<noteq> [] then (push [c, hd cs] s, 2)
           else (push [c] s, 1))
      | None \<Rightarrow>
          (if c = squote \<or> c = dquote then (push [c] (set_quote (Some c) s), 1)
           else if c = backslash \<and> cs \<noteq> [] then (push [c, hd cs] s, 2)
           else if c = CHR '';'' \<or> c = newline then (flush '';'' s, 1)
           else if startswith (c # cs) ''&&'' then (flush ''&&'' s, 2)
           else if startswith (c # cs) ''||'' then (flush ''||'' s, 2)
           else (push [c] s, 1)))"

lemma lex_step_used: "snd (lex_step s c cs) = 1 \<or> snd (lex_step s c cs) = 2"
  by (auto simp: lex_step_def split: option.splits)

function lex_loop :: "nat \<Rightarrow> lexer \<Rightarrow> string \<Rightarrow> lexer" where
  "lex_loop limit s [] = s"
| "lex_loop limit s (c # cs) =
     (if length (lx_segments s) \<ge> limit then s
      else lex_loop limit (fst (lex_step s c cs)) (drop (snd (lex_step s c cs)) (c # cs)))"
  by pat_completeness auto
termination
proof (relation "measure (\<lambda>(limit, s, cs). length cs)", goal_cases)
  case (2 limit s c cs)
  then show ?case using lex_step_used [of s c cs] by auto
qed simp

definition split_command_line :: "string \<Rightarrow> nat \<Rightarrow> (string \<times> string) list" where
  "split_command_line raw limit =
     take limit (lx_segments (flush '';'' (lex_loop limit start_lexer raw)))"

subsection \<open>The tokeniser\<close>

definition is_shlex_space :: "char \<Rightarrow> bool" where
  "is_shlex_space c \<longleftrightarrow> c = CHR '' '' \<or> c = CHR 0x09 \<or> c = CHR 0x0D \<or> c = CHR 0x0A"

text \<open>
  \<open>shlex.split(s)\<close> in POSIX mode: between words, in a word, in quotes, after a backslash (with the
  quote it was met in). Input that ends inside quotes or after a backslash raises \<open>ValueError\<close>.
\<close>

datatype shlex_state = Between | In_Word | In_Quote char | Escaping "char option"

fun shlex_go :: "shlex_state \<Rightarrow> string \<Rightarrow> string \<Rightarrow> string list result" where
  "shlex_go Between tok [] = Inr []"
| "shlex_go Between tok (c # cs) =
     (if is_shlex_space c then shlex_go Between [] cs
      else if c = backslash then shlex_go (Escaping None) [] cs
      else if c = squote \<or> c = dquote then shlex_go (In_Quote c) [] cs
      else shlex_go In_Word [c] cs)"
| "shlex_go In_Word tok [] = Inr [tok]"
| "shlex_go In_Word tok (c # cs) =
     (if is_shlex_space c then bind_result (shlex_go Between [] cs) (\<lambda>ts. Inr (tok # ts))
      else if c = backslash then shlex_go (Escaping None) tok cs
      else if c = squote \<or> c = dquote then shlex_go (In_Quote c) tok cs
      else shlex_go In_Word (tok @ [c]) cs)"
| "shlex_go (In_Quote q) tok [] = Inl ValueError"
| "shlex_go (In_Quote q) tok (c # cs) =
     (if c = q then shlex_go In_Word tok cs
      else if c = backslash \<and> q = dquote then shlex_go (Escaping (Some q)) tok cs
      else shlex_go (In_Quote q) (tok @ [c]) cs)"
| "shlex_go (Escaping ret) tok [] = Inl ValueError"
| "shlex_go (Escaping None) tok (c # cs) = shlex_go In_Word (tok @ [c]) cs"
| "shlex_go (Escaping (Some q)) tok (c # cs) =
     shlex_go (In_Quote q) (tok @ (if c \<noteq> backslash \<and> c \<noteq> q then [backslash, c] else [c])) cs"

definition shlex_split :: "string \<Rightarrow> string list result" where
  "shlex_split s = shlex_go Between [] s"

definition tokenize :: "string \<Rightarrow> string list" where
  "tokenize raw = (case shlex_split raw of Inr ts \<Rightarrow> ts | Inl _ \<Rightarrow> split_ws raw)"

subsection \<open>Flags and literal search\<close>

fun parse_short_flags :: "string list \<Rightarrow> char set \<times> string list" where
  "parse_short_flags [] = ({}, [])"
| "parse_short_flags (a # as) =
     (let (flags, positionals) = parse_short_flags as
      in if startswith a ''--'' then (flags, positionals)
         else if startswith a ''-'' \<and> length a > 1 then (set (tl a) \<union> flags, positionals)
         else (flags, a # positionals))"

definition grep_matches :: "string \<Rightarrow> string \<Rightarrow> bool \<Rightarrow> bool" where
  "grep_matches needle haystack ignore_case =
     (if ignore_case then contains (lower needle) (lower haystack) else contains needle haystack)"

subsection \<open>What the splitter returns\<close>

definition operators :: "string set" where
  "operators = {'';'', ''&&'', ''||''}"

text \<open>
  The invariant of the loop over \<open>raw\<close>, with \<open>rest\<close> unread: the buffer is the text just before
  \<open>rest\<close>, and the segments are stripped non-empty pieces of \<open>raw\<close>.
\<close>

definition segments_ok :: "string \<Rightarrow> (string \<times> string) list \<Rightarrow> bool" where
  "segments_ok raw segs \<longleftrightarrow>
     (\<forall>(op, seg) \<in> set segs. op \<in> operators \<and> seg \<noteq> [] \<and> strip seg = seg \<and> contains seg raw)
     \<and> (segs \<noteq> [] \<longrightarrow> fst (hd segs) = '';'')"

definition lexer_inv :: "nat \<Rightarrow> string \<Rightarrow> lexer \<Rightarrow> string \<Rightarrow> bool" where
  "lexer_inv limit raw s rest \<longleftrightarrow>
     segments_ok raw (lx_segments s) \<and> length (lx_segments s) \<le> limit
     \<and> lx_op s \<in> operators \<and> (lx_segments s = [] \<longrightarrow> lx_op s = '';'')
     \<and> (\<exists>pre. raw = pre @ lx_buf s @ rest)"

lemma push_simps [simp]:
  "lx_segments (push cs s) = lx_segments s" "lx_op (push cs s) = lx_op s"
  "lx_quote (push cs s) = lx_quote s" "lx_buf (push cs s) = lx_buf s @ cs"
  by (simp_all add: push_def)

lemma set_quote_simps [simp]:
  "lx_segments (set_quote q s) = lx_segments s" "lx_op (set_quote q s) = lx_op s"
  "lx_quote (set_quote q s) = q" "lx_buf (set_quote q s) = lx_buf s"
  by (simp_all add: set_quote_def)

lemma flush_quote [simp]: "lx_quote (flush op s) = lx_quote s" "lx_buf (flush op s) = []"
  by (simp_all add: flush_def Let_def)

lemma contains_trans: "contains a b \<Longrightarrow> contains b c \<Longrightarrow> contains a c"
  unfolding contains_iff by (metis append.assoc)

lemma contains_lstrip: "contains (lstrip s) s"
  unfolding contains_iff lstrip_def by (metis append_Nil2 takeWhile_dropWhile_id)

lemma contains_rstrip: "contains (rstrip s) s"
proof -
  have "s = rstrip s @ rev (takeWhile is_space (rev s))"
    unfolding rstrip_def by (metis rev_append rev_rev_ident takeWhile_dropWhile_id)
  then show ?thesis unfolding contains_iff by (metis append_Nil)
qed

lemma contains_strip: "contains (strip s) s"
  unfolding strip_def using contains_trans contains_rstrip contains_lstrip by blast

lemma flush_inv:
  assumes inv: "lexer_inv limit raw s rest" and lt: "length (lx_segments s) < limit"
    and op: "op \<in> operators"
  shows "lexer_inv limit raw (flush op s) rest"
proof -
  obtain pre where raw: "raw = pre @ lx_buf s @ rest" using inv by (auto simp: lexer_inv_def)
  then have "contains (lx_buf s) raw" by (auto simp: contains_iff)
  then have "contains (strip (lx_buf s)) raw" using contains_strip contains_trans by blast
  moreover have "\<exists>pre'. raw = pre' @ rest" using raw by (metis append.assoc)
  ultimately show ?thesis using inv lt op
    by (auto simp: lexer_inv_def segments_ok_def flush_def Let_def hd_append)
qed

lemma push_inv: "lexer_inv limit raw s (cs @ rest) \<Longrightarrow> lexer_inv limit raw (push cs s) rest"
  by (auto simp: lexer_inv_def)

lemma set_quote_inv [simp]: "lexer_inv limit raw (set_quote q s) rest \<longleftrightarrow> lexer_inv limit raw s rest"
  by (simp add: lexer_inv_def)

lemma skip_inv: "lexer_inv limit raw s (cs @ rest) \<Longrightarrow> lx_buf s = [] \<Longrightarrow> lexer_inv limit raw s rest"
  unfolding lexer_inv_def by (metis append.assoc append_Nil)

lemma operators_mem: "'';'' \<in> operators" "''&&'' \<in> operators" "''||'' \<in> operators"
  by (simp_all add: operators_def)

lemma lex_step_inv:
  assumes inv: "lexer_inv limit raw s (c # cs)" and lt: "length (lx_segments s) < limit"
  shows "lexer_inv limit raw (fst (lex_step s c cs)) (drop (snd (lex_step s c cs)) (c # cs))"
proof -
  have push1: "lexer_inv limit raw (push [c] s) cs" using inv by (intro push_inv) simp
  have push2: "cs \<noteq> [] \<Longrightarrow> lexer_inv limit raw (push [c, hd cs] s) (tl cs)"
    using inv by (intro push_inv) simp
  have flush1: "lexer_inv limit raw (flush op s) (drop n (c # cs))" if "op \<in> operators" for op n
    using flush_inv [OF inv lt that] skip_inv [of limit raw "flush op s" "take n (c # cs)"]
    by simp
  have quote1: "lexer_inv limit raw (push [c] (set_quote q s)) cs" for q
    using inv by (intro push_inv) simp
  show ?thesis
    using push1 push2 quote1 flush1 [OF operators_mem(1), of 1] flush1 [OF operators_mem(2), of 2]
      flush1 [OF operators_mem(3), of 2]
    by (auto simp: lex_step_def drop_Suc numeral_2_eq_2 split: option.splits)
qed

lemma lex_loop_inv:
  "lexer_inv limit raw s cs \<Longrightarrow> \<exists>rest. lexer_inv limit raw (lex_loop limit s cs) rest"
proof (induction limit s cs rule: lex_loop.induct)
  case (1 limit s)
  then show ?case by auto
next
  case (2 limit s c cs)
  then show ?case using lex_step_inv [of limit raw s c cs] by auto
qed

lemma split_command_line_ok:
  "segments_ok raw (split_command_line raw limit) \<and> length (split_command_line raw limit) \<le> limit"
proof -
  have "lexer_inv limit raw start_lexer raw"
    by (simp add: lexer_inv_def start_lexer_def segments_ok_def operators_def)
  then obtain rest where inv: "lexer_inv limit raw (lex_loop limit start_lexer raw) rest"
    using lex_loop_inv by blast
  let ?s = "lex_loop limit start_lexer raw"
  show ?thesis
  proof (cases "length (lx_segments ?s) < limit")
    case True
    then have "lexer_inv limit raw (flush '';'' ?s) rest"
      using flush_inv [OF inv _ operators_mem(1)] by blast
    then show ?thesis by (simp add: split_command_line_def lexer_inv_def)
  next
    case False
    with inv have "length (lx_segments ?s) = limit" by (simp add: lexer_inv_def)
    then have "take limit (lx_segments (flush '';'' ?s)) = lx_segments ?s"
      by (simp add: flush_def Let_def)
    with inv show ?thesis by (simp add: split_command_line_def lexer_inv_def)
  qed
qed

text \<open>
  C24. Whatever the attacker types, the splitter returns at most \<open>limit\<close> segments; every segment is a
  non-empty, stripped, contiguous piece of the input, every operator is \<open>;\<close>, \<open>&&\<close> or \<open>||\<close>, and the
  first one is \<open>;\<close>.
\<close>
theorem split_command_line_sound:
  "length (split_command_line raw limit) \<le> limit
   \<and> (\<forall>(op, seg) \<in> set (split_command_line raw limit).
        op \<in> {'';'', ''&&'', ''||''} \<and> seg \<noteq> [] \<and> strip seg = seg
        \<and> (\<exists>u v. raw = u @ seg @ v))
   \<and> (split_command_line raw limit \<noteq> [] \<longrightarrow> fst (hd (split_command_line raw limit)) = '';'')"
  using split_command_line_ok [of raw limit]
  by (auto simp: segments_ok_def operators_def contains_iff)

lemma split_command_line_sound_witness:
  "split_command_line ''a; b && c'' 30 \<noteq> []
   \<and> fst (hd (split_command_line ''a; b && c'' 30)) = '';''"
proof -
  have "split_command_line ''a; b && c'' 30 \<noteq> []" by code_simp
  with split_command_line_sound [of "''a; b && c''" 30] show ?thesis by blast
qed

subsection \<open>The syntax of command lines\<close>

text \<open>
  A word is a sequence of pieces: a plain character, a backslash and a character, a lone \<open>&\<close> or \<open>|\<close>
  with the character after it, text in single quotes, text in double quotes (where a backslash
  pairs with the next character). \<open>show_\<close> prints, \<open>value_\<close> is what the word means.
\<close>

datatype dq = DChar char | DEsc char
datatype piece = Plain char | Escaped char | Lone char char | Single string | Double "dq list"
type_synonym word_syntax = "piece list"

fun show_dq :: "dq \<Rightarrow> string" where
  "show_dq (DChar c) = [c]"
| "show_dq (DEsc c) = [backslash, c]"

fun value_dq :: "dq \<Rightarrow> string" where
  "value_dq (DChar c) = [c]"
| "value_dq (DEsc c) = (if c \<noteq> backslash \<and> c \<noteq> dquote then [backslash, c] else [c])"

fun ok_dq :: "dq \<Rightarrow> bool" where
  "ok_dq (DChar c) \<longleftrightarrow> c \<noteq> backslash \<and> c \<noteq> dquote"
| "ok_dq (DEsc c) \<longleftrightarrow> True"

fun show_piece :: "piece \<Rightarrow> string" where
  "show_piece (Plain c) = [c]"
| "show_piece (Escaped c) = [backslash, c]"
| "show_piece (Lone a c) = [a, c]"
| "show_piece (Single s) = squote # s @ [squote]"
| "show_piece (Double ds) = dquote # concat (map show_dq ds) @ [dquote]"

fun value_piece :: "piece \<Rightarrow> string" where
  "value_piece (Plain c) = [c]"
| "value_piece (Escaped c) = [c]"
| "value_piece (Lone a c) = [a, c]"
| "value_piece (Single s) = s"
| "value_piece (Double ds) = concat (map value_dq ds)"

definition plain_char :: "char \<Rightarrow> bool" where
  "plain_char c \<longleftrightarrow> \<not> is_space c \<and> c \<notin> {squote, dquote, backslash, CHR '';'', CHR ''&'', CHR ''|''}"

fun ok_piece :: "piece \<Rightarrow> bool" where
  "ok_piece (Plain c) \<longleftrightarrow> plain_char c"
| "ok_piece (Escaped c) \<longleftrightarrow> \<not> is_space c"
| "ok_piece (Lone a c) \<longleftrightarrow> (a = CHR ''&'' \<or> a = CHR ''|'') \<and> plain_char c"
| "ok_piece (Single s) \<longleftrightarrow> squote \<notin> set s"
| "ok_piece (Double ds) \<longleftrightarrow> list_all ok_dq ds"

definition show_word :: "word_syntax \<Rightarrow> string" where
  "show_word w = concat (map show_piece w)"

definition value_word :: "word_syntax \<Rightarrow> string" where
  "value_word w = concat (map value_piece w)"

definition ok_word :: "word_syntax \<Rightarrow> bool" where
  "ok_word w \<longleftrightarrow> w \<noteq> [] \<and> list_all ok_piece w"

definition show_command :: "word_syntax list \<Rightarrow> string" where
  "show_command ws = join '' '' (map show_word ws)"

fun show_chain :: "(string \<times> word_syntax list) list \<Rightarrow> string" where
  "show_chain [] = []"
| "show_chain [(op, ws)] = show_command ws"
| "show_chain ((op, ws) # (op', ws') # rest) =
     show_command ws @ '' '' @ op' @ '' '' @ show_chain ((op', ws') # rest)"

definition plain_word :: "string \<Rightarrow> word_syntax" where
  "plain_word s = map Plain s"

lemma show_plain_word [simp]: "show_word (plain_word s) = s" "value_word (plain_word s) = s"
  by (induction s) (simp_all add: plain_word_def show_word_def value_word_def)

lemma ok_plain_word: "ok_word (plain_word s) \<longleftrightarrow> s \<noteq> [] \<and> list_all plain_char s"
  by (auto simp: ok_word_def plain_word_def list_all_iff)

lemma show_plain_words: "show_command (map plain_word ss) = join '' '' ss"
  by (simp add: show_command_def comp_def)

subsubsection \<open>Tokenising printed words\<close>

lemma shlex_space_is_space: "is_shlex_space c \<Longrightarrow> is_space c"
  unfolding is_shlex_space_def by (elim disjE) (simp_all add: is_space_def)

lemma plain_char_space: "plain_char c \<Longrightarrow> \<not> is_shlex_space c"
  using shlex_space_is_space by (auto simp: plain_char_def)

lemma plain_char_neq:
  "plain_char c \<Longrightarrow> c \<noteq> squote \<and> c \<noteq> dquote \<and> c \<noteq> backslash
     \<and> c \<noteq> CHR '';'' \<and> c \<noteq> CHR ''&'' \<and> c \<noteq> CHR ''|''"
  by (simp add: plain_char_def)

lemma plain_char_newline: "plain_char c \<Longrightarrow> c \<noteq> newline"
proof -
  have "is_space newline" by (simp add: is_space_def)
  then show "plain_char c \<Longrightarrow> c \<noteq> newline" unfolding plain_char_def by blast
qed

lemma shlex_dq:
  "list_all ok_dq ds \<Longrightarrow>
   shlex_go (In_Quote dquote) tok (concat (map show_dq ds) @ rest)
     = shlex_go (In_Quote dquote) (tok @ concat (map value_dq ds)) rest"
proof (induction ds arbitrary: tok)
  case (Cons d ds)
  then show ?case by (cases d) auto
qed simp

lemma shlex_sq:
  "squote \<notin> set s \<Longrightarrow>
   shlex_go (In_Quote squote) tok (s @ rest) = shlex_go (In_Quote squote) (tok @ s) rest"
  by (induction s arbitrary: tok) auto

lemma not_shlex_space [simp]:
  "\<not> is_shlex_space squote" "\<not> is_shlex_space dquote" "\<not> is_shlex_space backslash"
  "\<not> is_shlex_space (CHR ''&'')" "\<not> is_shlex_space (CHR ''|'')"
  by (simp_all add: is_shlex_space_def)

lemma shlex_piece:
  "ok_piece p \<Longrightarrow>
   shlex_go In_Word tok (show_piece p @ rest) = shlex_go In_Word (tok @ value_piece p) rest"
  apply (cases p)
  subgoal by (simp add: plain_char_space plain_char_neq)
  subgoal by simp
  subgoal by (auto simp: plain_char_space plain_char_neq)
  subgoal by (simp add: shlex_sq)
  subgoal by (simp add: shlex_dq)
  done

lemma shlex_piece_first:
  "ok_piece p \<Longrightarrow>
   shlex_go Between tok (show_piece p @ rest) = shlex_go In_Word (value_piece p) rest"
  apply (cases p)
  subgoal by (simp add: plain_char_space plain_char_neq)
  subgoal by simp
  subgoal by (auto simp: plain_char_space plain_char_neq)
  subgoal by (simp add: shlex_sq)
  subgoal by (simp add: shlex_dq)
  done

lemma shlex_pieces:
  "list_all ok_piece w \<Longrightarrow>
   shlex_go In_Word tok (show_word w @ rest) = shlex_go In_Word (tok @ value_word w) rest"
  by (induction w arbitrary: tok) (auto simp: show_word_def value_word_def shlex_piece)

lemma shlex_word:
  "ok_word w \<Longrightarrow> shlex_go Between tok (show_word w @ rest) = shlex_go In_Word (value_word w) rest"
  using shlex_pieces [of "tl w"]
  by (cases w) (auto simp: ok_word_def show_word_def value_word_def shlex_piece_first)

lemma shlex_command:
  "ws \<noteq> [] \<Longrightarrow> list_all ok_word ws \<Longrightarrow>
   shlex_go Between tok (show_command ws) = Inr (map value_word ws)"
proof (induction ws arbitrary: tok)
  case (Cons w ws)
  show ?case
  proof (cases ws)
    case Nil
    with Cons.prems shlex_word [of w tok "[]"] show ?thesis by (simp add: show_command_def)
  next
    case (Cons w' ws')
    then have eq: "show_command (w # ws) = show_word w @ (CHR '' '' # show_command ws)"
      by (simp add: show_command_def)
    have "ok_word w" using Cons.prems by simp
    then have "shlex_go Between tok (show_command (w # ws))
        = shlex_go In_Word (value_word w) (CHR '' '' # show_command ws)"
      unfolding eq by (rule shlex_word)
    also have "\<dots> = bind_result (shlex_go Between [] (show_command ws)) (\<lambda>ts. Inr (value_word w # ts))"
      by (simp add: is_shlex_space_def)
    also have "\<dots> = Inr (map value_word (w # ws))"
      using Cons Cons.IH Cons.prems by simp
    finally show ?thesis .
  qed
qed simp

lemma tokenize_show_command:
  "ws \<noteq> [] \<Longrightarrow> list_all ok_word ws \<Longrightarrow> tokenize (show_command ws) = map value_word ws"
  by (simp add: tokenize_def shlex_split_def shlex_command)

subsubsection \<open>Splitting printed chains\<close>

lemma lex_loop_step:
  "length (lx_segments s) < limit \<Longrightarrow>
   lex_loop limit s (c # cs)
     = lex_loop limit (fst (lex_step s c cs)) (drop (snd (lex_step s c cs)) (c # cs))"
  by simp

declare lex_loop.simps(2) [simp del]

lemma push_push: "push b (push a s) = push (a @ b) s"
  by (simp add: push_def)

lemma push_Nil [simp]: "push [] s = s"
  by (simp add: push_def)

lemma push_quote: "set_quote q (push a s) = push a (set_quote q s)"
  by (simp add: push_def set_quote_def)

lemma set_quote_id: "lx_quote s = q \<Longrightarrow> set_quote q s = s"
  by (simp add: set_quote_def)

lemma set_quote_twice [simp]: "set_quote q (set_quote q' s) = set_quote q s"
  by (simp add: set_quote_def)

lemma lex_sq:
  "length (lx_segments s) < limit \<Longrightarrow> lx_quote s = Some squote \<Longrightarrow> squote \<notin> set t \<Longrightarrow>
   lex_loop limit s (t @ rest) = lex_loop limit (push t s) rest"
  by (induction t arbitrary: s) (auto simp: lex_loop_step lex_step_def push_push)

lemma lex_dq:
  "length (lx_segments s) < limit \<Longrightarrow> lx_quote s = Some dquote \<Longrightarrow> list_all ok_dq ds \<Longrightarrow>
   lex_loop limit s (concat (map show_dq ds) @ rest)
     = lex_loop limit (push (concat (map show_dq ds)) s) rest"
proof (induction ds arbitrary: s)
  case (Cons d ds)
  then show ?case by (cases d) (auto simp: lex_loop_step lex_step_def push_push)
qed simp

lemma lex_piece:
  assumes lt: "length (lx_segments s) < limit" and q: "lx_quote s = None" and ok: "ok_piece p"
  shows "lex_loop limit s (show_piece p @ rest) = lex_loop limit (push (show_piece p) s) rest"
proof (cases p)
  case (Plain c)
  with lt q ok show ?thesis
    by (simp add: lex_loop_step lex_step_def plain_char_neq plain_char_newline startswith_def)
next
  case (Escaped c)
  with lt q show ?thesis by (simp add: lex_loop_step lex_step_def)
next
  case (Lone a c)
  with lt q ok show ?thesis
    by (auto simp: lex_loop_step lex_step_def plain_char_neq plain_char_newline startswith_def push_push)
next
  case (Single t)
  with lt q ok show ?thesis
    by (auto simp: lex_loop_step lex_step_def lex_sq push_push push_quote
        set_quote_id [OF q])
next
  case (Double ds)
  with lt q ok show ?thesis
    by (auto simp: lex_loop_step lex_step_def lex_dq push_push push_quote
        set_quote_id [OF q])
qed

lemma lex_word:
  "length (lx_segments s) < limit \<Longrightarrow> lx_quote s = None \<Longrightarrow> list_all ok_piece w \<Longrightarrow>
   lex_loop limit s (show_word w @ rest) = lex_loop limit (push (show_word w) s) rest"
  by (induction w arbitrary: s) (auto simp: show_word_def lex_piece push_push)

lemma lex_space:
  "length (lx_segments s) < limit \<Longrightarrow> lx_quote s = None \<Longrightarrow>
   lex_loop limit s (CHR '' '' # rest) = lex_loop limit (push '' '' s) rest"
  by (simp add: lex_loop_step lex_step_def startswith_def)

lemma lex_command:
  "length (lx_segments s) < limit \<Longrightarrow> lx_quote s = None \<Longrightarrow> list_all ok_word ws \<Longrightarrow>
   lex_loop limit s (show_command ws @ rest) = lex_loop limit (push (show_command ws) s) rest"
proof (induction ws arbitrary: s)
  case (Cons w ws)
  then show ?case
    by (cases ws) (auto simp: show_command_def ok_word_def lex_word lex_space push_push)
qed (simp add: show_command_def)

lemma show_piece_ends:
  "ok_piece p \<Longrightarrow> show_piece p \<noteq> [] \<and> \<not> is_space (hd (show_piece p)) \<and> \<not> is_space (last (show_piece p))"
  apply (cases p)
  subgoal by (simp add: plain_char_def)
  subgoal by (simp add: is_space_def)
  subgoal by (auto simp: plain_char_def is_space_def)
  subgoal by (simp add: is_space_def)
  subgoal by (simp add: is_space_def)
  done

lemma show_word_ends:
  "ok_word w \<Longrightarrow> show_word w \<noteq> [] \<and> \<not> is_space (hd (show_word w)) \<and> \<not> is_space (last (show_word w))"
proof -
  assume "ok_word w"
  then have "w \<noteq> []" "ok_piece (hd w)" "ok_piece (last w)"
    by (auto simp: ok_word_def list_all_iff)
  moreover from \<open>w \<noteq> []\<close> have "show_word w = show_piece (hd w) @ concat (map show_piece (tl w))"
    "show_word w = concat (map show_piece (butlast w)) @ show_piece (last w)"
    by (metis concat.simps(2) list.collapse list.simps(9) show_word_def,
        metis append_butlast_last_id concat.simps concat_append append_Nil2 list.simps(8,9)
          map_append show_word_def)
  ultimately show ?thesis using show_piece_ends by (metis append_is_Nil_conv hd_append2 last_appendR)
qed

lemma show_command_ends:
  "ws \<noteq> [] \<Longrightarrow> list_all ok_word ws \<Longrightarrow>
   show_command ws \<noteq> [] \<and> \<not> is_space (hd (show_command ws)) \<and> \<not> is_space (last (show_command ws))"
proof (induction ws)
  case (Cons w ws)
  then show ?case using show_word_ends [of w]
    by (cases ws) (auto simp: show_command_def)
qed simp

lemma strip_inside:
  assumes "t \<noteq> []" and "\<not> is_space (hd t)" and "\<not> is_space (last t)"
    and "list_all is_space u" and "list_all is_space v"
  shows "strip (u @ t @ v) = t"
proof -
  have "lstrip (u @ t @ v) = t @ v"
    using assms by (auto simp: lstrip_def list_all_iff dropWhile_append) (cases t; simp)+
  moreover have "rstrip (t @ v) = t"
  proof -
    have "rstrip (t @ v) = rstrip t"
      using assms(5) by (simp add: rstrip_def list_all_iff dropWhile_append)
    with assms show ?thesis by (simp add: rstrip_idem)
  qed
  ultimately show ?thesis by (simp add: strip_def)
qed

lemma lex_operator:
  "length (lx_segments s) < limit \<Longrightarrow> lx_quote s = None \<Longrightarrow> op \<in> operators \<Longrightarrow>
   lex_loop limit s (op @ rest) = lex_loop limit (flush op s) rest"
  unfolding operators_def
  by (elim insertE) (simp_all add: lex_loop_step lex_step_def startswith_def)

definition ok_chain :: "(string \<times> word_syntax list) list \<Rightarrow> bool" where
  "ok_chain ch \<longleftrightarrow> list_all (\<lambda>(op, ws). op \<in> operators \<and> ws \<noteq> [] \<and> list_all ok_word ws) ch
     \<and> (ch \<noteq> [] \<longrightarrow> fst (hd ch) = '';'')"

lemma flush_command:
  assumes "ws \<noteq> []" and "list_all ok_word ws" and "list_all is_space (lx_buf s)"
    and "list_all is_space u"
  shows "lx_segments (flush op (push (show_command ws @ u) s)) = lx_segments s @ [(lx_op s, show_command ws)]"
    and "lx_op (flush op (push (show_command ws @ u) s)) = op"
proof -
  have "strip (lx_buf s @ show_command ws @ u) = show_command ws"
    using show_command_ends [OF assms(1,2)] assms(3,4) by (intro strip_inside) auto
  then show "lx_segments (flush op (push (show_command ws @ u) s)) = lx_segments s @ [(lx_op s, show_command ws)]"
    and "lx_op (flush op (push (show_command ws @ u) s)) = op"
    using show_command_ends [OF assms(1,2)] by (simp_all add: flush_def Let_def)
qed

lemma lex_chain:
  assumes "list_all (\<lambda>(op, ws). op \<in> operators \<and> ws \<noteq> [] \<and> list_all ok_word ws) ch" and "ch \<noteq> []"
    and "length (lx_segments s) + length ch \<le> limit" and "lx_quote s = None"
    and "list_all is_space (lx_buf s)" and "lx_op s = fst (hd ch)"
  shows "lx_segments (flush '';'' (lex_loop limit s (show_chain ch)))
      = lx_segments s @ map (\<lambda>(op, ws). (op, show_command ws)) ch"
  using assms
proof (induction ch arbitrary: s rule: show_chain.induct)
  case (2 op ws)
  then have "lex_loop limit s (show_command ws @ []) = lex_loop limit (push (show_command ws) s) []"
    by (intro lex_command) auto
  then show ?case using 2 flush_command(1) [of ws s "[]"] by simp
next
  case (3 op ws op' ws' rest)
  let ?t = "push (show_command ws @ '' '') s"
  let ?s = "push '' '' (flush op' ?t)"
  let ?tail = "show_chain ((op', ws') # rest)"
  have sp: "list_all is_space '' ''" by (simp add: is_space_def)
  have seg: "lx_segments ?s = lx_segments s @ [(op, show_command ws)]" "lx_op ?s = op'"
    using flush_command [of ws s "'' ''" op'] 3 sp by simp_all
  have "lex_loop limit s (show_chain ((op, ws) # (op', ws') # rest))
      = lex_loop limit (push (show_command ws) s) ('' '' @ op' @ '' '' @ ?tail)"
    using 3 unfolding show_chain.simps by (intro lex_command) auto
  also have "\<dots> = lex_loop limit ?t (op' @ '' '' @ ?tail)"
    using 3 by (simp add: lex_space push_push)
  also have "\<dots> = lex_loop limit (flush op' ?t) ('' '' @ ?tail)"
    using 3 by (intro lex_operator) auto
  also have "\<dots> = lex_loop limit ?s ?tail"
    using 3 seg(1) by (simp add: lex_space)
  finally show ?case
    using 3 seg sp by simp
qed simp

text \<open>
  C35. Reading back what was printed: a chain of commands, written with its words in any mixture of
  plain, escaped, single-quoted and double-quoted pieces, is split into exactly those commands with
  those operators, and each command tokenises to the values of its words. Operators inside quotes
  or after a backslash do not split, and a lone \<open>&\<close> or \<open>|\<close> stays in its segment.
\<close>
theorem chain_roundtrip:
  assumes "ok_chain ch" and "length ch \<le> limit"
  shows "split_command_line (show_chain ch) limit = map (\<lambda>(op, ws). (op, show_command ws)) ch
    \<and> (\<forall>(op, ws) \<in> set ch. tokenize (show_command ws) = map value_word ws)"
proof (cases "ch = []")
  case True
  then show ?thesis
    by (simp add: split_command_line_def start_lexer_def flush_def strip_def lstrip_def rstrip_def)
next
  case False
  let ?f = "\<lambda>(op, ws). (op, show_command ws)"
  have ok: "list_all (\<lambda>(op, ws). op \<in> operators \<and> ws \<noteq> [] \<and> list_all ok_word ws) ch"
    using assms(1) by (simp add: ok_chain_def)
  then have "lx_segments (flush '';'' (lex_loop limit start_lexer (show_chain ch)))
      = lx_segments start_lexer @ map ?f ch"
    using False assms by (intro lex_chain) (auto simp: ok_chain_def start_lexer_def)
  then have "split_command_line (show_chain ch) limit = map ?f ch"
    using assms(2) by (simp add: split_command_line_def start_lexer_def)
  with ok show ?thesis 
    by (fastforce simp: list_all_iff intro!: tokenize_show_command [unfolded list_all_iff])
qed

lemma chain_roundtrip_witness:
  "split_command_line (show_chain [('';'', [[Plain (CHR ''a'')], [Single '';x'']]),
      (''||'', [[Plain (CHR ''2''), Plain (CHR ''>''), Lone (CHR ''&'') (CHR ''1'')]])]) 30
   = [('';'', ''a '' @ [squote] @ '';x'' @ [squote]), (''||'', ''2>&1'')]"
  using chain_roundtrip [of "[('';'', [[Plain (CHR ''a'')], [Single '';x'']]),
      (''||'', [[Plain (CHR ''2''), Plain (CHR ''>''), Lone (CHR ''&'') (CHR ''1'')]])]" 30]
  by (simp add: ok_chain_def operators_def ok_word_def plain_char_def is_space_def show_command_def
      show_word_def)

text \<open>Blank input aside, a tokenised line has a first word, which \<open>dispatch\<close> subscripts.\<close>

lemma shlex_go_nonempty:
  "shlex_go st tok s = Inr ts \<Longrightarrow>
   (\<forall>c \<in> set s. is_shlex_space c) \<and> st = Between \<or> ts \<noteq> []"
  by (induction st tok s arbitrary: ts rule: shlex_go.induct)
    (fastforce simp: bind_result_Inr_iff split: if_splits)+

text \<open>
  The command word that \<open>dispatch\<close> takes from the tokens always exists: on a line that is not
  blank, the tokeniser returns at least one token, by \<open>shlex\<close> or by its fallback.
\<close>

theorem tokenize_has_command_word:
  assumes "strip s \<noteq> []"
  shows "tokenize (strip s) \<noteq> []"
proof -
  have ns: "\<not> is_space (hd (strip s))" using strip_ends_nonspace(1) [OF assms] .
  then have "\<not> is_shlex_space (hd (strip s))" using shlex_space_is_space by blast
  with assms have "\<not> (\<forall>c \<in> set (strip s). is_shlex_space c)" by (meson list.set_sel(1))
  moreover have "split_ws (strip s) \<noteq> []"
    using assms ns by (auto simp: split_ws_eq_Nil_iff)
  ultimately show ?thesis
    using shlex_go_nonempty [of Between "[]" "strip s"]
    by (auto simp: tokenize_def shlex_split_def split: sum.splits)
qed

lemma tokenize_has_command_word_witness: "tokenize (strip '' ls -l '') \<noteq> []"
proof (rule tokenize_has_command_word)
  show "strip '' ls -l '' \<noteq> []" by code_simp
qed

end
