(* ===== verification/Download_Args.thy ===== *)
theory Download_Args
  imports Url Shell_Lex
begin

section \<open>Arguments of wget, curl and tftp\<close>

text \<open>
  \<open>parse_download_args\<close> of \<open>honeypot/shell/commands.py\<close>, which both the fake shell and the stage-two
  script scanner call. Its result is an optional request; it raises what \<open>urlsplit\<close> raises.
\<close>

record download_request =
  dl_protocol :: string
  dl_url :: string
  dl_filename :: string

definition download_commands :: "string list" where
  "download_commands = [''wget'', ''curl'', ''tftp'']"

text \<open>\<open>a or b\<close> on strings that may be \<open>None\<close>: the empty string is false.\<close>

fun py_or :: "string option \<Rightarrow> string \<Rightarrow> string" where
  "py_or (Some (c # cs)) d = c # cs"
| "py_or _ d = d"

text \<open>The first loop: the URL (the last word with \<open>://\<close> wins) and the named output file.\<close>

type_synonym scanned = "string option \<times> string option"

definition scan_arg :: "string \<Rightarrow> string \<Rightarrow> string list \<Rightarrow> scanned \<Rightarrow> scanned" where
  "scan_arg cmd tok rest s =
     (let (url, out) = s
      in if contains ''://'' tok then (Some tok, out)
         else if cmd = ''curl'' then (if tok = ''-o'' \<and> rest \<noteq> [] then (url, Some (hd rest)) else (url, out))
         else if tok = ''-O'' \<and> rest \<noteq> [] then (url, Some (hd rest))
         else if startswith tok ''-O'' \<and> length tok > 2 then (url, Some (drop 2 tok))
         else (url, out))"

fun scan_args :: "string \<Rightarrow> string list \<Rightarrow> scanned \<Rightarrow> scanned" where
  "scan_args cmd [] s = s"
| "scan_args cmd (tok # rest) s = scan_args cmd rest (scan_arg cmd tok rest s)"

text \<open>The tftp loop: \<open>next(it, None)\<close> takes an option's value, \<open>None\<close> when there is none.\<close>

record tftp_opts =
  tf_host :: "string option"
  tf_local :: "string option"
  tf_remote :: "string option"

definition next_or_none :: "string list \<Rightarrow> string option \<times> string list" where
  "next_or_none as = (case as of [] \<Rightarrow> (None, []) | v # rest \<Rightarrow> (Some v, rest))"

function scan_tftp :: "string list \<Rightarrow> tftp_opts \<Rightarrow> tftp_opts" where
  "scan_tftp [] t = t"
| "scan_tftp (a # rest) t =
     (if a \<in> set [''-l'', ''-r'', ''-b'']
      then (let (v, rest') = next_or_none rest
            in scan_tftp rest' (if a = ''-l'' then t\<lparr>tf_local := v\<rparr>
                                else if a = ''-r'' then t\<lparr>tf_remote := v\<rparr> else t))
      else if a = ''-c''
      then (let (c, rest') = next_or_none rest; (f, rest'') = next_or_none rest'
            in scan_tftp rest'' (if c \<in> set [Some ''get'', Some ''put''] then t\<lparr>tf_remote := f\<rparr> else t))
      else if startswith a ''-'' then scan_tftp rest t
      else if tf_host t = None then scan_tftp rest (t\<lparr>tf_host := Some a\<rparr>)
      else scan_tftp rest t)"
  by pat_completeness auto
termination
  by (relation "measure (\<lambda>(as, t). length as)")
    (auto simp: next_or_none_def split: list.splits)

definition parse_download_args :: "string \<Rightarrow> string list \<Rightarrow> download_request option result" where
  "parse_download_args cmd args =
     (let (url, out) = scan_args cmd args (None, None)
      in if cmd = ''tftp'' then
           (let t = scan_tftp args \<lparr>tf_host = None, tf_local = None, tf_remote = None\<rparr>
            in case tf_host t of
                 None \<Rightarrow> Inr None
               | Some host \<Rightarrow>
                   Inr (Some \<lparr>dl_protocol = ''tftp'', dl_url = host,
                     dl_filename = py_or out (py_or (tf_local t) (py_or (tf_remote t) ''tftp-payload''))\<rparr>))
         else case url of
           None \<Rightarrow> Inr None
         | Some u \<Rightarrow>
             bind_result (urlsplit u) (\<lambda>parts.
               Inr (Some \<lparr>dl_protocol = py_or (Some (us_scheme parts)) ''http'', dl_url = u,
                 dl_filename = py_or out
                   (py_or (Some (if us_path parts \<noteq> [] then after_last (CHR ''/'') (us_path parts) else []))
                     ''index.html'')\<rparr>)))"

subsection \<open>The request names what was typed\<close>

lemma py_or_not_Nil: "d \<noteq> [] \<Longrightarrow> py_or x d \<noteq> []"
  by (cases "(x, d)" rule: py_or.cases) auto

lemma scan_arg_url:
  "fst (scan_arg cmd tok rest s) = Some u \<Longrightarrow>
   fst s = Some u \<or> (u = tok \<and> contains ''://'' tok)"
  by (cases s) (auto simp: scan_arg_def split: if_splits)

lemma scan_args_url:
  "fst (scan_args cmd args s) = Some u \<Longrightarrow> fst s = Some u \<or> (u \<in> set args \<and> contains ''://'' u)"
proof (induction args arbitrary: s)
  case (Cons tok rest)
  then show ?case using scan_arg_url [of cmd tok rest s u] by fastforce
qed simp

lemma scan_args_none:
  "fst (scan_args cmd args s) = None \<longleftrightarrow> fst s = None \<and> (\<forall>a \<in> set args. \<not> contains ''://'' a)"
proof (induction args arbitrary: s)
  case (Cons tok rest)
  have "fst (scan_arg cmd tok rest s) = None \<longleftrightarrow> fst s = None \<and> \<not> contains ''://'' tok"
    by (cases s) (auto simp: scan_arg_def)
  with Cons show ?case by auto
qed simp

lemma urlsplit_exn: "urlsplit u = Inl e \<Longrightarrow> e = ValueError"
  by (auto simp: urlsplit_def Let_def split: prod.splits if_splits)



subsection \<open>wget and curl\<close>

text \<open>How the output file can be named: not at all, \<open>wget -O FILE\<close>, \<open>wget -OFILE\<close>, \<open>curl -o FILE\<close>.\<close>

fun output_option :: "string \<Rightarrow> string option \<Rightarrow> string list" where
  "output_option cmd None = []"
| "output_option cmd (Some f) = (if cmd = ''curl'' then [''-o'', f] else [''-O'', f])"

lemma contains_sep: "contains ''://'' (s @ ''://'' @ r)"
  unfolding contains_iff by blast

lemma scan_one_url:
  assumes "cmd = ''wget'' \<or> cmd = ''curl''" and "contains ''://'' u"
    and "\<And>f. out = Some f \<Longrightarrow> \<not> contains ''://'' f \<and> \<not> startswith f ''-''"
  shows "scan_args cmd (output_option cmd out @ [u]) (None, None) = (Some u, out)"
proof (cases out)
  case None
  with assms show ?thesis by (simp add: scan_arg_def)
next
  case (Some f)
  with assms(3) have f: "\<not> contains ''://'' f" "\<not> startswith f ''-''" by auto
  then have "f \<noteq> ''-o''" "f \<noteq> ''-O''" "\<not> startswith f ''-O''"
    by (auto simp: startswith_iff)
  moreover have "\<not> contains ''://'' ''-o''" "\<not> contains ''://'' ''-O''" by (simp_all add: startswith_def)
  ultimately show ?thesis using assms(1,2) f Some
    by (elim disjE) (simp_all add: scan_arg_def)
qed

lemma after_last_slash: "CHR ''/'' \<notin> set f \<Longrightarrow> after_last (CHR ''/'') (d @ CHR ''/'' # f) = f"
proof -
  assume "CHR ''/'' \<notin> set f"
  then have "takeWhile (\<lambda>c. c \<noteq> CHR ''/'') (rev f @ CHR ''/'' # rev d) = rev f"
    by (subst takeWhile_append2) auto
  then show ?thesis by (simp add: after_last_def)
qed

text \<open>
  The download a dropper's \<open>wget\<close> or \<open>curl\<close> asks for is recorded with the right name: for a URL
  \<open>scheme://host/dir/file\<close>, the protocol is the scheme in lower case and the file name is the
  \<open>-O\<close>/\<open>-o\<close> argument when there is one, else the last path component, else \<open>index.html\<close>.
\<close>

theorem wget_curl_filename:
  assumes cmd: "cmd = ''wget'' \<or> cmd = ''curl''"
    and s: "plain_scheme s"
    and n: "list_all (\<lambda>c. url_char c \<and> is_netloc_char c) n" "netloc_ok n"
    and d: "list_all url_char (dir @ f)" "CHR ''?'' \<notin> set (dir @ f)" "CHR ''#'' \<notin> set (dir @ f)"
      "dir = [] \<or> hd dir = CHR ''/''"
    and f: "CHR ''/'' \<notin> set f"
    and out: "\<And>x. out = Some x \<Longrightarrow> \<not> contains ''://'' x \<and> \<not> startswith x ''-''"
    and u: "u = s @ ''://'' @ n @ dir @ ''/'' @ f"
  shows "parse_download_args cmd (output_option cmd out @ [u])
    = Inr (Some \<lparr>dl_protocol = lower s, dl_url = u,
        dl_filename = py_or out (py_or (Some f) ''index.html'')\<rparr>)"
proof -
  let ?p = "dir @ ''/'' @ f"
  have "url_char (CHR ''/'')" by (simp add: url_char_def)
  then have split: "urlsplit u = Inr \<lparr>us_scheme = lower s, us_netloc = n, us_path = ?p, us_query = [], us_fragment = []\<rparr>"
    unfolding u using d n urlsplit_parts [OF s n(1), of ?p] by (auto simp: hd_append)
  have "lower s \<noteq> []" using s by (simp add: plain_scheme_def lower_def)
  then have proto: "py_or (Some (lower s)) ''http'' = lower s" by (cases "lower s") auto
  have "contains ''://'' u" unfolding u by (rule contains_sep)
  then have "scan_args cmd (output_option cmd out @ [u]) (None, None) = (Some u, out)"
    using scan_one_url cmd out by blast
  moreover have "cmd \<noteq> ''tftp''" using cmd by auto
  ultimately show ?thesis
    using split proto after_last_slash [OF f, of dir]
    by (simp add: parse_download_args_def)
qed

lemma wget_curl_filename_witness:
  "parse_download_args ''wget'' [''-O'', ''x'', ''HTTP://1.2.3.4/b/mips'']
    = Inr (Some \<lparr>dl_protocol = ''http'', dl_url = ''HTTP://1.2.3.4/b/mips'', dl_filename = ''x''\<rparr>)"
proof -
  have "parse_download_args ''wget'' (output_option ''wget'' (Some ''x'') @ [''HTTP://1.2.3.4/b/mips''])
    = Inr (Some \<lparr>dl_protocol = lower ''HTTP'', dl_url = ''HTTP://1.2.3.4/b/mips'',
        dl_filename = py_or (Some ''x'') (py_or (Some ''mips'') ''index.html'')\<rparr>)"
    by (rule wget_curl_filename [where s = "''HTTP''" and n = "''1.2.3.4''" and dir = "''/b''"])
      (simp_all add: plain_scheme_def is_alpha_ascii_def is_scheme_char_def is_netloc_char_def
        url_char_def startswith_def netloc_ok_def)
  moreover have "lower ''HTTP'' = ''http''" by code_simp
  ultimately show ?thesis by simp
qed

subsection \<open>tftp\<close>

text \<open>The syntax of a tftp line, item by item.\<close>

datatype tftp_item =
    Local string | Remote string | Block string | Transfer string string | Flag string | Word string

fun show_item :: "tftp_item \<Rightarrow> string list" where
  "show_item (Local v) = [''-l'', v]"
| "show_item (Remote v) = [''-r'', v]"
| "show_item (Block v) = [''-b'', v]"
| "show_item (Transfer c f) = [''-c'', c, f]"
| "show_item (Flag a) = [a]"
| "show_item (Word a) = [a]"

fun ok_item :: "tftp_item \<Rightarrow> bool" where
  "ok_item (Flag a) \<longleftrightarrow> startswith a ''-'' \<and> a \<notin> set [''-l'', ''-r'', ''-b'', ''-c'']"
| "ok_item (Word a) \<longleftrightarrow> \<not> startswith a ''-''"
| "ok_item _ \<longleftrightarrow> True"

fun host_of :: "tftp_item list \<Rightarrow> string option" where
  "host_of [] = None"
| "host_of (Word a # is) = Some a"
| "host_of (_ # is) = host_of is"

fun local_of :: "tftp_item list \<Rightarrow> string option \<Rightarrow> string option" where
  "local_of [] l = l"
| "local_of (Local v # is) l = local_of is (Some v)"
| "local_of (_ # is) l = local_of is l"

fun remote_of :: "tftp_item list \<Rightarrow> string option \<Rightarrow> string option" where
  "remote_of [] r = r"
| "remote_of (Remote v # is) r = remote_of is (Some v)"
| "remote_of (Transfer c f # is) r = remote_of is (if c = ''get'' \<or> c = ''put'' then Some f else r)"
| "remote_of (_ # is) r = remote_of is r"

declare scan_tftp.simps(2) [simp del]

lemma scan_tftp_item:
  "ok_item i \<Longrightarrow>
   scan_tftp (show_item i @ rest) \<lparr>tf_host = h, tf_local = l, tf_remote = r\<rparr>
     = scan_tftp rest \<lparr>tf_host = (if h = None then host_of [i] else h),
         tf_local = local_of [i] l, tf_remote = remote_of [i] r\<rparr>"
proof (cases i)
  case (Word a)
  then show "ok_item i \<Longrightarrow> ?thesis"
    by (auto simp: scan_tftp.simps(2) startswith_def)
qed (auto simp: scan_tftp.simps(2) next_or_none_def startswith_def)

lemma host_of_Cons: "host_of (i # is) = (if host_of [i] = None then host_of is else host_of [i])"
  by (cases i) auto

lemma local_of_Cons: "local_of (i # is) l = local_of is (local_of [i] l)"
  by (cases i) auto

lemma remote_of_Cons: "remote_of (i # is) r = remote_of is (remote_of [i] r)"
  by (cases i) auto

lemma scan_tftp_items:
  "list_all ok_item is \<Longrightarrow>
   scan_tftp (concat (map show_item is)) \<lparr>tf_host = h, tf_local = l, tf_remote = r\<rparr>
     = \<lparr>tf_host = (if h = None then host_of is else h), tf_local = local_of is l, tf_remote = remote_of is r\<rparr>"
proof (induction "is" arbitrary: h l r)
  case (Cons i "is")
  then show ?case
    by (auto simp: scan_tftp_item host_of_Cons [of i "is"] local_of_Cons [of i "is"]
        remote_of_Cons [of i "is"])
qed simp

lemma scan_args_no_out:
  "cmd \<noteq> ''curl'' \<Longrightarrow> \<forall>a \<in> set args. \<not> startswith a ''-O'' \<Longrightarrow>
   snd (scan_args cmd args s) = snd s"
proof (induction args arbitrary: s)
  case (Cons tok rest)
  have "startswith ''-O'' ''-O''" by (simp add: startswith_def)
  with Cons.prems have "snd (scan_arg cmd tok rest s) = snd s"
    by (cases s) (auto simp: scan_arg_def)
  with Cons show ?case by simp
qed simp

text \<open>
  On every tftp line built from options with their values, transfer commands, other flags and
  plain words, the recorded host is the first plain word: the value of an option is never taken
  for the host. The file name is the local file, else the remote file, else a default.
\<close>
theorem tftp_host_is_first_word:
  assumes "list_all ok_item is" and "\<forall>a \<in> set (concat (map show_item is)). \<not> startswith a ''-O''"
  shows "parse_download_args ''tftp'' (concat (map show_item is)) = Inr
    (map_option (\<lambda>h. \<lparr>dl_protocol = ''tftp'', dl_url = h,
        dl_filename = py_or (local_of is None) (py_or (remote_of is None) ''tftp-payload'')\<rparr>)
      (host_of is))"
proof -
  have "snd (scan_args ''tftp'' (concat (map show_item is)) (None, None)) = None"
    using scan_args_no_out [OF _ assms(2)] by simp
  then show ?thesis
    using scan_tftp_items [OF assms(1), of None None None]
    by (cases "host_of is") (auto simp: parse_download_args_def split: prod.splits)
qed

lemma tftp_host_is_first_word_witness:
  "parse_download_args ''tftp'' [''-r'', ''x.sh'', ''-g'', ''10.0.0.1'']
    = Inr (Some \<lparr>dl_protocol = ''tftp'', dl_url = ''10.0.0.1'', dl_filename = ''x.sh''\<rparr>)"
  using tftp_host_is_first_word [of "[Remote ''x.sh'', Flag ''-g'', Word ''10.0.0.1'']"]
  by (simp add: startswith_def)

text \<open>
  A URL whose host part has malformed square brackets makes the argument parser raise \<open>ValueError\<close> (from \<open>urlsplit\<close>) instead of returning a request.
\<close>

theorem bracket_url_raises:
  assumes "cmd = ''wget'' \<or> cmd = ''curl''" and "list_all (\<lambda>c. url_char c \<and> is_netloc_char c) n"
    and "\<not> netloc_ok n"
  shows "parse_download_args cmd [''http://'' @ n] = Inl ValueError"
proof -
  have "plain_scheme ''http''" by (simp add: plain_scheme_def is_alpha_ascii_def is_scheme_char_def)
  then have split: "urlsplit (''http'' @ ''://'' @ n) = Inl ValueError"
    using urlsplit_parts [of "''http''" n "[]"] assms(2,3) by simp
  have "contains ''://'' (''http'' @ ''://'' @ n)" by (rule contains_sep)
  then have "scan_args cmd [''http'' @ ''://'' @ n] (None, None) = (Some (''http'' @ ''://'' @ n), None)"
    using scan_one_url [of cmd _ None] assms(1) by simp
  then have "parse_download_args cmd [''http'' @ ''://'' @ n] = Inl ValueError"
    using assms(1) split by (auto simp: parse_download_args_def)
  then show ?thesis by simp
qed

lemma bracket_url_raises_witness: "parse_download_args ''wget'' [''http://[''] = Inl ValueError"
  using bracket_url_raises [of "''wget''" "''[''"]
  by (simp add: url_char_def is_netloc_char_def netloc_ok_def)

end
