(* ===== verification/Commands.thy ===== *)
theory Commands
  imports Fake_FS Download_Args
begin

section \<open>The fake shell's commands\<close>

text \<open>
  \<open>dispatch\<close> of \<open>honeypot/shell/commands.py\<close>, one definition per command. A handler takes the
  arguments and returns the result and the filesystem after it; a handler that can raise returns
  the exception and the filesystem it had reached. \<open>reads i\<close> is what the clock and the generator
  give the \<open>i\<close>-th file the command reads.
\<close>

record command_result =
  cr_output :: string
  cr_download :: "download_request option"
  cr_attempt :: "string option"
  cr_exit :: bool
  cr_status :: nat

definition no_result :: command_result where
  "no_result = \<lparr>cr_output = [], cr_download = None, cr_attempt = None, cr_exit = False, cr_status = 0\<rparr>"

definition out :: "string \<Rightarrow> command_result" where
  "out s = no_result\<lparr>cr_output := s\<rparr>"

definition out_status :: "string \<Rightarrow> nat \<Rightarrow> command_result" where
  "out_status s n = no_result\<lparr>cr_output := s, cr_status := n\<rparr>"

definition attempt :: "string \<Rightarrow> command_result" where
  "attempt s = no_result\<lparr>cr_attempt := Some s\<rparr>"

definition lines :: "string list \<Rightarrow> string" where
  "lines ls = join newline_str ls"

subsection \<open>Fixed outputs\<close>

definition render_ifconfig :: "reading \<Rightarrow> string" where
  "render_ifconfig r =
     (let net = network_counters r;
          rx_human = format_bytes_human (rx_bytes net); tx_human = format_bytes_human (tx_bytes net)
      in lines
       [''eth0      Link encap:Ethernet  HWaddr 02:42:AC:11:00:02  '',
        ''          inet addr:172.17.0.2  Bcast:172.17.255.255  Mask:255.255.0.0'',
        ''          UP BROADCAST RUNNING MULTICAST  MTU:1500  Metric:1'',
        ''          RX packets:'' @ digits_of (rx_packets net) @ '' errors:0 dropped:0 overruns:0 frame:0'',
        ''          TX packets:'' @ digits_of (tx_packets net) @ '' errors:0 dropped:0 overruns:0 carrier:0'',
        ''          collisions:0 txqueuelen:1000 '',
        ''          RX bytes:'' @ digits_of (rx_bytes net) @ '' ('' @ rx_human @ '')  TX bytes:''
          @ digits_of (tx_bytes net) @ '' ('' @ tx_human @ '')'',
        [],
        ''lo        Link encap:Local Loopback  '',
        ''          inet addr:127.0.0.1  Mask:255.0.0.0'',
        ''          UP LOOPBACK RUNNING  MTU:65536  Metric:1'',
        ''          RX packets:12 errors:0 dropped:0 overruns:0 frame:0'',
        ''          TX packets:12 errors:0 dropped:0 overruns:0 carrier:0'',
        ''          collisions:0 txqueuelen:1000 '',
        ''          RX bytes:960 (960.0 B)  TX bytes:960 (960.0 B)''])"

definition fake_ip_addr_output :: string where
  "fake_ip_addr_output = lines
     [''1: lo: <LOOPBACK,UP,LOWER_UP> mtu 65536 qdisc noqueue qlen 1000'',
      ''    link/loopback 00:00:00:00:00:00 brd 00:00:00:00:00:00'',
      ''    inet 127.0.0.1/8 scope host lo'',
      ''2: eth0: <BROADCAST,MULTICAST,UP,LOWER_UP> mtu 1500 qdisc pfifo_fast qlen 1000'',
      ''    link/ether 02:42:ac:11:00:02 brd ff:ff:ff:ff:ff:ff'',
      ''    inet 172.17.0.2/16 brd 172.17.255.255 scope global eth0'']"

text \<open>\<open>int(used * 0.22)\<close> on the integers below 10^6 is the exact floor.\<close>

definition render_top :: "reading \<Rightarrow> string" where
  "render_top r =
     (case (memory_kb r, cpu_percentages r, rd_load r) of
        ((_, used, free_kb), (usr, sysp, idle), (one, five, fifteen)) \<Rightarrow>
        (let cached = used * 22 div 100; zero = rjust 5 (fixed1 0)
         in lines
          [''Mem: '' @ digits_of used @ ''K used, '' @ digits_of free_kb
             @ ''K free, 0K shrd, 0K buff, '' @ digits_of cached @ ''K cached'',
           ''CPU: '' @ rjust 5 (fixed1 usr) @ ''% usr '' @ rjust 5 (fixed1 sysp) @ ''% sys '' @ zero
             @ ''% nic '' @ rjust 5 (fixed1 idle) @ ''% idle '' @ zero @ ''% io '' @ zero @ ''% irq ''
             @ zero @ ''% sirq'',
           ''Load average: '' @ fixed2 one @ '' '' @ fixed2 five @ '' '' @ fixed2 fifteen @ '' 1/89 1234'',
           ''  PID  PPID USER     STAT   VSZ %VSZ %CPU COMMAND'',
           ''    1     0 root     S     1204   0%   0% init'',
           ''   84     1 root     S     1204   0%   0% -ash'']))"

text \<open>
  \<open>textwrap.wrap\<close> of words that fit a line and hold no hyphen: greedy filling.
\<close>

fun fill_lines :: "nat \<Rightarrow> string \<Rightarrow> string list \<Rightarrow> string list" where
  "fill_lines w cur [] = [cur]"
| "fill_lines w cur (x # xs) =
     (if length cur + 1 + length x \<le> w then fill_lines w (cur @ '' '' @ x) xs
      else cur # fill_lines w x xs)"

definition wrap_words :: "nat \<Rightarrow> string list \<Rightarrow> string list" where
  "wrap_words w ws = (case ws of [] \<Rightarrow> [] | x # xs \<Rightarrow> fill_lines w x xs)"

definition busybox_banner :: string where
  "busybox_banner =
     (let functions_block = lines (map (\<lambda>l. tab @ l)
            (wrap_words 68 (split_ws (join '', '' bin_listing))))
      in lines
       [''BusyBox v1.36.1 (2023-06-02 16:00:00 UTC) multi-call binary.'',
        ''BusyBox is copyrighted by many authors between 1998-2015.'',
        ''Licensed under GPLv2. See source distribution for detailed'',
        ''copyright notices.'',
        [],
        ''Usage: busybox [function [arguments]...]'',
        ''   or: busybox --list[-full]'',
        ''   or: function [arguments]...'',
        [],
        tab @ ''BusyBox is a multi-call binary that combines many common Unix'',
        tab @ ''utilities into a single executable.  Most people will create a'',
        tab @ ''link to busybox for each function they wish to use and BusyBox'',
        tab @ ''will act like whatever it was invoked as.'',
        [],
        ''Currently defined functions:'',
        functions_block])"

definition fake_mount_output :: string where
  "fake_mount_output = lines
     [''/dev/root on / type squashfs (ro,relatime)'',
      ''proc on /proc type proc (rw,noexec,nosuid,nodev,relatime)'',
      ''sysfs on /sys type sysfs (rw,noexec,nosuid,nodev,relatime)'',
      ''tmpfs on /tmp type tmpfs (rw,relatime)'',
      ''devpts on /dev/pts type devpts (rw,relatime,mode=600)'']"

subsection \<open>Directories and files\<close>

type_synonym 'a handled = "'a result \<times> fakefs"

definition cmd_cd :: "string list \<Rightarrow> fakefs \<Rightarrow> command_result \<times> fakefs" where
  "cmd_cd args fs =
     (let (err, fs') = chdir (case args of [] \<Rightarrow> ''/root'' | a # _ \<Rightarrow> a) fs
      in (out_status (case err of None \<Rightarrow> [] | Some e \<Rightarrow> e) (if err = None then 0 else 1), fs'))"

text \<open>\<open>len(content.encode())\<close>: two bytes for a character above ASCII.\<close>

definition utf8_length :: "string \<Rightarrow> nat" where
  "utf8_length s = sum_list (map (\<lambda>c. if (of_char c :: nat) < 128 then 1 else 2) s)"

definition long_dir_line :: "string \<Rightarrow> string" where
  "long_dir_line name = ''drwxr-xr-x    2 root     root          4096 Jan  1  2024 '' @ name"

definition long_line :: "string \<Rightarrow> node \<Rightarrow> string" where
  "long_line name n =
     (case n of
        Dir _ \<Rightarrow> long_dir_line name
      | Link target \<Rightarrow>
          ''lrwxrwxrwx    1 root     root     '' @ rjust 8 (digits_of (length target))
          @ '' Jan  1  2024 '' @ name @ '' -> '' @ target
      | Dyn _ \<Rightarrow> ''-r--r--r--    1 root     root            0 Jan  1  2024 '' @ name
      | File content size_override \<Rightarrow>
          (let perms = (if name \<in> set (''busybox'' # bin_listing) then ''-rwxr-xr-x'' else ''-rw-r--r--'');
               size = (case size_override of Some n \<Rightarrow> n | None \<Rightarrow> utf8_length content)
           in perms @ ''    1 root     root     '' @ rjust 8 (digits_of size) @ '' Jan  1  2024 '' @ name))"

definition cmd_ls :: "string list \<Rightarrow> fakefs \<Rightarrow> command_result" where
  "cmd_ls args fs =
     (let (flags, positionals) = parse_short_flags args;
          target = (case positionals of [] \<Rightarrow> None | p # _ \<Rightarrow> Some p)
      in case listdir_nodes target fs of
           Inl err \<Rightarrow> out_status err 2
         | Inr nodes \<Rightarrow>
             (let names0 = sort (map fst nodes);
                  names = (if CHR ''a'' \<notin> flags \<and> CHR ''A'' \<notin> flags
                           then filter (\<lambda>n. \<not> startswith n ''.'') names0 else names0);
                  display = (if CHR ''a'' \<in> flags then [''.'', ''..''] else []) @ names
              in if CHR ''l'' \<in> flags then
                   out (lines (map (\<lambda>name.
                     if name \<in> set [''.'', ''..''] then long_dir_line name
                     else case map_of nodes name of Some n \<Rightarrow> long_line name n | None \<Rightarrow> []) display))
                 else if CHR ''1'' \<in> flags then out (lines display)
                 else out (join ''  '' display)))"

text \<open>Reading the files of an argument list, one clock reading each.\<close>

fun read_files :: "(nat \<Rightarrow> reading) \<Rightarrow> nat \<Rightarrow> fakefs \<Rightarrow> string list \<Rightarrow> (string \<times> string option) list" where
  "read_files reads i fs [] = []"
| "read_files reads i fs (p # ps) = (p, read_file (reads i) fs p) # read_files reads (Suc i) fs ps"

definition cmd_cat :: "(nat \<Rightarrow> reading) \<Rightarrow> string list \<Rightarrow> fakefs \<Rightarrow> command_result" where
  "cmd_cat reads args fs =
     (if args = [] then out []
      else let files = read_files reads 0 fs args
           in out_status
                (lines (map (\<lambda>(p, c). case c of
                    None \<Rightarrow> ''cat: '' @ p @ '': No such file or directory''
                  | Some content \<Rightarrow> rstrip_char (CHR 0x0A) content) files))
                (if list_ex (\<lambda>(p, c). c = None) files then 1 else 0))"

definition cmd_echo :: "string list \<Rightarrow> fakefs \<Rightarrow> command_result \<times> fakefs" where
  "cmd_echo args fs =
     (if ''>'' \<in> set args then
        (let before_gt = takeWhile (\<lambda>a. a \<noteq> ''>'') args;
             rest = drop (length before_gt + 1) args
         in case rest of
              (c # cs) # _ \<Rightarrow> (out [], write_file (c # cs) (join '' '' before_gt @ newline_str) fs)
            | _ \<Rightarrow> (out [], fs))
      else (out (join '' '' args), fs))"

text \<open>The loops of \<open>mkdir\<close> and \<open>rm\<close>: every argument that is not an option.\<close>

definition for_operands :: "(string \<Rightarrow> 's \<Rightarrow> 's) \<Rightarrow> string list \<Rightarrow> 's \<Rightarrow> 's" where
  "for_operands op args s = fold (\<lambda>p s. if startswith p ''-'' then s else op p s) args s"

definition touch_file :: "reading \<Rightarrow> string \<Rightarrow> fakefs \<Rightarrow> fakefs" where
  "touch_file r p fs = (if read_file r fs p = None then write_file p [] fs else fs)"

definition cmd_touch :: "reading \<Rightarrow> string list \<Rightarrow> fakefs \<Rightarrow> fakefs" where
  "cmd_touch r args fs = fold (touch_file r) args fs"

text \<open>\<open>frames\<close> is the depth of calls the interpreter has left for the recursive copy of \<open>cp\<close>.\<close>

definition cmd_cp :: "nat \<Rightarrow> string list \<Rightarrow> fakefs \<Rightarrow> command_result handled" where
  "cmd_cp frames args fs =
     (case snd (parse_short_flags args) of
        src # dst # _ \<Rightarrow>
          (let (r, fs') = copy_node frames src dst fs
           in (bind_result r (\<lambda>err. Inr (out (case err of None \<Rightarrow> [] | Some e \<Rightarrow> e))), fs'))
      | _ \<Rightarrow> (Inr (out ''cp: missing file operand''), fs))"

definition cmd_mv :: "string list \<Rightarrow> fakefs \<Rightarrow> command_result handled" where
  "cmd_mv args fs =
     (case snd (parse_short_flags args) of
        src # dst # _ \<Rightarrow>
          (let (r, fs') = move_node src dst fs
           in (bind_result r (\<lambda>err. Inr (out (case err of None \<Rightarrow> [] | Some e \<Rightarrow> e))), fs'))
      | _ \<Rightarrow> (Inr (out ''mv: missing file operand''), fs))"

subsection \<open>Text tools\<close>

definition cmd_grep :: "(nat \<Rightarrow> reading) \<Rightarrow> string list \<Rightarrow> fakefs \<Rightarrow> command_result" where
  "cmd_grep reads args fs =
     (let (flags, positionals) = parse_short_flags args
      in case positionals of
           [] \<Rightarrow> out ''grep: missing pattern''
         | pattern # files \<Rightarrow>
             (let many = length files > 1
              in out (lines (concat (map (\<lambda>(p, c). case c of
                   None \<Rightarrow> [''grep: '' @ p @ '': No such file or directory'']
                 | Some content \<Rightarrow>
                     (let matched = filter (\<lambda>l. grep_matches pattern l (CHR ''i'' \<in> flags) \<noteq> (CHR ''v'' \<in> flags))
                            (splitlines content)
                      in if CHR ''l'' \<in> flags then (if matched \<noteq> [] then [p] else [])
                         else if CHR ''c'' \<in> flags then
                           [(if many then p @ '':'' else []) @ digits_of (length matched)]
                         else map (\<lambda>m. (if many then p @ '':'' else []) @ m) matched))
                   (read_files reads 0 fs files))))))"

definition cmd_sed :: "(nat \<Rightarrow> reading) \<Rightarrow> string list \<Rightarrow> fakefs \<Rightarrow> command_result" where
  "cmd_sed reads args fs =
     (case snd (parse_short_flags args) of
        [] \<Rightarrow> out ''sed: no script specified''
      | script # files \<Rightarrow>
          (if files = [] then out []
           else if length script < 3 \<or> hd script \<noteq> CHR ''s'' then
             out (''sed: -e expression '' @ [CHR 0x23] @ ''1, char '' @ digits_of (length script)
                  @ '': unknown command'')
           else let parts = split_char (script ! 1) (drop 2 script)
                in if length parts < 2 then
                     out (''sed: unterminated '' @ [CHR 0x27] @ ''s'' @ [CHR 0x27] @ '' command'')
                   else let limit = (if length parts > 2 \<and> CHR ''g'' \<in> set (parts ! 2) then None else Some 1)
                        in out (lines (concat (map (\<lambda>(p, c). case c of
                             None \<Rightarrow> [''sed: can'' @ [CHR 0x27] @ ''t read '' @ p @ '': No such file or directory'']
                           | Some content \<Rightarrow> map (replace (parts ! 0) (parts ! 1) limit) (splitlines content))
                             (read_files reads 0 fs files))))))"

text \<open>The fixed pattern \<open>{ print $N }\<close>: the digits of \<open>N\<close>.\<close>

definition awk_print_field :: "string \<Rightarrow> string option" where
  "awk_print_field program =
     (if \<not> startswith program ''{'' then None
      else let a = lstrip (drop 1 program)
           in if \<not> startswith a ''print'' then None
              else let b = drop 5 a; c = lstrip b
                   in if length c = length b \<or> \<not> startswith c ''$'' then None
                      else let ds = takeWhile is_digit (drop 1 c);
                               e = lstrip (drop (length ds) (drop 1 c))
                           in if ds \<noteq> [] \<and> e = ''}'' then Some ds else None)"

definition cmd_awk :: "(nat \<Rightarrow> reading) \<Rightarrow> string list \<Rightarrow> fakefs \<Rightarrow> command_result result" where
  "cmd_awk reads args fs =
     (case snd (parse_short_flags args) of
        [] \<Rightarrow> Inr (out ''awk: no program specified'')
      | program # files \<Rightarrow>
          (case awk_print_field (strip program) of
             None \<Rightarrow> Inr (out [])
           | Some ds \<Rightarrow>
               (if files = [] then Inr (out [])
                else bind_result (int_of_digits ds) (\<lambda>n.
                  Inr (out (lines (concat (map (\<lambda>(p, c). case c of
                      None \<Rightarrow> []
                    | Some content \<Rightarrow> concat (map (\<lambda>line. let fields = split_ws line in
                        if n = 0 then [line]
                        else if 1 \<le> n \<and> n \<le> length fields then [fields ! (n - 1)] else [])
                        (splitlines content)))
                      (read_files reads 0 fs files)))))))))"

subsection \<open>System commands\<close>

definition cmd_ip :: "string list \<Rightarrow> command_result" where
  "cmd_ip args =
     (case args of
        [] \<Rightarrow> out (case help_text ''ip'' of Some h \<Rightarrow> h | None \<Rightarrow> [])
      | sub # _ \<Rightarrow>
          (if sub \<in> set [''a'', ''addr'', ''address''] then out fake_ip_addr_output
           else out (''Object '' @ quoted sub @ '' is unknown, try '' @ quoted ''ip help'' @ ''.'')))"

text \<open>\<open>-c N\<close>, clamped to 1..20; a value that is not a number leaves the count alone.\<close>

fun ping_count :: "string list \<Rightarrow> nat \<Rightarrow> nat" where
  "ping_count (a # b # rest) n =
     ping_count (b # rest)
       (if a = ''-c'' then (case py_int b of Inr k \<Rightarrow> nat (max 1 (min k 20)) | Inl _ \<Rightarrow> n) else n)"
| "ping_count _ n = n"

definition cmd_ping :: "string list \<Rightarrow> command_result" where
  "cmd_ping args =
     (let positionals = snd (parse_short_flags args); count = ping_count args 4
      in if positionals = [] then out ''ping: missing host''
         else let host = last positionals
              in out (lines
                   ([''PING '' @ host @ '' ('' @ host @ ''): 56 data bytes'']
                    @ map (\<lambda>n. ''64 bytes from '' @ host @ '': seq='' @ digits_of n @ '' ttl=64 time=0.0''
                              @ digits_of (40 + n) @ '' ms'') [1..<count + 1]
                    @ [[], ''--- '' @ host @ '' ping statistics ---'',
                       digits_of count @ '' packets transmitted, '' @ digits_of count
                         @ '' packets received, 0% packet loss''])))"

definition cmd_uname :: "persona \<Rightarrow> string list \<Rightarrow> command_result" where
  "cmd_uname p args =
     (if ''-a'' \<in> set args then out (uname_a p)
      else if ''-m'' \<in> set args then out (uname_m p)
      else if ''-r'' \<in> set args then out (p_kernel_version p)
      else out ''Linux'')"

definition user_or_root :: "string option \<Rightarrow> string" where
  "user_or_root username = py_or username ''root''"

definition cmd_id :: "string option \<Rightarrow> command_result" where
  "cmd_id username =
     (let u = user_or_root username
      in out (''uid=0('' @ u @ '') gid=0('' @ u @ '') groups=0('' @ u @ '')''))"

definition cmd_free :: "reading \<Rightarrow> command_result" where
  "cmd_free r =
     (case memory_kb r of (tot, used, free_kb) \<Rightarrow>
        out (''              total        used        free'' @ newline_str
             @ ''Mem:'' @ rjust 15 (digits_of tot) @ rjust 12 (digits_of used) @ rjust 12 (digits_of free_kb)))"

definition ps_output :: string where
  "ps_output = lines [''  PID USER     COMMAND'', ''    1 root     init'', ''   84 root     -ash'']"

definition df_output :: string where
  "df_output = lines [''Filesystem           1K-blocks      Used Available Use% Mounted on'',
     ''/dev/root               129024     54212     74812  42% /'']"

subsection \<open>Dispatch\<close>

text \<open>\<open>busybox\<close> alone, its own flags, an applet to run, or a marker that is answered.\<close>

datatype unwrapped = Reply command_result | Run string "string list"

definition unwrap_busybox ::
  "(nat \<Rightarrow> reading) \<Rightarrow> string \<Rightarrow> string \<Rightarrow> string list \<Rightarrow> fakefs \<Rightarrow> unwrapped" where
  "unwrap_busybox reads stripped cmd args fs =
     (if cmd \<in> set [''busybox'', ''/bin/busybox''] then
        (case args of
           [] \<Rightarrow> Reply (out busybox_banner)
         | a # rest \<Rightarrow>
             (if a = ''--help'' then Reply (out busybox_banner)
              else if a = ''--list'' then Reply (out (lines bin_listing))
              else if a = ''--list-full'' then Reply (out (lines (map (\<lambda>x. ''/bin/'' @ x) bin_listing)))
              else if \<not> startswith a ''-'' then
                (if a \<in> set (''busybox'' # bin_listing) then Run a rest
                 else Reply \<lparr>cr_output = a @ '': applet not found'', cr_download = None,
                        cr_attempt = (if CHR ''/'' \<in> set a \<or> read_file (reads 0) fs a \<noteq> None
                                      then Some stripped else None),
                        cr_exit = False, cr_status = 127\<rparr>)
              else Run cmd args))
      else Run cmd args)"

definition cmd_download :: "string \<Rightarrow> string list \<Rightarrow> command_result result" where
  "cmd_download cmd args =
     bind_result (parse_download_args cmd args) (\<lambda>req. Inr
       (case req of
          None \<Rightarrow> out_status (cmd @ '': missing URL'') 1
        | Some r \<Rightarrow> no_result\<lparr>cr_download := Some r\<rparr>))"

text \<open>Commands that only look.\<close>

definition run_readonly ::
  "persona \<Rightarrow> string option \<Rightarrow> (nat \<Rightarrow> reading) \<Rightarrow> string \<Rightarrow> string list \<Rightarrow> fakefs \<Rightarrow> command_result result"
  where
  "run_readonly p username reads cmd args fs =
     (if cmd = ''pwd'' then Inr (out (cwd_display fs))
      else if cmd = ''ls'' then Inr (cmd_ls args fs)
      else if cmd = ''cat'' then Inr (cmd_cat reads args fs)
      else if cmd = ''grep'' then Inr (cmd_grep reads args fs)
      else if cmd = ''sed'' then Inr (cmd_sed reads args fs)
      else if cmd = ''awk'' then cmd_awk reads args fs
      else if cmd = ''ifconfig'' then Inr (out (render_ifconfig (reads 0)))
      else if cmd = ''ip'' then Inr (cmd_ip args)
      else if cmd = ''ping'' then Inr (cmd_ping args)
      else if cmd = ''top'' then Inr (out (render_top (reads 0)))
      else if cmd = ''vi'' then Inr (out [])
      else if cmd = ''mount'' then Inr (out (if args = [] then fake_mount_output else []))
      else if cmd = ''uname'' then Inr (cmd_uname p args)
      else if cmd = ''whoami'' then Inr (out (user_or_root username))
      else if cmd = ''id'' then Inr (cmd_id username)
      else if cmd = ''ps'' then Inr (out ps_output)
      else if cmd = ''free'' then Inr (cmd_free (reads 0))
      else if cmd = ''df'' then Inr (out df_output)
      else if cmd = ''true'' then Inr (out [])
      else if cmd = ''false'' then Inr (out_status [] 1)
      else if cmd \<in> set [''exit'', ''logout'', ''reboot''] then Inr (no_result\<lparr>cr_exit := True\<rparr>)
      else Inr (out_status (''-ash: '' @ cmd @ '': not found'') 127))"

definition run_command ::
  "persona \<Rightarrow> string option \<Rightarrow> (nat \<Rightarrow> reading) \<Rightarrow> nat \<Rightarrow> string \<Rightarrow> string \<Rightarrow> string list \<Rightarrow> fakefs
     \<Rightarrow> command_result handled" where
  "run_command p username reads frames stripped cmd args fs =
     (if ''--help'' \<in> set args \<and> help_text cmd \<noteq> None then (Inr (out (the (help_text cmd))), fs)
      else if cmd \<in> set download_commands then (cmd_download cmd args, fs)
      else if cmd = ''chmod'' then (Inr (attempt (strip (''chmod '' @ join '' '' args))), fs)
      else if cmd \<in> set [''sh'', ''ash''] \<or> startswith cmd ''./'' \<or> startswith cmd ''/''
        then (Inr (attempt stripped), fs)
      else if cmd = ''cd'' then apfst Inr (cmd_cd args fs)
      else if cmd = ''echo'' then apfst Inr (cmd_echo args fs)
      else if cmd = ''mkdir'' then (Inr (out []), for_operands make_dir args fs)
      else if cmd = ''touch'' then (Inr (out []), cmd_touch (reads 0) args fs)
      else if cmd = ''rm'' then (Inr (out []), for_operands remove args fs)
      else if cmd = ''cp'' then cmd_cp frames args fs
      else if cmd = ''mv'' then cmd_mv args fs
      else (run_readonly p username reads cmd args fs, fs))"

definition dispatch ::
  "string \<Rightarrow> persona \<Rightarrow> string option \<Rightarrow> (nat \<Rightarrow> reading) \<Rightarrow> nat \<Rightarrow> fakefs \<Rightarrow> command_result handled" where
  "dispatch raw p username reads frames fs =
     (let stripped = strip (rstrip_char (CHR 0x0D) (rstrip_char (CHR 0x0A) raw))
      in if stripped = [] then (Inr (out []), fs)
         else let tokens = tokenize stripped
              in case unwrap_busybox reads stripped (hd tokens) (tl tokens) fs of
                   Reply r \<Rightarrow> (Inr r, fs)
                 | Run cmd args \<Rightarrow> run_command p username reads frames stripped cmd args fs)"

subsection \<open>Which commands can raise\<close>

lemma cmd_awk_exn: "cmd_awk reads args fs = Inl e \<Longrightarrow> e = ValueError"
  by (auto simp: cmd_awk_def int_of_digits_def split: list.splits option.splits if_splits)

lemma parse_download_exn: "parse_download_args cmd args = Inl e \<Longrightarrow> e = ValueError"
  by (auto simp: parse_download_args_def Let_def bind_result_Inl_iff dest!: urlsplit_exn
      split: prod.splits if_splits option.splits)

lemma cmd_mv_exn: "fst (cmd_mv args fs) = Inl e \<Longrightarrow> e = KeyError"
  by (auto simp: cmd_mv_def move_node_def move_to_def py_del_def Let_def bind_result_Inl_iff
      split: list.splits prod.splits option.splits node.splits if_splits)

lemma cmd_cp_exn: "fst (cmd_cp frames args fs) = Inl e \<Longrightarrow> e = RecursionError"
proof -
  assume e: "fst (cmd_cp frames args fs) = Inl e"
  then obtain src dst where "fst (copy_node frames src dst fs) = Inl e"
    by (auto simp: cmd_cp_def bind_result_Inl_iff split: list.splits prod.splits) (metis fst_conv)
  then show "e = RecursionError" by (rule copy_node_exn)
qed

text \<open>The outcomes of a command, as a case rule, so that no proof opens the chain of tests.\<close>

lemma if_intro: "(c \<Longrightarrow> P a) \<Longrightarrow> (\<not> c \<Longrightarrow> P b) \<Longrightarrow> P (if c then a else b)"
  by simp

lemma run_command_cases:
  assumes "\<And>h. P (Inr (out h), fs)"
    and "cmd \<in> set download_commands \<Longrightarrow> P (cmd_download cmd args, fs)"
    and "\<And>s. P (Inr (attempt s), fs)"
    and "P (apfst Inr (cmd_cd args fs))" and "P (apfst Inr (cmd_echo args fs))"
    and "\<And>h. P (Inr (out h), for_operands make_dir args fs)"
    and "\<And>h. P (Inr (out h), cmd_touch (reads 0) args fs)"
    and "\<And>h. P (Inr (out h), for_operands remove args fs)"
    and "cmd = ''cp'' \<Longrightarrow> P (cmd_cp frames args fs)" and "cmd = ''mv'' \<Longrightarrow> P (cmd_mv args fs)"
    and "P (run_readonly p username reads cmd args fs, fs)"
  shows "P (run_command p username reads frames stripped cmd args fs)"
  unfolding run_command_def by (intro if_intro [where P = P] assms; assumption)

lemma run_readonly_exn:
  "run_readonly p username reads cmd args fs = Inl e \<Longrightarrow> cmd = ''awk'' \<and> e = ValueError"
proof (cases "cmd = ''awk''")
  case True
  then show "run_readonly p username reads cmd args fs = Inl e \<Longrightarrow> cmd = ''awk'' \<and> e = ValueError"
    by (auto simp: run_readonly_def dest: cmd_awk_exn)
next
  case False
  then have "\<exists>r. run_readonly p username reads cmd args fs = Inr r"
    by (simp add: run_readonly_def)
  then show "run_readonly p username reads cmd args fs = Inl e \<Longrightarrow> cmd = ''awk'' \<and> e = ValueError"
    by auto
qed

lemma run_command_exn:
  "fst (run_command p username reads frames stripped cmd args fs) = Inl e \<longrightarrow>
   (cmd \<in> set download_commands \<and> e = ValueError) \<or> (cmd = ''mv'' \<and> e = KeyError)
    \<or> (cmd = ''cp'' \<and> e = RecursionError) \<or> (cmd = ''awk'' \<and> e = ValueError)"
  by (rule run_command_cases)
    (auto simp: cmd_download_def bind_result_Inl_iff apfst_def map_prod_def split: prod.splits
      dest: parse_download_exn cmd_mv_exn cmd_cp_exn run_readonly_exn)

text \<open>The stripped line, and the command that is run for it.\<close>

lemma rstrip_append_space: "list_all is_space v \<Longrightarrow> rstrip (s @ v) = rstrip s"
  by (simp add: rstrip_def list_all_iff dropWhile_append)

lemma strip_append_space:
  assumes "list_all is_space v"
  shows "strip (s @ v) = strip s"
proof (cases "\<forall>c \<in> set s. is_space c")
  case True
  with assms have "strip (s @ v) = []" "strip s = []"
    unfolding strip_eq_Nil_iff by (auto simp: list_all_iff)
  then show ?thesis by simp
next
  case False
  then have "lstrip (s @ v) = lstrip s @ v"
    by (auto simp: lstrip_def dropWhile_append)
  then show ?thesis by (simp add: strip_def rstrip_append_space [OF assms])
qed

lemma strip_rstrip_char: "is_space d \<Longrightarrow> strip (rstrip_char d s) = strip s"
proof -
  assume "is_space d"
  let ?v = "rev (takeWhile (\<lambda>c. c = d) (rev s))"
  have "list_all is_space ?v" using \<open>is_space d\<close> by (auto simp: list_all_iff dest: set_takeWhileD)
  moreover have "s = rstrip_char d s @ ?v"
    unfolding rstrip_char_def by (metis rev_append rev_rev_ident takeWhile_dropWhile_id)
  ultimately show "strip (rstrip_char d s) = strip s" using strip_append_space by metis
qed

lemma dispatch_eq:
  "dispatch raw p username reads frames fs =
     (let stripped = strip raw
      in if stripped = [] then (Inr (out []), fs)
         else case unwrap_busybox reads stripped (hd (tokenize stripped)) (tl (tokenize stripped)) fs of
                Reply r \<Rightarrow> (Inr r, fs)
              | Run cmd args \<Rightarrow> run_command p username reads frames stripped cmd args fs)"
proof -
  have "is_space (CHR 0x0D)" "is_space (CHR 0x0A)" by (simp_all add: is_space_def)
  then show ?thesis by (simp add: dispatch_def strip_rstrip_char Let_def)
qed


subsection \<open>What commands do to the filesystem\<close>

lemma fold_inv: "I s \<Longrightarrow> (\<And>x s. x \<in> set xs \<Longrightarrow> I s \<Longrightarrow> I (f x s)) \<Longrightarrow> I (fold f xs s)"
  by (induction xs arbitrary: s) auto

text \<open>
  The loops over operands as one interface: what every single operation keeps, the loop keeps.
\<close>

locale operand_loop =
  fixes op :: "string \<Rightarrow> 's \<Rightarrow> 's" and inv :: "'s \<Rightarrow> bool"
  assumes op_inv: "inv s \<Longrightarrow> inv (op q s)"
begin

lemma loop_inv: "inv s \<Longrightarrow> inv (for_operands op args s)"
  unfolding for_operands_def by (rule fold_inv) (auto simp: op_inv)

lemma loop_options_only: "\<forall>a \<in> set args. startswith a ''-'' \<Longrightarrow> for_operands op args s = s"
  unfolding for_operands_def by (induction args) auto

lemma fold_op_inv: "inv s \<Longrightarrow> inv (fold op args s)"
  by (rule fold_inv) (auto simp: op_inv)

end

interpretation mkdir_loop: operand_loop make_dir wf_fs
  by unfold_locales (rule make_dir_wf)

interpretation rm_loop: operand_loop remove wf_fs
  by unfold_locales (rule remove_wf)

interpretation touch_loop: operand_loop "touch_file r" wf_fs for r
  by unfold_locales (simp add: touch_file_def write_file_wf)

lemma cmd_wf:
  assumes "wf_fs fs"
  shows "wf_fs (snd (cmd_cd args fs))" and "wf_fs (snd (cmd_echo args fs))"
    and "wf_fs (snd (cmd_cp frames args fs))" and "wf_fs (snd (cmd_mv args fs))" and "wf_fs (cmd_touch r args fs)"
proof -
  show "wf_fs (snd (cmd_cd args fs))"
    using chdir_wf [OF assms] by (simp add: cmd_cd_def Let_def split: prod.split) (metis snd_conv)
  show "wf_fs (snd (cmd_echo args fs))"
    using assms by (auto simp: cmd_echo_def Let_def write_file_wf split: list.splits)
  show "wf_fs (snd (cmd_cp frames args fs))"
    using assms copy_node_wf [OF assms, of frames]
    by (simp add: cmd_cp_def split: list.split prod.split) (metis snd_conv)
  show "wf_fs (snd (cmd_mv args fs))"
    using assms move_node_wf [OF assms]
    by (simp add: cmd_mv_def split: list.split prod.split) (metis snd_conv)
  show "wf_fs (cmd_touch r args fs)"
    unfolding cmd_touch_def by (rule touch_loop.fold_op_inv [OF assms])
qed

lemma run_command_wf:
  assumes "wf_fs fs"
  shows "wf_fs (snd (run_command p username reads frames stripped cmd args fs))"
  by (rule run_command_cases)
    (simp_all add: assms cmd_wf mkdir_loop.loop_inv rm_loop.loop_inv)

lemma dispatch_wf: "wf_fs fs \<Longrightarrow> wf_fs (snd (dispatch raw p username reads frames fs))"
  by (auto simp: dispatch_def Let_def run_command_wf split: unwrapped.splits)

text \<open>
  The only commands that can change the filesystem are \<open>cd\<close>, \<open>echo\<close>, \<open>mkdir\<close>, \<open>touch\<close>, \<open>rm\<close>,
  \<open>cp\<close> and \<open>mv\<close>; in particular a line that is recorded as a download or as an attempt to run
  something leaves it exactly as it was.
\<close>
theorem recorded_lines_touch_nothing:
  assumes "fst (dispatch raw p username reads frames fs) = Inr r"
    and "cr_download r \<noteq> None \<or> cr_attempt r \<noteq> None"
  shows "snd (dispatch raw p username reads frames fs) = fs"
proof -
  have quiet: "cr_download (out s) = None" "cr_attempt (out s) = None"
    "cr_download (out_status s n) = None" "cr_attempt (out_status s n) = None" for s n
    by (simp_all add: out_def out_status_def no_result_def)
  have cd: "cr_download (fst (cmd_cd args fs)) = None \<and> cr_attempt (fst (cmd_cd args fs)) = None" for args
    by (simp add: cmd_cd_def quiet split: prod.split)
  have echo: "cr_download (fst (cmd_echo args fs)) = None \<and> cr_attempt (fst (cmd_echo args fs)) = None" for args
    by (simp add: cmd_echo_def quiet Let_def split: list.split)
  have cp: "fst (cmd_cp frames args fs) = Inr r' \<Longrightarrow> cr_download r' = None \<and> cr_attempt r' = None" for args r'
    by (auto simp: cmd_cp_def quiet bind_result_Inr_iff split: list.splits prod.splits)
  have mv: "fst (cmd_mv args fs) = Inr r' \<Longrightarrow> cr_download r' = None \<and> cr_attempt r' = None" for args r'
    by (auto simp: cmd_mv_def quiet bind_result_Inr_iff split: list.splits prod.splits)
  have "fst (run_command p username reads frames s cmd args fs) = Inr r \<longrightarrow>
      snd (run_command p username reads frames s cmd args fs) = fs" for s cmd args
    by (rule run_command_cases) (use assms(2) cd echo cp mv in \<open>auto simp: quiet\<close>)
  with assms(1) show ?thesis
    by (auto simp: dispatch_eq Let_def split: unwrapped.splits if_splits)
qed

subsection \<open>Typed lines\<close>

text \<open>What \<open>dispatch\<close> does with a printed command.\<close>

lemma strip_show_command: "ws \<noteq> [] \<Longrightarrow> list_all ok_word ws \<Longrightarrow> strip (show_command ws) = show_command ws"
  using strip_inside [of "show_command ws" "[]" "[]"] show_command_ends [of ws] by simp

lemma dispatch_show_command:
  assumes "list_all ok_word ws" and "map value_word ws = cmd # args"
  shows "dispatch (show_command ws) p u reads frames fs =
    (case unwrap_busybox reads (show_command ws) cmd args fs of
       Reply r \<Rightarrow> (Inr r, fs)
     | Run cmd' args' \<Rightarrow> run_command p u reads frames (show_command ws) cmd' args' fs)"
proof -
  have ne: "ws \<noteq> []" using assms(2) by auto
  then show ?thesis
    using strip_show_command [OF ne assms(1)] tokenize_show_command [OF ne assms(1)]
      show_command_ends [OF ne assms(1)] assms(2)
    by (simp add: dispatch_eq Let_def)
qed

lemma unwrap_other: "cmd \<noteq> ''busybox'' \<Longrightarrow> cmd \<noteq> ''/bin/busybox'' \<Longrightarrow>
    unwrap_busybox reads s cmd args fs = Run cmd args"
  by (simp add: unwrap_busybox_def)

lemma takeWhile_to_gt: "x \<notin> set ws \<Longrightarrow> takeWhile (\<lambda>a. a \<noteq> x) (ws @ x # rest) = ws"
  by (simp add: takeWhile_append)

lemma cmd_echo_redirect:
  assumes "''>'' \<notin> set ws" and "f \<noteq> []"
  shows "cmd_echo (ws @ [''>'', f]) fs = (out [], write_file f (join '' '' ws @ newline_str) fs)"
  using assms by (cases f) (simp_all add: cmd_echo_def Let_def takeWhile_to_gt)

lemma rstrip_newline: "s = [] \<or> last s \<noteq> CHR 0x0A \<Longrightarrow> rstrip_char (CHR 0x0A) (s @ newline_str) = s"
  by (cases s rule: rev_cases) (auto simp: rstrip_char_def newline_str_def)

lemma run_echo: "''--help'' \<notin> set args \<Longrightarrow>
    run_command p u reads frames s ''echo'' args fs = apfst Inr (cmd_echo args fs)"
  by (simp add: run_command_def download_commands_def startswith_def)

lemma run_cat: "''--help'' \<notin> set args \<Longrightarrow>
    run_command p u reads frames s ''cat'' args fs = (Inr (cmd_cat reads args fs), fs)"
  by (simp add: run_command_def run_readonly_def download_commands_def startswith_def)

text \<open>
  C37. The dropper's write test works: typing \<open>echo WORDS > FILE\<close> and then \<open>cat FILE\<close>, with any
  quoting, prints the words back joined by spaces, in any well-formed acyclic filesystem where the
  file's parent is a directory.
\<close>
theorem echo_then_cat:
  assumes "wf_fs fs" and "acyclic_fs fs" and "parent_dir fs f a" and "base_name fs f \<noteq> ''root''"
    and "f \<noteq> []" and "''>'' \<notin> set ws" and "''--help'' \<notin> set (f # ws)"
    and "join '' '' ws = [] \<or> last (join '' '' ws) \<noteq> CHR 0x0A"
    and e: "list_all ok_word es" "map value_word es = ''echo'' # ws @ [''>'', f]"
    and c: "list_all ok_word cs" "map value_word cs = [''cat'', f]"
  shows "dispatch (show_command es) p u reads frames fs = (Inr (out []), write_file f (join '' '' ws @ newline_str) fs)
    \<and> fst (dispatch (show_command cs) p u reads frames (write_file f (join '' '' ws @ newline_str) fs))
        = Inr (out (join '' '' ws))"
proof -
  let ?fs = "write_file f (join '' '' ws @ newline_str) fs"
  have "dispatch (show_command es) p u reads frames fs = apfst Inr (cmd_echo (ws @ [''>'', f]) fs)"
    using dispatch_show_command [OF e, of p u reads frames fs] assms(7)
    by (simp add: unwrap_other run_echo)
  then have echo: "dispatch (show_command es) p u reads frames fs = (Inr (out []), ?fs)"
    using cmd_echo_redirect [OF assms(6,5)] by simp
  have good: "fs_good fs" "writable_path fs f"
    using assms(1-4) by (auto simp: fs_good_def writable_path_def)
  then have "read_file (reads 0) ?fs f = Some (join '' '' ws @ newline_str)"
    by (rule shell_store.rd_wr)
  then have "cmd_cat reads [f] ?fs = out (join '' '' ws)"
    using rstrip_newline [OF assms(8)] by (simp add: cmd_cat_def lines_def out_def out_status_def no_result_def)
  then have "fst (dispatch (show_command cs) p u reads frames ?fs) = Inr (out (join '' '' ws))"
    using dispatch_show_command [OF c, of p u reads frames ?fs] assms(7)
    by (simp add: unwrap_other run_cat)
  with echo show ?thesis by blast
qed

text \<open>
  C17. The botnet's probe is answered: \<open>busybox MARKER\<close> or \<open>/bin/busybox MARKER\<close>, for any marker
  that is not an applet or an option, replies \<open>MARKER: applet not found\<close> with status 127; it is
  recorded as an attempt to run something exactly when the marker holds a slash or names a readable
  file.
\<close>
theorem busybox_marker_reply:
  assumes "list_all ok_word ws" and "map value_word ws = b # m # rest"
    and "b = ''busybox'' \<or> b = ''/bin/busybox''"
    and "\<not> startswith m ''-''" and "m \<notin> set bin_listing" and "m \<noteq> ''busybox''"
  shows "\<exists>r. dispatch (show_command ws) p u reads frames fs = (Inr r, fs)
    \<and> cr_output r = m @ '': applet not found'' \<and> cr_status r = 127 \<and> cr_download r = None
    \<and> (cr_attempt r \<noteq> None \<longleftrightarrow> CHR ''/'' \<in> set m \<or> read_file (reads 0) fs m \<noteq> None)"
proof -
  have "m \<noteq> ''--help''" "m \<noteq> ''--list''" "m \<noteq> ''--list-full''"
    using assms(4) by (auto simp: startswith_def)
  then show ?thesis
    using dispatch_show_command [OF assms(1,2), of p u reads frames fs] assms(3-6)
    by (simp add: unwrap_busybox_def)
qed

lemma status_simps [simp]:
  "cr_status (out s) = 0" "cr_status (out_status s n) = n" "cr_status (attempt s) = 0"
  "cr_status (no_result\<lparr>cr_download := d\<rparr>) = 0" "cr_status (no_result\<lparr>cr_exit := e\<rparr>) = 0"
  by (simp_all add: out_def out_status_def attempt_def no_result_def)

lemma small_status:
  "cr_status (cmd_ls args fs) \<noteq> 127" "cr_status (cmd_cat reads args fs) \<noteq> 127"
  "cr_status (cmd_grep reads args fs) \<noteq> 127" "cr_status (cmd_sed reads args fs) \<noteq> 127"
  "cmd_awk reads args fs = Inr r \<Longrightarrow> cr_status r \<noteq> 127"
  "cr_status (cmd_ip args) \<noteq> 127" "cr_status (cmd_ping args) \<noteq> 127"
  "cr_status (fst (cmd_cd args fs)) \<noteq> 127" "cr_status (fst (cmd_echo args fs)) \<noteq> 127"
  "fst (cmd_cp frames args fs) = Inr r \<Longrightarrow> cr_status r \<noteq> 127" "fst (cmd_mv args fs) = Inr r \<Longrightarrow> cr_status r \<noteq> 127"
  "cmd_download cmd args = Inr r \<Longrightarrow> cr_status r \<noteq> 127"
  subgoal by (simp add: cmd_ls_def Let_def split: prod.split sum.split)
  subgoal by (simp add: cmd_cat_def Let_def)
  subgoal by (simp add: cmd_grep_def Let_def split: prod.split list.split)
  subgoal by (simp add: cmd_sed_def Let_def split: prod.split list.split)
  subgoal by (auto simp: cmd_awk_def bind_result_Inr_iff split: list.splits option.splits if_splits)
  subgoal by (simp add: cmd_ip_def split: list.split)
  subgoal by (simp add: cmd_ping_def Let_def)
  subgoal by (simp add: cmd_cd_def split: prod.split)
  subgoal by (simp add: cmd_echo_def Let_def split: list.split)
  subgoal by (auto simp: cmd_cp_def bind_result_Inr_iff split: list.splits prod.splits)
  subgoal by (auto simp: cmd_mv_def bind_result_Inr_iff split: list.splits prod.splits)
  subgoal by (auto simp: cmd_download_def bind_result_Inr_iff split: option.splits)
  done

lemma run_readonly_applet:
  assumes "cmd \<in> set bin_listing" and "run_readonly p u reads cmd args fs = Inr r"
    and "cmd \<notin> {''sh'', ''ash'', ''cp'', ''mv'', ''rm'', ''mkdir'', ''touch'', ''echo'', ''wget'', ''tftp'', ''chmod''}"
  shows "cr_status r \<noteq> 127"
proof -
  have "cmd \<in> {''cat'', ''ls'', ''ps'', ''grep'', ''sed'', ''awk'', ''ifconfig'', ''ping'', ''top'', ''vi'',
      ''reboot'', ''mount'', ''ip''}"
    using assms(1,3) unfolding set_bin_listing busybox_applets_def by auto
  then show ?thesis
    using assms(2) small_status(1-4,6,7) small_status(5) [of reads args fs r]
    by (elim insertE emptyE) (auto simp: run_readonly_def)
qed

text \<open>
  No applet that the device advertises is missing: whatever the arguments, a command named in
  the applet listing never gets the \<open>not found\<close> status.
\<close>

theorem advertised_applets_run:
  assumes "cmd \<in> set bin_listing" and "fst (run_command p u reads frames s cmd args fs) = Inr r"
  shows "cr_status r \<noteq> 127"
proof (cases "cmd \<in> {''sh'', ''ash'', ''cp'', ''mv'', ''rm'', ''mkdir'', ''touch'', ''echo'', ''wget'', ''tftp'', ''chmod''}")
  case True
  then show ?thesis
    using assms(2) small_status(9) small_status(10) [of frames args fs r] small_status(11) [of args fs r] small_status(12) [of cmd args r]
    by (elim insertE emptyE)
      (auto simp: run_command_def download_commands_def apfst_def startswith_def split: if_splits)
next
  case False
  have "fst (run_command p u reads frames s cmd args fs) = Inr r \<longrightarrow> cr_status r \<noteq> 127"
    by (rule run_command_cases)
      (use small_status run_readonly_applet [OF assms(1) _ False] in auto)
  with assms(2) show ?thesis by blast
qed

text \<open>
  \<open>ls\<close> of a single file written with a leading dot, as in \<open>ls ./x\<close>, prints nothing: the hidden
  name filter is applied to the path that was typed.
\<close>

theorem ls_hides_dotted_path:
  assumes "lookup fs (resolve fs (CHR ''.'' # q)) = Some (File c z)"
  shows "cmd_ls [CHR ''.'' # q] fs = out []"
  using assms by (simp add: cmd_ls_def listdir_nodes_def opt_target_def startswith_def)

text \<open>
  Moving the root: once the root directory has no entry called \<open>root\<close>, \<open>mv / NAME\<close> puts the root
  below itself and then raises \<open>KeyError\<close>; the change stays.
\<close>

theorem mv_root_raises:
  assumes "wf_fs fs" and "map_of (entries_of fs 0) ''root'' = None"
    and "parent_dir fs dst a" and "base_name fs dst \<noteq> ''root''"
    and "\<nexists>d. lookup fs (resolve fs dst) = Some (Dir d)"
  shows "fst (move_node ''/'' dst fs) = Inl KeyError
    \<and> map_of (entries_of (snd (move_node ''/'' dst fs)) a) (base_name fs dst) = Some (Dir 0)"
proof -
  have "move_node ''/'' dst fs = move_to a (base_name fs dst) (Dir 0) 0 ''root'' fs"
    using assms(3,5)
    by (auto simp: move_node_def resolve_slash lookup_def parent_dir_def base_name_def Let_def
        split: option.splits node.splits)
  moreover have "a < length (fs_dirs fs)"
    using assms(1,3) lookup_dir_lt by (auto simp: parent_dir_def)
  ultimately show ?thesis
    using assms(2,4) by (auto simp: move_to_def py_del_def map_of_set_entry)
qed

subsection \<open>Concrete lines\<close>

abbreviation (input) "still \<equiv> (\<lambda>_ :: nat. zero_reading)"

lemma typed_bracket_url:
  "fst (dispatch ''wget http://['' openwrt_persona None still 900 small_fs) = Inl ValueError"
  by code_simp


text \<open>The line \<open>cp\<close> raises on: what \<open>Fake_FS.deep_cp_raises\<close> shows comes out of \<open>dispatch\<close>.\<close>

lemma typed_deep_cp:
  "dispatch ''cp /d /x'' openwrt_persona None still 17 (make_dir ''/d/e/f'' (make_dir ''/d/e'' small_fs))
     = (Inl RecursionError, make_dir ''/d/e/f'' (make_dir ''/d/e'' small_fs))"
  by code_simp

lemma typed_chmod: "dispatch ''chmod 777 /a'' openwrt_persona None still 900 small_fs
    = (Inr (attempt ''chmod 777 /a''), small_fs)"
  by code_simp

lemma recorded_lines_touch_nothing_witness:
  "snd (dispatch ''chmod 777 /a'' openwrt_persona None still 900 small_fs) = small_fs"
  by (rule recorded_lines_touch_nothing [where r = "attempt ''chmod 777 /a''"])
    (simp_all add: typed_chmod attempt_def)

lemma ls_hides_dotted_path_witness: "cmd_ls [''./a''] small_fs = out []"
  by (rule ls_hides_dotted_path [of _ "''/a''" "''x''" None]) code_simp

lemma echo_then_cat_witness:
  "fst (dispatch (show_command [plain_word ''cat'', plain_word ''/b'']) openwrt_persona None still 900
      (write_file ''/b'' (join '' '' [''hi''] @ newline_str) small_fs)) = Inr (out (join '' '' [''hi'']))"
proof -
  have words: "list_all ok_word [plain_word ''cat'', plain_word ''/b'']"
    "list_all ok_word [plain_word ''echo'', plain_word ''hi'', plain_word ''>'', plain_word ''/b'']"
    "map value_word [plain_word ''cat'', plain_word ''/b''] = [''cat'', ''/b'']"
    "map value_word [plain_word ''echo'', plain_word ''hi'', plain_word ''>'', plain_word ''/b'']
      = ''echo'' # [''hi''] @ [''>'', ''/b'']"
    by (simp_all add: plain_word_def ok_word_def plain_char_def is_space_def value_word_def)
  show ?thesis
    using echo_then_cat [OF small_fs_wf small_fs_acyclic small_fs_facts(3), of "[''hi'']",
        OF _ _ _ _ _ words(2,4,1,3)] small_fs_facts(4)
    by simp
qed

lemma busybox_marker_reply_witness:
  "\<exists>r. dispatch (show_command [plain_word ''/bin/busybox'', plain_word ''MIRAI'']) openwrt_persona None
      still 900 small_fs = (Inr r, small_fs) \<and> cr_output r = ''MIRAI'' @ '': applet not found''"
proof -
  have words: "list_all ok_word [plain_word ''/bin/busybox'', plain_word ''MIRAI'']"
    "map value_word [plain_word ''/bin/busybox'', plain_word ''MIRAI''] = ''/bin/busybox'' # ''MIRAI'' # []"
    by (simp_all add: plain_word_def ok_word_def plain_char_def is_space_def value_word_def)
  have "''MIRAI'' \<notin> set bin_listing" unfolding set_bin_listing busybox_applets_def by simp
  then show ?thesis
    using busybox_marker_reply [OF words, of openwrt_persona None still 900 small_fs]
    by (auto simp: startswith_def)
qed

lemma advertised_applets_run_witness:
  "case fst (run_command openwrt_persona None still 900 ''ps'' ''ps'' [] small_fs) of
     Inr r \<Rightarrow> cr_status r \<noteq> 127 | Inl e \<Rightarrow> False"
proof -
  have "''ps'' \<in> set bin_listing" unfolding set_bin_listing busybox_applets_def by simp
  moreover have "fst (run_command openwrt_persona None still 900 ''ps'' ''ps'' [] small_fs) = Inr (out ps_output)"
    by (simp add: run_command_def run_readonly_def download_commands_def startswith_def)
  ultimately show ?thesis using advertised_applets_run [of "''ps''"] by auto
qed

lemma mv_root_raises_witness: "fst (move_node ''/'' ''/b'' small_fs) = Inl KeyError"
  using mv_root_raises [OF small_fs_wf _ small_fs_facts(3)] small_fs_facts
  by (simp add: small_fs_paths) (simp add: small_fs_def entries_of_def)

end
