(* ===== verification/Script_Scan.thy ===== *)
theory Script_Scan
  imports Elf Download_Args
begin

section \<open>Scanning captured scripts\<close>

text \<open>
  \<open>honeypot/fetcher/script_scan.py\<close>: a text-only scan of a captured script for the URLs it would
  download. The scanner object is a record; an exception (from \<open>urlsplit\<close>, through the shared
  argument parser) ends the whole scan. The variable tables are maps; a loop iteration works on a
  copy of the scanner's table.
\<close>

definition max_script_bytes :: nat where
  "max_script_bytes = 256 * 1024"

definition max_lines :: nat where
  "max_lines = 5000"

definition max_segments :: nat where
  "max_segments = 20000"

definition segments_per_line :: nat where
  "segments_per_line = 500"

definition max_loop_values :: nat where
  "max_loop_values = 64"

definition max_loop_body :: nat where
  "max_loop_body = 200"

text \<open>
  \<open>printable / len(head) >= 0.95\<close>: for heads of at most 4096 bytes the rounded quotient and the
  rounded constant compare like the exact ones.
\<close>

definition binary_magic :: "byte list list" where
  "binary_magic = [[0x7F, 0x45, 0x4C, 0x46], [0x4D, 0x5A], [0x50, 0x4B, 3, 4], [0x1F, 0x8B]]"

definition is_printable :: "byte \<Rightarrow> bool" where
  "is_printable b \<longleftrightarrow> b \<in> set [9, 10, 13] \<or> (32 \<le> b \<and> b < 127)"

definition looks_like_script :: "byte list \<Rightarrow> bool" where
  "looks_like_script data \<longleftrightarrow>
     (let head = take 4096 data
      in if head = [] \<or> list_ex (\<lambda>m. take (length m) head = m) binary_magic \<or> 0 \<in> set head then False
         else 19 * length head \<le> 20 * length (filter is_printable head))"

subsection \<open>Words and variables\<close>

definition loop_keywords :: "string list" where
  "loop_keywords = [''for'', ''while'', ''until'']"

definition has_unresolved :: "string \<Rightarrow> bool" where
  "has_unresolved t \<longleftrightarrow> CHR ''$'' \<in> set t \<or> CHR 0x60 \<in> set t"

definition name_start :: "char \<Rightarrow> bool" where
  "name_start c \<longleftrightarrow> is_alpha_ascii c \<or> c = CHR ''_''"

definition name_char :: "char \<Rightarrow> bool" where
  "name_char c \<longleftrightarrow> name_start c \<or> is_digit c"

definition is_name :: "string \<Rightarrow> bool" where
  "is_name s \<longleftrightarrow> s \<noteq> [] \<and> name_start (hd s) \<and> list_all name_char s"

text \<open>\<open>NAME=value\<close>.\<close>

definition match_assignment :: "string \<Rightarrow> (string \<times> string) option" where
  "match_assignment t =
     (if CHR ''='' \<in> set t \<and> is_name (before (CHR ''='') t)
      then Some (before (CHR ''='') t, after (CHR ''='') t) else None)"

text \<open>A reference at the head of \<open>t\<close>, after its \<open>$\<close>: the name and the text of the reference.\<close>

definition match_reference :: "string \<Rightarrow> (string \<times> string) option" where
  "match_reference t =
     (if startswith t ''{'' then
        (let n = takeWhile name_char (drop 1 t)
         in if is_name n \<and> startswith (drop (length n + 1) t) ''}''
            then Some (n, ''{'' @ n @ ''}'') else None)
      else let n = takeWhile name_char t in if is_name n then Some (n, n) else None)"

type_synonym env = "string \<rightharpoonup> string"

function expand :: "env \<Rightarrow> string \<Rightarrow> string" where
  "expand env [] = []"
| "expand env (c # t) =
     (if c = CHR ''$'' then
        (case match_reference t of
           None \<Rightarrow> c # expand env t
         | Some (n, ref) \<Rightarrow>
             (case env n of Some v \<Rightarrow> v | None \<Rightarrow> c # ref) @ expand env (drop (length ref) t))
      else c # expand env t)"
  by pat_completeness auto
termination
  by (relation "measure (\<lambda>(env, t). length t)") auto

definition first_word :: "string \<Rightarrow> string" where
  "first_word segment = (case split_ws1 segment of [] \<Rightarrow> [] | w # _ \<Rightarrow> w)"

subsection \<open>The scanner\<close>

record scanner =
  sc_max_urls :: nat
  sc_variables :: env
  sc_urls :: "string list"
  sc_skipped :: nat

definition sc_full :: "scanner \<Rightarrow> bool" where
  "sc_full sc \<longleftrightarrow> length (sc_urls sc) \<ge> sc_max_urls sc"

definition drop_head_if :: "(string \<Rightarrow> bool) \<Rightarrow> string list \<Rightarrow> string list" where
  "drop_head_if p ts = (case ts of t # rest \<Rightarrow> if p t then rest else ts | [] \<Rightarrow> [])"

text \<open>Leading assignments change the table unless their value stays unresolved.\<close>

fun take_assignments :: "env \<Rightarrow> string list \<Rightarrow> env \<times> string list" where
  "take_assignments env [] = (env, [])"
| "take_assignments env (t # ts) =
     (case match_assignment t of
        None \<Rightarrow> (env, t # ts)
      | Some (n, v) \<Rightarrow>
          (let value = expand env v
           in take_assignments (if has_unresolved value then env else env(n \<mapsto> value)) ts))"

definition add_url :: "download_request \<Rightarrow> scanner \<Rightarrow> scanner" where
  "add_url req sc =
     (if dl_protocol req \<notin> set [''http'', ''https''] then sc\<lparr>sc_skipped := sc_skipped sc + 1\<rparr>
      else if dl_url req \<notin> set (sc_urls sc) \<and> \<not> sc_full sc
        then sc\<lparr>sc_urls := sc_urls sc @ [dl_url req]\<rparr>
      else sc)"

definition scan_command :: "env \<Rightarrow> string list \<Rightarrow> scanner \<Rightarrow> scanner result" where
  "scan_command env tokens sc =
     (case tokens of
        [] \<Rightarrow> Inr sc
      | t # ts \<Rightarrow>
          (let cmd = after_last (CHR ''/'') t; args = map (expand env) ts
           in if cmd \<notin> set download_commands then Inr sc
              else if list_ex has_unresolved args then Inr (sc\<lparr>sc_skipped := sc_skipped sc + 1\<rparr>)
              else bind_result (parse_download_args cmd args) (\<lambda>r.
                Inr (case r of None \<Rightarrow> sc | Some req \<Rightarrow> add_url req sc))))"

definition command_tokens :: "string \<Rightarrow> string list" where
  "command_tokens segment =
     drop_head_if (\<lambda>t. t = ''export'')
       (drop_head_if (\<lambda>t. t \<in> set [''do'', ''then'', ''else'']) (tokenize segment))"

definition is_busybox :: "string \<Rightarrow> bool" where
  "is_busybox t \<longleftrightarrow> t = ''busybox'' \<or> endswith t ''/busybox''"

text \<open>\<open>_segment\<close>: the table it was given, as it leaves it, and the scanner.\<close>

definition scan_segment :: "string \<Rightarrow> env \<Rightarrow> scanner \<Rightarrow> (env \<times> scanner) result" where
  "scan_segment segment env sc =
     (let (env', ts) = take_assignments env (command_tokens segment)
      in bind_result (scan_command env' (dropWhile is_busybox ts) sc) (\<lambda>sc'. Inr (env', sc')))"

text \<open>The body of a loop: up to the matching \<open>done\<close>; also the segments after it.\<close>

fun collect_body :: "string list \<Rightarrow> nat \<Rightarrow> string list \<Rightarrow> string list \<times> string list" where
  "collect_body [] depth body = (body, [])"
| "collect_body (s # ss) depth body =
     (if length body \<ge> max_loop_body then (body, ss)
      else let w = first_word s
           in if w \<in> set loop_keywords then collect_body ss (depth + 1) (body @ [s])
              else if w = ''done'' then
                (if depth = 0 then (body, ss) else collect_body ss (depth - 1) (body @ [s]))
              else collect_body ss depth (body @ [s]))"

fun scan_body :: "string list \<Rightarrow> env \<Rightarrow> scanner \<Rightarrow> scanner result" where
  "scan_body [] env sc = Inr sc"
| "scan_body (seg # segs) env sc =
     bind_result (scan_segment seg env sc) (\<lambda>(env', sc'). scan_body segs env' sc')"

fun scan_values :: "string \<Rightarrow> string list \<Rightarrow> string list \<Rightarrow> scanner \<Rightarrow> scanner result" where
  "scan_values name body [] sc = Inr sc"
| "scan_values name body (v # vs) sc =
     (if sc_full sc then Inr sc
      else bind_result (scan_body body ((sc_variables sc)(name \<mapsto> v)) sc)
             (scan_values name body vs))"

definition loop_values :: "env \<Rightarrow> string list \<Rightarrow> string list" where
  "loop_values env header =
     (let expanded = map (expand env) (drop 3 header)
      in if list_ex has_unresolved expanded then []
         else take max_loop_values (concat (map split_ws expanded)))"

text \<open>\<open>_for_loop\<close>: the scanner and the segments that remain.\<close>

definition scan_for :: "string \<Rightarrow> string list \<Rightarrow> scanner \<Rightarrow> (scanner \<times> string list) result" where
  "scan_for seg rest sc =
     (let header = tokenize seg
      in if length header < 4 \<or> header ! 2 \<noteq> ''in'' then Inr (sc, rest)
         else case rest of
                [] \<Rightarrow> Inr (sc, rest)
              | d # later \<Rightarrow>
                  (if first_word d \<noteq> ''do'' then Inr (sc, rest)
                   else let first = split_ws1 d;
                            (body, rest') = collect_body later 0 (if length first = 2 then [first ! 1] else [])
                        in bind_result (scan_values (header ! 1) body (loop_values (sc_variables sc) header) sc)
                             (\<lambda>sc'. Inr (sc', rest'))))"

lemma collect_body_rest: "length (snd (collect_body ss depth body)) \<le> length ss"
  by (induction ss depth body rule: collect_body.induct) (auto simp: Let_def)

lemma scan_for_rest: "scan_for seg rest sc = Inr (sc', rest') \<Longrightarrow> length rest' \<le> length rest"
proof -
  assume a: "scan_for seg rest sc = Inr (sc', rest')"
  have "collect_body ss depth body = (b, r) \<Longrightarrow> length r \<le> length ss" for ss depth body b r
    using collect_body_rest [of ss depth body] by simp
  with a show ?thesis
    by (fastforce simp: scan_for_def Let_def bind_result_Inr_iff split: if_splits list.splits prod.splits)
qed

function scan_run :: "string list \<Rightarrow> scanner \<Rightarrow> scanner result" where
  "scan_run [] sc = Inr sc"
| "scan_run (seg # rest) sc =
     (if sc_full sc then Inr sc
      else if first_word seg = ''for'' then
        (case scan_for seg rest sc of Inl e \<Rightarrow> Inl e | Inr (sc', rest') \<Rightarrow> scan_run rest' sc')
      else
        (case scan_segment seg (sc_variables sc) sc of
           Inl e \<Rightarrow> Inl e
         | Inr (env, sc') \<Rightarrow> scan_run rest (sc'\<lparr>sc_variables := env\<rparr>)))"
  by pat_completeness auto
termination
  by (relation "measure (\<lambda>(segs, sc). length segs)") (auto dest: scan_for_rest)

fun gather_segments :: "string list \<Rightarrow> string list \<Rightarrow> string list" where
  "gather_segments [] acc = acc"
| "gather_segments (l # ls) acc =
     (let line = strip l
      in if line = [] \<or> startswith line [CHR 0x23] then gather_segments ls acc
         else let acc' = acc @ map snd (split_command_line line segments_per_line)
              in if length acc' \<ge> max_segments then acc' else gather_segments ls acc')"

definition scan_script :: "string \<Rightarrow> nat \<Rightarrow> (string list \<times> nat) result" where
  "scan_script t max_urls =
     bind_result
       (scan_run (gather_segments (take max_lines (splitlines t)) [])
          \<lparr>sc_max_urls = max_urls, sc_variables = Map.empty, sc_urls = [], sc_skipped = 0\<rparr>)
       (\<lambda>sc. Inr (sc_urls sc, sc_skipped sc))"

subsection \<open>What a scan can return\<close>

text \<open>
  The invariant of the scanner: its URLs are distinct, within the limit, fully resolved, and
  \<open>http\<close> or \<open>https\<close> by \<open>urlsplit\<close>.
\<close>

definition url_ok :: "string \<Rightarrow> bool" where
  "url_ok u \<longleftrightarrow> \<not> has_unresolved u \<and> contains ''://'' u
     \<and> (\<exists>parts. urlsplit u = Inr parts \<and> us_scheme parts \<in> {'''', ''http'', ''https''})"

definition scanner_ok :: "scanner \<Rightarrow> bool" where
  "scanner_ok sc \<longleftrightarrow> distinct (sc_urls sc) \<and> length (sc_urls sc) \<le> sc_max_urls sc
     \<and> (\<forall>u \<in> set (sc_urls sc). url_ok u)"

lemma dl_url_ok:
  assumes "parse_download_args cmd args = Inr (Some r)" and "dl_protocol r \<in> {''http'', ''https''}"
    and "\<not> list_ex has_unresolved args"
  shows "url_ok (dl_url r)"
proof -
  have cmd: "cmd \<noteq> ''tftp''"
  proof
    assume "cmd = ''tftp''"
    with assms(1,2) show False
      by (auto simp: parse_download_args_def Let_def split: prod.splits option.splits)
  qed
  obtain url o' where s: "scan_args cmd args (None, None) = (url, o')"
    by (cases "scan_args cmd args (None, None)")
  with assms(1) cmd obtain u parts where u: "url = Some u" "urlsplit u = Inr parts"
    and r: "dl_url r = u" "dl_protocol r = py_or (Some (us_scheme parts)) ''http''"
    by (auto simp: parse_download_args_def bind_result_Inr_iff split: option.splits)
  have "u \<in> set args \<and> contains ''://'' u"
    using scan_args_url [of cmd args "(None, None)" u] s u(1) by simp
  moreover have "us_scheme parts \<in> {[], ''http'', ''https''}"
    using r(2) assms(2) by (cases "us_scheme parts") auto
  ultimately show ?thesis using assms(3) u(2) r(1) by (auto simp: url_ok_def list_ex_iff)
qed

lemma add_url_ok:
  "scanner_ok sc \<Longrightarrow> (dl_protocol req \<in> {''http'', ''https''} \<Longrightarrow> url_ok (dl_url req)) \<Longrightarrow>
   scanner_ok (add_url req sc) \<and> sc_max_urls (add_url req sc) = sc_max_urls sc
   \<and> sc_variables (add_url req sc) = sc_variables sc"
  by (auto simp: add_url_def scanner_ok_def sc_full_def)

lemma scan_command_ok:
  assumes "scanner_ok sc" and "scan_command env ts sc = Inr sc'"
  shows "scanner_ok sc' \<and> sc_max_urls sc' = sc_max_urls sc \<and> sc_variables sc' = sc_variables sc"
proof (cases ts)
  case Nil
  with assms show ?thesis by (simp add: scan_command_def)
next
  case (Cons t rest)
  let ?args = "map (expand env) rest" and ?cmd = "after_last (CHR ''/'') t"
  have skip: "scanner_ok (sc\<lparr>sc_skipped := n\<rparr>)" for n using assms(1) by (simp add: scanner_ok_def)
  have add: "scanner_ok (add_url req sc) \<and> sc_max_urls (add_url req sc) = sc_max_urls sc
      \<and> sc_variables (add_url req sc) = sc_variables sc"
    if "parse_download_args ?cmd ?args = Inr (Some req)" "\<not> list_ex has_unresolved ?args" for req
    using add_url_ok [OF assms(1)] dl_url_ok [OF that(1) _ that(2)] by blast
  show ?thesis
    using assms Cons skip add
    by (auto simp: scan_command_def Let_def bind_result_Inr_iff split: if_splits option.splits)
qed

lemma scan_segment_ok:
  "scanner_ok sc \<Longrightarrow> scan_segment seg env sc = Inr (env', sc') \<Longrightarrow>
   scanner_ok sc' \<and> sc_max_urls sc' = sc_max_urls sc \<and> sc_variables sc' = sc_variables sc"
  using scan_command_ok by (fastforce simp: scan_segment_def bind_result_Inr_iff split: prod.splits)

lemma scan_body_ok:
  "scanner_ok sc \<Longrightarrow> scan_body segs env sc = Inr sc' \<Longrightarrow>
   scanner_ok sc' \<and> sc_max_urls sc' = sc_max_urls sc \<and> sc_variables sc' = sc_variables sc"
proof (induction segs arbitrary: env sc)
  case (Cons seg segs)
  then obtain env1 sc1 where s: "scan_segment seg env sc = Inr (env1, sc1)"
    and b: "scan_body segs env1 sc1 = Inr sc'"
    by (auto simp: bind_result_Inr_iff)
  from Cons.IH [OF _ b] scan_segment_ok [OF Cons.prems(1) s] show ?case by auto
qed simp

lemma scan_values_ok:
  "scanner_ok sc \<Longrightarrow> scan_values name body vs sc = Inr sc' \<Longrightarrow>
   scanner_ok sc' \<and> sc_max_urls sc' = sc_max_urls sc"
proof (induction vs arbitrary: sc)
  case (Cons v vs)
  then show ?case
    using scan_body_ok [OF Cons.prems(1)]
    by (fastforce simp: bind_result_Inr_iff split: if_splits)
qed simp

lemma scan_for_ok:
  assumes "scanner_ok sc" and "scan_for seg rest sc = Inr (sc', rest')"
  shows "scanner_ok sc' \<and> sc_max_urls sc' = sc_max_urls sc"
  using assms(2) scan_values_ok [OF assms(1)] assms(1)
  by (auto simp: scan_for_def Let_def bind_result_Inr_iff split: if_splits list.splits prod.splits)

lemma scan_run_ok:
  "scanner_ok sc \<Longrightarrow> scan_run segs sc = Inr sc' \<Longrightarrow>
   scanner_ok sc' \<and> sc_max_urls sc' = sc_max_urls sc"
proof (induction segs sc rule: scan_run.induct)
  case (2 seg rest sc)
  have upd: "scanner_ok (s\<lparr>sc_variables := e\<rparr>) \<longleftrightarrow> scanner_ok s" for s e by (simp add: scanner_ok_def)
  show ?case
  proof (cases "sc_full sc")
    case False
    note nf = False
    show ?thesis
    proof (cases "first_word seg = ''for''")
      case True
      then obtain sc1 rest1 where f: "scan_for seg rest sc = Inr (sc1, rest1)"
        and r: "scan_run rest1 sc1 = Inr sc'"
        using "2.prems"(2) nf by (auto split: sum.splits)
      then show ?thesis
        using "2.IH"(1) [OF nf True f] scan_for_ok [OF "2.prems"(1) f] by auto
    next
      case False
      then obtain env1 sc1 where f: "scan_segment seg (sc_variables sc) sc = Inr (env1, sc1)"
        and r: "scan_run rest (sc1\<lparr>sc_variables := env1\<rparr>) = Inr sc'"
        using "2.prems"(2) nf by (auto split: sum.splits)
      then show ?thesis
        using "2.IH"(2) [OF nf False f] scan_segment_ok [OF "2.prems"(1) f] by (auto simp: upd)
    qed
  qed (use "2.prems" in simp)
qed simp

lemma download_exn: "parse_download_args cmd args = Inl e \<Longrightarrow> e = ValueError"
  by (auto simp: parse_download_args_def Let_def bind_result_Inl_iff dest!: urlsplit_exn
      split: prod.splits if_splits option.splits)

lemma scan_segment_exn: "scan_segment seg env sc = Inl e \<Longrightarrow> e = ValueError"
  by (auto simp: scan_segment_def scan_command_def Let_def bind_result_Inl_iff dest: download_exn
      split: prod.splits list.splits if_splits)

lemma scan_body_exn: "scan_body segs env sc = Inl e \<Longrightarrow> e = ValueError"
  by (induction segs arbitrary: env sc)
    (auto simp: bind_result_Inl_iff dest: scan_segment_exn split: prod.splits)

lemma scan_values_exn: "scan_values name body vs sc = Inl e \<Longrightarrow> e = ValueError"
  by (induction vs arbitrary: sc)
    (auto simp: bind_result_Inl_iff dest: scan_body_exn split: if_splits)

lemma scan_for_exn: "scan_for seg rest sc = Inl e \<Longrightarrow> e = ValueError"
  by (auto simp: scan_for_def Let_def bind_result_Inl_iff dest: scan_values_exn
      split: prod.splits list.splits if_splits)

lemma scan_run_exn: "scan_run segs sc = Inl e \<Longrightarrow> e = ValueError"
  by (induction segs sc rule: scan_run.induct)
    (auto dest: scan_for_exn scan_segment_exn split: if_splits sum.splits)

text \<open>
  C22. What a scan hands to the fetcher, for every script: at most \<open>max_urls\<close> distinct URLs, each with
  no \<open>$\<close> or backquote left in it, each containing \<open>://\<close> and accepted by \<open>urlsplit\<close> with the scheme
  \<open>http\<close>, \<open>https\<close> or none at all. The last is a text such as \<open>1ftp://h/x\<close>, whose part before the colon
  is not a scheme by \<open>urlsplit\<close>'s rules and which passes as http; no URL of another scheme is handed on.
  The scan of any text ends; its only exception is \<open>ValueError\<close>.
\<close>
theorem scan_script_sound:
  "case scan_script t max_urls of
     Inr (urls, skipped) \<Rightarrow> distinct urls \<and> length urls \<le> max_urls
       \<and> (\<forall>u \<in> set urls. CHR ''$'' \<notin> set u \<and> CHR 0x60 \<notin> set u \<and> contains ''://'' u
           \<and> (\<exists>parts. urlsplit u = Inr parts \<and> us_scheme parts \<in> {[], ''http'', ''https''}))
   | Inl e \<Rightarrow> e = ValueError"
proof (cases "scan_script t max_urls")
  case (Inl e)
  then show ?thesis by (auto simp: scan_script_def bind_result_Inl_iff dest: scan_run_exn)
next
  case (Inr r)
  let ?sc = "\<lparr>sc_max_urls = max_urls, sc_variables = Map.empty, sc_urls = [], sc_skipped = 0\<rparr>"
  obtain sc where s: "scan_run (gather_segments (take max_lines (splitlines t)) []) ?sc = Inr sc"
    and r: "r = (sc_urls sc, sc_skipped sc)"
    using Inr by (auto simp: scan_script_def bind_result_Inr_iff)
  have "scanner_ok ?sc" by (simp add: scanner_ok_def)
  from scan_run_ok [OF this s] show ?thesis
    by (auto simp: Inr r scanner_ok_def url_ok_def has_unresolved_def)
qed

lemma scan_script_sound_witness:
  "case scan_script ''A=http://h; wget $A/x'' 5 of
     Inr (urls, skipped) \<Rightarrow> distinct urls \<and> urls = [''http://h/x''] | Inl e \<Rightarrow> False"
proof -
  let ?t = "''A=http://h; wget $A/x''"
  have "splitlines ?t = [?t]" "strip ?t = ?t" "startswith ?t [CHR 0x23] = False" by code_simp+
  moreover have "split_command_line ?t segments_per_line = [('';'', ''A=http://h''), ('';'', ''wget $A/x'')]"
    by code_simp
  ultimately have "gather_segments (take max_lines (splitlines ?t)) [] = [''A=http://h'', ''wget $A/x'']"
    by (simp add: max_lines_def max_segments_def Let_def)
  moreover have "bind_result (scan_run [''A=http://h'', ''wget $A/x'']
      \<lparr>sc_max_urls = 5, sc_variables = Map.empty, sc_urls = [], sc_skipped = 0\<rparr>)
      (\<lambda>sc. Inr (sc_urls sc, sc_skipped sc)) = Inr ([''http://h/x''], 0)"
    by code_simp
  ultimately have "scan_script ?t 5 = Inr ([''http://h/x''], 0)"
    by (simp only: scan_script_def)
  then show ?thesis using scan_script_sound [where t = ?t and max_urls = 5] by simp
qed

text \<open>
  The scanner reads a missing scheme as http, so a text that is no http(s) URL is listed as one; the
  planner then takes the URL's own, empty, scheme for the protocol of the follow-up.
\<close>

lemma no_scheme_is_listed:
  "scan_script ''wget 1ftp://h/x'' 5 = Inr ([''1ftp://h/x''], 0)"
  "\<exists>parts. urlsplit ''1ftp://h/x'' = Inr parts \<and> us_scheme parts = []"
proof -
  let ?t = "''wget 1ftp://h/x''"
  have "splitlines ?t = [?t]" "strip ?t = ?t" "startswith ?t [CHR 0x23] = False" by code_simp+
  moreover have "split_command_line ?t segments_per_line = [('';'', ?t)]" by code_simp
  ultimately have "gather_segments (take max_lines (splitlines ?t)) [] = [?t]"
    by (simp add: max_lines_def max_segments_def Let_def)
  moreover have "bind_result (scan_run [?t]
      \<lparr>sc_max_urls = 5, sc_variables = Map.empty, sc_urls = [], sc_skipped = 0\<rparr>)
      (\<lambda>sc. Inr (sc_urls sc, sc_skipped sc)) = Inr ([''1ftp://h/x''], 0)"
    by code_simp
  ultimately show "scan_script ?t 5 = Inr ([''1ftp://h/x''], 0)"
    by (simp only: scan_script_def)
  have "urlsplit ''1ftp://h/x'' = Inr \<lparr>us_scheme = [], us_netloc = [], us_path = ''1ftp://h/x'',
      us_query = [], us_fragment = []\<rparr>" by code_simp
  then show "\<exists>parts. urlsplit ''1ftp://h/x'' = Inr parts \<and> us_scheme parts = []" by simp
qed

subsection \<open>The dropper's loop\<close>

lemma first_word_plain:
  "w \<noteq> [] \<Longrightarrow> \<forall>c \<in> set w. \<not> is_space c \<Longrightarrow> first_word (w @ CHR '' '' # rest) = w"
  "w \<noteq> [] \<Longrightarrow> \<forall>c \<in> set w. \<not> is_space c \<Longrightarrow> first_word w = w"
proof -
  assume w: "w \<noteq> []" "\<forall>c \<in> set w. \<not> is_space c"
  have sp: "is_space (CHR '' '')" by (simp add: is_space_def)
  have l: "lstrip (w @ r) = w @ r" for r using w by (cases w) (auto simp: lstrip_def)
  have "takeWhile (\<lambda>c. \<not> is_space c) (w @ CHR '' '' # rest) = w"
    using w sp by (simp add: takeWhile_append)
  then show "first_word (w @ CHR '' '' # rest) = w"
    using w by (simp add: first_word_def split_ws1_def l Let_def)
  have "takeWhile (\<lambda>c. \<not> is_space c) w = w"
    using w takeWhile_eq_all_conv by blast
  then show "first_word w = w"
    using w l [of "[]"] by (simp add: first_word_def split_ws1_def Let_def)
qed

text \<open>Words that no quoting, splitting or substitution rule touches.\<close>

definition literal :: "string \<Rightarrow> bool" where
  "literal s \<longleftrightarrow> s \<noteq> [] \<and> list_all plain_char s \<and> \<not> has_unresolved s"

lemma literal_no_space: "literal s \<Longrightarrow> \<forall>c \<in> set s. \<not> is_space c"
  by (auto simp: literal_def list_all_iff plain_char_def)

lemma tokenize_plain:
  "ss \<noteq> [] \<Longrightarrow> \<forall>s \<in> set ss. s \<noteq> [] \<and> list_all plain_char s \<Longrightarrow> tokenize (join '' '' ss) = ss"
  using tokenize_show_command [of "map plain_word ss"]
  by (auto simp: show_plain_words ok_plain_word list_all_iff comp_def)

lemma expand_literal_append: "CHR ''$'' \<notin> set s \<Longrightarrow> expand env (s @ t) = s @ expand env t"
  by (induction s) auto

lemma expand_literal: "literal s \<Longrightarrow> expand env s = s"
  using expand_literal_append [of s env "[]"] by (simp add: literal_def has_unresolved_def)

lemma expand_reference: "is_name x \<Longrightarrow> env x = Some v \<Longrightarrow> expand env (''$'' @ x) = v"
proof -
  assume x: "is_name x" "env x = Some v"
  then have tw: "takeWhile name_char x = x"
    unfolding takeWhile_eq_all_conv by (auto simp: is_name_def list_all_iff)
  moreover have "\<not> startswith x ''{''"
    using x(1) by (auto simp: is_name_def startswith_iff name_start_def is_alpha_ascii_def)
  ultimately have "match_reference x = Some (x, x)"
    using x(1) unfolding match_reference_def Let_def tw by simp
  with x(2) show "expand env (''$'' @ x) = v" by simp
qed

lemma split_ws_literal: "literal s \<Longrightarrow> split_ws s = [s]"
  using literal_no_space [of s] split_on_no_sep [of s is_space] by (simp add: split_ws_def literal_def)

lemma not_assignment: "CHR ''='' \<notin> set t \<Longrightarrow> take_assignments env (t # ts) = (env, t # ts)"
  by (simp add: match_assignment_def)

lemma name_char_plain: "name_char c \<Longrightarrow> plain_char c"
proof -
  assume n: "name_char c"
  then have "\<not> is_space c"
    by (auto simp: name_char_def name_start_def is_alpha_ascii_def is_digit_def is_space_def Let_def)
  moreover have "\<not> name_char squote" "\<not> name_char dquote" "\<not> name_char backslash"
    "\<not> name_char (CHR '';'')" "\<not> name_char (CHR ''&'')" "\<not> name_char (CHR ''|'')"
    by (simp_all add: name_char_def name_start_def is_alpha_ascii_def is_digit_def)
  ultimately show "plain_char c" using n unfolding plain_char_def by blast
qed

lemma plain_name: "is_name x \<Longrightarrow> list_all plain_char x"
  by (auto simp: is_name_def list_all_iff name_char_plain)

lemma scan_wget_segment:
  assumes "literal pre" and "is_name x" and "env x = Some v" and "literal v"
    and "contains ''://'' (pre @ v)" and "urlsplit (pre @ v) = Inr parts"
    and "us_scheme parts \<in> {''http'', ''https''}"
  shows "scan_segment (''wget '' @ pre @ ''$'' @ x) env sc
    = Inr (env, if pre @ v \<in> set (sc_urls sc) \<or> sc_full sc then sc
                else sc\<lparr>sc_urls := sc_urls sc @ [pre @ v]\<rparr>)"
proof -
  have "list_all plain_char (pre @ ''$'' @ x)"
    using assms(1) plain_name [OF assms(2)] by (simp add: literal_def plain_char_def is_space_def)
  then have "tokenize (join '' '' [''wget'', pre @ ''$'' @ x]) = [''wget'', pre @ ''$'' @ x]"
    by (intro tokenize_plain) (simp_all add: plain_char_def is_space_def)
  then have tok: "command_tokens (''wget '' @ pre @ ''$'' @ x) = [''wget'', pre @ ''$'' @ x]"
    by (simp add: command_tokens_def drop_head_if_def)
  have "expand env (pre @ ''$'' @ x) = pre @ v"
    using assms(1) expand_literal_append [of pre env "''$'' @ x"] expand_reference [of x env v, OF assms(2,3)]
    by (simp add: literal_def has_unresolved_def)
  moreover have "\<not> has_unresolved (pre @ v)"
    using assms(1,4) by (simp add: literal_def has_unresolved_def)
  moreover have "parse_download_args ''wget'' [pre @ v]
      = Inr (Some \<lparr>dl_protocol = us_scheme parts, dl_url = pre @ v,
          dl_filename = py_or None (py_or (Some (if us_path parts \<noteq> [] then after_last (CHR ''/'') (us_path parts) else [])) ''index.html'')\<rparr>)"
    using assms(5-7) by (auto simp: parse_download_args_def scan_arg_def)
  moreover have "after_last (CHR ''/'') ''wget'' = ''wget''" by (simp add: after_last_def)
  moreover have "take_assignments env [''wget'', pre @ ''$'' @ x] = (env, [''wget'', pre @ ''$'' @ x])"
    by (rule not_assignment) simp
  ultimately show ?thesis
    using assms(7) tok
    by (auto simp: scan_segment_def is_busybox_def endswith_def startswith_def scan_command_def
        download_commands_def add_url_def)
qed

lemma scan_values_wget:
  assumes x: "is_name x" and pre: "literal pre"
  shows "distinct vs \<Longrightarrow> (\<forall>v \<in> set vs. literal v \<and> contains ''://'' (pre @ v)
      \<and> (\<exists>parts. urlsplit (pre @ v) = Inr parts \<and> us_scheme parts \<in> {''http'', ''https''})) \<Longrightarrow>
    (\<forall>v \<in> set vs. pre @ v \<notin> set (sc_urls sc)) \<Longrightarrow>
    length (sc_urls sc) + length vs \<le> sc_max_urls sc \<Longrightarrow>
    scan_values x [''wget '' @ pre @ ''$'' @ x] vs sc
      = Inr (sc\<lparr>sc_urls := sc_urls sc @ map (\<lambda>v. pre @ v) vs\<rparr>)"
proof (induction vs arbitrary: sc)
  case (Cons v vs)
  let ?sc = "sc\<lparr>sc_urls := sc_urls sc @ [pre @ v]\<rparr>"
  obtain parts where v: "literal v" "contains ''://'' (pre @ v)" "urlsplit (pre @ v) = Inr parts"
    "us_scheme parts \<in> {''http'', ''https''}"
    using Cons.prems(2) by auto
  have nf: "\<not> sc_full sc" using Cons.prems(4) by (simp add: sc_full_def)
  have "scan_segment (''wget '' @ pre @ ''$'' @ x) ((sc_variables sc)(x \<mapsto> v)) sc
      = Inr ((sc_variables sc)(x \<mapsto> v), ?sc)"
    using scan_wget_segment [OF pre x, of "(sc_variables sc)(x \<mapsto> v)" v parts sc] v nf Cons.prems(3)
    by simp
  then have step: "scan_values x [''wget '' @ pre @ ''$'' @ x] (v # vs) sc
      = scan_values x [''wget '' @ pre @ ''$'' @ x] vs ?sc"
    using nf by simp
  have "scan_values x [''wget '' @ pre @ ''$'' @ x] vs ?sc
      = Inr (?sc\<lparr>sc_urls := sc_urls ?sc @ map (\<lambda>v. pre @ v) vs\<rparr>)"
    using Cons.prems by (intro Cons.IH) auto
  then show ?case unfolding step by simp
qed simp

lemma scan_for_eq:
  assumes "tokenize seg = header" and "4 \<le> length header" and "header ! 2 = ''in''"
    and "first_word d = ''do''"
    and "collect_body later 0 (if length (split_ws1 d) = 2 then [split_ws1 d ! 1] else []) = (body, rest')"
  shows "scan_for seg (d # later) sc
    = bind_result (scan_values (header ! 1) body (loop_values (sc_variables sc) header) sc)
        (\<lambda>sc'. Inr (sc', rest'))"
  using assms by (simp add: scan_for_def Let_def)

text \<open>
  C25. The dropper's per-architecture loop is unrolled: the script lines
  \<open>for X in V1 ... Vn\<close>, \<open>do wget PRE$X\<close>, \<open>done\<close> yield exactly the URLs \<open>PREV1\<close> to \<open>PREVn\<close>, in
  order, for any plain words within the limits whose concatenations are http or https URLs.
\<close>
theorem dropper_loop_unrolled:
  assumes x: "is_name x" and pre: "literal pre" and vs: "vs \<noteq> []" "distinct vs"
    and v: "\<forall>v \<in> set vs. literal v \<and> contains ''://'' (pre @ v)
      \<and> (\<exists>parts. urlsplit (pre @ v) = Inr parts \<and> us_scheme parts \<in> {''http'', ''https''})"
    and len: "length vs \<le> max_urls" "length vs \<le> max_loop_values"
  shows "scan_run [join '' '' (''for'' # x # ''in'' # vs), ''do wget '' @ pre @ ''$'' @ x, ''done'']
      \<lparr>sc_max_urls = max_urls, sc_variables = Map.empty, sc_urls = [], sc_skipped = 0\<rparr>
    = Inr \<lparr>sc_max_urls = max_urls, sc_variables = Map.empty, sc_urls = map (\<lambda>v. pre @ v) vs,
        sc_skipped = 0\<rparr>"
proof -
  let ?sc = "\<lparr>sc_max_urls = max_urls, sc_variables = Map.empty, sc_urls = [], sc_skipped = 0\<rparr>"
  let ?header = "''for'' # x # ''in'' # vs" and ?body = "''wget '' @ pre @ ''$'' @ x"
  let ?do = "''do wget '' @ pre @ ''$'' @ x"
  have "\<forall>s \<in> set ?header. s \<noteq> [] \<and> list_all plain_char s"
    using v plain_name [OF x] x
    by (auto simp: literal_def is_name_def plain_char_def is_space_def list_all_iff)
  then have header: "tokenize (join '' '' ?header) = ?header" by (intro tokenize_plain) auto
  have "join '' '' ?header = ''for'' @ CHR '' '' # join '' '' (x # ''in'' # vs)" by simp
  then have first: "first_word (join '' '' ?header) = ''for''"
    using first_word_plain(1) [of "''for''"] by (simp add: is_space_def)
  have sp: "is_space (CHR '' '')" by (simp add: is_space_def)
  have do_word: "first_word ?do = ''do''"
    using first_word_plain(1) [of "''do''" ?body] by (simp add: is_space_def)
  have "split_ws1 ?do = [''do'', ?body]"
    by (simp add: split_ws1_def lstrip_def is_space_def)
  moreover have "first_word ''done'' = ''done''"
    using first_word_plain(2) [of "''done''"] by (simp add: is_space_def)
  ultimately have body: "collect_body [''done''] 0 (if length (split_ws1 ?do) = 2 then [split_ws1 ?do ! 1] else [])
      = ([?body], [])"
    by (simp add: max_loop_body_def loop_keywords_def)
  have "map (expand Map.empty) vs = vs"
    using v by (auto simp: expand_literal intro: map_idI)
  moreover have "\<not> list_ex has_unresolved vs" using v by (auto simp: list_ex_iff literal_def)
  moreover have "concat (map split_ws vs) = vs"
    using v by (induction vs) (auto simp: split_ws_literal)
  ultimately have vals: "loop_values Map.empty ?header = vs"
    using len(2) by (simp add: loop_values_def)
  have ne: "Suc 0 \<le> length vs" using vs(1) by (cases vs) auto
  have nf: "\<not> sc_full ?sc" using vs(1) len(1) by (cases vs) (auto simp: sc_full_def)
  have "scan_values x [?body] vs ?sc = Inr (?sc\<lparr>sc_urls := map (\<lambda>v. pre @ v) vs\<rparr>)"
    using scan_values_wget [OF x pre vs(2) v, of ?sc] len(1) by simp
  then have "scan_for (join '' '' ?header) [?do, ''done''] ?sc
      = Inr (?sc\<lparr>sc_urls := map (\<lambda>v. pre @ v) vs\<rparr>, [])"
    using scan_for_eq [OF header _ _ do_word body, of ?sc] vals ne by (simp del: scan_values.simps)
  then show ?thesis using nf first by simp
qed

lemma dropper_loop_unrolled_witness:
  "scan_run [join '' '' (''for'' # ''a'' # ''in'' # [''mips'', ''arm7'']), ''do wget '' @ ''http://h/'' @ ''$'' @ ''a'', ''done'']
      \<lparr>sc_max_urls = 30, sc_variables = Map.empty, sc_urls = [], sc_skipped = 0\<rparr>
    = Inr \<lparr>sc_max_urls = 30, sc_variables = Map.empty,
        sc_urls = map (\<lambda>v. ''http://h/'' @ v) [''mips'', ''arm7''], sc_skipped = 0\<rparr>"
proof (rule dropper_loop_unrolled)
  have "urlsplit (''http://h/'' @ ''mips'') = Inr \<lparr>us_scheme = ''http'', us_netloc = ''h'', us_path = ''/mips'',
      us_query = [], us_fragment = []\<rparr>"
    and "urlsplit (''http://h/'' @ ''arm7'') = Inr \<lparr>us_scheme = ''http'', us_netloc = ''h'', us_path = ''/arm7'',
      us_query = [], us_fragment = []\<rparr>"
    by code_simp+
  moreover have "contains ''://'' (''http://h/'' @ ''mips'')" "contains ''://'' (''http://h/'' @ ''arm7'')"
    by (simp_all add: startswith_def)
  moreover have "literal ''mips''" "literal ''arm7''"
    by (simp_all add: literal_def plain_char_def has_unresolved_def is_space_def)
  ultimately show "\<forall>v \<in> set [''mips'', ''arm7'']. literal v \<and> contains ''://'' (''http://h/'' @ v)
      \<and> (\<exists>parts. urlsplit (''http://h/'' @ v) = Inr parts \<and> us_scheme parts \<in> {''http'', ''https''})"
    by simp
qed (simp_all add: is_name_def name_start_def is_alpha_ascii_def literal_def plain_char_def name_char_def
    has_unresolved_def is_space_def max_loop_values_def)

end
