(* ===== verification/Config.thy ===== *)
theory Config
  imports Py_Text
begin

section \<open>Configuration\<close>

text \<open>
  The parts of \<open>honeypot/config/schema.py\<close> that decide anything: the login policy with its
  wordlists, and the limits of the fetcher. A wordlist path is a file name; \<open>files\<close> gives the text
  of a readable file. Times are integers in one unit.
\<close>

definition load_wordlist :: "(string \<rightharpoonup> string) \<Rightarrow> string \<Rightarrow> string set" where
  "load_wordlist files name =
     (case files name of
        None \<Rightarrow> {}
      | Some t \<Rightarrow> set (filter (\<lambda>w. w \<noteq> []) (map strip (splitlines t))))"

record credential_policy =
  cp_accept_any :: bool
  cp_allow_list :: "(string \<times> string) list"
  cp_username_wordlist :: "string option"
  cp_password_wordlist :: "string option"
  cp_valid_usernames :: "string list"

definition is_known_username :: "(string \<rightharpoonup> string) \<Rightarrow> credential_policy \<Rightarrow> string \<Rightarrow> bool option" where
  "is_known_username files c u = map_option (\<lambda>name. u \<in> load_wordlist files name) (cp_username_wordlist c)"

definition is_known_password :: "(string \<rightharpoonup> string) \<Rightarrow> credential_policy \<Rightarrow> string \<Rightarrow> bool option" where
  "is_known_password files c pw = map_option (\<lambda>name. pw \<in> load_wordlist files name) (cp_password_wordlist c)"

definition accepts :: "(string \<rightharpoonup> string) \<Rightarrow> credential_policy \<Rightarrow> string \<Rightarrow> string \<Rightarrow> bool" where
  "accepts files c u pw \<longleftrightarrow>
     (if cp_accept_any c then True
      else if list_ex (\<lambda>(a, b). a = u \<and> b = pw) (cp_allow_list c) then True
      else if u \<in> set (cp_valid_usernames c) \<and> cp_password_wordlist c \<noteq> None
        then is_known_password files c pw = Some True
      else False)"

datatype fetch_mode = Inline | Queued

record fetcher_config =
  fc_max_file_size :: nat
  fc_allowed_protocols :: "string list"
  fc_max_downloads :: nat
  fc_stage2_enabled :: bool
  fc_stage2_max_depth :: nat
  fc_stage2_max_urls :: nat
  fc_stage2_max_per_session :: nat
  fc_stage2_dedupe :: int
  fc_stage2_max_per_host :: nat
  fc_block_private :: bool
  fc_mode :: fetch_mode

text \<open>\<open>ListenerConfig\<close>: what the listeners read. A non-positive session limit means no limit.\<close>

record listener_config =
  lc_ssh_port :: nat
  lc_telnet_port :: nat
  lc_max_connections :: int
  lc_max_session_seconds :: int

text \<open>The defaults of the schema.\<close>

definition default_listeners :: listener_config where
  "default_listeners = \<lparr>lc_ssh_port = 2222, lc_telnet_port = 2223, lc_max_connections = 8,
     lc_max_session_seconds = 180\<rparr>"

definition default_fetcher :: fetcher_config where
  "default_fetcher = \<lparr>fc_max_file_size = 50 * 1024 * 1024, fc_allowed_protocols = [''http'', ''https''],
     fc_max_downloads = 20, fc_stage2_enabled = True, fc_stage2_max_depth = 2, fc_stage2_max_urls = 30,
     fc_stage2_max_per_session = 60, fc_stage2_dedupe = 3600, fc_stage2_max_per_host = 40,
     fc_block_private = True, fc_mode = Inline\<rparr>"

text \<open>
  Outside \<open>accept_any\<close> mode the username wordlist never lets anyone in: a login succeeds exactly
  for an allow-listed pair, or for one of the valid usernames with a password that is a non-blank
  stripped line of the readable password wordlist.
\<close>
lemma accepts_iff:
  assumes "\<not> cp_accept_any c"
  shows "accepts files c u pw \<longleftrightarrow> (u, pw) \<in> set (cp_allow_list c)
    \<or> (u \<in> set (cp_valid_usernames c) \<and> pw \<noteq> [] \<and>
       (\<exists>name t l. cp_password_wordlist c = Some name \<and> files name = Some t
          \<and> l \<in> set (splitlines t) \<and> pw = strip l))"
  using assms
  by (cases "cp_password_wordlist c")
    (auto simp: accepts_def is_known_password_def load_wordlist_def list_ex_iff split: option.splits)

lemma accepts_iff_witness:
  "\<not> accepts [''w'' \<mapsto> ''guest'']
     \<lparr>cp_accept_any = False, cp_allow_list = [(''root'', ''xc3511'')], cp_username_wordlist = Some ''w'',
      cp_password_wordlist = Some ''w'', cp_valid_usernames = [''root'', ''admin'']\<rparr> ''guest'' ''guest''"
  by (subst accepts_iff) simp_all

end
