(* ===== verification/Jobs.thy ===== *)
theory Jobs
  imports Elf Config
begin

section \<open>Download jobs and fetch results\<close>

text \<open>
  The records that the session, the planner, the worker and the fetcher hand to each other:
  \<open>DownloadJob\<close> of \<open>honeypot/fetcher/queue.py\<close> and \<open>FetchResult\<close> of \<open>honeypot/fetcher/fetcher.py\<close>. The
  job identifier and time come from the clock and \<open>uuid\<close>: they are a parameter.
\<close>

record job =
  jb_id :: string
  jb_session :: string
  jb_src_ip :: string
  jb_url :: string
  jb_protocol :: string
  jb_filename :: string
  jb_raw :: string
  jb_time :: int
  jb_depth :: nat
  jb_parent :: "string option"

definition make_job ::
  "string \<times> int \<Rightarrow> string \<Rightarrow> string \<Rightarrow> string \<Rightarrow> string \<Rightarrow> string \<Rightarrow> string \<Rightarrow> nat \<Rightarrow> string option \<Rightarrow> job"
  where
  "make_job stamp session src_ip url protocol filename raw depth parent =
     \<lparr>jb_id = fst stamp, jb_session = session, jb_src_ip = src_ip, jb_url = url,
      jb_protocol = protocol, jb_filename = filename, jb_raw = raw, jb_time = snd stamp,
      jb_depth = depth, jb_parent = parent\<rparr>"

record fetch_result =
  fr_success :: bool
  fr_sha256 :: "string option"
  fr_md5 :: "string option"
  fr_size :: nat
  fr_detected :: "detected option"
  fr_arch_mismatch :: "bool option"
  fr_quarantine :: "string option"
  fr_error :: "string option"
  fr_http_status :: "nat option"
  fr_stage2_jobs :: "job list option"
  fr_stage2_found :: nat
  fr_stage2_skipped :: nat

definition failed_fetch :: "string \<Rightarrow> fetch_result" where
  "failed_fetch err =
     \<lparr>fr_success = False, fr_sha256 = None, fr_md5 = None, fr_size = 0, fr_detected = None,
      fr_arch_mismatch = None, fr_quarantine = None, fr_error = Some err, fr_http_status = None,
      fr_stage2_jobs = None, fr_stage2_found = 0, fr_stage2_skipped = 0\<rparr>"

end
