(* ===== verification/Utf8.thy ===== *)
theory Utf8
  imports Elf Py_Text
begin

section \<open>Decoding bytes\<close>

text \<open>
  \<open>data.decode("utf-8", errors="replace")\<close>: a maximal ill-formed prefix becomes one U+FFFD. The
  model's characters are the code points below 256; a code point above is represented by a
  character of the same class: U+0085 for the two line separators, U+00A0 for the other white space,
  U+00FF for everything else (the replacement character included).
\<close>

definition is_cont :: "nat \<Rightarrow> bool" where
  "is_cont b \<longleftrightarrow> 0x80 \<le> b \<and> b \<le> 0xBF"

text \<open>The range of the second byte, which excludes overlong forms, surrogates and values too big.\<close>

definition second_ok :: "nat \<Rightarrow> nat \<Rightarrow> bool" where
  "second_ok b0 b1 \<longleftrightarrow>
     (if b0 = 0xE0 then 0xA0 \<le> b1 \<and> b1 \<le> 0xBF
      else if b0 = 0xED then 0x80 \<le> b1 \<and> b1 \<le> 0x9F
      else if b0 = 0xF0 then 0x90 \<le> b1 \<and> b1 \<le> 0xBF
      else if b0 = 0xF4 then 0x80 \<le> b1 \<and> b1 \<le> 0x8F
      else is_cont b1)"

text \<open>The next code point (\<open>None\<close> for an ill-formed prefix) and the number of bytes it takes.\<close>

definition utf8_next :: "nat \<Rightarrow> nat list \<Rightarrow> nat option \<times> nat" where
  "utf8_next b0 bs =
     (if b0 < 0x80 then (Some b0, 1)
      else if 0xC2 \<le> b0 \<and> b0 \<le> 0xDF then
        (case bs of
           b1 # _ \<Rightarrow> if is_cont b1 then (Some ((b0 - 0xC0) * 64 + (b1 - 0x80)), 2) else (None, 1)
         | [] \<Rightarrow> (None, 1))
      else if 0xE0 \<le> b0 \<and> b0 \<le> 0xEF then
        (case bs of
           b1 # b2 # _ \<Rightarrow>
             if \<not> second_ok b0 b1 then (None, 1)
             else if is_cont b2 then
               (Some (((b0 - 0xE0) * 64 + (b1 - 0x80)) * 64 + (b2 - 0x80)), 3)
             else (None, 2)
         | [b1] \<Rightarrow> (None, if second_ok b0 b1 then 2 else 1)
         | [] \<Rightarrow> (None, 1))
      else if 0xF0 \<le> b0 \<and> b0 \<le> 0xF4 then
        (case bs of
           b1 # b2 # b3 # _ \<Rightarrow>
             if \<not> second_ok b0 b1 then (None, 1)
             else if \<not> is_cont b2 then (None, 2)
             else if is_cont b3 then
               (Some ((((b0 - 0xF0) * 64 + (b1 - 0x80)) * 64 + (b2 - 0x80)) * 64 + (b3 - 0x80)), 4)
             else (None, 3)
         | [b1, b2] \<Rightarrow> (None, if \<not> second_ok b0 b1 then 1 else if is_cont b2 then 3 else 2)
         | [b1] \<Rightarrow> (None, if second_ok b0 b1 then 2 else 1)
         | [] \<Rightarrow> (None, 1))
      else (None, 1))"

lemma utf8_next_used: "0 < snd (utf8_next b0 bs)"
  by (auto simp: utf8_next_def split: list.splits)

function utf8_points :: "nat list \<Rightarrow> nat list" where
  "utf8_points [] = []"
| "utf8_points (b # bs) =
     (case utf8_next b bs of (cp, n) \<Rightarrow>
        (case cp of Some c \<Rightarrow> c | None \<Rightarrow> 0xFFFD) # utf8_points (drop (n - 1) bs))"
  by pat_completeness auto
termination by (relation "measure length") auto

definition represent :: "nat \<Rightarrow> char" where
  "represent c =
     (if c < 256 then char_of c
      else if c = 0x2028 \<or> c = 0x2029 then char_of (0x85 :: nat)
      else if c = 0x1680 \<or> (0x2000 \<le> c \<and> c \<le> 0x200A) \<or> c = 0x202F \<or> c = 0x205F \<or> c = 0x3000
        then char_of (0xA0 :: nat)
      else char_of (0xFF :: nat))"

definition utf8_decode :: "byte list \<Rightarrow> string" where
  "utf8_decode data = map represent (utf8_points (map unat data))"

lemma utf8_points_ascii: "\<forall>b \<in> set bs. b < 128 \<Longrightarrow> utf8_points bs = bs"
  by (induction bs) (auto simp: utf8_next_def)

text \<open>ASCII bytes decode to themselves.\<close>

lemma utf8_decode_ascii:
  assumes "\<forall>c \<in> set s. (of_char c :: nat) < 128"
  shows "utf8_decode (map of_char s) = s"
proof -
  have u: "unat (of_char c :: byte) = of_char c" for c :: char
  proof -
    have "(of_char c :: byte) = of_nat (of_char c)" by (simp add: of_nat_of_char)
    moreover have "(of_char c :: nat) < 256" by (rule nat_of_char_less_256)
    ultimately show ?thesis by (simp add: unat_of_nat)
  qed
  have 1: "map unat (map of_char s :: byte list) = map of_char s" by (simp add: u comp_def)
  have 2: "utf8_points (map of_char s) = map of_char s"
    using assms by (intro utf8_points_ascii) auto
  have 3: "represent (of_char c) = c" for c :: char
    using nat_of_char_less_256 [of c] by (simp add: represent_def)
  show ?thesis unfolding utf8_decode_def 1 2 by (simp add: 3 comp_def)
qed

text \<open>\<open>text.encode()\<close> for the model's characters.\<close>

definition utf8_encode_char :: "char \<Rightarrow> byte list" where
  "utf8_encode_char c =
     (let n = of_char c :: nat
      in if n < 128 then [of_nat n] else [of_nat (0xC0 + n div 64), of_nat (0x80 + n mod 64)])"

definition utf8_encode :: "string \<Rightarrow> byte list" where
  "utf8_encode s = concat (map utf8_encode_char s)"

text \<open>What is encoded decodes to itself.\<close>

lemma utf8_points_encoded:
  "utf8_points (map unat (utf8_encode_char c) @ bs) = of_char c # utf8_points bs"
proof -
  have n: "(of_char c :: nat) < 256" by (rule nat_of_char_less_256)
  show ?thesis
  proof (cases "(of_char c :: nat) < 128")
    case True
    then show ?thesis
      by (simp add: utf8_encode_char_def unat_of_nat utf8_next_def)
  next
    case False
    let ?n = "of_char c :: nat"
    have q: "2 \<le> ?n div 64" "?n div 64 \<le> 3" using False n by linarith+
    have e: "map unat (utf8_encode_char c) = [0xC0 + ?n div 64, 0x80 + ?n mod 64]"
    proof -
      have u: "unat (of_nat k :: byte) = k" if "k < 256" for k using that by (simp add: unat_of_nat)
      have "0xC0 + ?n div 64 < 256" "0x80 + ?n mod 64 < 256" using q by simp_all
      then show ?thesis using False by (simp only: utf8_encode_char_def Let_def if_False list.map u)
    qed
    have "utf8_next (0xC0 + ?n div 64) ((0x80 + ?n mod 64) # bs) = (Some (?n div 64 * 64 + ?n mod 64), 2)"
      using q by (simp add: utf8_next_def is_cont_def)
    then show ?thesis unfolding e by simp
  qed
qed

lemma utf8_decode_encode: "utf8_decode (utf8_encode s) = s"
proof -
  have 3: "represent (of_char c) = c" for c :: char
    using nat_of_char_less_256 [of c] by (simp add: represent_def)
  have "utf8_points (map unat (utf8_encode s)) = map of_char s"
    by (induction s) (simp_all add: utf8_encode_def utf8_points_encoded)
  then show ?thesis by (simp add: utf8_decode_def 3 comp_def)
qed

end
