(* ===== verification/Stage2.thy ===== *)
theory Stage2
  imports Script_Scan Jobs Utf8
begin

section \<open>Stage two: planning follow-up downloads\<close>

text \<open>
  \<open>honeypot/fetcher/stage2.py\<close>: the budgets of \<open>Stage2Limiter\<close> and the planner. The limiter's three
  dicts are association lists in insertion order, because pruning drops the oldest entries. Times
  are integers.
\<close>

definition max_tracked :: nat where
  "max_tracked = 4096"

record stage2_limiter =
  st_seen :: "(string \<times> int) list"
  st_session :: "(string \<times> nat) list"
  st_host :: "(string \<times> int list) list"

definition new_stage2_limiter :: stage2_limiter where
  "new_stage2_limiter = \<lparr>st_seen = [], st_session = [], st_host = []\<rparr>"

definition prune :: "int \<Rightarrow> int \<Rightarrow> stage2_limiter \<Rightarrow> stage2_limiter" where
  "prune now ttl lim =
     (let seen = (if length (st_seen lim) > max_tracked
                  then trim_oldest max_tracked (filter (\<lambda>(u, t). now - t < ttl) (st_seen lim))
                  else st_seen lim)
      in \<lparr>st_seen = seen, st_session = trim_oldest max_tracked (st_session lim),
          st_host = trim_oldest max_tracked (st_host lim)\<rparr>)"

definition dict_get :: "('k \<times> 'v) list \<Rightarrow> 'k \<Rightarrow> 'v \<Rightarrow> 'v" where
  "dict_get d k v = (case map_of d k of None \<Rightarrow> v | Some x \<Rightarrow> x)"

text \<open>\<open>(urlsplit(url).hostname or "").lower()\<close>.\<close>

definition url_host :: "string \<Rightarrow> string result" where
  "url_host url = bind_result (urlsplit url) (\<lambda>p. Inr (lower (case hostname p of None \<Rightarrow> [] | Some h \<Rightarrow> h)))"

text \<open>
  One URL of the loop: whether it is admitted, or the exception, and the limiter as it is left.
\<close>

definition admit_url :: "fetcher_config \<Rightarrow> int \<Rightarrow> string \<Rightarrow> stage2_limiter \<Rightarrow> bool result \<times> stage2_limiter"
  where
  "admit_url cfg now url lim =
     (if case map_of (st_seen lim) url of Some t \<Rightarrow> now - t < fc_stage2_dedupe cfg | None \<Rightarrow> False
      then (Inr False, lim)
      else case url_host url of
             Inl e \<Rightarrow> (Inl e, lim)
           | Inr host \<Rightarrow>
               (let recent = filter (\<lambda>t. now - t < fc_stage2_dedupe cfg) (dict_get (st_host lim) host [])
                in if length recent \<ge> fc_stage2_max_per_host cfg
                   then (Inr False, lim\<lparr>st_host := AList.update host recent (st_host lim)\<rparr>)
                   else (Inr True, lim\<lparr>st_host := AList.update host (recent @ [now]) (st_host lim),
                                      st_seen := AList.update url now (st_seen lim)\<rparr>)))"

fun admit_urls ::
  "fetcher_config \<Rightarrow> int \<Rightarrow> nat \<Rightarrow> string list \<Rightarrow> string list \<Rightarrow> stage2_limiter
     \<Rightarrow> string list result \<times> stage2_limiter" where
  "admit_urls cfg now used [] admitted lim = (Inr admitted, lim)"
| "admit_urls cfg now used (u # us) admitted lim =
     (if used + length admitted \<ge> fc_stage2_max_per_session cfg then (Inr admitted, lim)
      else case admit_url cfg now u lim of
             (Inl e, lim') \<Rightarrow> (Inl e, lim')
           | (Inr ok, lim') \<Rightarrow>
               admit_urls cfg now used us (if ok then admitted @ [u] else admitted) lim')"

definition admit ::
  "fetcher_config \<Rightarrow> int \<Rightarrow> string \<Rightarrow> string list \<Rightarrow> stage2_limiter \<Rightarrow> string list result \<times> stage2_limiter"
  where
  "admit cfg now session urls lim =
     (let lim1 = prune now (fc_stage2_dedupe cfg) lim; used = dict_get (st_session lim1) session 0
      in case admit_urls cfg now used urls [] lim1 of
           (Inl e, lim2) \<Rightarrow> (Inl e, lim2)
         | (Inr adm, lim2) \<Rightarrow>
             (Inr adm, lim2\<lparr>st_session := AList.update session (used + length adm) (st_session lim2)\<rparr>))"

subsection \<open>The planner\<close>

text \<open>\<open>PurePosixPath(p).name\<close>.\<close>

definition posix_name :: "string \<Rightarrow> string" where
  "posix_name p =
     (let parts = filter (\<lambda>x. x \<noteq> [] \<and> x \<noteq> ''.'') (split_char (CHR ''/'') p)
      in if parts = [] then [] else last parts)"

record plan =
  pl_jobs :: "job list"
  pl_found :: nat
  pl_skipped :: nat

definition empty_plan :: plan where
  "empty_plan = \<lparr>pl_jobs = [], pl_found = 0, pl_skipped = 0\<rparr>"

text \<open>The loop over the admitted URLs; \<open>stamps i\<close> is the identifier and time of the \<open>i\<close>-th job.\<close>

fun followup_jobs ::
  "(nat \<Rightarrow> string \<times> int) \<Rightarrow> job \<Rightarrow> string option \<Rightarrow> nat \<Rightarrow> string list \<Rightarrow> job list result" where
  "followup_jobs stamps parent sha i [] = Inr []"
| "followup_jobs stamps parent sha i (u # us) =
     bind_result (urlsplit u) (\<lambda>parts.
       bind_result (followup_jobs stamps parent sha (Suc i) us) (\<lambda>js.
         Inr (make_job (stamps i) (jb_session parent) (jb_src_ip parent) u (us_scheme parts)
                (py_or (Some (posix_name (us_path parts))) ''index.html'')
                (''(stage '' @ digits_of (jb_depth parent + 2) @ '': listed in '' @ jb_url parent @ '')'')
                (jb_depth parent + 1) sha # js)))"

text \<open>
  \<open>contents\<close> is the quarantined file, \<open>None\<close> when opening or reading it raises. Every exception inside
  ends in the empty plan; what the limiter recorded before it stays recorded.
\<close>

definition plan_followups ::
  "(nat \<Rightarrow> string \<times> int) \<Rightarrow> int \<Rightarrow> byte list option \<Rightarrow> job \<Rightarrow> fetch_result \<Rightarrow> fetcher_config
     \<Rightarrow> stage2_limiter \<Rightarrow> plan \<times> stage2_limiter" where
  "plan_followups stamps now contents jb r cfg lim =
     (if \<not> fc_stage2_enabled cfg \<or> \<not> fr_success r \<or> py_or (fr_quarantine r) [] = []
         \<or> jb_depth jb \<ge> fc_stage2_max_depth cfg \<or> fr_size r > max_script_bytes
      then (empty_plan, lim)
      else case contents of
             None \<Rightarrow> (empty_plan, lim)
           | Some file \<Rightarrow>
               (let data = take (max_script_bytes + 1) file
                in if length data > max_script_bytes \<or> \<not> looks_like_script data then (empty_plan, lim)
                   else case scan_script (utf8_decode data) (fc_stage2_max_urls cfg) of
                          Inl e \<Rightarrow> (empty_plan, lim)
                        | Inr (urls, skipped) \<Rightarrow>
                            (case admit cfg now (jb_session jb) urls lim of
                               (Inl e, lim') \<Rightarrow> (empty_plan, lim')
                             | (Inr adm, lim') \<Rightarrow>
                                 (case followup_jobs stamps jb (fr_sha256 r) 0 adm of
                                    Inl e \<Rightarrow> (empty_plan, lim')
                                  | Inr js \<Rightarrow>
                                      (\<lparr>pl_jobs = js, pl_found = length urls, pl_skipped = skipped\<rparr>, lim')))))"

subsection \<open>What one call admits\<close>

lemma admit_url_session: "admit_url cfg now u lim = (r, lim') \<Longrightarrow> st_session lim' = st_session lim"
  by (auto simp: admit_url_def Let_def split: if_splits sum.splits)

lemma admit_url_seen:
  assumes "admit_url cfg now u lim = (Inr ok, lim')"
  shows "map_of (st_seen lim') = (if ok then (map_of (st_seen lim))(u \<mapsto> now) else map_of (st_seen lim))"
    and "ok \<Longrightarrow> case map_of (st_seen lim) u of None \<Rightarrow> True | Some t \<Rightarrow> fc_stage2_dedupe cfg \<le> now - t"
  using assms by (auto simp: admit_url_def Let_def split: if_splits sum.splits option.splits)

lemma admit_urls_spec:
  assumes "admit_urls cfg now used us adm lim = (Inr r, lim')"
  shows "\<exists>new. r = adm @ new \<and> subseq new us
    \<and> used + length r \<le> max (used + length adm) (fc_stage2_max_per_session cfg)
    \<and> st_session lim' = st_session lim
    \<and> (\<forall>u \<in> set new. case map_of (st_seen lim) u of None \<Rightarrow> True | Some t \<Rightarrow> fc_stage2_dedupe cfg \<le> now - t)
    \<and> (0 < fc_stage2_dedupe cfg \<longrightarrow> distinct new)"
  using assms
proof (induction us arbitrary: adm lim)
  case Nil
  then show ?case by auto
next
  case (Cons u us)
  show ?case
  proof (cases "used + length adm \<ge> fc_stage2_max_per_session cfg")
    case True
    with Cons.prems show ?thesis by auto
  next
    case False
    then obtain ok lim1 where a: "admit_url cfg now u lim = (Inr ok, lim1)"
      and rest: "admit_urls cfg now used us (if ok then adm @ [u] else adm) lim1 = (Inr r, lim')"
      using Cons.prems by (auto split: prod.splits sum.splits)
    note seen = admit_url_seen [OF a]
    from Cons.IH [OF rest] obtain new where new: "r = (if ok then adm @ [u] else adm) @ new" "subseq new us"
      "used + length r \<le> max (used + length (if ok then adm @ [u] else adm)) (fc_stage2_max_per_session cfg)"
      "st_session lim' = st_session lim1"
      "\<forall>u \<in> set new. case map_of (st_seen lim1) u of None \<Rightarrow> True | Some t \<Rightarrow> fc_stage2_dedupe cfg \<le> now - t"
      "0 < fc_stage2_dedupe cfg \<longrightarrow> distinct new"
      by blast
    have sess: "st_session lim' = st_session lim" using new(4) admit_url_session [OF a] by simp
    show ?thesis
    proof (cases ok)
      case True
      have old: "case map_of (st_seen lim) v of None \<Rightarrow> True | Some t \<Rightarrow> fc_stage2_dedupe cfg \<le> now - t"
        if "v \<in> set (u # new)" for v
        using that new(5) seen True by (cases "v = u") auto
      have "0 < fc_stage2_dedupe cfg \<longrightarrow> u \<notin> set new"
        using new(5) seen(1) True by auto
      with True False new sess old show ?thesis by (intro exI [of _ "u # new"]) auto
    next
      case notok: False
      with new sess seen(1) show ?thesis by (intro exI [of _ new]) auto
    qed
  qed
qed

lemma dict_get_update: "dict_get (AList.update k v d) l x = (if l = k then v else dict_get d l x)"
  by (simp add: dict_get_def)

definition session_used :: "stage2_limiter \<Rightarrow> string \<Rightarrow> nat" where
  "session_used lim s = dict_get (st_session lim) s 0"

text \<open>
  One call of the limiter admits a subsequence of the URLs it was given: no more than the
  session's remaining budget, none seen within the cooldown, none twice; and it charges the
  session for exactly what it admitted.
\<close>
theorem admit_respects_budgets:
  assumes "admit cfg now s urls lim = (Inr adm, lim')"
  shows "subseq adm urls
    \<and> session_used lim' s = session_used (prune now (fc_stage2_dedupe cfg) lim) s + length adm
    \<and> session_used lim' s \<le> max (session_used (prune now (fc_stage2_dedupe cfg) lim) s)
         (fc_stage2_max_per_session cfg)
    \<and> (\<forall>u \<in> set adm. case map_of (st_seen (prune now (fc_stage2_dedupe cfg) lim)) u of
          None \<Rightarrow> True | Some t \<Rightarrow> fc_stage2_dedupe cfg \<le> now - t)
    \<and> (0 < fc_stage2_dedupe cfg \<longrightarrow> distinct adm)"
proof -
  let ?lim = "prune now (fc_stage2_dedupe cfg) lim"
  obtain lim2 where u: "admit_urls cfg now (session_used ?lim s) urls [] ?lim = (Inr adm, lim2)"
    and lim': "lim' = lim2\<lparr>st_session := AList.update s (session_used ?lim s + length adm) (st_session lim2)\<rparr>"
    using assms by (auto simp: admit_def session_used_def Let_def split: prod.splits sum.splits)
  have "session_used lim' s = session_used ?lim s + length adm"
    unfolding lim' by (simp add: session_used_def dict_get_def)
  with admit_urls_spec [OF u] show ?thesis by auto
qed

lemma admit_respects_budgets_witness:
  "fst (admit default_fetcher 0 ''s'' [''http://h/a'', ''http://h/a''] new_stage2_limiter) = Inr [''http://h/a'']
   \<and> distinct [''http://h/a'']"
proof -
  let ?u = "''http://h/a''"
  have host: "url_host ?u = Inr ''h''" by code_simp
  have "\<exists>lim'. admit default_fetcher 0 ''s'' [?u, ?u] new_stage2_limiter = (Inr [?u], lim')"
    by (simp add: admit_def prune_def new_stage2_limiter_def dict_get_def default_fetcher_def admit_url_def
        host Let_def max_tracked_def)
  then obtain lim' where a: "admit default_fetcher 0 ''s'' [?u, ?u] new_stage2_limiter = (Inr [?u], lim')" ..
  have "0 < fc_stage2_dedupe default_fetcher" by (simp add: default_fetcher_def)
  with admit_respects_budgets [OF a] have "distinct [?u]" by blast
  with a show ?thesis by simp
qed

subsection \<open>A session's budget\<close>

text \<open>
  What the limiter remembers of a session: its counter, unless the next pruning will drop it. The
  table is pruned before a call and the session's own entry is written after, at the end when it is
  new, so a session's own calls never push its counter out.
\<close>

definition remembered :: "stage2_limiter \<Rightarrow> string \<Rightarrow> nat" where
  "remembered lim sid = dict_get (trim_oldest max_tracked (st_session lim)) sid 0"

lemma remembered_prune: "session_used (prune now ttl lim) sid = remembered lim sid"
  by (simp add: remembered_def session_used_def prune_def Let_def)

lemma trim_oldest_idem: "length xs \<le> n \<Longrightarrow> trim_oldest n xs = xs"
  by (simp add: trim_oldest_eq)

lemma max_tracked_pos: "0 < max_tracked"
  by (simp add: max_tracked_def)

lemma update_fresh_key: "k \<notin> fst ` set d \<Longrightarrow> AList.update k v d = d @ [(k, v)]"
  by (induction d) auto

lemma length_update_key: "k \<in> fst ` set d \<Longrightarrow> length (AList.update k v d) = length d"
  by (induction d) auto

text \<open>The counter written last survives the next pruning.\<close>

lemma trim_update:
  assumes "length d \<le> n" and "0 < n"
  shows "dict_get (trim_oldest n (AList.update k v d)) k x = v"
proof (cases "k \<in> fst ` set d")
  case True
  with assms(1) show ?thesis by (simp add: trim_oldest_idem length_update_key dict_get_update)
next
  case False
  have "set (drop (Suc (length d) - n) d) \<subseteq> set d" by (rule set_drop_subset)
  with False have "k \<notin> fst ` set (drop (Suc (length d) - n) d)" by blast
  then have "map_of (drop (Suc (length d) - n) d) k = None" by (simp add: map_of_eq_None_iff)
  moreover have "Suc (length d) - n - length d = 0" using assms(2) by simp
  ultimately show ?thesis
    using False by (simp add: update_fresh_key trim_oldest_eq dict_get_def map_add_def)
qed

lemma admit_urls_session: "admit_urls cfg now used us adm lim = (r, lim') \<Longrightarrow> st_session lim' = st_session lim"
  by (induction cfg now used us adm lim rule: admit_urls.induct)
    (auto dest: admit_url_session split: if_splits prod.splits sum.splits)

lemma admit_budget:
  assumes a: "admit cfg now sid urls lim = (res, lim')"
  shows "remembered lim' sid \<le> max (remembered lim sid) (fc_stage2_max_per_session cfg)"
    and "remembered lim sid \<le> remembered lim' sid"
    and "res = Inr adm \<Longrightarrow> remembered lim' sid = remembered lim sid + length adm"
proof -
  let ?lim = "prune now (fc_stage2_dedupe cfg) lim"
  note used = remembered_prune [of now "fc_stage2_dedupe cfg" lim sid]
  obtain r2 lim2 where u: "admit_urls cfg now (remembered lim sid) urls [] ?lim = (r2, lim2)" by fastforce
  have s2: "st_session lim2 = trim_oldest max_tracked (st_session lim)"
    using admit_urls_session [OF u] by (simp add: prune_def Let_def)
  then have l2: "length (st_session lim2) \<le> max_tracked" by (simp add: length_trim_oldest)
  have *: "remembered lim' sid \<le> max (remembered lim sid) (fc_stage2_max_per_session cfg)
      \<and> remembered lim sid \<le> remembered lim' sid
      \<and> (res = Inr adm \<longrightarrow> remembered lim' sid = remembered lim sid + length adm)"
  proof (cases r2)
    case (Inl e)
    then have "lim' = lim2" "res = Inl e"
      using a u used by (auto simp: admit_def session_used_def Let_def)
    with s2 l2 show ?thesis by (simp add: remembered_def trim_oldest_idem)
  next
    case (Inr r)
    then have l: "lim' = lim2\<lparr>st_session := AList.update sid (remembered lim sid + length r) (st_session lim2)\<rparr>"
      "res = Inr r" using a u used by (auto simp: admit_def session_used_def Let_def)
    have "remembered lim sid + length r \<le> max (remembered lim sid) (fc_stage2_max_per_session cfg)"
      using admit_urls_spec [OF u [unfolded Inr]] by auto
    moreover have "remembered lim' sid = remembered lim sid + length r"
      using trim_update [OF l2 max_tracked_pos] by (simp add: l(1) remembered_def [of "lim2\<lparr>st_session := x\<rparr>" for x])
    ultimately show ?thesis using l(2) by auto
  qed
  then show "remembered lim' sid \<le> max (remembered lim sid) (fc_stage2_max_per_session cfg)"
    and "remembered lim sid \<le> remembered lim' sid"
    and "res = Inr adm \<Longrightarrow> remembered lim' sid = remembered lim sid + length adm"
    by blast+
qed

subsection \<open>What a plan contains\<close>

lemma followup_jobs_spec:
  "followup_jobs stamps jb sha i us = Inr js \<Longrightarrow>
   map jb_url js = us \<and> (\<forall>j \<in> set js. jb_depth j = Suc (jb_depth jb) \<and> jb_session j = jb_session jb
     \<and> jb_filename j \<noteq> [] \<and> (\<exists>parts. urlsplit (jb_url j) = Inr parts \<and> jb_protocol j = us_scheme parts))"
proof (induction us arbitrary: i js)
  case (Cons u us)
  then obtain parts js' where "urlsplit u = Inr parts" "followup_jobs stamps jb sha (Suc i) us = Inr js'"
    "js = make_job (stamps i) (jb_session jb) (jb_src_ip jb) u (us_scheme parts)
                (py_or (Some (posix_name (us_path parts))) ''index.html'')
                (''(stage '' @ digits_of (jb_depth jb + 2) @ '': listed in '' @ jb_url jb @ '')'')
                (jb_depth jb + 1) sha # js'"
    by (auto simp: bind_result_Inr_iff)
  with Cons.IH [of "Suc i" js'] show ?case by (auto simp: make_job_def py_or_not_Nil)
qed simp

lemma scan_script_ok:
  assumes "scan_script t n = Inr (urls, skipped)"
  shows "distinct urls" and "length urls \<le> n" and "\<And>u. u \<in> set urls \<Longrightarrow> url_ok u"
proof -
  let ?sc = "\<lparr>sc_max_urls = n, sc_variables = Map.empty, sc_urls = [], sc_skipped = 0\<rparr>"
  obtain sc where s: "scan_run (gather_segments (take max_lines (splitlines t)) []) ?sc = Inr sc"
    and r: "urls = sc_urls sc"
    using assms by (auto simp: scan_script_def bind_result_Inr_iff)
  have "scanner_ok ?sc" by (simp add: scanner_ok_def)
  from scan_run_ok [OF this s] show "distinct urls" and "length urls \<le> n"
    and "\<And>u. u \<in> set urls \<Longrightarrow> url_ok u"
    by (auto simp: r scanner_ok_def)
qed

text \<open>A plan with jobs comes from a scan whose URLs the limiter let through.\<close>

lemma plan_followups_cases:
  assumes "plan_followups stamps now contents jb r cfg lim = (pl, lim')"
  obtains "pl_jobs pl = []" "lim' = lim"
  | urls res where "pl_jobs pl = []" "admit cfg now (jb_session jb) urls lim = (res, lim')"
  | t urls skipped adm where "scan_script t (fc_stage2_max_urls cfg) = Inr (urls, skipped)"
      "admit cfg now (jb_session jb) urls lim = (Inr adm, lim')"
      "followup_jobs stamps jb (fr_sha256 r) 0 adm = Inr (pl_jobs pl)"
      "jb_depth jb < fc_stage2_max_depth cfg"
  using assms by (auto simp: plan_followups_def empty_plan_def Let_def
      split: if_splits option.splits sum.splits prod.splits)

lemma plan_followups_jobs:
  assumes p: "plan_followups stamps now contents jb r cfg lim = (pl, lim')"
  shows "length (pl_jobs pl) \<le> fc_stage2_max_urls cfg" and "distinct (map jb_url (pl_jobs pl))"
    and "x \<in> set (pl_jobs pl) \<Longrightarrow> jb_depth x = Suc (jb_depth jb) \<and> jb_depth x \<le> fc_stage2_max_depth cfg
      \<and> jb_session x = jb_session jb \<and> jb_filename x \<noteq> [] \<and> \<not> has_unresolved (jb_url x)
      \<and> jb_protocol x \<in> {[], ''http'', ''https''}"
proof -
  have "length (pl_jobs pl) \<le> fc_stage2_max_urls cfg \<and> distinct (map jb_url (pl_jobs pl))
    \<and> (\<forall>x \<in> set (pl_jobs pl). jb_depth x = Suc (jb_depth jb) \<and> jb_depth x \<le> fc_stage2_max_depth cfg
      \<and> jb_session x = jb_session jb \<and> jb_filename x \<noteq> [] \<and> \<not> has_unresolved (jb_url x)
      \<and> jb_protocol x \<in> {[], ''http'', ''https''})"
    using p
  proof (cases rule: plan_followups_cases)
    case (3 t urls skipped adm)
    note s = 3(1) and a = 3(2) and j = 3(3) and d = 3(4)
    let ?js = "pl_jobs pl"
    obtain lim2 where "admit_urls cfg now (dict_get (st_session (prune now (fc_stage2_dedupe cfg) lim)) (jb_session jb) 0)
        urls [] (prune now (fc_stage2_dedupe cfg) lim) = (Inr adm, lim2)"
      using a by (auto simp: admit_def Let_def split: prod.splits sum.splits)
    then have sub: "subseq adm urls" using admit_urls_spec by fastforce
    note js = followup_jobs_spec [OF j]
    have jobs: "jb_depth x = Suc (jb_depth jb)" "jb_session x = jb_session jb" "jb_filename x \<noteq> []"
      "\<not> has_unresolved (jb_url x)" "jb_protocol x \<in> {[], ''http'', ''https''}"
      if "x \<in> set ?js" for x
    proof -
      have "jb_url x \<in> set urls"
        using that js subseq_subset [OF sub] by force
      then have "url_ok (jb_url x)" by (rule scan_script_ok(3) [OF s])
      then show "jb_depth x = Suc (jb_depth jb)" "jb_session x = jb_session jb" "jb_filename x \<noteq> []"
        "\<not> has_unresolved (jb_url x)" "jb_protocol x \<in> {[], ''http'', ''https''}"
        using js that by (auto simp: url_ok_def)
    qed
    have "length ?js = length adm" "length adm \<le> length urls"
      using js sub by (metis length_map, simp add: subseq_length)
    moreover have "distinct (map jb_url ?js)"
      using js sub scan_script_ok(1) [OF s] by (simp add: subseq_distinct_list [OF sub])
    ultimately show ?thesis using jobs d scan_script_ok(2) [OF s] by auto
  qed auto
  then show "length (pl_jobs pl) \<le> fc_stage2_max_urls cfg" and "distinct (map jb_url (pl_jobs pl))"
    and "x \<in> set (pl_jobs pl) \<Longrightarrow> jb_depth x = Suc (jb_depth jb) \<and> jb_depth x \<le> fc_stage2_max_depth cfg
      \<and> jb_session x = jb_session jb \<and> jb_filename x \<noteq> [] \<and> \<not> has_unresolved (jb_url x)
      \<and> jb_protocol x \<in> {[], ''http'', ''https''}"
    by blast+
qed

text \<open>Every job of a plan was charged to the session.\<close>

lemma plan_followups_charged:
  assumes p: "plan_followups stamps now contents jb r cfg lim = (pl, lim')"
  shows "lim' = lim \<and> pl_jobs pl = [] \<or>
    (\<exists>urls res. admit cfg now (jb_session jb) urls lim = (res, lim')
       \<and> (pl_jobs pl = [] \<or> (\<exists>adm. res = Inr adm \<and> length (pl_jobs pl) = length adm)))"
  using p
proof (cases rule: plan_followups_cases)
  case (3 t urls skipped adm)
  then have "length (pl_jobs pl) = length adm"
    using followup_jobs_spec [OF 3(3)] by (metis length_map)
  with 3 show ?thesis by blast
qed blast+

lemma plan_budget:
  assumes p: "plan_followups stamps now contents jb r cfg lim = (pl, lim')"
  shows "remembered lim (jb_session jb) + length (pl_jobs pl) \<le> remembered lim' (jb_session jb)
    \<and> remembered lim' (jb_session jb) \<le> max (remembered lim (jb_session jb)) (fc_stage2_max_per_session cfg)"
proof -
  consider "lim' = lim" "pl_jobs pl = []"
    | urls res where "admit cfg now (jb_session jb) urls lim = (res, lim')"
      "pl_jobs pl = [] \<or> (\<exists>adm. res = Inr adm \<and> length (pl_jobs pl) = length adm)"
    using plan_followups_charged [OF p] by blast
  then show ?thesis
  proof cases
    case 2
    from admit_budget [OF 2(1)] 2(2) show ?thesis by auto
  qed simp
qed

text \<open>
  C23. Planning always returns a plan, whatever file was captured, and the plan is bounded: at most
  the per-script number of jobs, with distinct fully resolved URLs of scheme http, https or none, one
  level deeper than their parent and never below the depth limit, under the parent's session. Every
  job is charged to that session: the count the limiter remembers of it grows by at least the number
  of jobs, and never past the per-session budget.
\<close>
theorem plan_bounded:
  "case plan_followups stamps now contents jb r cfg lim of (pl, lim') \<Rightarrow>
     length (pl_jobs pl) \<le> fc_stage2_max_urls cfg \<and> distinct (map jb_url (pl_jobs pl))
     \<and> (\<forall>j \<in> set (pl_jobs pl). jb_depth j = Suc (jb_depth jb) \<and> jb_depth j \<le> fc_stage2_max_depth cfg
          \<and> jb_session j = jb_session jb \<and> jb_filename j \<noteq> [] \<and> \<not> has_unresolved (jb_url j)
          \<and> jb_protocol j \<in> {[], ''http'', ''https''})
     \<and> remembered lim (jb_session jb) + length (pl_jobs pl) \<le> remembered lim' (jb_session jb)
     \<and> remembered lim' (jb_session jb)
          \<le> max (remembered lim (jb_session jb)) (fc_stage2_max_per_session cfg)"
proof -
  obtain pl lim' where p: "plan_followups stamps now contents jb r cfg lim = (pl, lim')"
    by (cases "plan_followups stamps now contents jb r cfg lim")
  then show ?thesis using plan_followups_jobs [OF p] plan_budget [OF p] by (simp only: prod.case) blast
qed

subsection \<open>The per-host cap over time\<close>

text \<open>
  A history of calls (time, session, URLs) and the log of what was admitted when. A call that
  raises admits nothing.
\<close>

type_synonym call = "int \<times> string \<times> string list"

fun admit_calls ::
  "fetcher_config \<Rightarrow> call list \<Rightarrow> stage2_limiter \<Rightarrow> (string \<times> int) list \<Rightarrow> stage2_limiter \<times> (string \<times> int) list"
  where
  "admit_calls cfg [] lim log = (lim, log)"
| "admit_calls cfg ((now, s, us) # calls) lim log =
     (case admit cfg now s us lim of
        (Inl e, lim') \<Rightarrow> admit_calls cfg calls lim' log
      | (Inr adm, lim') \<Rightarrow> admit_calls cfg calls lim' (log @ map (\<lambda>u. (u, now)) adm))"

definition host_times :: "(string \<times> int) list \<Rightarrow> string \<Rightarrow> int list" where
  "host_times log h = map snd (filter (\<lambda>(u, t). url_host u = Inr h) log)"

definition fresh :: "fetcher_config \<Rightarrow> int \<Rightarrow> int \<Rightarrow> bool" where
  "fresh cfg now t \<longleftrightarrow> now - t < fc_stage2_dedupe cfg"

text \<open>
  Pruning keeps 4096 hosts and drops the ones inserted first, whether their window is over or not.
  \<open>forgotten\<close> counts the prunings of a history that dropped the record of host \<open>h\<close>; \<open>offered\<close> is the
  number of URLs put to the limiter.
\<close>

definition forgets :: "string \<Rightarrow> stage2_limiter \<Rightarrow> stage2_limiter \<Rightarrow> bool" where
  "forgets h lim lim' \<longleftrightarrow> h \<in> fst ` set (st_host lim) \<and> h \<notin> fst ` set (st_host lim')"

fun forgotten :: "fetcher_config \<Rightarrow> call list \<Rightarrow> stage2_limiter \<Rightarrow> string \<Rightarrow> nat" where
  "forgotten cfg [] lim h = 0"
| "forgotten cfg ((now, s, us) # calls) lim h =
     (if forgets h lim (prune now (fc_stage2_dedupe cfg) lim) then 1 else 0)
       + forgotten cfg calls (snd (admit cfg now s us lim)) h"

definition offered :: "call list \<Rightarrow> nat" where
  "offered calls = sum_list (map (\<lambda>(now, s, us). length us) calls)"

text \<open>How many hosts were inserted after \<open>h\<close>: its distance from the end that is kept.\<close>

definition younger :: "string \<Rightarrow> (string \<times> 'v) list \<Rightarrow> nat" where
  "younger h d = length (dropWhile (\<lambda>(k, v). k \<noteq> h) d) - 1"

lemma younger_Nil [simp]: "younger h [] = 0"
  by (simp add: younger_def)

lemma younger_absent: "h \<notin> fst ` set d \<Longrightarrow> younger h d = 0"
proof -
  assume "h \<notin> fst ` set d"
  then have "dropWhile (\<lambda>(k, v). k \<noteq> h) d = []" by (auto simp: dropWhile_eq_Nil_conv rev_image_eqI)
  then show ?thesis by (simp only: younger_def) simp
qed

lemma younger_Cons: "younger h (x # d) = (if fst x = h then length d else younger h d)"
  by (auto simp: younger_def split_def)

lemma length_update: "length (AList.update k v d) \<le> Suc (length d)"
  by (induction d) auto

lemma younger_update: "younger h (AList.update k v d) \<le> Suc (younger h d)"
  using length_update [of k v]
  by (induction d) (auto simp: younger_Cons intro: le_SucI)

lemma younger_drop:
  assumes "distinct (map fst d)" and "h \<in> fst ` set (drop n d)"
  shows "younger h (drop n d) = younger h d"
  using assms
proof (induction d arbitrary: n)
  case (Cons x d)
  show ?case
  proof (cases n)
    case (Suc m)
    with Cons.prems have "h \<in> fst ` set (drop m d)" by simp
    then have "h \<in> fst ` set d" using in_set_dropD by fastforce
    with Cons.prems(1) have "fst x \<noteq> h" by auto
    then have "younger h (x # d) = younger h d" by (auto simp: younger_def split_def)
    with Cons.IH [of m] Cons.prems Suc show ?thesis by simp
  qed simp
qed simp

text \<open>A record that \<open>drop n\<close> loses has at least the kept length behind it.\<close>

lemma younger_dropped:
  assumes "h \<in> fst ` set d" and "h \<notin> fst ` set (drop n d)"
  shows "length d - n \<le> younger h d"
  using assms
proof (induction d arbitrary: n)
  case (Cons x d)
  obtain m where n: "n = Suc m" using Cons.prems by (cases n) auto
  show ?case
  proof (cases "fst x = h")
    case True
    then show ?thesis by (auto simp: younger_def split_def n)
  next
    case False
    then have "younger h (x # d) = younger h d" by (auto simp: younger_def split_def)
    with Cons.IH [of m] Cons.prems False n show ?thesis by simp
  qed
qed simp

lemma map_of_drop_kept:
  assumes "distinct (map fst d)" and "h \<in> fst ` set (drop n d)"
  shows "map_of (drop n d) h = map_of d h"
proof -
  have d: "distinct (map fst (take n d @ drop n d))" using assms(1) by simp
  then have "fst ` set (take n d) \<inter> fst ` set (drop n d) = {}"
    by (simp only: map_append distinct_append set_map)
  with assms(2) have "h \<notin> fst ` set (take n d)" by blast
  then have "map_of (take n d) h = None" by (simp add: map_of_eq_None_iff)
  then have "map_of (take n d @ drop n d) h = map_of (drop n d) h"
    unfolding map_of_append map_add_def by (simp split: option.split)
  then show ?thesis by simp
qed

text \<open>
  The invariant for host \<open>h\<close> at time \<open>now\<close>, with its record forgotten \<open>k\<close> times: the admissions made
  before it was last forgotten and still in the window are at most \<open>k\<close> caps' worth, the later ones
  are in the record, and the record is within the cap.
\<close>

definition cap_inv ::
  "fetcher_config \<Rightarrow> string \<Rightarrow> nat \<Rightarrow> int \<Rightarrow> stage2_limiter \<Rightarrow> (string \<times> int) list \<Rightarrow> bool"
  where
  "cap_inv cfg h k now lim log \<longleftrightarrow>
     distinct (map fst (st_host lim)) \<and> length (dict_get (st_host lim) h []) \<le> fc_stage2_max_per_host cfg
     \<and> (\<exists>old new. host_times log h = old @ new
          \<and> length (filter (fresh cfg now) old) \<le> fc_stage2_max_per_host cfg * k
          \<and> subseq (filter (fresh cfg now) new) (dict_get (st_host lim) h []))"

lemma fresh_later: "T \<le> now \<Longrightarrow> subseq (filter (fresh cfg now) xs) (filter (fresh cfg T) xs)"
proof -
  assume "T \<le> now"
  then have "filter (fresh cfg now) xs = filter (fresh cfg now) (filter (fresh cfg T) xs)"
    by (auto simp: fresh_def intro: filter_cong)
  then show ?thesis by (metis subseq_filter_left)
qed

lemma cap_inv_later:
  assumes "cap_inv cfg h k T lim log" and "T \<le> now"
  shows "cap_inv cfg h k now lim log"
proof -
  obtain old new where "host_times log h = old @ new"
    "length (filter (fresh cfg T) old) \<le> fc_stage2_max_per_host cfg * k"
    "subseq (filter (fresh cfg T) new) (dict_get (st_host lim) h [])"
    using assms(1) by (auto simp: cap_inv_def)
  moreover note fresh_later [OF assms(2), of cfg old] fresh_later [OF assms(2), of cfg new]
  ultimately show ?thesis
    using assms(1) unfolding cap_inv_def
    by (meson order_trans subseq_length subseq_order.order_trans)
qed

lemma cap_inv_bound:
  assumes "cap_inv cfg h k now lim log"
  shows "length (filter (fresh cfg now) (host_times log h)) \<le> fc_stage2_max_per_host cfg * Suc k"
  using assms by (auto simp: cap_inv_def dest!: subseq_length)

lemma host_times_snoc:
  "host_times (log @ [(u, t)]) h = (if url_host u = Inr h then host_times log h @ [t] else host_times log h)"
  by (simp add: host_times_def)

text \<open>Writing one host's record, and perhaps an entry of the log.\<close>

lemma cap_inv_put:
  assumes i: "cap_inv cfg h k now lim log"
    and same: "host \<noteq> h \<Longrightarrow> host_times log' h = host_times log h"
    and own: "\<And>new. host = h \<Longrightarrow> subseq (filter (fresh cfg now) new) (dict_get (st_host lim) h []) \<Longrightarrow>
      host_times log' h = host_times log h @ add \<and> subseq (filter (fresh cfg now) (new @ add)) ts"
    and len: "host = h \<Longrightarrow> length ts \<le> fc_stage2_max_per_host cfg"
  shows "cap_inv cfg h k now (lim\<lparr>st_host := AList.update host ts (st_host lim), st_seen := sn\<rparr>) log'"
proof -
  obtain old new where on: "host_times log h = old @ new"
    "length (filter (fresh cfg now) old) \<le> fc_stage2_max_per_host cfg * k"
    "subseq (filter (fresh cfg now) new) (dict_get (st_host lim) h [])"
    using i by (auto simp: cap_inv_def)
  have d: "distinct (map fst (AList.update host ts (st_host lim)))"
    using i by (simp add: cap_inv_def distinct_update)
  show ?thesis
  proof (cases "host = h")
    case True
    with own [OF _ on(3)] on(1) have "host_times log' h = old @ (new @ add)"
      "subseq (filter (fresh cfg now) (new @ add)) ts" by simp_all
    with on(2) len True d show ?thesis
      unfolding cap_inv_def by (intro conjI exI [of _ old] exI [of _ "new @ add"]) (simp_all add: dict_get_update)
  next
    case False
    with on same i d show ?thesis
      unfolding cap_inv_def by (intro conjI exI) (simp_all add: dict_get_update)
  qed
qed

lemma admit_url_cap:
  assumes i: "cap_inv cfg h k now lim log" and a: "admit_url cfg now u lim = (r, lim')"
  shows "cap_inv cfg h k now lim' (if r = Inr True then log @ [(u, now)] else log)"
proof (cases "lim' = lim \<and> r \<noteq> Inr True")
  case True
  with i show ?thesis by auto
next
  case False
  then obtain host where host: "url_host u = Inr host"
    using a by (auto simp: admit_url_def Let_def split: if_splits sum.splits)
  let ?recent = "filter (fresh cfg now) (dict_get (st_host lim) host [])"
  have fr: "(\<lambda>t. now - t < fc_stage2_dedupe cfg) = fresh cfg now" by (auto simp: fresh_def)
  have sub: "subseq (filter (fresh cfg now) new) ?recent"
    if "subseq (filter (fresh cfg now) new) (dict_get (st_host lim) host [])" for new
  proof -
    have "subseq (filter (fresh cfg now) (filter (fresh cfg now) new)) ?recent"
      using that by (rule subseq_filter)
    then show ?thesis by simp
  qed
  have len: "length ?recent \<le> fc_stage2_max_per_host cfg" if "host = h"
    using i that by (auto simp: cap_inv_def intro: order_trans [OF length_filter_le])
  have put': "cap_inv cfg h k now (lim\<lparr>st_host := AList.update host ?recent (st_host lim)\<rparr>) log"
  proof -
    have "cap_inv cfg h k now (lim\<lparr>st_host := AList.update host ?recent (st_host lim), st_seen := st_seen lim\<rparr>) log"
      by (rule cap_inv_put [OF i, where add = "[]"]) (use sub len in auto)
    then show ?thesis by simp
  qed
  have yes: "cap_inv cfg h k now (lim\<lparr>st_host := AList.update host (?recent @ [now]) (st_host lim),
        st_seen := AList.update u now (st_seen lim)\<rparr>) (log @ [(u, now)])"
    if "length ?recent < fc_stage2_max_per_host cfg"
  proof (rule cap_inv_put [OF i, where add = "[now]"])
    show "host \<noteq> h \<Longrightarrow> host_times (log @ [(u, now)]) h = host_times log h"
      using host by (simp add: host_times_snoc)
    show "host_times (log @ [(u, now)]) h = host_times log h @ [now]
        \<and> subseq (filter (fresh cfg now) (new @ [now])) (?recent @ [now])"
      if "host = h" "subseq (filter (fresh cfg now) new) (dict_get (st_host lim) h [])" for new
      using sub [of new] that host
      by (auto simp: host_times_snoc intro: list_emb_append_mono subseq_rev_drop_many)
    show "length (?recent @ [now]) \<le> fc_stage2_max_per_host cfg" using that by simp
  qed
  show ?thesis
    using a host False put' yes by (auto simp: admit_url_def Let_def fr split: if_splits)
qed

lemma admit_url_younger:
  "admit_url cfg now u lim = (r, lim') \<Longrightarrow> younger h (st_host lim') \<le> Suc (younger h (st_host lim))"
  by (auto simp: admit_url_def Let_def younger_update split: if_splits sum.splits)

lemma admit_urls_cap:
  assumes "cap_inv cfg h k now lim (log @ map (\<lambda>u. (u, now)) adm)"
    and "admit_urls cfg now used us adm lim = (r, lim')"
  shows "(\<exists>adm'. cap_inv cfg h k now lim' (log @ map (\<lambda>u. (u, now)) adm') \<and> (\<forall>a. r = Inr a \<longrightarrow> adm' = a))
    \<and> younger h (st_host lim') \<le> younger h (st_host lim) + length us"
  using assms
proof (induction us arbitrary: adm lim)
  case (Cons u us)
  show ?case
  proof (cases "used + length adm \<ge> fc_stage2_max_per_session cfg")
    case True
    with Cons.prems show ?thesis by auto
  next
    case False
    obtain r1 lim1 where a: "admit_url cfg now u lim = (r1, lim1)" by (cases "admit_url cfg now u lim")
    have i: "cap_inv cfg h k now lim1 (if r1 = Inr True then (log @ map (\<lambda>u. (u, now)) adm) @ [(u, now)]
        else log @ map (\<lambda>u. (u, now)) adm)"
      by (rule admit_url_cap [OF Cons.prems(1) a])
    note y = admit_url_younger [OF a, of h]
    show ?thesis
    proof (cases r1)
      case (Inl e)
      then have "r = Inl e" "lim' = lim1" using Cons.prems(2) False a by auto
      with i y Inl show ?thesis by auto
    next
      case (Inr ok)
      then have rest: "admit_urls cfg now used us (if ok then adm @ [u] else adm) lim1 = (r, lim')"
        using Cons.prems(2) False a by auto
      have "cap_inv cfg h k now lim1 (log @ map (\<lambda>u. (u, now)) (if ok then adm @ [u] else adm))"
        using i Inr by (cases ok) auto
      from Cons.IH [OF this rest] y show ?thesis by (auto intro: order_trans)
    qed
  qed
qed auto

text \<open>Pruning either keeps \<open>h\<close>'s record or forgets it, and then 4096 hosts were inserted after it.\<close>

lemma prune_cap:
  assumes i: "cap_inv cfg h k now lim log"
  shows "cap_inv cfg h (if forgets h lim (prune now ttl lim) then Suc k else k) now (prune now ttl lim) log"
    and "max_tracked * (if forgets h lim (prune now ttl lim) then 1 else 0)
       + younger h (st_host (prune now ttl lim)) \<le> younger h (st_host lim)"
proof -
  let ?d = "st_host lim"
  let ?n = "length ?d - max_tracked"
  have d: "distinct (map fst ?d)" using i by (simp add: cap_inv_def)
  have p: "st_host (prune now ttl lim) = drop ?n ?d"
    by (simp add: prune_def Let_def trim_oldest_eq)
  have d': "distinct (map fst (drop ?n ?d))" using d by (simp flip: drop_map)
  have sub: "fst ` set (drop ?n ?d) \<subseteq> fst ` set ?d" by (intro image_mono set_drop_subset)
  consider (kept) "h \<in> fst ` set (drop ?n ?d)" | (lost) "h \<in> fst ` set ?d" "h \<notin> fst ` set (drop ?n ?d)"
    | (none) "h \<notin> fst ` set ?d" by blast
  then have "cap_inv cfg h (if forgets h lim (prune now ttl lim) then Suc k else k) now (prune now ttl lim) log
    \<and> max_tracked * (if forgets h lim (prune now ttl lim) then 1 else 0)
       + younger h (drop ?n ?d) \<le> younger h ?d"
  proof cases
    case kept
    then have "dict_get (drop ?n ?d) h [] = dict_get ?d h []"
      using map_of_drop_kept [OF d] by (simp add: dict_get_def)
    with i kept d' younger_drop [OF d kept] show ?thesis by (simp add: cap_inv_def p forgets_def)
  next
    case lost
    then have e: "dict_get (drop ?n ?d) h ([] :: int list) = []" "younger h (drop ?n ?d) = 0"
      by (simp_all add: dict_get_def younger_absent map_of_eq_None_iff [THEN iffD2])
    have "max_tracked < length ?d" using lost by (cases "length ?d \<le> max_tracked") auto
    then have "max_tracked \<le> younger h ?d" using younger_dropped [OF lost] by simp
    moreover have "cap_inv cfg h (Suc k) now (prune now ttl lim) log"
      unfolding cap_inv_def p e(1)
    proof (intro conjI d' exI)
      show "host_times log h = host_times log h @ []" by simp
    qed (use cap_inv_bound [OF i] in auto)
    ultimately show ?thesis using lost e(2) by (simp add: forgets_def p)
  next
    case none
    with sub have "h \<notin> fst ` set (drop ?n ?d)" by blast
    with none have e: "dict_get (drop ?n ?d) h [] = dict_get ?d h []" "younger h (drop ?n ?d) = 0"
      by (simp_all add: dict_get_def younger_absent map_of_eq_None_iff [THEN iffD2])
    with i none d' show ?thesis by (simp add: cap_inv_def p forgets_def)
  qed
  then show "cap_inv cfg h (if forgets h lim (prune now ttl lim) then Suc k else k) now (prune now ttl lim) log"
    and "max_tracked * (if forgets h lim (prune now ttl lim) then 1 else 0)
       + younger h (st_host (prune now ttl lim)) \<le> younger h ?d" by (simp_all add: p)
qed

lemma admit_cap:
  assumes i: "cap_inv cfg h k now lim log" and a: "admit cfg now s us lim = (r, lim')"
  defines "f \<equiv> (if forgets h lim (prune now (fc_stage2_dedupe cfg) lim) then 1 else 0)"
  shows "\<exists>adm. cap_inv cfg h (f + k) now lim' (log @ map (\<lambda>u. (u, now)) adm) \<and> (\<forall>x. r = Inr x \<longrightarrow> adm = x)"
    and "max_tracked * f + younger h (st_host lim') \<le> younger h (st_host lim) + length us"
proof -
  let ?lim = "prune now (fc_stage2_dedupe cfg) lim"
  have i1: "cap_inv cfg h (f + k) now ?lim (log @ map (\<lambda>u. (u, now)) [])"
    using prune_cap(1) [OF i, of "fc_stage2_dedupe cfg"] by (simp add: f_def split: if_splits)
  obtain r2 lim2 where u: "admit_urls cfg now (dict_get (st_session ?lim) s 0) us [] ?lim = (r2, lim2)"
    by fastforce
  note c = admit_urls_cap [OF i1 u]
  have l: "st_host lim' = st_host lim2" "r = r2"
    using a u by (auto simp: admit_def Let_def split: sum.splits)
  with c show "\<exists>adm. cap_inv cfg h (f + k) now lim' (log @ map (\<lambda>u. (u, now)) adm) \<and> (\<forall>x. r = Inr x \<longrightarrow> adm = x)"
    by (auto simp: cap_inv_def)
  show "max_tracked * f + younger h (st_host lim') \<le> younger h (st_host lim) + length us"
    using c prune_cap(2) [OF i, of "fc_stage2_dedupe cfg"] by (simp add: l(1) f_def)
qed

lemma cap_inv_prefix:
  assumes "cap_inv cfg h k now lim (log @ log')"
  shows "cap_inv cfg h k now lim log"
proof -
  let ?L = "host_times log h" and ?L' = "host_times log' h"
  obtain old new where on: "?L @ ?L' = old @ new"
    "length (filter (fresh cfg now) old) \<le> fc_stage2_max_per_host cfg * k"
    "subseq (filter (fresh cfg now) new) (dict_get (st_host lim) h [])"
    using assms by (auto simp: cap_inv_def host_times_def)
  then consider zs where "?L = old @ zs" "new = zs @ ?L'" | zs where "old = ?L @ zs"
    by (auto simp: append_eq_append_conv2)
  then show ?thesis
  proof cases
    case 1
    then have "subseq (filter (fresh cfg now) zs) (dict_get (st_host lim) h [])"
      using on(3) by (auto intro: subseq_order.order_trans [rotated])
    with assms on(2) 1 show ?thesis by (auto simp: cap_inv_def)
  next
    case 2
    with on(2) have "length (filter (fresh cfg now) ?L) \<le> fc_stage2_max_per_host cfg * k" by simp
    with assms show ?thesis unfolding cap_inv_def by (metis append_Nil2 filter.simps(1) list_emb_Nil)
  qed
qed

lemma admit_calls_cap:
  assumes "cap_inv cfg h k T lim log" and "sorted (T # map fst calls)"
  shows "(case admit_calls cfg calls lim log of (lim', log') \<Rightarrow>
      cap_inv cfg h (forgotten cfg calls lim h + k) (last (T # map fst calls)) lim' log')
    \<and> max_tracked * forgotten cfg calls lim h \<le> younger h (st_host lim) + offered calls"
  using assms
proof (induction calls arbitrary: T k lim log)
  case Nil
  then show ?case by simp
next
  case (Cons c calls)
  obtain now s us where c: "c = (now, s, us)" by (cases c)
  obtain r lim1 where a: "admit cfg now s us lim = (r, lim1)" by fastforce
  let ?f = "if forgets h lim (prune now (fc_stage2_dedupe cfg) lim) then 1 else (0::nat)"
  let ?log = "case r of Inl e \<Rightarrow> log | Inr x \<Rightarrow> log @ map (\<lambda>u. (u, now)) x"
  have last: "last (T # map fst (c # calls)) = last (now # map fst calls)" by (simp add: c)
  have i: "cap_inv cfg h k now lim log"
    using cap_inv_later [OF Cons.prems(1)] Cons.prems(2) c by simp
  obtain adm where adm: "cap_inv cfg h (?f + k) now lim1 (log @ map (\<lambda>u. (u, now)) adm)"
      "\<forall>x. r = Inr x \<longrightarrow> adm = x"
    using admit_cap(1) [OF i a] by blast
  have le: "max_tracked * ?f + younger h (st_host lim1) \<le> younger h (st_host lim) + length us"
    by (rule admit_cap(2) [OF i a])
  have rest: "sorted (now # map fst calls)" using Cons.prems(2) by (simp add: c)
  have "cap_inv cfg h (?f + k) now lim1 ?log"
  proof (cases r)
    case (Inl e)
    show ?thesis unfolding Inl sum.case by (rule cap_inv_prefix [OF adm(1)])
  next
    case (Inr x)
    with adm(2) have "adm = x" by simp
    with adm(1) show ?thesis unfolding Inr sum.case by (simp only:)
  qed
  note IH = Cons.IH [OF this rest]
  have f: "forgotten cfg (c # calls) lim h = ?f + forgotten cfg calls lim1 h" by (simp add: c a)
  have calls: "admit_calls cfg (c # calls) lim log = admit_calls cfg calls lim1 ?log"
    by (simp add: c a split: sum.splits)
  have "max_tracked * forgotten cfg (c # calls) lim h \<le> younger h (st_host lim) + offered (c # calls)"
    using conjunct2 [OF IH] le unfolding f by (simp add: offered_def c distrib_left)
  moreover have "forgotten cfg (c # calls) lim h + k = forgotten cfg calls lim1 h + (?f + k)"
    unfolding f by simp
  ultimately show ?case using conjunct1 [OF IH] unfolding calls last by (simp only: simp_thms)
qed

text \<open>
  C14. Over any history of calls in which time does not run backwards, the URLs admitted for one host
  and still inside the dedupe window are at most the per-host cap, times one more than the number of
  prunings that forgot the host while it was in the table. It takes 4096 URLs offered to the limiter
  each time to make it forget, so over fewer than 4096 the cap is exact; a call that raises half way
  never frees a slot.
\<close>
theorem host_cap_over_time:
  assumes "sorted (map fst calls)" and "calls \<noteq> []"
    and "admit_calls cfg calls new_stage2_limiter [] = (lim, log)"
  shows "length (filter (fresh cfg (fst (last calls))) (host_times log h))
        \<le> fc_stage2_max_per_host cfg * Suc (forgotten cfg calls new_stage2_limiter h)
    \<and> 4096 * forgotten cfg calls new_stage2_limiter h \<le> offered calls"
proof -
  have i: "cap_inv cfg h 0 (fst (hd calls)) new_stage2_limiter []"
    by (simp add: cap_inv_def new_stage2_limiter_def dict_get_def host_times_def)
  have so: "sorted (fst (hd calls) # map fst calls)"
    using assms(1,2) by (cases calls) auto
  have "last (fst (hd calls) # map fst calls) = fst (last calls)"
    using assms(2) by (simp add: last_map)
  then have "cap_inv cfg h (forgotten cfg calls new_stage2_limiter h) (fst (last calls)) lim log"
    using admit_calls_cap [OF i so] assms(3) by (simp del: last.simps)
  moreover have "4096 * forgotten cfg calls new_stage2_limiter h \<le> offered calls"
    using admit_calls_cap [OF i so] by (simp add: max_tracked_def new_stage2_limiter_def)
  ultimately show ?thesis using cap_inv_bound by blast
qed

lemma host_cap_over_time_witness:
  "length (filter (fresh default_fetcher 7)
     (host_times (snd (admit_calls default_fetcher [(0, ''s'', [''http://h/a'']), (7, ''t'', [''http://h/b''])]
        new_stage2_limiter [])) ''h'')) \<le> fc_stage2_max_per_host default_fetcher"
proof -
  let ?calls = "[(0, ''s'', [''http://h/a'']), (7, ''t'', [''http://h/b''])] :: call list"
  have bound: "length (filter (fresh default_fetcher 7)
        (host_times (snd (admit_calls default_fetcher ?calls new_stage2_limiter [])) ''h''))
      \<le> fc_stage2_max_per_host default_fetcher
         * Suc (forgotten default_fetcher ?calls new_stage2_limiter ''h'')
    \<and> 4096 * forgotten default_fetcher ?calls new_stage2_limiter ''h'' \<le> offered ?calls"
    using host_cap_over_time [of ?calls default_fetcher
        "fst (admit_calls default_fetcher ?calls new_stage2_limiter [])"
        "snd (admit_calls default_fetcher ?calls new_stage2_limiter [])" "''h''"] by simp
  have "offered ?calls = 2" by (simp add: offered_def)
  with bound have "forgotten default_fetcher ?calls new_stage2_limiter ''h'' = 0" by linarith
  with bound show ?thesis by simp
qed

text \<open>
  What forgetting means: with 4096 hosts inserted after it, the oldest one is dropped although its
  window is full, and a URL on it is admitted again.
\<close>

lemma prune_forgets_oldest:
  assumes "st_host lim = (h, ts) # d" and "max_tracked \<le> length d" and "distinct (map fst (st_host lim))"
  shows "forgets h lim (prune now ttl lim)"
proof -
  have "set (drop (Suc (length d) - max_tracked) ((h, ts) # d)) \<subseteq> set d"
    using assms(2) by (simp add: Suc_diff_le set_drop_subset)
  with assms(1,3) show ?thesis
    by (auto simp: forgets_def prune_def Let_def trim_oldest_eq image_iff dest!: subsetD)
qed

lemma full_host_admitted_again:
  assumes "st_host lim = (h, ts) # d" and "max_tracked \<le> length d" and "distinct (map fst (st_host lim))"
    and "url_host u = Inr h" and "st_seen lim = []" and "st_session lim = []"
    and "0 < fc_stage2_max_per_host cfg" and "0 < fc_stage2_max_per_session cfg"
  shows "fst (admit cfg now sid [u] lim) = Inr [u]"
proof -
  let ?lim = "prune now (fc_stage2_dedupe cfg) lim"
  have "h \<notin> fst ` set (st_host ?lim)"
    using prune_forgets_oldest [OF assms(1-3)] by (simp add: forgets_def)
  then have "dict_get (st_host ?lim) h [] = []"
    by (simp add: dict_get_def map_of_eq_None_iff [THEN iffD2])
  moreover have "st_seen ?lim = []" "st_session ?lim = []"
    using assms(5,6) by (simp_all add: prune_def Let_def)
  ultimately show ?thesis
    using assms(4,7,8) by (simp add: admit_def admit_url_def Let_def dict_get_def)
qed

text \<open>A captured script with one download in it, used to try the planner and the stage-two run.\<close>

definition example_script :: "byte list" where
  "example_script = map (\<lambda>c. of_nat (of_char c)) ''wget http://h/a''"

definition example_parent :: job where
  "example_parent = make_job ([], 0) ''s'' ''ip'' ''http://h/x.sh'' ''http'' ''x.sh'' [] 0 None"

definition example_result :: fetch_result where
  "example_result = (failed_fetch [])\<lparr>fr_success := True, fr_quarantine := Some ''q.bin'', fr_size := 15\<rparr>"

lemma example_plan:
  "\<exists>pl lim' j. plan_followups (\<lambda>i. ([], 0)) 0 (Some example_script) example_parent example_result
       default_fetcher new_stage2_limiter = (pl, lim')
     \<and> pl_jobs pl = [j] \<and> jb_url j = ''http://h/a'' \<and> jb_protocol j = ''http'' \<and> jb_depth j = 1"
proof -
  let ?t = "''wget http://h/a''"
  let ?sc = "\<lparr>sc_max_urls = 30, sc_variables = Map.empty, sc_urls = [], sc_skipped = 0\<rparr>"
  have b: "looks_like_script example_script" "utf8_decode example_script = ?t" unfolding example_script_def by code_simp+
  have "splitlines ?t = [?t]" "strip ?t = ?t" "startswith ?t [CHR 0x23] = False" by code_simp+
  moreover have "split_command_line ?t segments_per_line = [('';'', ?t)]" by code_simp
  ultimately have g: "gather_segments (take max_lines (splitlines ?t)) [] = [?t]"
    by (simp add: max_lines_def max_segments_def Let_def)
  have "bind_result (scan_run [?t] ?sc) (\<lambda>sc. Inr (sc_urls sc, sc_skipped sc)) = Inr ([''http://h/a''], 0)"
    by code_simp
  then have s: "scan_script ?t 30 = Inr ([''http://h/a''], 0)" by (simp only: scan_script_def g)
  have host: "url_host ''http://h/a'' = Inr ''h''" by code_simp
  have parts: "urlsplit ''http://h/a'' = Inr \<lparr>us_scheme = ''http'', us_netloc = ''h'', us_path = ''/a'',
      us_query = [], us_fragment = []\<rparr>" by code_simp
  have conf: "fc_stage2_max_urls default_fetcher = 30" "fc_stage2_max_depth default_fetcher = 2"
      "fc_stage2_enabled default_fetcher" "\<not> max_script_bytes < 15"
    by (simp_all add: default_fetcher_def max_script_bytes_def)
  have "\<exists>lim''. admit default_fetcher 0 ''s'' [''http://h/a''] new_stage2_limiter = (Inr [''http://h/a''], lim'')"
    by (simp add: admit_def prune_def new_stage2_limiter_def dict_get_def default_fetcher_def admit_url_def
        host Let_def max_tracked_def)
  then obtain lim'' where a: "admit default_fetcher 0 ''s'' [''http://h/a''] new_stage2_limiter
      = (Inr [''http://h/a''], lim'')" ..
  have "length example_script = 15" by (simp add: example_script_def)
  then have t: "take (Suc max_script_bytes) example_script = example_script" "\<not> length example_script > max_script_bytes"
    by (simp_all only: max_script_bytes_def) simp_all
  show ?thesis
    using a by (auto simp: plan_followups_def Let_def t b s conf failed_fetch_def make_job_def parts
        example_parent_def example_result_def)
qed

lemma plan_bounded_witness:
  "case plan_followups (\<lambda>i. ([], 0)) 0 (Some example_script) example_parent example_result
       default_fetcher new_stage2_limiter of
     (pl, lim') \<Rightarrow> map jb_url (pl_jobs pl) = [''http://h/a''] \<and> jb_depth (hd (pl_jobs pl)) \<le> 2"
proof -
  obtain pl lim' j where p: "plan_followups (\<lambda>i. ([], 0)) 0 (Some example_script) example_parent example_result
       default_fetcher new_stage2_limiter = (pl, lim')" "pl_jobs pl = [j]" "jb_url j = ''http://h/a''"
    using example_plan by blast
  then show ?thesis
    using plan_bounded [where stamps = "\<lambda>i. ([], 0)" and now = 0 and contents = "Some example_script"
        and jb = example_parent and r = example_result and cfg = default_fetcher and lim = new_stage2_limiter]
    by (simp add: default_fetcher_def)
qed

end
