(* ===== verification/Events.thy ===== *)
theory Events
  imports Jobs
begin

section \<open>The event log and the transcript\<close>

text \<open>
  \<open>honeypot/logging/events.py\<close>. An event is its type and its fields, in the order in which the code
  passes them; a line of the log is the \<open>json.dumps\<close> of that record. The time stamp is a parameter,
  and so is the text of a floating-point number. Characters are code points below 256.
\<close>

subsection \<open>JSON text\<close>

datatype json = JNull | JBool bool | JInt int | JFloat string | JStr string
  | JList "json list" | JObj "(string \<times> json) list"

definition hex_digit :: "nat \<Rightarrow> char" where
  "hex_digit n = ''0123456789abcdef'' ! (n mod 16)"

text \<open>\<open>json.dumps\<close> with \<open>ensure_ascii\<close>: everything but printable ASCII is escaped.\<close>

definition json_escape :: "char \<Rightarrow> string" where
  "json_escape c =
     (if c = CHR 0x22 then [CHR 0x5C, CHR 0x22]
      else if c = CHR 0x5C then [CHR 0x5C, CHR 0x5C]
      else if c = CHR 0x0A then [CHR 0x5C, CHR ''n'']
      else if c = CHR 0x0D then [CHR 0x5C, CHR ''r'']
      else if c = CHR 0x09 then [CHR 0x5C, CHR ''t'']
      else if c = CHR 0x0C then [CHR 0x5C, CHR ''f'']
      else if c = CHR 0x08 then [CHR 0x5C, CHR ''b'']
      else if 32 \<le> (of_char c :: nat) \<and> (of_char c :: nat) \<le> 126 then [c]
      else CHR 0x5C # ''u00'' @ [hex_digit (of_char c div 16), hex_digit (of_char c)])"

definition json_string :: "string \<Rightarrow> string" where
  "json_string s = CHR 0x22 # concat (map json_escape s) @ [CHR 0x22]"

definition int_text :: "int \<Rightarrow> string" where
  "int_text i = (if i < 0 then CHR ''-'' # digits_of (nat (- i)) else digits_of (nat i))"

fun dumps :: "json \<Rightarrow> string" where
  "dumps JNull = ''null''"
| "dumps (JBool b) = (if b then ''true'' else ''false'')"
| "dumps (JInt i) = int_text i"
| "dumps (JFloat t) = t"
| "dumps (JStr s) = json_string s"
| "dumps (JList vs) = ''['' @ join '', '' (map dumps vs) @ '']''"
| "dumps (JObj kvs) = ''{'' @ join '', '' (map (\<lambda>(k, v). json_string k @ '': '' @ dumps v) kvs) @ ''}''"

definition j_opt_str :: "string option \<Rightarrow> json" where
  "j_opt_str x = (case x of None \<Rightarrow> JNull | Some s \<Rightarrow> JStr s)"

definition j_opt_nat :: "nat option \<Rightarrow> json" where
  "j_opt_nat x = (case x of None \<Rightarrow> JNull | Some n \<Rightarrow> JInt (int n))"

definition j_opt_bool :: "bool option \<Rightarrow> json" where
  "j_opt_bool x = (case x of None \<Rightarrow> JNull | Some b \<Rightarrow> JBool b)"

subsection \<open>Events\<close>

type_synonym event = "string \<times> (string \<times> json) list"

definition log_line :: "string \<Rightarrow> event \<Rightarrow> string" where
  "log_line stamp e =
     dumps (JObj ((''timestamp'', JStr stamp) # (''event'', JStr (fst e)) # snd e)) @ [CHR 0x0A]"

text \<open>The file: one line per event, each with the time at which it was written.\<close>

definition log_file :: "(string \<times> event) list \<Rightarrow> string" where
  "log_file es = concat (map (\<lambda>(stamp, e). log_line stamp e) es)"

definition session_connect :: "string \<Rightarrow> string \<Rightarrow> nat \<Rightarrow> nat \<Rightarrow> string \<Rightarrow> string option \<Rightarrow> event" where
  "session_connect sid src_ip src_port dst_port protocol client_id =
     (''session.connect'', [(''session_id'', JStr sid), (''src_ip'', JStr src_ip),
        (''src_port'', JInt (int src_port)), (''dst_port'', JInt (int dst_port)),
        (''protocol'', JStr protocol), (''client_id'', j_opt_str client_id)])"

definition heartbeat :: "string \<Rightarrow> event" where
  "heartbeat uptime = (''honeypot.heartbeat'', [(''uptime_seconds'', JFloat uptime)])"

definition client_version :: "string \<Rightarrow> string \<Rightarrow> event" where
  "client_version sid client_id =
     (''session.client_version'', [(''session_id'', JStr sid), (''client_id'', JStr client_id)])"

definition auth_attempt :: "string \<Rightarrow> (string \<times> json) list \<Rightarrow> event" where
  "auth_attempt sid metadata = (''auth.attempt'', (''session_id'', JStr sid) # metadata)"

definition session_closed :: "string \<Rightarrow> string \<Rightarrow> string \<Rightarrow> event" where
  "session_closed sid duration reason =
     (''session.closed'', [(''session_id'', JStr sid), (''duration_seconds'', JFloat duration),
        (''reason'', JStr reason)])"

definition login_attempt ::
  "string \<Rightarrow> string \<Rightarrow> string \<Rightarrow> bool \<Rightarrow> string \<Rightarrow> bool option \<Rightarrow> bool option \<Rightarrow> event" where
  "login_attempt sid username password accepted src_ip username_known password_known =
     (if accepted then ''login.success'' else ''login.failed'',
      [(''session_id'', JStr sid), (''username'', JStr username), (''password'', JStr password),
       (''src_ip'', JStr src_ip), (''username_known'', j_opt_bool username_known),
       (''password_known'', j_opt_bool password_known)])"

definition command_input :: "string \<Rightarrow> string \<Rightarrow> string \<Rightarrow> string list \<Rightarrow> event" where
  "command_input sid raw command args =
     (''command.input'', [(''session_id'', JStr sid), (''raw'', JStr raw), (''command'', JStr command),
        (''args'', JList (map JStr args))])"

definition file_download :: "string \<Rightarrow> (string \<times> json) list \<Rightarrow> event" where
  "file_download sid metadata = (''file.download'', (''session_id'', JStr sid) # metadata)"

definition stage2_scan :: "string \<Rightarrow> (string \<times> json) list \<Rightarrow> event" where
  "stage2_scan sid metadata = (''file.stage2_scan'', (''session_id'', JStr sid) # metadata)"

definition execution_attempt :: "string \<Rightarrow> string \<Rightarrow> string \<Rightarrow> event" where
  "execution_attempt sid raw target =
     (''file.execution_attempt'', [(''session_id'', JStr sid), (''raw'', JStr raw), (''target'', JStr target)])"

subsection \<open>The transcript\<close>

text \<open>A file handle: writing after \<open>close\<close> raises \<open>ValueError\<close>.\<close>

datatype direction = Recv | Send

record transcript =
  tr_entries :: "(direction \<times> byte list) list"
  tr_closed :: bool

definition new_transcript :: transcript where
  "new_transcript = \<lparr>tr_entries = [], tr_closed = False\<rparr>"

definition transcript_record :: "direction \<Rightarrow> byte list \<Rightarrow> transcript \<Rightarrow> unit result \<times> transcript" where
  "transcript_record d data t =
     (if tr_closed t then (Inl ValueError, t) else (Inr (), t\<lparr>tr_entries := tr_entries t @ [(d, data)]\<rparr>))"

definition transcript_close :: "transcript \<Rightarrow> transcript" where
  "transcript_close t = t\<lparr>tr_closed := True\<rparr>"

subsection \<open>One line per event, whatever the attacker sends\<close>

definition printable :: "char \<Rightarrow> bool" where
  "printable c \<longleftrightarrow> 32 \<le> (of_char c :: nat) \<and> (of_char c :: nat) \<le> 126"

text \<open>A value whose number texts are printable, as Python's \<open>repr\<close> of a float is.\<close>

fun floats_ok :: "json \<Rightarrow> bool" where
  "floats_ok (JFloat t) = list_all printable t"
| "floats_ok (JList vs) = list_all floats_ok vs"
| "floats_ok (JObj kvs) = list_all (\<lambda>(k, v). floats_ok v) kvs"
| "floats_ok _ = True"

lemma printable_hex: "printable (hex_digit n)"
proof -
  have "list_all printable ''0123456789abcdef''" by code_simp
  then show ?thesis by (simp add: hex_digit_def list_all_length)
qed

lemma printable_consts:
  "printable (CHR 0x5C)" "printable (CHR 0x22)" "printable CHR ''n''" "printable CHR ''r''"
  "printable CHR ''t''" "printable CHR ''f''" "printable CHR ''b''" "printable CHR ''u''"
  "printable CHR ''0''" "printable CHR ''-''"
  by code_simp+

lemma printable_escape: "list_all printable (json_escape c)"
  by (simp only: json_escape_def split: if_split) (simp add: printable_consts printable_hex, simp add: printable_def)

lemma printable_json_string: "list_all printable (json_string s)"
  using printable_escape by (induction s) (auto simp: json_string_def, simp_all add: printable_def)

lemma list_all_join: "list_all P sep \<Longrightarrow> list_all (list_all P) xs \<Longrightarrow> list_all P (join sep xs)"
  by (induction sep xs rule: join.induct) auto

lemma printable_digits: "list_all printable (digits_of n)"
proof (induction n rule: digits_of.induct)
  case (1 n)
  have "printable (char_of (48 + d))" if "d < 10" for d :: nat
    using that by (simp add: printable_def)
  with 1 show ?case by (simp add: digits_of.simps [of n] del: digits_of.simps)
qed

lemma printable_dumps: "floats_ok v \<Longrightarrow> list_all printable (dumps v)"
proof (induction v)
  case (JInt i)
  show ?case by (simp add: int_text_def printable_digits) (simp add: printable_def)
next
  case (JList vs)
  have "list_all (list_all printable) (map dumps vs)"
    using JList by (auto simp: list_all_iff)
  moreover have "list_all printable '', ''" by (simp add: printable_def)
  ultimately show ?case by (simp add: list_all_join) (simp add: printable_def)
next
  case (JObj kvs)
  have "list_all (list_all printable) (map (\<lambda>(k, v). json_string k @ '': '' @ dumps v) kvs)"
    using JObj printable_json_string by (fastforce simp: list_all_iff printable_def)
  moreover have "list_all printable '', ''" by (simp add: printable_def)
  ultimately show ?case by (simp add: list_all_join) (simp add: printable_def)
qed (auto simp: printable_json_string printable_def)

text \<open>The string literal of a JSON reader, after its opening quote: the string and the rest.\<close>

definition hex_value :: "char \<Rightarrow> nat option" where
  "hex_value c =
     (let n = of_char c
      in if 48 \<le> n \<and> n \<le> 57 then Some (n - 48)
         else if 97 \<le> n \<and> n \<le> 102 then Some (n - 87)
         else if 65 \<le> n \<and> n \<le> 70 then Some (n - 55) else None)"

definition hex4 :: "string \<Rightarrow> nat option" where
  "hex4 s = (case map hex_value s of
       [Some a, Some b, Some c, Some d] \<Rightarrow> Some (((a * 16 + b) * 16 + c) * 16 + d) | _ \<Rightarrow> None)"

definition simple_escape :: "char \<Rightarrow> char option" where
  "simple_escape e =
     map_of [(CHR 0x22, CHR 0x22), (CHR 0x5C, CHR 0x5C), (CHR ''/'', CHR ''/''), (CHR ''b'', CHR 0x08),
       (CHR ''f'', CHR 0x0C), (CHR ''n'', CHR 0x0A), (CHR ''r'', CHR 0x0D), (CHR ''t'', CHR 0x09)] e"

definition push_char :: "char \<Rightarrow> (string \<times> string) option \<Rightarrow> (string \<times> string) option" where
  "push_char c r = map_option (apfst (Cons c)) r"

function read_literal :: "string \<Rightarrow> (string \<times> string) option" where
  "read_literal [] = None"
| "read_literal (c # r) =
     (if c = CHR 0x22 then Some ([], r)
      else if c = CHR 0x5C then
        (case r of
           [] \<Rightarrow> None
         | e # r' \<Rightarrow>
             if e = CHR ''u'' then
               (case hex4 (take 4 r') of
                  None \<Rightarrow> None | Some n \<Rightarrow> push_char (char_of n) (read_literal (drop 4 r')))
             else (case simple_escape e of None \<Rightarrow> None | Some d \<Rightarrow> push_char d (read_literal r')))
      else if (of_char c :: nat) < 32 then None
      else push_char c (read_literal r))"
  by pat_completeness auto
termination by (relation "measure length") auto

declare read_literal.simps(2) [simp del]

lemma hex_value_digit: "hex_value (hex_digit n) = Some (n mod 16)"
proof -
  have "list_all (\<lambda>k. hex_value (''0123456789abcdef'' ! k) = Some k) [0..<16]" by code_simp
  then have "\<forall>k<16. hex_value (''0123456789abcdef'' ! k) = Some k" by (auto simp: list_all_iff)
  then show ?thesis by (simp only: hex_digit_def mod_less_divisor zero_less_numeral)
qed

lemma hex4_byte:
  assumes "n < 256"
  shows "hex4 [CHR ''0'', CHR ''0'', hex_digit (n div 16), hex_digit n] = Some n"
proof -
  have "hex_value CHR ''0'' = Some 0" by code_simp
  then show ?thesis using assms by (simp add: hex4_def hex_value_digit)
qed

lemma read_literal_escape:
  "read_literal (json_escape c @ rest) = push_char c (read_literal rest)"
proof -
  have e: "simple_escape (CHR 0x22) = Some (CHR 0x22)" "simple_escape (CHR 0x5C) = Some (CHR 0x5C)"
    "simple_escape CHR ''n'' = Some (CHR 0x0A)" "simple_escape CHR ''r'' = Some (CHR 0x0D)"
    "simple_escape CHR ''t'' = Some (CHR 0x09)" "simple_escape CHR ''f'' = Some (CHR 0x0C)"
    "simple_escape CHR ''b'' = Some (CHR 0x08)"
    by code_simp+
  have u: "hex4 [CHR ''0'', CHR ''0'', hex_digit (of_char c div 16), hex_digit (of_char c)] = Some (of_char c)"
    by (rule hex4_byte) (rule nat_of_char_less_256)
  have bs: "read_literal (CHR 0x5C # x # r) =
      (if x = CHR ''u'' then case hex4 (take 4 r) of None \<Rightarrow> None | Some n \<Rightarrow> push_char (char_of n) (read_literal (drop 4 r))
       else case simple_escape x of None \<Rightarrow> None | Some d \<Rightarrow> push_char d (read_literal r))" for x r
    by (simp add: read_literal.simps(2))
  show ?thesis
  proof (cases "c \<in> {CHR 0x22, CHR 0x5C, CHR 0x0A, CHR 0x0D, CHR 0x09, CHR 0x0C, CHR 0x08}")
    case True
    then show ?thesis by (elim insertE emptyE; hypsubst) (simp_all add: json_escape_def bs e)
  next
    case plain: False
    show ?thesis
    proof (cases "32 \<le> (of_char c :: nat) \<and> (of_char c :: nat) \<le> 126")
      case True
      with plain have "json_escape c = [c]" by (simp add: json_escape_def)
      with plain True show ?thesis by (simp add: read_literal.simps(2))
    next
      case False
      with plain have x: "json_escape c = CHR 0x5C # CHR ''u'' # [CHR ''0'', CHR ''0'',
          hex_digit (of_char c div 16), hex_digit (of_char c)]" by (simp add: json_escape_def)
      show ?thesis unfolding x append_Cons append_Nil bs by (simp add: take_Cons' drop_Cons' u)
    qed
  qed
qed

lemma read_literal_string:
  "read_literal (concat (map json_escape s) @ CHR 0x22 # rest) = Some (s, rest)"
proof (induction s)
  case Nil
  show ?case by (simp add: read_literal.simps(2))
next
  case (Cons c s)
  then show ?case by (simp add: read_literal_escape push_char_def)
qed

lemma split_char_lines:
  "list_all (\<lambda>l. CHR 0x0A \<notin> set l) ls \<Longrightarrow>
   split_char (CHR 0x0A) (concat (map (\<lambda>l. l @ [CHR 0x0A]) ls)) = ls @ [[]]"
proof (induction ls)
  case (Cons l ls)
  then have "split_char (CHR 0x0A) (l @ CHR 0x0A # concat (map (\<lambda>l. l @ [CHR 0x0A]) ls)) = l # ls @ [[]]"
    unfolding split_char_def by (subst split_on_append_sep) auto
  then show ?case by simp
qed (simp add: split_char_def)

definition event_text :: "string \<times> event \<Rightarrow> string" where
  "event_text e = dumps (JObj ((''timestamp'', JStr (fst e)) # (''event'', JStr (fst (snd e))) # snd (snd e)))"

text \<open>
  C11. Whatever the attacker's text is, the log file is one line of printable ASCII per event, in
  order: no value can start a line of its own, and the reader's string literal is the string that
  was logged.
\<close>
theorem log_is_one_line_per_event:
  assumes "list_all (\<lambda>e. floats_ok (JObj (snd (snd e)))) es"
  shows "split_char (CHR 0x0A) (log_file es) = map event_text es @ [[]]
    \<and> list_all (\<lambda>e. list_all printable (event_text e)) es
    \<and> read_literal (tl (json_string s) @ rest) = Some (s, rest)"
proof -
  have p: "list_all (\<lambda>e. list_all printable (event_text e)) es"
    unfolding list_all_iff
  proof
    fix e assume "e \<in> set es"
    with assms have "floats_ok (JObj (snd (snd e)))" by (simp only: list_all_iff)
    then have "floats_ok (JObj ((''timestamp'', JStr (fst e)) # (''event'', JStr (fst (snd e))) # snd (snd e)))"
      by simp
    then show "\<forall>c \<in> set (event_text e). printable c"
      unfolding event_text_def using printable_dumps by (simp only: list_all_iff)
  qed
  have "\<not> printable (CHR 0x0A)" by code_simp
  with p have "list_all (\<lambda>l. CHR 0x0A \<notin> set l) (map event_text es)" by (auto simp: list_all_iff)
  from split_char_lines [OF this] have "split_char (CHR 0x0A) (log_file es) = map event_text es @ [[]]"
    by (simp add: log_file_def log_line_def event_text_def case_prod_beta' comp_def)
  with p show ?thesis by (simp add: json_string_def read_literal_string)
qed

lemma log_is_one_line_per_event_witness:
  "split_char (CHR 0x0A) (log_file [(''T'', command_input ''s'' [CHR 0x0A] ''x'' [])])
     = map event_text [(''T'', command_input ''s'' [CHR 0x0A] ''x'' [])] @ [[]]"
  using log_is_one_line_per_event [of "[(''T'', command_input ''s'' [CHR 0x0A] ''x'' [])]"]
  by (simp add: command_input_def)

end
