(* ===== verification/Session.thy ===== *)
theory Session
  imports Commands Stage2 Events
begin

section \<open>Sessions\<close>

text \<open>
  \<open>honeypot/session/manager.py\<close>: the state of a \<open>SessionManager\<close> and its operations, shared by the
  SSH and Telnet listeners. Events go to a log that all sessions share; \<open>ss_events\<close> is what this session
  has appended. What lies outside (the fetcher or the queue, the clock, the wordlist files, the
  quarantine) is the record \<open>services\<close>, over a world \<open>'w\<close> of its own that the fetches change.
\<close>

record config =
  cf_persona :: persona
  cf_fetcher :: fetcher_config
  cf_credentials :: credential_policy
  cf_listeners :: listener_config

record session =
  ss_id :: string
  ss_src_ip :: string
  ss_src_port :: nat
  ss_dst_port :: nat
  ss_protocol :: string
  ss_client_id :: "string option"
  ss_fs :: fakefs
  ss_authenticated :: bool
  ss_username :: "string option"
  ss_should_exit :: bool
  ss_command_count :: nat
  ss_closed :: bool
  ss_download_count :: nat
  ss_stage2 :: "(job \<times> fetch_result) list"
  ss_events :: "event list"
  ss_transcript :: transcript

text \<open>
  \<open>sv_stamp i\<close> names the session's \<open>i\<close>-th job, \<open>sv_reads n i\<close> are the readings of the \<open>i\<close>-th
  segment of the \<open>n\<close>-th line, \<open>sv_child_stamp j\<close> and \<open>sv_now j\<close> serve the planning for job \<open>j\<close>,
  \<open>sv_contents\<close> reads a quarantined file, \<open>sv_frames\<close> is the depth of calls the interpreter has left
  below a command. A fetch may raise.
\<close>

record 'w services =
  sv_fetch :: "job \<Rightarrow> 'w \<Rightarrow> fetch_result result \<times> 'w"
  sv_files :: "string \<rightharpoonup> string"
  sv_stamp :: "nat \<Rightarrow> string \<times> int"
  sv_reads :: "nat \<Rightarrow> nat \<Rightarrow> nat \<Rightarrow> reading"
  sv_frames :: nat
  sv_child_stamp :: "job \<Rightarrow> nat \<Rightarrow> string \<times> int"
  sv_now :: "job \<Rightarrow> int"
  sv_contents :: "string option \<Rightarrow> 'w \<Rightarrow> byte list option"

definition new_session ::
  "config \<Rightarrow> string \<Rightarrow> string \<Rightarrow> string \<Rightarrow> nat \<Rightarrow> nat \<Rightarrow> string \<Rightarrow> string option \<Rightarrow> session" where
  "new_session cfg sample sid src_ip src_port dst_port protocol client_id =
     \<lparr>ss_id = sid, ss_src_ip = src_ip, ss_src_port = src_port, ss_dst_port = dst_port,
      ss_protocol = protocol, ss_client_id = client_id, ss_fs = new_fs sample (cf_persona cfg),
      ss_authenticated = False, ss_username = None, ss_should_exit = False, ss_command_count = 0,
      ss_closed = False, ss_download_count = 0, ss_stage2 = [], ss_events = [],
      ss_transcript = new_transcript\<rparr>"

definition log_event :: "event \<Rightarrow> session \<Rightarrow> session" where
  "log_event e s = s\<lparr>ss_events := ss_events s @ [e]\<rparr>"

subsection \<open>Lifecycle\<close>

definition on_connect :: "session \<Rightarrow> session" where
  "on_connect s = log_event (session_connect (ss_id s) (ss_src_ip s) (ss_src_port s) (ss_dst_port s)
     (ss_protocol s) (ss_client_id s)) s"

definition on_disconnect :: "string \<Rightarrow> string \<Rightarrow> session \<Rightarrow> session" where
  "on_disconnect duration reason s =
     (if ss_closed s then s
      else (log_event (session_closed (ss_id s) duration reason) (s\<lparr>ss_closed := True\<rparr>))
             \<lparr>ss_transcript := transcript_close (ss_transcript s)\<rparr>)"

definition on_client_version :: "string \<Rightarrow> session \<Rightarrow> session" where
  "on_client_version v s = log_event (client_version (ss_id s) v) (s\<lparr>ss_client_id := Some v\<rparr>)"

definition on_auth_attempt :: "string \<Rightarrow> string \<Rightarrow> (string \<times> json) list \<Rightarrow> session \<Rightarrow> session" where
  "on_auth_attempt how username details s =
     log_event (auth_attempt (ss_id s) ((''method'', JStr how) # (''username'', JStr username)
       # (''src_ip'', JStr (ss_src_ip s)) # details)) s"

definition record_io :: "direction \<Rightarrow> byte list \<Rightarrow> session \<Rightarrow> unit result \<times> session" where
  "record_io d data s =
     (case transcript_record d data (ss_transcript s) of (r, t) \<Rightarrow> (r, s\<lparr>ss_transcript := t\<rparr>))"

definition try_login ::
  "config \<Rightarrow> 'w services \<Rightarrow> string \<Rightarrow> string \<Rightarrow> session \<Rightarrow> bool \<times> session" where
  "try_login cfg sv username password s =
     (let c = cf_credentials cfg; accepted = accepts (sv_files sv) c username password;
          s1 = log_event (login_attempt (ss_id s) username password accepted (ss_src_ip s)
                 (is_known_username (sv_files sv) c username) (is_known_password (sv_files sv) c password)) s
      in (accepted, if accepted then s1\<lparr>ss_authenticated := True, ss_username := Some username\<rparr> else s1))"

definition banner :: "config \<Rightarrow> session \<Rightarrow> string" where
  "banner cfg s = (if ss_protocol s = ''ssh'' then p_ssh_banner (cf_persona cfg)
                   else p_telnet_banner (cf_persona cfg))"

definition prompt :: "config \<Rightarrow> session \<Rightarrow> string" where
  "prompt cfg s = user_or_root (ss_username s) @ ''@'' @ p_hostname (cf_persona cfg) @ '':''
     @ cwd_display (ss_fs s) @ [CHR 0x23, CHR '' '']"

subsection \<open>What the attacker sees of a download\<close>

text \<open>\<open>HTTPStatus(status).phrase\<close> of Python 3.11, the interpreter of the image.\<close>

definition http_phrases :: "(nat \<times> string) list" where
  "http_phrases =
    [(100, ''Continue''), (101, ''Switching Protocols''), (102, ''Processing''), (103, ''Early Hints''),
     (200, ''OK''), (201, ''Created''), (202, ''Accepted''), (203, ''Non-Authoritative Information''),
     (204, ''No Content''), (205, ''Reset Content''), (206, ''Partial Content''), (207, ''Multi-Status''),
     (208, ''Already Reported''), (226, ''IM Used''), (300, ''Multiple Choices''),
     (301, ''Moved Permanently''), (302, ''Found''), (303, ''See Other''), (304, ''Not Modified''),
     (305, ''Use Proxy''), (307, ''Temporary Redirect''), (308, ''Permanent Redirect''),
     (400, ''Bad Request''), (401, ''Unauthorized''), (402, ''Payment Required''), (403, ''Forbidden''),
     (404, ''Not Found''), (405, ''Method Not Allowed''), (406, ''Not Acceptable''),
     (407, ''Proxy Authentication Required''), (408, ''Request Timeout''), (409, ''Conflict''),
     (410, ''Gone''), (411, ''Length Required''), (412, ''Precondition Failed''),
     (413, ''Request Entity Too Large''), (414, ''Request-URI Too Long''),
     (415, ''Unsupported Media Type''), (416, ''Requested Range Not Satisfiable''),
     (417, ''Expectation Failed''), (418, ''I'm a Teapot''), (421, ''Misdirected Request''),
     (422, ''Unprocessable Entity''), (423, ''Locked''), (424, ''Failed Dependency''), (425, ''Too Early''),
     (426, ''Upgrade Required''), (428, ''Precondition Required''), (429, ''Too Many Requests''),
     (431, ''Request Header Fields Too Large''), (451, ''Unavailable For Legal Reasons''),
     (500, ''Internal Server Error''), (501, ''Not Implemented''), (502, ''Bad Gateway''),
     (503, ''Service Unavailable''), (504, ''Gateway Timeout''), (505, ''HTTP Version Not Supported''),
     (506, ''Variant Also Negotiates''), (507, ''Insufficient Storage''), (508, ''Loop Detected''),
     (510, ''Not Extended''), (511, ''Network Authentication Required'')]"

text \<open>\<open>re.fullmatch(r"HTTP (\d{3})", error)\<close>.\<close>

definition match_http_error :: "string \<Rightarrow> nat option" where
  "match_http_error e =
     (if length e = 8 \<and> startswith e ''HTTP '' \<and> list_all is_digit (drop 5 e)
      then Some (decimal_value (drop 5 e)) else None)"

definition wget_error_text :: "string option \<Rightarrow> string" where
  "wget_error_text error =
     (let e = py_or error []
      in case match_http_error e of
           Some status \<Rightarrow> ''server returned error: HTTP/1.1 '' @ digits_of status @ '' ''
             @ (case map_of http_phrases status of Some p \<Rightarrow> p | None \<Rightarrow> ''Error'')
         | None \<Rightarrow>
             if contains ''not permitted'' e \<or> contains ''not yet implemented'' e
               then ''not an http or ftp url''
             else if contains ''exceeded max_file_size_bytes'' e
               then ''transfer closed with file not completely written''
             else if contains ''waiting for isolated fetcher'' e
               then ''timed out waiting for a response''
             else ''can't connect to remote host'')"

text \<open>\<open>urlsplit(url).netloc or url\<close>.\<close>

definition netloc_or_url :: "string \<Rightarrow> string result" where
  "netloc_or_url url = bind_result (urlsplit url) (\<lambda>parts. Inr (py_or (Some (us_netloc parts)) url))"

definition render_download_response :: "download_request \<Rightarrow> fetch_result \<Rightarrow> string result" where
  "render_download_response req fr =
     bind_result (netloc_or_url (dl_url req)) (\<lambda>host. Inr
       (if fr_success fr then
          lines [''Connecting to '' @ host,
            ''saving to '' @ [CHR 0x27] @ dl_filename req @ [CHR 0x27],
            dl_filename req @ ''          100% |***************************|  ''
              @ digits_of (max 1 (fr_size fr div 1024)) @ ''k  0:00:00 ETA'',
            [CHR 0x27] @ dl_filename req @ [CHR 0x27] @ '' saved'']
        else lines [''Connecting to '' @ host, ''wget: '' @ wget_error_text (fr_error fr)]))"

definition result_fields :: "fetch_result \<Rightarrow> (string \<times> json) list" where
  "result_fields fr =
     (let d = fr_detected fr
      in [(''sha256'', j_opt_str (fr_sha256 fr)), (''md5'', j_opt_str (fr_md5 fr)),
          (''size_bytes'', JInt (int (fr_size fr))),
          (''detected_type'', j_opt_str (map_option file_type d)),
          (''detected_bitness'', j_opt_nat (Option.bind d bitness)),
          (''detected_machine'', j_opt_str (Option.bind d machine)),
          (''detected_endianness'', j_opt_str (Option.bind d endianness)),
          (''detected_flags'', j_opt_nat (map_option unat (Option.bind d flags))),
          (''detected_abi'', j_opt_str (Option.bind d abi)),
          (''arch_mismatch'', j_opt_bool (fr_arch_mismatch fr)),
          (''error'', j_opt_str (fr_error fr)), (''http_status'', j_opt_nat (fr_http_status fr))])"

definition outcome :: "fetch_result \<Rightarrow> json" where
  "outcome fr = JStr (if fr_success fr then ''success'' else ''failed'')"

subsection \<open>One segment\<close>

text \<open>
  Beginning a segment runs everything up to the await of a fetch: it is either done (output and exit
  status) or waiting for the job it has asked for.
\<close>

datatype seg_step = Done string nat | Fetching download_request job

definition download_fields :: "download_request \<Rightarrow> string \<Rightarrow> (string \<times> json) list" where
  "download_fields req raw =
     [(''url'', JStr (dl_url req)), (''protocol'', JStr (dl_protocol req)),
      (''requested_filename'', JStr (dl_filename req)), (''raw_command'', JStr raw)]"

definition log_attempt :: "string \<Rightarrow> command_result \<Rightarrow> session \<Rightarrow> session" where
  "log_attempt raw r s =
     (case cr_attempt r of None \<Rightarrow> s | Some target \<Rightarrow> log_event (execution_attempt (ss_id s) raw target) s)"

definition begin_download ::
  "config \<Rightarrow> 'w services \<Rightarrow> string \<Rightarrow> download_request \<Rightarrow> session \<Rightarrow> seg_step result \<times> session" where
  "begin_download cfg sv raw req s0 =
     (let s = s0\<lparr>ss_download_count := Suc (ss_download_count s0)\<rparr>
      in if ss_download_count s > fc_max_downloads (cf_fetcher cfg) then
           (bind_result (netloc_or_url (dl_url req)) (\<lambda>host. Inr (Done
              (lines [''Connecting to '' @ host, ''wget: can't connect to remote host'']) 1)),
            log_event (file_download (ss_id s) (download_fields req raw
              @ [(''outcome'', JStr ''failed''), (''error'', JStr ''per-session download limit reached'')])) s)
         else
           (Inr (Fetching req (make_job (sv_stamp sv (ss_download_count s)) (ss_id s) (ss_src_ip s)
                   (dl_url req) (dl_protocol req) (dl_filename req) raw 0 None)),
            log_event (file_download (ss_id s) (download_fields req raw
              @ [(''outcome'', JStr ''requested'')])) s))"

definition begin_segment ::
  "config \<Rightarrow> 'w services \<Rightarrow> nat \<Rightarrow> string \<Rightarrow> session \<Rightarrow> seg_step result \<times> session" where
  "begin_segment cfg sv i raw s =
     (case dispatch raw (cf_persona cfg) (ss_username s) (sv_reads sv (ss_command_count s) i) (sv_frames sv)
             (ss_fs s) of
        (Inl e, fs) \<Rightarrow> (Inl e, s\<lparr>ss_fs := fs\<rparr>)
      | (Inr r, fs) \<Rightarrow>
          (let s1 = log_attempt raw r (s\<lparr>ss_fs := fs, ss_should_exit := ss_should_exit s \<or> cr_exit r\<rparr>)
           in case cr_download r of
                None \<Rightarrow> (Inr (Done (cr_output r) (cr_status r)), s1)
              | Some req \<Rightarrow> begin_download cfg sv raw req s1))"

text \<open>The task that follows a script up is only put on the list: it runs in the background.\<close>

definition start_stage2 :: "config \<Rightarrow> job \<Rightarrow> fetch_result \<Rightarrow> session \<Rightarrow> session" where
  "start_stage2 cfg jb fr s =
     (if \<not> fc_stage2_enabled (cf_fetcher cfg) \<or> \<not> fr_success fr then s
      else if fc_mode (cf_fetcher cfg) = Queued \<and> (case fr_stage2_jobs fr of None \<Rightarrow> True | Some js \<Rightarrow> js = [])
          \<and> fr_stage2_found fr = 0 \<and> fr_stage2_skipped fr = 0 then s
      else s\<lparr>ss_stage2 := ss_stage2 s @ [(jb, fr)]\<rparr>)"

definition finish_download ::
  "config \<Rightarrow> string \<Rightarrow> download_request \<Rightarrow> job \<Rightarrow> fetch_result \<Rightarrow> session \<Rightarrow> (string \<times> nat) result \<times> session"
  where
  "finish_download cfg raw req jb fr s =
     (bind_result (render_download_response req fr) (\<lambda>t. Inr (t, if fr_success fr then 0 else 1)),
      start_stage2 cfg jb fr (log_event (file_download (ss_id s)
        (download_fields req raw @ (''outcome'', outcome fr) # result_fields fr)) s))"

definition run_segment ::
  "config \<Rightarrow> 'w services \<Rightarrow> nat \<Rightarrow> string \<Rightarrow> session \<Rightarrow> 'w \<Rightarrow> (string \<times> nat) result \<times> session \<times> 'w" where
  "run_segment cfg sv i raw s w =
     (case begin_segment cfg sv i raw s of
        (Inl e, s1) \<Rightarrow> (Inl e, s1, w)
      | (Inr (Done text status), s1) \<Rightarrow> (Inr (text, status), s1, w)
      | (Inr (Fetching req jb), s1) \<Rightarrow>
          (case sv_fetch sv jb w of
             (Inl e, w1) \<Rightarrow> (Inl e, s1, w1)
           | (Inr fr, w1) \<Rightarrow> (case finish_download cfg raw req jb fr s1 of (r, s2) \<Rightarrow> (r, s2, w1))))"

subsection \<open>One line\<close>

definition skipped :: "string \<Rightarrow> nat \<Rightarrow> bool" where
  "skipped op status \<longleftrightarrow> (op = ''&&'' \<and> status \<noteq> 0) \<or> (op = ''||'' \<and> status = 0)"

fun run_chain ::
  "config \<Rightarrow> 'w services \<Rightarrow> nat \<Rightarrow> (string \<times> string) list \<Rightarrow> nat \<Rightarrow> string list \<Rightarrow> session \<Rightarrow> 'w
     \<Rightarrow> string list result \<times> session \<times> 'w" where
  "run_chain cfg sv i [] status outs s w = (Inr outs, s, w)"
| "run_chain cfg sv i ((op, seg) # segs) status outs s w =
     (if skipped op status then run_chain cfg sv (Suc i) segs status outs s w
      else case run_segment cfg sv i seg s w of
             (Inl e, s1, w1) \<Rightarrow> (Inl e, s1, w1)
           | (Inr (text, status'), s1, w1) \<Rightarrow>
               (let outs' = (if text = [] then outs else outs @ [text])
                in if ss_should_exit s1 then (Inr outs', s1, w1)
                   else run_chain cfg sv (Suc i) segs status' outs' s1 w1))"

definition line_segments :: "string \<Rightarrow> (string \<times> string) list" where
  "line_segments raw =
     (let segs = split_command_line (rstrip_char (CHR 0x0D) (rstrip_char (CHR 0x0A) raw)) max_chain_segments
      in if segs = [] then [('';'', [])] else segs)"

definition log_command :: "string \<Rightarrow> session \<Rightarrow> session" where
  "log_command raw s0 =
     (let s = s0\<lparr>ss_command_count := Suc (ss_command_count s0)\<rparr>; tokens = split_ws (strip raw)
      in log_event (command_input (ss_id s) raw (case tokens of [] \<Rightarrow> [] | t # _ \<Rightarrow> t) (drop 1 tokens)) s)"

definition handle_command ::
  "config \<Rightarrow> 'w services \<Rightarrow> string \<Rightarrow> session \<Rightarrow> 'w \<Rightarrow> string result \<times> session \<times> 'w" where
  "handle_command cfg sv raw s w =
     (case run_chain cfg sv 0 (line_segments raw) 0 [] (log_command raw s) w of
        (r, s1, w1) \<Rightarrow> (bind_result r (\<lambda>outs. Inr (lines outs)), s1, w1))"

subsection \<open>Stage two, fetched by this process\<close>

definition log_stage2_scan ::
  "string \<Rightarrow> string option \<Rightarrow> nat \<Rightarrow> nat \<Rightarrow> nat \<Rightarrow> nat \<Rightarrow> session \<Rightarrow> session" where
  "log_stage2_scan parent_url parent_sha depth found queued skip s =
     (if found = 0 \<and> skip = 0 then s
      else log_event (stage2_scan (ss_id s) [(''parent_url'', JStr parent_url),
        (''parent_sha256'', j_opt_str parent_sha), (''stage'', JInt (int depth + 1)),
        (''urls_found'', JInt (int found)), (''urls_queued'', JInt (int queued)),
        (''skipped'', JInt (int skip))]) s)"

definition stage2_outcome_event ::
  "string \<Rightarrow> job \<Rightarrow> string \<Rightarrow> string option \<Rightarrow> fetch_result \<Rightarrow> event" where
  "stage2_outcome_event sid child parent_url parent_sha fr =
     file_download sid ([(''url'', JStr (jb_url child)), (''protocol'', JStr (jb_protocol child)),
       (''requested_filename'', JStr (jb_filename child)),
       (''raw_command'', JStr (''(stage '' @ digits_of (jb_depth child + 1) @ '': listed in '' @ parent_url @ '')'')),
       (''outcome'', outcome fr), (''stage'', JInt (int (jb_depth child) + 1)),
       (''parent_url'', JStr parent_url), (''parent_sha256'', j_opt_str parent_sha)] @ result_fields fr)"

definition log_stage2_outcome ::
  "job \<Rightarrow> string \<Rightarrow> string option \<Rightarrow> fetch_result \<Rightarrow> session \<Rightarrow> session" where
  "log_stage2_outcome child parent_url parent_sha fr s =
     log_event (stage2_outcome_event (ss_id s) child parent_url parent_sha fr) s"

text \<open>
  The inner loop over a plan's jobs: the pairs to put on the worklist, or the exception of a fetch,
  which ends the whole task.
\<close>

fun fetch_children ::
  "'w services \<Rightarrow> string \<Rightarrow> string option \<Rightarrow> job list \<Rightarrow> session \<Rightarrow> 'w
     \<Rightarrow> (job \<times> fetch_result) list result \<times> session \<times> 'w" where
  "fetch_children sv parent_url parent_sha [] s w = (Inr [], s, w)"
| "fetch_children sv parent_url parent_sha (child # rest) s w =
     (case sv_fetch sv child w of
        (Inl e, w1) \<Rightarrow> (Inl e, s, w1)
      | (Inr fr, w1) \<Rightarrow>
          (case fetch_children sv parent_url parent_sha rest
                  (log_stage2_outcome child parent_url parent_sha fr s) w1 of
             (Inl e, s2, w2) \<Rightarrow> (Inl e, s2, w2)
           | (Inr ps, s2, w2) \<Rightarrow> (Inr ((child, fr) # ps), s2, w2)))"

definition plan_for ::
  "config \<Rightarrow> 'w services \<Rightarrow> job \<Rightarrow> fetch_result \<Rightarrow> 'w \<Rightarrow> stage2_limiter \<Rightarrow> plan \<times> stage2_limiter" where
  "plan_for cfg sv jb fr w lim =
     plan_followups (sv_child_stamp sv jb) (sv_now sv jb) (sv_contents sv (fr_quarantine fr) w) jb fr
       (cf_fetcher cfg) lim"

text \<open>
  Every job on the worklist weighs \<open>(U + 1)\<close> to the power of the levels left below it, where \<open>U\<close> is the
  number of URLs a script may contribute: a job outweighs all its follow-ups together.
\<close>

definition job_weight :: "fetcher_config \<Rightarrow> job \<Rightarrow> nat" where
  "job_weight fc jb = Suc (fc_stage2_max_urls fc) ^ (fc_stage2_max_depth fc - jb_depth jb)"

definition pending_weight :: "fetcher_config \<Rightarrow> (job \<times> fetch_result) list \<Rightarrow> nat" where
  "pending_weight fc ps = sum_list (map (\<lambda>(jb, fr). job_weight fc jb) ps)"

lemma fetch_children_jobs:
  "fetch_children sv pu ps js s w = (Inr pairs, s', w') \<Longrightarrow> map fst pairs = js"
  by (induction js arbitrary: s w pairs s' w') (auto split: prod.splits sum.splits)

lemma plan_weight:
  assumes p: "plan_for cfg sv jb fr w lim = (pl, lim')"
  shows "sum_list (map (job_weight (cf_fetcher cfg)) (pl_jobs pl)) < job_weight (cf_fetcher cfg) jb"
proof -
  let ?fc = "cf_fetcher cfg"
  let ?B = "Suc (fc_stage2_max_urls ?fc)"
  note jobs = plan_followups_jobs [OF p [unfolded plan_for_def]]
  show ?thesis
  proof (cases "pl_jobs pl = []")
    case True
    then show ?thesis by (simp add: job_weight_def)
  next
    case False
    then obtain x where "x \<in> set (pl_jobs pl)" by (cases "pl_jobs pl") auto
    from jobs(3) [OF this] have d: "jb_depth jb < fc_stage2_max_depth ?fc" by auto
    let ?k = "fc_stage2_max_depth ?fc - Suc (jb_depth jb)"
    have "sum_list (map (job_weight ?fc) (pl_jobs pl)) = sum_list (map (\<lambda>x. ?B ^ ?k) (pl_jobs pl))"
      using jobs(3) by (intro arg_cong [where f = sum_list] map_cong) (auto simp: job_weight_def)
    also have "\<dots> = length (pl_jobs pl) * ?B ^ ?k" by (simp add: sum_list_triv)
    also have "\<dots> < ?B * ?B ^ ?k" using jobs(1) by (intro mult_strict_right_mono) simp_all
    also have "\<dots> = job_weight ?fc jb" using d by (simp add: job_weight_def Suc_diff_Suc flip: power_Suc)
    finally show ?thesis .
  qed
qed

lemma pending_weight_pairs: "pending_weight fc pairs = sum_list (map (job_weight fc) (map fst pairs))"
  by (simp add: pending_weight_def case_prod_beta' comp_def)

lemma pending_weight_children:
  assumes p: "plan_for cfg sv jb fr w lim = (pl, lim')"
    and f: "fetch_children sv pu ps (pl_jobs pl) s w1 = (Inr pairs, s2, w2)"
  shows "pending_weight (cf_fetcher cfg) pairs < job_weight (cf_fetcher cfg) jb"
  using plan_weight [OF p] by (simp only: pending_weight_pairs fetch_children_jobs [OF f])

lemma pending_weight_simps:
  "pending_weight fc ((jb, fr) # ps) = job_weight fc jb + pending_weight fc ps"
  "pending_weight fc (ps @ qs) = pending_weight fc ps + pending_weight fc qs"
  by (simp_all add: pending_weight_def)

text \<open>
  \<open>_run_stage2_inline\<close>: the worklist, breadth first. The limiter is the process-wide one.
\<close>

function run_stage2_inline ::
  "config \<Rightarrow> 'w services \<Rightarrow> (job \<times> fetch_result) list \<Rightarrow> session \<Rightarrow> 'w \<Rightarrow> stage2_limiter
     \<Rightarrow> session \<times> 'w \<times> stage2_limiter" where
  "run_stage2_inline cfg sv [] s w lim = (s, w, lim)"
| "run_stage2_inline cfg sv ((parent, fr) # pending) s w lim =
     (case plan_for cfg sv parent fr w lim of
        (pl, lim1) \<Rightarrow>
          (case fetch_children sv (jb_url parent) (fr_sha256 fr) (pl_jobs pl)
                  (log_stage2_scan (jb_url parent) (fr_sha256 fr) (jb_depth parent) (pl_found pl)
                     (length (pl_jobs pl)) (pl_skipped pl) s) w of
             (Inl e, s2, w2) \<Rightarrow> (s2, w2, lim1)
           | (Inr pairs, s2, w2) \<Rightarrow> run_stage2_inline cfg sv (pending @ pairs) s2 w2 lim1))"
  by pat_completeness auto
termination
  by (relation "measure (\<lambda>(cfg, sv, pending, s, w, lim). pending_weight (cf_fetcher cfg) pending)")
    (auto simp: pending_weight_simps dest!: pending_weight_children [OF sym sym])

subsection \<open>What the operations leave alone\<close>

lemma log_event_simps [simp]:
  "ss_id (log_event e s) = ss_id s" "ss_download_count (log_event e s) = ss_download_count s"
  "ss_closed (log_event e s) = ss_closed s" "ss_fs (log_event e s) = ss_fs s"
  "ss_transcript (log_event e s) = ss_transcript s" "ss_stage2 (log_event e s) = ss_stage2 s"
  "ss_events (log_event e s) = ss_events s @ [e]" "ss_src_ip (log_event e s) = ss_src_ip s"
  "ss_authenticated (log_event e s) = ss_authenticated s" "ss_username (log_event e s) = ss_username s"
  "ss_should_exit (log_event e s) = ss_should_exit s"
  by (simp_all add: log_event_def)

text \<open>The parts of a session that no command touches, and the events that commands log.\<close>

definition command_events :: "string list" where
  "command_events = [''command.input'', ''file.download'', ''file.stage2_scan'', ''file.execution_attempt'']"

definition same_session :: "session \<Rightarrow> session \<Rightarrow> bool" where
  "same_session s s' \<longleftrightarrow> ss_id s' = ss_id s \<and> ss_src_ip s' = ss_src_ip s \<and> ss_closed s' = ss_closed s
     \<and> ss_transcript s' = ss_transcript s \<and> ss_authenticated s' = ss_authenticated s
     \<and> ss_username s' = ss_username s \<and> ss_download_count s \<le> ss_download_count s'
     \<and> (ss_should_exit s \<longrightarrow> ss_should_exit s') \<and> (wf_fs (ss_fs s) \<longrightarrow> wf_fs (ss_fs s'))
     \<and> (\<exists>new. ss_events s' = ss_events s @ new \<and> (\<forall>e \<in> set new. fst e \<in> set command_events))
     \<and> (\<exists>new. ss_stage2 s' = ss_stage2 s @ new \<and> (\<forall>(jb, fr) \<in> set new. jb_session jb = ss_id s))"

lemma same_session_refl [simp]: "same_session s s"
  by (simp add: same_session_def)

lemma same_session_trans: "same_session s s' \<Longrightarrow> same_session s' s'' \<Longrightarrow> same_session s s''"
  unfolding same_session_def by (elim conjE exE, intro conjI) auto

lemma same_session_id: "same_session s s' \<Longrightarrow> ss_id s' = ss_id s"
  and same_session_count: "same_session s s' \<Longrightarrow> ss_download_count s \<le> ss_download_count s'"
  by (simp_all add: same_session_def)

lemma same_session_log: "fst e \<in> set command_events \<Longrightarrow> same_session s (log_event e s)"
  by (simp add: same_session_def)

lemma event_types [simp]:
  "fst (file_download sid m) = ''file.download''" "fst (execution_attempt sid raw t) = ''file.execution_attempt''"
  "fst (command_input sid raw c args) = ''command.input''" "fst (stage2_scan sid m) = ''file.stage2_scan''"
  "fst (session_closed sid d r) = ''session.closed''" "fst (session_connect sid ip p dp pr ci) = ''session.connect''"
  "fst (client_version sid v) = ''session.client_version''" "fst (auth_attempt sid m) = ''auth.attempt''"
  by (simp_all add: file_download_def execution_attempt_def command_input_def stage2_scan_def session_closed_def
      session_connect_def client_version_def auth_attempt_def)

lemma command_event_types [simp]:
  "''file.download'' \<in> set command_events" "''file.execution_attempt'' \<in> set command_events"
  "''command.input'' \<in> set command_events" "''file.stage2_scan'' \<in> set command_events"
  by (simp_all add: command_events_def)

lemma begin_segment_same:
  assumes "begin_segment cfg sv i raw s = (r, s')"
  shows "same_session s s'"
    and "r = Inr (Fetching req jb) \<Longrightarrow> ss_download_count s' = Suc (ss_download_count s)
      \<and> ss_download_count s' \<le> fc_max_downloads (cf_fetcher cfg) \<and> jb_session jb = ss_id s \<and> jb_depth jb = 0
      \<and> jb_url jb = dl_url req"
proof -
  obtain d fs where d: "dispatch raw (cf_persona cfg) (ss_username s) (sv_reads sv (ss_command_count s) i)
      (sv_frames sv) (ss_fs s) = (d, fs)" by fastforce
  have wf: "wf_fs (ss_fs s) \<Longrightarrow> wf_fs fs" using dispatch_wf [of "ss_fs s"] d by (metis snd_conv)
  show "same_session s s'"
    using assms wf
    by (auto simp: begin_segment_def d begin_download_def log_attempt_def same_session_def Let_def
        split: sum.splits option.splits if_splits)
  assume "r = Inr (Fetching req jb)"
  with assms show "ss_download_count s' = Suc (ss_download_count s)
      \<and> ss_download_count s' \<le> fc_max_downloads (cf_fetcher cfg) \<and> jb_session jb = ss_id s \<and> jb_depth jb = 0
      \<and> jb_url jb = dl_url req"
    by (auto simp: begin_segment_def d begin_download_def log_attempt_def make_job_def Let_def bind_result_Inr_iff
        split: sum.splits option.splits if_splits)
qed

lemma start_stage2_same: "jb_session jb = ss_id s \<Longrightarrow> same_session s (start_stage2 cfg jb fr s)"
  "ss_download_count (start_stage2 cfg jb fr s) = ss_download_count s"
  unfolding start_stage2_def by (simp_all add: same_session_def)

lemma finish_download_same:
  assumes "finish_download cfg raw req jb fr s = (r, s')" and "jb_session jb = ss_id s"
  shows "same_session s s' \<and> ss_download_count s' = ss_download_count s"
proof -
  let ?s = "log_event (file_download (ss_id s) (download_fields req raw @ (''outcome'', outcome fr)
      # result_fields fr)) s"
  have "s' = start_stage2 cfg jb fr ?s" using assms(1) by (simp add: finish_download_def)
  moreover have "same_session s ?s" by (rule same_session_log) simp
  ultimately show ?thesis
    using same_session_trans [OF _ start_stage2_same(1)] start_stage2_same(2) assms(2) by simp
qed

lemma log_command_same:
  "same_session s (log_command raw s)" "ss_download_count (log_command raw s) = ss_download_count s"
  by (simp_all add: log_command_def Let_def same_session_def)
subsection \<open>The fetch interface\<close>

text \<open>
  What the session relies on in the fetcher: a call makes at most one request, for the job it was given.
  \<open>requests\<close> is the trace of what left the machine. The bounds below hold for every such fetcher.
\<close>

locale fetch_service =
  fixes sv :: "'w services" and requests :: "'w \<Rightarrow> job list"
  assumes one_request:
    "sv_fetch sv jb w = (r, w') \<Longrightarrow> requests w' = requests w \<or> requests w' = requests w @ [jb]"
begin

text \<open>
  The requests of a session since its trace was \<open>base\<close>: they are its own, asked for directly, and no
  more than the downloads it has counted, nor than the cap.
\<close>

definition own_requests :: "config \<Rightarrow> job list \<Rightarrow> session \<Rightarrow> 'w \<Rightarrow> bool" where
  "own_requests cfg base s w \<longleftrightarrow>
     (\<exists>new. requests w = base @ new \<and> length new \<le> min (ss_download_count s) (fc_max_downloads (cf_fetcher cfg))
        \<and> (\<forall>j \<in> set new. jb_session j = ss_id s \<and> jb_depth j = 0))"

lemma own_requests_start: "own_requests cfg (requests w) s w"
  by (simp add: own_requests_def)

lemma own_requests_cong:
  assumes "own_requests cfg base s w" and "ss_id s' = ss_id s"
    and "ss_download_count s \<le> ss_download_count s'"
  shows "own_requests cfg base s' w"
  using assms by (fastforce simp: own_requests_def)

lemma own_requests_fetch:
  assumes "own_requests cfg base s w" and "sv_fetch sv jb w = (r, w')"
    and "ss_id s' = ss_id s" and "ss_download_count s' = Suc (ss_download_count s)"
    and "ss_download_count s' \<le> fc_max_downloads (cf_fetcher cfg)"
    and "jb_session jb = ss_id s" and "jb_depth jb = 0"
  shows "own_requests cfg base s' w'"
proof -
  obtain new where new: "requests w = base @ new"
    "length new \<le> min (ss_download_count s) (fc_max_downloads (cf_fetcher cfg))"
    "\<forall>j \<in> set new. jb_session j = ss_id s \<and> jb_depth j = 0"
    using assms(1) by (auto simp: own_requests_def)
  have "\<exists>more. requests w' = base @ new @ more \<and> length more \<le> 1 \<and> set more \<subseteq> {jb}"
    using one_request [OF assms(2)] new(1) by (auto intro: exI [of _ "[]"] exI [of _ "[jb]"])
  then obtain extra where "requests w' = base @ new @ extra" "length extra \<le> 1" "set extra \<subseteq> {jb}" by blast
  with new assms(3-7) show ?thesis
    by (auto simp: own_requests_def intro!: exI [of _ "new @ extra"])
qed
lemma run_segment_own:
  assumes own: "own_requests cfg base s w" and run: "run_segment cfg sv i raw s w = (r, s', w')"
  shows "same_session s s' \<and> own_requests cfg base s' w'"
proof -
  obtain b s1 where b: "begin_segment cfg sv i raw s = (b, s1)" by fastforce
  note same1 = begin_segment_same(1) [OF b]
  have own1: "own_requests cfg base s1 w"
    using own_requests_cong [OF own] same1 by (simp add: same_session_def)
  show ?thesis
  proof (cases "\<exists>req jb. b = Inr (Fetching req jb)")
    case False
    with run b same1 own1 show ?thesis
      by (auto simp: run_segment_def split: sum.splits seg_step.splits)
  next
    case True
    then obtain req jb where f: "b = Inr (Fetching req jb)" by blast
    note count = begin_segment_same(2) [OF b f]
    obtain res w1 where w1: "sv_fetch sv jb w = (res, w1)" by fastforce
    have own2: "own_requests cfg base s1 w1"
      using own_requests_fetch [OF own w1] count same1 by (simp add: same_session_def)
    show ?thesis
    proof (cases res)
      case (Inl e)
      with run b f w1 same1 own2 show ?thesis by (auto simp: run_segment_def)
    next
      case (Inr fr)
      then obtain out s2 where fin: "finish_download cfg raw req jb fr s1 = (out, s2)" by fastforce
      have "jb_session jb = ss_id s1" using count same1 by (simp add: same_session_def)
      note fs = finish_download_same [OF fin this]
      have "s' = s2" "w' = w1" using run b f w1 Inr fin by (auto simp: run_segment_def)
      moreover have "same_session s s2" using same1 fs by (blast intro: same_session_trans)
      moreover have "own_requests cfg base s2 w1"
        using fs by (intro own_requests_cong [OF own2]) (auto dest: same_session_id)
      ultimately show ?thesis by simp
    qed
  qed
qed

lemma run_chain_own:
  assumes "own_requests cfg base s w" and "run_chain cfg sv i segs status outs s w = (r, s', w')"
  shows "same_session s s' \<and> own_requests cfg base s' w'"
  using assms
proof (induction segs arbitrary: i status outs s w)
  case (Cons x segs)
  obtain op seg where x: "x = (op, seg)" by (cases x)
  show ?case
  proof (cases "skipped op status")
    case True
    with Cons x show ?thesis by simp
  next
    case False
    obtain r1 s1 w1 where r1: "run_segment cfg sv i seg s w = (r1, s1, w1)" by (metis prod_cases3)
    note step = run_segment_own [OF Cons.prems(1) r1]
    show ?thesis
    proof (cases "(\<exists>e. r1 = Inl e) \<or> ss_should_exit s1")
      case True
      with Cons.prems(2) False x r1 step show ?thesis by (auto simp: Let_def split: sum.splits)
    next
      case go: False
      then obtain reply status' where "r1 = Inr (reply, status')" by (cases r1) auto
      with Cons.prems(2) False x r1 go have
        "run_chain cfg sv (Suc i) segs status' (if reply = [] then outs else outs @ [reply]) s1 w1 = (r, s', w')"
        by (simp add: Let_def)
      from Cons.IH [OF conjunct2 [OF step] this] step show ?thesis by (blast intro: same_session_trans)
    qed
  qed
qed simp

lemma handle_command_own:
  assumes "own_requests cfg base s w" and "handle_command cfg sv raw s w = (r, s', w')"
  shows "same_session s s' \<and> own_requests cfg base s' w'"
proof -
  obtain rc where c: "run_chain cfg sv 0 (line_segments raw) 0 [] (log_command raw s) w = (rc, s', w')"
    using assms(2) by (auto simp: handle_command_def split: prod.splits)
  have "own_requests cfg base (log_command raw s) w"
    using own_requests_cong [OF assms(1)] log_command_same [where s = s and raw = raw] by (simp add: same_session_def)
  from run_chain_own [OF this c] log_command_same(1) show ?thesis
    by (blast intro: same_session_trans)
qed

end

subsection \<open>The requests of a stage-two run\<close>

lemma job_weight_pos: "0 < job_weight fc jb"
  by (simp add: job_weight_def)

lemma length_le_weight: "length js \<le> sum_list (map (job_weight fc) js)"
proof (induction js)
  case (Cons j js)
  then show ?case using job_weight_pos [of fc j] by simp
qed simp

lemma log_stage2_same:
  "same_session s (log_stage2_scan pu ps d found queued skip s)"
  "same_session s (log_stage2_outcome child pu ps fr s)"
  by (simp_all add: log_stage2_scan_def log_stage2_outcome_def stage2_outcome_event_def same_session_log)

context fetch_service
begin

lemma fetch_children_requests:
  assumes "fetch_children sv pu ps js s w = (r, s', w')"
  shows "same_session s s' \<and> (\<exists>new. requests w' = requests w @ new \<and> length new \<le> length js \<and> set new \<subseteq> set js)"
  using assms
proof (induction js arbitrary: s w r)
  case Nil
  then show ?case by auto
next
  case (Cons j js)
  obtain res w1 where w1: "sv_fetch sv j w = (res, w1)" by fastforce
  obtain one where one: "requests w1 = requests w @ one" "length one \<le> 1" "set one \<subseteq> {j}"
    using one_request [OF w1] by auto
  show ?case
  proof (cases res)
    case (Inl e)
    with Cons.prems w1 one show ?thesis by auto
  next
    case (Inr fr)
    obtain r2 where r2: "fetch_children sv pu ps js (log_stage2_outcome j pu ps fr s) w1 = (r2, s', w')"
      using Cons.prems w1 Inr by (auto split: prod.splits sum.splits)
    from Cons.IH [OF r2] obtain new where
      "requests w' = requests w1 @ new" "length new \<le> length js" "set new \<subseteq> set js"
      "same_session (log_stage2_outcome j pu ps fr s) s'" by blast
    with one log_stage2_same(2) show ?thesis
      by (fastforce intro: same_session_trans exI [of _ "one @ new"])
  qed
qed

text \<open>
  One run of the worklist for jobs of one session: at most a job's weight less one requests for each, all
  deeper than 0 and within the depth limit, and each of them charged to the session.
\<close>

lemma run_stage2_requests:
  assumes "run_stage2_inline cfg sv pending s w lim = (s', w', lim')"
    and "\<forall>(jb, fr) \<in> set pending. jb_session jb = sid"
  shows "same_session s s' 
    \<and> remembered lim' sid \<le> max (remembered lim sid) (fc_stage2_max_per_session (cf_fetcher cfg))
    \<and> (\<exists>new. requests w' = requests w @ new
         \<and> length new + length pending \<le> pending_weight (cf_fetcher cfg) pending
         \<and> remembered lim sid + length new \<le> remembered lim' sid
         \<and> (\<forall>j \<in> set new. jb_session j = sid \<and> 0 < jb_depth j
              \<and> jb_depth j \<le> fc_stage2_max_depth (cf_fetcher cfg)))"
  using assms
proof (induction "pending_weight (cf_fetcher cfg) pending" arbitrary: pending s w lim rule: less_induct)
  case less
  let ?fc = "cf_fetcher cfg"
  show ?case
  proof (cases pending)
    case Nil
    with less.prems show ?thesis by (auto simp: pending_weight_def)
  next
    case (Cons x rest)
    obtain parent fr where x: "x = (parent, fr)" by (cases x)
    have sid: "jb_session parent = sid" using less.prems(2) by (auto simp: Cons x)
    obtain pl lim1 where p: "plan_for cfg sv parent fr w lim = (pl, lim1)" by fastforce
    let ?s1 = "log_stage2_scan (jb_url parent) (fr_sha256 fr) (jb_depth parent) (pl_found pl)
                     (length (pl_jobs pl)) (pl_skipped pl) s"
    obtain r s2 w2 where f: "fetch_children sv (jb_url parent) (fr_sha256 fr) (pl_jobs pl) ?s1 w = (r, s2, w2)"
      by (metis prod_cases3)
    have budget: "remembered lim sid + length (pl_jobs pl) \<le> remembered lim1 sid"
      "remembered lim1 sid \<le> max (remembered lim sid) (fc_stage2_max_per_session ?fc)"
      using plan_budget [OF p [unfolded plan_for_def]] sid by auto
    from fetch_children_requests [OF f] obtain new where
      new: "requests w2 = requests w @ new" "length new \<le> length (pl_jobs pl)" "set new \<subseteq> set (pl_jobs pl)"
      and same: "same_session ?s1 s2" by blast
    have same: "same_session s s2" by (rule same_session_trans [OF log_stage2_same(1) same])
    have depth: "\<forall>j \<in> set new. jb_session j = sid \<and> 0 < jb_depth j \<and> jb_depth j \<le> fc_stage2_max_depth ?fc"
      using plan_followups_jobs(3) [OF p [unfolded plan_for_def]] new(3) sid by fastforce
    note weight = plan_weight [OF p]
    show ?thesis
    proof (cases r)
      case (Inl e)
      have "length (pl_jobs pl) < job_weight ?fc parent"
        using weight length_le_weight [of "pl_jobs pl" ?fc] by simp
      moreover have "length rest \<le> pending_weight ?fc rest"
        using length_le_weight [of "map fst rest" ?fc] by (simp add: pending_weight_pairs)
      moreover have "s' = s2" "w' = w2" "lim' = lim1" using less.prems(1) Cons x p f Inl by auto
      ultimately show ?thesis
        using same budget new depth by (auto simp: Cons x pending_weight_simps)
    next
      case (Inr pairs)
      have jobs: "map fst pairs = pl_jobs pl" using f Inr by (auto dest: fetch_children_jobs)
      then have wp: "pending_weight ?fc pairs = sum_list (map (job_weight ?fc) (pl_jobs pl))"
        by (simp only: pending_weight_pairs)
      have rec: "run_stage2_inline cfg sv (rest @ pairs) s2 w2 lim1 = (s', w', lim')"
        using less.prems(1) Cons x p f Inr by simp
      have "\<forall>(jb, fr) \<in> set pairs. jb_session jb = sid"
      proof (clarify)
        fix jb fr assume "(jb, fr) \<in> set pairs"
        then have "jb \<in> fst ` set pairs" by force
        then have "jb \<in> set (pl_jobs pl)" by (simp flip: jobs)
        from plan_followups_jobs(3) [OF p [unfolded plan_for_def] this] sid show "jb_session jb = sid" by simp
      qed
      then have sids: "\<forall>(jb, fr) \<in> set (rest @ pairs). jb_session jb = sid"
        using less.prems(2) by (auto simp: Cons)
      have lt: "pending_weight ?fc (rest @ pairs) < pending_weight ?fc pending"
        using weight wp by (simp add: Cons x pending_weight_simps)
      from less.hyps [OF lt rec sids] obtain new2 where
        IH: "same_session s2 s'"
          "remembered lim' sid \<le> max (remembered lim1 sid) (fc_stage2_max_per_session ?fc)"
        and new2: "requests w' = requests w2 @ new2"
          "length new2 + length (rest @ pairs) \<le> pending_weight ?fc (rest @ pairs)"
          "remembered lim1 sid + length new2 \<le> remembered lim' sid"
          "\<forall>j \<in> set new2. jb_session j = sid \<and> 0 < jb_depth j \<and> jb_depth j \<le> fc_stage2_max_depth ?fc"
        by blast
      have len: "length pairs = length (pl_jobs pl)" using jobs by (metis length_map)
      have "length (new @ new2) + length pending \<le> pending_weight ?fc pending"
        using new(2) new2(2) len weight wp by (simp add: Cons x pending_weight_simps)
      moreover have "remembered lim sid + length (new @ new2) \<le> remembered lim' sid"
        using new(2) new2(3) budget(1) by simp
      moreover have "remembered lim' sid \<le> max (remembered lim sid) (fc_stage2_max_per_session ?fc)"
        using IH(2) budget(2) by simp
      moreover have "\<forall>j \<in> set (new @ new2). jb_session j = sid \<and> 0 < jb_depth j
          \<and> jb_depth j \<le> fc_stage2_max_depth ?fc" using depth new2(4) by auto
      moreover have "requests w' = requests w @ new @ new2" using new(1) new2(1) by simp
      ultimately show ?thesis
        using same_session_trans [OF same IH(1)] by blast
    qed
  qed
qed

end

subsection \<open>The background tasks of a session\<close>

text \<open>
  \<open>_start_stage2\<close> makes an asyncio task of each follow-up, and the tasks of a session run interleaved: one
  gives way to another only where it awaits a fetch. A task is the loop of \<open>_run_stage2_inline\<close> between two
  such points: the plan it is going through, the children still to fetch, the downloads still to plan.
\<close>

record follow_task =
  ft_url :: string
  ft_sha :: "string option"
  ft_children :: "job list"
  ft_pending :: "(job \<times> fetch_result) list"

definition start_task :: "job \<times> fetch_result \<Rightarrow> follow_task" where
  "start_task x = \<lparr>ft_url = [], ft_sha = None, ft_children = [], ft_pending = [x]\<rparr>"

text \<open>One step of a task; \<open>None\<close> is a task that has ended, by itself or by the exception of a fetch.\<close>

definition task_step ::
  "config \<Rightarrow> 'w services \<Rightarrow> follow_task \<Rightarrow> session \<Rightarrow> 'w \<Rightarrow> stage2_limiter
     \<Rightarrow> follow_task option \<times> session \<times> 'w \<times> stage2_limiter" where
  "task_step cfg sv t s w lim =
     (case ft_children t of
        child # rest \<Rightarrow>
          (case sv_fetch sv child w of
             (Inl e, w1) \<Rightarrow> (None, s, w1, lim)
           | (Inr fr, w1) \<Rightarrow>
               (Some (t\<lparr>ft_children := rest, ft_pending := ft_pending t @ [(child, fr)]\<rparr>),
                log_stage2_outcome child (ft_url t) (ft_sha t) fr s, w1, lim))
      | [] \<Rightarrow>
          (case ft_pending t of
             [] \<Rightarrow> (None, s, w, lim)
           | (parent, fr) # pending \<Rightarrow>
               (case plan_for cfg sv parent fr w lim of
                  (pl, lim1) \<Rightarrow>
                    (Some \<lparr>ft_url = jb_url parent, ft_sha = fr_sha256 fr, ft_children = pl_jobs pl,
                       ft_pending = pending\<rparr>,
                     log_stage2_scan (jb_url parent) (fr_sha256 fr) (jb_depth parent) (pl_found pl)
                       (length (pl_jobs pl)) (pl_skipped pl) s, w, lim1))))"

definition remaining :: "follow_task option \<Rightarrow> follow_task list" where
  "remaining t = (case t of None \<Rightarrow> [] | Some u \<Rightarrow> [u])"

type_synonym 'w background_state = "follow_task list \<times> session \<times> 'w \<times> stage2_limiter"

text \<open>Any task may be the next to run.\<close>

inductive background :: "config \<Rightarrow> 'w services \<Rightarrow> 'w background_state \<Rightarrow> 'w background_state \<Rightarrow> bool"
  for cfg :: config and sv :: "'w services" where
  idle: "background cfg sv x x"
| turn: "background cfg sv x (ts @ t # us, s, w, lim) \<Longrightarrow> task_step cfg sv t s w lim = (t', s', w', lim') \<Longrightarrow>
    background cfg sv x (ts @ remaining t' @ us, s', w', lim')"

lemma background_trans: "background cfg sv y z \<Longrightarrow> background cfg sv x y \<Longrightarrow> background cfg sv x z"
  by (induction rule: background.induct) (auto intro: background.turn)

lemma background_alone:
  assumes "task_step cfg sv t s w lim = (t', s', w', lim')"
  shows "background cfg sv ([t], s, w, lim) (remaining t', s', w', lim')"
proof -
  have "background cfg sv ([t], s, w, lim) ([] @ t # [], s, w, lim)" by (simp add: background.idle)
  from background.turn [OF this assms] show ?thesis by simp
qed

text \<open>A task that runs alone does what \<open>run_stage2_inline\<close> does.\<close>

lemma background_children:
  assumes "fetch_children sv (ft_url t) (ft_sha t) js s w = (r, s', w')"
  shows "background cfg sv ([t\<lparr>ft_children := js, ft_pending := ps\<rparr>], s, w, lim)
    (case r of Inl e \<Rightarrow> [] | Inr pairs \<Rightarrow> [t\<lparr>ft_children := [], ft_pending := ps @ pairs\<rparr>], s', w', lim)"
  using assms
proof (induction js arbitrary: s w ps r)
  case Nil
  then show ?case by (auto intro: background.idle)
next
  case (Cons j js)
  let ?t = "t\<lparr>ft_children := j # js, ft_pending := ps\<rparr>"
  obtain res w1 where f: "sv_fetch sv j w = (res, w1)" by fastforce
  show ?case
  proof (cases res)
    case (Inl e)
    then have "task_step cfg sv ?t s w lim = (None, s, w1, lim)" by (simp add: task_step_def f)
    from background_alone [OF this] Cons.prems show ?thesis by (auto simp: f Inl remaining_def)
  next
    case (Inr fr)
    let ?s = "log_stage2_outcome j (ft_url t) (ft_sha t) fr s"
    obtain r2 where r2: "fetch_children sv (ft_url t) (ft_sha t) js ?s w1 = (r2, s', w')"
        "r = map_sum id ((#) (j, fr)) r2"
      using Cons.prems by (auto simp: f Inr split: prod.splits sum.splits)
    have "task_step cfg sv ?t s w lim
        = (Some (t\<lparr>ft_children := js, ft_pending := ps @ [(j, fr)]\<rparr>), ?s, w1, lim)"
      by (simp add: task_step_def f Inr)
    from background_trans [OF Cons.IH [OF r2(1), of "ps @ [(j, fr)]"] background_alone [OF this, unfolded remaining_def option.case]]
    show ?thesis by (cases r2) (simp_all add: r2(2))
  qed
qed

lemma background_inline:
  assumes "run_stage2_inline cfg sv pending s w lim = (s', w', lim')"
  shows "background cfg sv ([t\<lparr>ft_children := [], ft_pending := pending\<rparr>], s, w, lim) ([], s', w', lim')"
  using assms
proof (induction cfg sv pending s w lim arbitrary: t rule: run_stage2_inline.induct)
  case (1 cfg sv s w lim)
  have "task_step cfg sv (t\<lparr>ft_children := [], ft_pending := []\<rparr>) s w lim = (None, s, w, lim)"
    by (simp add: task_step_def)
  from background_alone [OF this] 1 show ?case by (simp add: remaining_def)
next
  case (2 cfg sv parent fr pending s w lim)
  obtain pl lim1 where p: "plan_for cfg sv parent fr w lim = (pl, lim1)" by fastforce
  let ?s1 = "log_stage2_scan (jb_url parent) (fr_sha256 fr) (jb_depth parent) (pl_found pl)
                     (length (pl_jobs pl)) (pl_skipped pl) s"
  let ?u = "\<lparr>ft_url = jb_url parent, ft_sha = fr_sha256 fr, ft_children = pl_jobs pl, ft_pending = pending\<rparr>"
  obtain r s2 w2 where f: "fetch_children sv (ft_url ?u) (ft_sha ?u) (pl_jobs pl) ?s1 w = (r, s2, w2)"
    by (metis prod_cases3)
  have "task_step cfg sv (t\<lparr>ft_children := [], ft_pending := (parent, fr) # pending\<rparr>) s w lim
      = (Some ?u, ?s1, w, lim1)" by (simp add: task_step_def p)
  note first = background_alone [OF this, unfolded remaining_def option.case]
  have "background cfg sv ([?u], ?s1, w, lim1)
      (case r of Inl e \<Rightarrow> [] | Inr pairs \<Rightarrow> [?u\<lparr>ft_children := [], ft_pending := pending @ pairs\<rparr>], s2, w2, lim1)"
    using background_children [OF f, of cfg pending lim1] by simp
  note second = background_trans [OF this first]
  show ?case
  proof (cases r)
    case (Inl e)
    then have "s' = s2" "w' = w2" "lim' = lim1" using "2.prems" f by (simp_all add: p)
    with second show ?thesis by (simp add: Inl)
  next
    case (Inr pairs)
    have rec: "run_stage2_inline cfg sv (pending @ pairs) s2 w2 lim1 = (s', w', lim')"
      using "2.prems" f by (simp add: p Inr)
    have fe: "(Inr pairs, s2, w2) = fetch_children sv (jb_url parent) (fr_sha256 fr) (pl_jobs pl) ?s1 w"
      using f Inr by simp
    from "2.IH" [OF p [symmetric] fe refl refl rec, of ?u]
    have "background cfg sv ([?u\<lparr>ft_children := [], ft_pending := pending @ pairs\<rparr>], s2, w2, lim1)
        ([], s', w', lim')" .
    from background_trans [OF this] second show ?thesis by (simp add: Inr)
  qed
qed

text \<open>A task asks only for jobs of its session, below the direct downloads.\<close>

definition follow_job :: "config \<Rightarrow> string \<Rightarrow> job \<Rightarrow> bool" where
  "follow_job cfg sid j \<longleftrightarrow>
     jb_session j = sid \<and> 0 < jb_depth j \<and> jb_depth j \<le> fc_stage2_max_depth (cf_fetcher cfg)"

definition task_ok :: "config \<Rightarrow> string \<Rightarrow> follow_task \<Rightarrow> bool" where
  "task_ok cfg sid t \<longleftrightarrow> (\<forall>j \<in> set (ft_children t). follow_job cfg sid j)
     \<and> (\<forall>(j, fr) \<in> set (ft_pending t). jb_session j = sid)"

definition outstanding :: "follow_task list \<Rightarrow> nat" where
  "outstanding ts = sum_list (map (\<lambda>t. length (ft_children t)) ts)"

lemma outstanding_simps [simp]:
  "outstanding [] = 0" "outstanding (t # ts) = length (ft_children t) + outstanding ts"
  "outstanding (ts @ us) = outstanding ts + outstanding us"
  by (simp_all add: outstanding_def)

lemma remaining_simps [simp]: "remaining None = []" "remaining (Some t) = [t]"
  by (simp_all add: remaining_def)

context fetch_service
begin

lemma task_step_requests:
  assumes "task_step cfg sv t s w lim = (t', s', w', lim')" and "task_ok cfg sid t"
  shows "same_session s s' \<and> (\<forall>u \<in> set (remaining t'). task_ok cfg sid u)
    \<and> remembered lim' sid \<le> max (remembered lim sid) (fc_stage2_max_per_session (cf_fetcher cfg))
    \<and> (\<exists>new. requests w' = requests w @ new \<and> (\<forall>j \<in> set new. follow_job cfg sid j)
         \<and> remembered lim sid + length new + outstanding (remaining t')
             \<le> remembered lim' sid + length (ft_children t))"
proof (cases "ft_children t")
  case (Cons child rest)
  obtain res w1 where f: "sv_fetch sv child w = (res, w1)" by fastforce
  have child: "follow_job cfg sid child" using assms(2) by (simp add: task_ok_def Cons)
  have sid: "jb_session child = sid" using child by (simp add: follow_job_def)
  obtain one where one: "requests w1 = requests w @ one" "length one \<le> 1" "set one \<subseteq> {child}"
    using one_request [OF f] by auto
  have out: "w' = w1" "lim' = lim" "same_session s s'"
      "\<forall>u \<in> set (remaining t'). task_ok cfg sid u" "outstanding (remaining t') \<le> length rest"
    using assms f sid log_stage2_same
    by (auto simp: task_step_def Cons task_ok_def split: sum.splits)
  show ?thesis
  proof (intro conjI exI [of _ one] out(3,4))
    show "requests w' = requests w @ one" using one(1) out(1) by simp
    show "\<forall>j \<in> set one. follow_job cfg sid j" using one(3) child by auto
    show "remembered lim sid + length one + outstanding (remaining t')
        \<le> remembered lim' sid + length (ft_children t)"
      using one(2) out(2,5) by (simp add: Cons)
  qed (simp add: out(2))
next
  case Nil
  show ?thesis
  proof (cases "ft_pending t")
    case none: Nil
    then show ?thesis using assms by (auto simp: task_step_def Nil)
  next
    case (Cons x pending)
    obtain parent fr where x: "x = (parent, fr)" by (cases x)
    obtain pl lim1 where p: "plan_for cfg sv parent fr w lim = (pl, lim1)" by fastforce
    have sid: "jb_session parent = sid" "\<forall>(j, fr) \<in> set pending. jb_session j = sid"
      using assms(2) by (auto simp: task_ok_def Cons x)
    note budget = plan_budget [OF p [unfolded plan_for_def]]
    have jobs: "\<forall>j \<in> set (pl_jobs pl). follow_job cfg sid j"
    proof
      fix j assume "j \<in> set (pl_jobs pl)"
      from plan_followups_jobs(3) [OF p [unfolded plan_for_def] this] sid(1)
      show "follow_job cfg sid j" by (simp add: follow_job_def)
    qed
    have out: "w' = w" "lim' = lim1" "same_session s s'"
        "\<forall>u \<in> set (remaining t'). task_ok cfg sid u" "outstanding (remaining t') = length (pl_jobs pl)"
      using assms(1) jobs sid(2) log_stage2_same
      by (auto simp: task_step_def Nil Cons x p task_ok_def)
    show ?thesis
      using budget sid(1) out by (intro conjI exI [of _ "[]"]) (simp_all add: Nil)
  qed
qed

text \<open>However the tasks of a session take turns, their requests stay within its budget.\<close>

lemma background_requests:
  assumes "background cfg sv (ts, s, w, lim) y" and "\<forall>t \<in> set ts. task_ok cfg sid t \<and> ft_children t = []"
  shows "case y of (ts', s', w', lim') \<Rightarrow>
    same_session s s' \<and> (\<forall>t \<in> set ts'. task_ok cfg sid t)
    \<and> remembered lim' sid \<le> max (remembered lim sid) (fc_stage2_max_per_session (cf_fetcher cfg))
    \<and> (\<exists>new. requests w' = requests w @ new \<and> (\<forall>j \<in> set new. follow_job cfg sid j)
         \<and> remembered lim sid + length new + outstanding ts' \<le> remembered lim' sid)"
  using assms(1)
proof (induction x\<equiv>"(ts, s, w, lim)" y rule: background.induct)
  case idle
  have "outstanding ts = 0" using assms(2) by (induction ts) auto
  with assms(2) show ?case by auto
next
  case (turn vs t us s1 w1 lim1 t' s2 w2 lim2)
  obtain new where IH: "same_session s s1" "\<forall>t \<in> set (vs @ t # us). task_ok cfg sid t"
      "remembered lim1 sid \<le> max (remembered lim sid) (fc_stage2_max_per_session (cf_fetcher cfg))"
      "requests w1 = requests w @ new" "\<forall>j \<in> set new. follow_job cfg sid j"
      "remembered lim sid + length new + outstanding (vs @ t # us) \<le> remembered lim1 sid"
    using turn.hyps(2) by auto
  have "task_ok cfg sid t" using IH(2) by simp
  from task_step_requests [OF turn.hyps(3) this] obtain more where
    step: "same_session s1 s2" "\<forall>u \<in> set (remaining t'). task_ok cfg sid u"
      "remembered lim2 sid \<le> max (remembered lim1 sid) (fc_stage2_max_per_session (cf_fetcher cfg))"
      "requests w2 = requests w1 @ more" "\<forall>j \<in> set more. follow_job cfg sid j"
      "remembered lim1 sid + length more + outstanding (remaining t') \<le> remembered lim2 sid + length (ft_children t)"
    by blast
  have "same_session s s2" using same_session_trans [OF IH(1) step(1)] .
  moreover have "\<forall>t \<in> set (vs @ remaining t' @ us). task_ok cfg sid t" using IH(2) step(2) by auto
  moreover have "remembered lim2 sid \<le> max (remembered lim sid) (fc_stage2_max_per_session (cf_fetcher cfg))"
    using IH(3) step(3) by simp
  moreover have "requests w2 = requests w @ (new @ more)" using IH(4) step(4) by simp
  moreover have "\<forall>j \<in> set (new @ more). follow_job cfg sid j" using IH(5) step(5) by auto
  moreover have "remembered lim sid + length (new @ more) + outstanding (vs @ remaining t' @ us)
      \<le> remembered lim2 sid" using IH(6) step(6) by simp
  ultimately show ?case by blast
qed

end

subsection \<open>Error lines\<close>

text \<open>
  The reply matches its own reasons by substring, so the operating system's words in a failed connection
  can select another line than the generic one.
\<close>

lemma wget_error_shows_eperm:
  "wget_error_text (Some ''Cannot connect to host h:80 ssl:default [Operation not permitted]'')
     = ''not an http or ftp url''"
  "wget_error_text (Some ''Cannot connect to host h:80 ssl:default [Connection refused]'')
     = ''can't connect to remote host''"
  by code_simp+

end
