(* ===== verification/Fetcher.thy ===== *)
theory Fetcher
  imports Ip_Address Session
begin

section \<open>The isolated fetcher\<close>

text \<open>
  \<open>honeypot/fetcher/fetcher.py\<close>: \<open>fetch_and_quarantine\<close> over an explicit quarantine directory. The two
  digests are parameters, and so is the network: for a job, the hosts the client connects to (the
  URL's, then one per redirect) with what their resolution gives, and the reply at the end. The
  connector consults its \<open>_resolve_host\<close> before every connection, as aiohttp documents; with
  \<open>block_private_networks\<close> that is \<open>safe_resolve_host\<close>.
\<close>

text \<open>An exception: its text, and that of the \<open>BlockedDestinationError\<close> it is or has as its cause.\<close>

record exc =
  ex_text :: string
  ex_blocked :: "string option"

record hop =
  hp_host :: string
  hp_addrs :: "string list option"
  hp_error :: string

datatype reply = No_Response exc | Response nat "byte list list" "exc option"

record exchange =
  xc_hops :: "hop list"
  xc_reply :: reply

text \<open>
  The quarantine: \<open>D.bin\<close> and \<open>D.json\<close> by digest, the temporary files by job id, and, as a trace of
  what left the machine, the jobs for which a request was made and the addresses connected to.
\<close>

record fetch_world =
  fw_bins :: "string \<rightharpoonup> byte list"
  fw_sidecars :: "string \<rightharpoonup> json"
  fw_tmp :: "string \<rightharpoonup> byte list"
  fw_requests :: "job list"
  fw_contacted :: "string list"

definition empty_world :: fetch_world where
  "empty_world = \<lparr>fw_bins = Map.empty, fw_sidecars = Map.empty, fw_tmp = Map.empty, fw_requests = [],
     fw_contacted = []\<rparr>"

subsection \<open>The transfer\<close>

definition resolve_hop :: "bool \<Rightarrow> hop \<Rightarrow> exc + string list" where
  "resolve_hop guarded h =
     (case hp_addrs h of
        None \<Rightarrow> Inl \<lparr>ex_text = hp_error h, ex_blocked = None\<rparr>
      | Some addrs \<Rightarrow>
          if \<not> guarded then Inr addrs
          else case safe_resolve_host (hp_host h) (Some addrs) of
                 Inl (Blocked_Destination t) \<Rightarrow> Inl \<lparr>ex_text = t, ex_blocked = Some t\<rparr>
               | Inl Resolver_Failed \<Rightarrow> Inl \<lparr>ex_text = hp_error h, ex_blocked = None\<rparr>
               | Inr as \<Rightarrow> Inr as)"

fun follow_hops :: "bool \<Rightarrow> hop list \<Rightarrow> exc option \<times> string list" where
  "follow_hops guarded [] = (None, [])"
| "follow_hops guarded (h # hs) =
     (case resolve_hop guarded h of
        Inl e \<Rightarrow> (Some e, [])
      | Inr addrs \<Rightarrow> (case follow_hops guarded hs of (r, further) \<Rightarrow> (r, addrs @ further)))"

text \<open>The chunks as they are written, \<open>None\<close> when they go over the limit.\<close>

fun receive :: "nat \<Rightarrow> byte list list \<Rightarrow> byte list \<Rightarrow> byte list option" where
  "receive limit [] acc = Some acc"
| "receive limit (c # cs) acc =
     (if length acc + length c > limit then None else receive limit cs (acc @ c))"

datatype transferred = Failed exc | Http_Error nat | Body nat "byte list"

definition transfer :: "fetcher_config \<Rightarrow> exchange \<Rightarrow> transferred \<times> string list" where
  "transfer cfg x =
     (case follow_hops (fc_block_private cfg) (xc_hops x) of
        (Some e, contacted) \<Rightarrow> (Failed e, contacted)
      | (None, contacted) \<Rightarrow>
          (case xc_reply x of
             No_Response e \<Rightarrow> Failed e
           | Response status chunks broken \<Rightarrow>
               if status \<ge> 400 then Http_Error status
               else case receive (fc_max_file_size cfg) chunks [] of
                      None \<Rightarrow> Failed \<lparr>ex_text = ''payload exceeded max_file_size_bytes (''
                                @ digits_of (fc_max_file_size cfg) @ '')'', ex_blocked = None\<rparr>
                    | Some body \<Rightarrow> (case broken of Some e \<Rightarrow> Failed e | None \<Rightarrow> Body status body),
           contacted))"

subsection \<open>The quarantine\<close>

definition sidecar ::
  "job \<Rightarrow> string \<Rightarrow> fetch_result \<Rightarrow> json" where
  "sidecar jb stamp fr =
     (let d = fr_detected fr
      in JObj [(''session_id'', JStr (jb_session jb)), (''src_ip'', JStr (jb_src_ip jb)),
        (''url'', JStr (jb_url jb)), (''protocol'', JStr (jb_protocol jb)),
        (''requested_filename'', JStr (jb_filename jb)), (''timestamp'', JFloat stamp),
        (''size_bytes'', JInt (int (fr_size fr))), (''sha256'', j_opt_str (fr_sha256 fr)),
        (''md5'', j_opt_str (fr_md5 fr)),
        (''detected_type'', j_opt_str (map_option file_type d)),
        (''detected_bitness'', j_opt_nat (Option.bind d bitness)),
        (''detected_machine'', j_opt_str (Option.bind d machine)),
        (''detected_endianness'', j_opt_str (Option.bind d endianness)),
        (''detected_flags'', j_opt_nat (map_option unat (Option.bind d flags))),
        (''detected_abi'', j_opt_str (Option.bind d abi)),
        (''arch_mismatch'', j_opt_bool (fr_arch_mismatch fr)),
        (''http_status'', j_opt_nat (fr_http_status fr)), (''depth'', JInt (int (jb_depth jb))),
        (''parent_sha256'', j_opt_str (jb_parent jb))])"

definition captured ::
  "(byte list \<Rightarrow> string) \<Rightarrow> arch option \<Rightarrow> nat \<Rightarrow> byte list \<Rightarrow> string \<Rightarrow> detected \<Rightarrow> fetch_result" where
  "captured md5 persona_arch status body digest det =
     \<lparr>fr_success = True, fr_sha256 = Some digest, fr_md5 = Some (md5 body), fr_size = length body,
      fr_detected = Some det,
      fr_arch_mismatch = (case persona_arch of None \<Rightarrow> None
        | Some a \<Rightarrow> map_option Not (arch_matches_persona det a)),
      fr_quarantine = Some (digest @ ''.bin''), fr_error = None, fr_http_status = Some status,
      fr_stage2_jobs = None, fr_stage2_found = 0, fr_stage2_skipped = 0\<rparr>"

text \<open>
  A finished body: the temporary file becomes \<open>D.bin\<close> unless that exists already, and a new sample
  gets its sidecar. The detector reads what the quarantine then holds.
\<close>

definition store_body ::
  "(byte list \<Rightarrow> string) \<Rightarrow> (byte list \<Rightarrow> string) \<Rightarrow> string \<Rightarrow> arch option \<Rightarrow> job \<Rightarrow> nat \<Rightarrow> byte list
     \<Rightarrow> fetch_world \<Rightarrow> fetch_result result \<times> fetch_world" where
  "store_body sha256 md5 stamp persona_arch jb status body w =
     (let digest = sha256 body; known = (fw_bins w digest \<noteq> None);
          w1 = w\<lparr>fw_tmp := (fw_tmp w)(jb_id jb := None),
                 fw_bins := (if known then fw_bins w else (fw_bins w)(digest \<mapsto> body))\<rparr>
      in case detect (take 64 (the (fw_bins w1 digest))) of
           Inl e \<Rightarrow> (Inl e, w1)
         | Inr det \<Rightarrow>
             (let fr = captured md5 persona_arch status body digest det
              in (Inr fr, if known then w1
                          else w1\<lparr>fw_sidecars := (fw_sidecars w1)(digest \<mapsto> sidecar jb stamp fr)\<rparr>)))"

definition fetch_and_quarantine ::
  "(byte list \<Rightarrow> string) \<Rightarrow> (byte list \<Rightarrow> string) \<Rightarrow> string \<Rightarrow> (job \<Rightarrow> exchange) \<Rightarrow> fetcher_config \<Rightarrow> arch option
     \<Rightarrow> job \<Rightarrow> fetch_world \<Rightarrow> fetch_result result \<times> fetch_world" where
  "fetch_and_quarantine sha256 md5 stamp net cfg persona_arch jb w =
     (let protocol = lower (jb_protocol jb)
      in if protocol \<notin> set (fc_allowed_protocols cfg) then
           (Inr (failed_fetch (''protocol '' @ [CHR 0x27] @ protocol @ [CHR 0x27]
              @ '' not permitted by fetcher config'')), w)
         else if protocol \<notin> {''http'', ''https''} then
           (Inr (failed_fetch (''protocol '' @ [CHR 0x27] @ protocol @ [CHR 0x27] @ '' not yet implemented'')), w)
         else
           (case transfer cfg (net jb) of
              (t, contacted) \<Rightarrow>
                (let w1 = w\<lparr>fw_requests := fw_requests w @ [jb], fw_contacted := fw_contacted w @ contacted\<rparr>
                 in case t of
                      Failed e \<Rightarrow>
                        (Inr (failed_fetch (case ex_blocked e of
                             Some b \<Rightarrow> ''blocked non-public destination: '' @ b | None \<Rightarrow> ex_text e)),
                         w1\<lparr>fw_tmp := (fw_tmp w1)(jb_id jb := None)\<rparr>)
                    | Http_Error status \<Rightarrow>
                        (Inr ((failed_fetch (''HTTP '' @ digits_of status))\<lparr>fr_http_status := Some status\<rparr>), w1)
                    | Body status body \<Rightarrow>
                        store_body sha256 md5 stamp persona_arch jb status body
                          (w1\<lparr>fw_tmp := (fw_tmp w1)(jb_id jb \<mapsto> body)\<rparr>))))"

subsection \<open>What the quarantine holds\<close>

text \<open>
  Every sample is filed under its own digest, within the size limit, with a sidecar; nothing
  temporary is left.
\<close>

definition quarantine_ok :: "(byte list \<Rightarrow> string) \<Rightarrow> nat \<Rightarrow> fetch_world \<Rightarrow> bool" where
  "quarantine_ok sha256 limit w \<longleftrightarrow>
     (\<forall>d body. fw_bins w d = Some body \<longrightarrow> d = sha256 body \<and> length body \<le> limit)
     \<and> dom (fw_sidecars w) = dom (fw_bins w) \<and> fw_tmp w = Map.empty"

lemma receive_spec:
  "receive limit cs acc = Some body \<Longrightarrow> body = acc @ concat cs \<and> (length acc \<le> limit \<longrightarrow> length body \<le> limit)"
  by (induction limit cs acc rule: receive.induct) (auto split: if_splits)

lemma receive_total: "length (acc @ concat cs) \<le> limit \<Longrightarrow> receive limit cs acc = Some (acc @ concat cs)"
  by (induction limit cs acc rule: receive.induct) auto

lemma follow_hops_contacted:
  "follow_hops True hs = (r, contacted) \<Longrightarrow> a \<in> set contacted \<Longrightarrow> \<not> is_blocked_address a"
proof (induction hs arbitrary: r contacted)
  case (Cons h hs)
  then show ?case
    by (auto simp: resolve_hop_def safe_resolve_host_def list_ex_iff
        split: sum.splits prod.splits option.splits resolve_error.splits if_splits)
qed simp

lemma transfer_body:
  assumes "transfer cfg x = (Body status body, contacted)"
  shows "status < 400 \<and> (\<exists>chunks. xc_reply x = Response status chunks None \<and> body = concat chunks)
    \<and> length body \<le> fc_max_file_size cfg"
  using assms by (auto simp: transfer_def dest!: receive_spec
      split: prod.splits option.splits reply.splits if_splits)

lemma detect_some: "\<exists>det. detect bs = Inr det"
  using detect_classifies by blast

lemma store_body_cases:
  assumes "store_body sha256 md5 stamp pa jb status body w = (r, w')"
  obtains det where
    "r = Inr (captured md5 pa status body (sha256 body) det)"
    "detect (take 64 (the (fw_bins w' (sha256 body)))) = Inr det"
    "fw_bins w' = (if fw_bins w (sha256 body) = None then (fw_bins w)(sha256 body \<mapsto> body) else fw_bins w)"
    "dom (fw_sidecars w') = (if fw_bins w (sha256 body) = None then insert (sha256 body) (dom (fw_sidecars w))
       else dom (fw_sidecars w))"
    "fw_tmp w' = (fw_tmp w)(jb_id jb := None)" "fw_requests w' = fw_requests w"
    "fw_contacted w' = fw_contacted w"
proof -
  let ?w1 = "w\<lparr>fw_tmp := (fw_tmp w)(jb_id jb := None), fw_bins :=
      (if fw_bins w (sha256 body) \<noteq> None then fw_bins w else (fw_bins w)(sha256 body \<mapsto> body))\<rparr>"
  obtain det where "detect (take 64 (the (fw_bins ?w1 (sha256 body)))) = Inr det" using detect_some by blast
  with assms that [of det] show thesis
    by (cases "fw_bins w (sha256 body) = None") (auto simp: store_body_def Let_def)
qed

text \<open>What a fetch does, by how it ends.\<close>

lemma fetch_cases:
  assumes "fetch_and_quarantine sha256 md5 stamp net cfg pa jb w = (r, w')"
  obtains (refused) err where "r = Inr (failed_fetch err)" "w' = w"
  | (failed) fr contacted where "r = Inr fr" "\<not> fr_success fr"
      "fw_bins w' = fw_bins w" "fw_sidecars w' = fw_sidecars w"
      "fw_tmp w' = fw_tmp w \<or> fw_tmp w' = (fw_tmp w)(jb_id jb := None)" "fw_requests w' = fw_requests w @ [jb]"
      "snd (transfer cfg (net jb)) = contacted"
      "fw_contacted w' = fw_contacted w @ contacted"
  | (stored) status body contacted det where "transfer cfg (net jb) = (Body status body, contacted)"
      "r = Inr (captured md5 pa status body (sha256 body) det)"
      "detect (take 64 (the (fw_bins w' (sha256 body)))) = Inr det"
      "fw_bins w' = (if fw_bins w (sha256 body) = None then (fw_bins w)(sha256 body \<mapsto> body) else fw_bins w)"
      "dom (fw_sidecars w') = (if fw_bins w (sha256 body) = None then insert (sha256 body) (dom (fw_sidecars w))
         else dom (fw_sidecars w))"
      "fw_tmp w' = (fw_tmp w)(jb_id jb := None)" "fw_requests w' = fw_requests w @ [jb]"
      "fw_contacted w' = fw_contacted w @ contacted"
proof -
  obtain tr contacted where tr: "transfer cfg (net jb) = (tr, contacted)" by fastforce
  consider (not_allowed) "lower (jb_protocol jb) \<notin> set (fc_allowed_protocols cfg)
      \<or> lower (jb_protocol jb) \<notin> {''http'', ''https''}"
    | (allowed) "lower (jb_protocol jb) \<in> set (fc_allowed_protocols cfg)"
      "lower (jb_protocol jb) \<in> {''http'', ''https''}" by blast
  then show thesis
  proof cases
    case not_allowed
    with assms refused show thesis by (auto simp: fetch_and_quarantine_def Let_def split: if_splits)
  next
    case allowed
    let ?w1 = "w\<lparr>fw_requests := fw_requests w @ [jb], fw_contacted := fw_contacted w @ contacted\<rparr>"
    have run: "fetch_and_quarantine sha256 md5 stamp net cfg pa jb w =
      (case tr of
         Failed e \<Rightarrow> (Inr (failed_fetch (case ex_blocked e of
             Some b \<Rightarrow> ''blocked non-public destination: '' @ b | None \<Rightarrow> ex_text e)),
           ?w1\<lparr>fw_tmp := (fw_tmp ?w1)(jb_id jb := None)\<rparr>)
       | Http_Error status \<Rightarrow>
           (Inr ((failed_fetch (''HTTP '' @ digits_of status))\<lparr>fr_http_status := Some status\<rparr>), ?w1)
       | Body status body \<Rightarrow> store_body sha256 md5 stamp pa jb status body
             (?w1\<lparr>fw_tmp := (fw_tmp ?w1)(jb_id jb \<mapsto> body)\<rparr>))"
      using allowed by (simp only: fetch_and_quarantine_def Let_def tr if_False not_not not_True_eq_False prod.case)
    show thesis
    proof (cases tr)
      case (Failed e)
      with assms run failed tr show thesis
        by (auto simp: failed_fetch_def)
    next
      case (Http_Error status)
      with assms run failed tr show thesis by (auto simp: failed_fetch_def)
    next
      case (Body status body)
      with assms run have "store_body sha256 md5 stamp pa jb status body
          (?w1\<lparr>fw_tmp := (fw_tmp ?w1)(jb_id jb \<mapsto> body)\<rparr>) = (r, w')" by simp
      then show thesis
        by (cases rule: store_body_cases) (rule stored [OF tr [unfolded Body]], simp_all)
    qed
  qed
qed

text \<open>The quarantine is kept by every fetch, and no sample is ever changed.\<close>

lemma fetch_quarantine_ok:
  assumes "quarantine_ok sha256 (fc_max_file_size cfg) w"
    and "fetch_and_quarantine sha256 md5 stamp net cfg pa jb w = (r, w')"
  shows "quarantine_ok sha256 (fc_max_file_size cfg) w'"
  using assms(2)
proof (cases rule: fetch_cases)
  case refused
  with assms(1) show ?thesis by simp
next
  case failed
  with assms(1) show ?thesis by (auto simp: quarantine_ok_def)
next
  case (stored status body contacted det)
  have "length body \<le> fc_max_file_size cfg" using transfer_body [OF stored(1)] by simp
  with stored(4-6) assms(1) show ?thesis by (auto simp: quarantine_ok_def split: if_splits)
qed

text \<open>A history of fetches by any sessions, each with what the network did for it.\<close>

fun fetch_history ::
  "(byte list \<Rightarrow> string) \<Rightarrow> (byte list \<Rightarrow> string) \<Rightarrow> string \<Rightarrow> fetcher_config \<Rightarrow> arch option
     \<Rightarrow> (job \<times> exchange) list \<Rightarrow> fetch_world \<Rightarrow> fetch_world" where
  "fetch_history sha256 md5 stamp cfg pa [] w = w"
| "fetch_history sha256 md5 stamp cfg pa ((jb, x) # rest) w =
     fetch_history sha256 md5 stamp cfg pa rest
       (snd (fetch_and_quarantine sha256 md5 stamp (\<lambda>_. x) cfg pa jb w))"

lemma fetch_bins_grow:
  assumes "fetch_and_quarantine sha256 md5 stamp net cfg pa jb w = (r, w')"
  shows "fw_bins w \<subseteq>\<^sub>m fw_bins w'"
  using assms by (cases rule: fetch_cases) (auto simp: map_le_def split: if_splits)

lemma fetch_history_spec:
  assumes "quarantine_ok sha256 (fc_max_file_size cfg) w"
  shows "quarantine_ok sha256 (fc_max_file_size cfg) (fetch_history sha256 md5 stamp cfg pa xs w)
    \<and> fw_bins w \<subseteq>\<^sub>m fw_bins (fetch_history sha256 md5 stamp cfg pa xs w)"
  using assms
proof (induction xs arbitrary: w)
  case (Cons x xs)
  obtain jb ex where x: "x = (jb, ex)" by (cases x)
  obtain r w1 where f: "fetch_and_quarantine sha256 md5 stamp (\<lambda>_. ex) cfg pa jb w = (r, w1)" by fastforce
  from Cons.IH [OF fetch_quarantine_ok [OF Cons.prems f]] fetch_bins_grow [OF f] show ?case
    by (auto simp: x f intro: map_le_trans)
qed simp

text \<open>
  C6. The quarantine is content-addressed and append-only: after any history of fetches every sample
  lies under the digest of its own bytes, is within the size limit and has a sidecar, no temporary
  file is left, and no sample is changed by what comes later, whatever the network does.
\<close>
theorem quarantine_append_only:
  "quarantine_ok sha256 (fc_max_file_size cfg) (fetch_history sha256 md5 stamp cfg pa xs empty_world)
   \<and> fw_bins (fetch_history sha256 md5 stamp cfg pa xs empty_world)
       \<subseteq>\<^sub>m fw_bins (fetch_history sha256 md5 stamp cfg pa ys (fetch_history sha256 md5 stamp cfg pa xs empty_world))"
proof -
  have "quarantine_ok sha256 (fc_max_file_size cfg) empty_world"
    by (simp add: quarantine_ok_def empty_world_def)
  from fetch_history_spec [OF this] fetch_history_spec show ?thesis by blast
qed

text \<open>
  C15. A fetch that reports success has filed exactly the bytes that were served: the quarantine holds
  under the reported digest a sample with that digest (the served bytes themselves unless a sample
  with the same digest was there before), of the reported size, and the file type reported is what
  the detector says of the whole sample.
\<close>
theorem success_means_captured:
  assumes "quarantine_ok sha256 (fc_max_file_size cfg) w"
    and "fetch_and_quarantine sha256 md5 stamp net cfg pa jb w = (Inr fr, w')" and "fr_success fr"
  shows "\<exists>status chunks det. xc_reply (net jb) = Response status chunks None \<and> status < 400
    \<and> fr_sha256 fr = Some (sha256 (concat chunks)) \<and> fr_size fr = length (concat chunks)
    \<and> (\<exists>sample. fw_bins w' (sha256 (concat chunks)) = Some sample \<and> sha256 sample = sha256 (concat chunks)
         \<and> (fw_bins w (sha256 (concat chunks)) = None \<longrightarrow> sample = concat chunks)
         \<and> detect sample = Inr det \<and> fr_detected fr = Some det)"
  using assms(2)
proof (cases rule: fetch_cases)
  case refused
  with assms(3) show ?thesis by (simp add: failed_fetch_def)
next
  case failed
  with assms(3) show ?thesis by simp
next
  case (stored status body contacted det)
  obtain chunks where c: "xc_reply (net jb) = Response status chunks None" "body = concat chunks" "status < 400"
    using transfer_body [OF stored(1)] by blast
  obtain sample where s: "fw_bins w' (sha256 body) = Some sample" "sha256 sample = sha256 body"
    "fw_bins w (sha256 body) = None \<longrightarrow> sample = body"
    using stored(4) assms(1) by (cases "fw_bins w (sha256 body)") (auto simp: quarantine_ok_def)
  have "detect sample = Inr det" using stored(3) s(1) detect_prefix [of sample] by simp
  with stored(2) c s show ?thesis by (auto simp: captured_def)
qed

text \<open>
  C1. With private networks blocked, no fetch connects to an address that the guard refuses, however
  many redirects the server answers with and whatever its names resolve to.
\<close>
theorem never_contacts_blocked:
  assumes "fc_block_private cfg" and "\<forall>a \<in> set (fw_contacted w). \<not> is_blocked_address a"
  shows "\<forall>a \<in> set (fw_contacted (fetch_history sha256 md5 stamp cfg pa xs w)). \<not> is_blocked_address a"
  using assms(2)
proof (induction xs arbitrary: w)
  case (Cons x xs)
  obtain jb ex where x: "x = (jb, ex)" by (cases x)
  obtain r w1 where f: "fetch_and_quarantine sha256 md5 stamp (\<lambda>_. ex) cfg pa jb w = (r, w1)" by fastforce
  have guard: "\<not> is_blocked_address a" if "a \<in> set (snd (transfer cfg ex))" for a
    using that assms(1) follow_hops_contacted
    by (auto simp: transfer_def split: prod.splits option.splits)
  have "\<forall>a \<in> set (fw_contacted w1). \<not> is_blocked_address a"
    using f by (cases rule: fetch_cases) (use Cons.prems guard in auto)
  from Cons.IH [OF this] show ?case by (simp add: x f)
qed simp

lemma success_means_captured_witness:
  "\<exists>w' fr. fetch_and_quarantine (\<lambda>b. ''d'') (\<lambda>b. ''m'') ''0.0''
      (\<lambda>_. \<lparr>xc_hops = [], xc_reply = Response 200 [[104], [105]] None\<rparr>) default_fetcher (Some Riscv64)
      (make_job (''j'', 0) ''s'' ''ip'' ''http://h/a'' ''http'' ''a'' [] 0 None) empty_world = (Inr fr, w')
    \<and> fr_size fr = 2 \<and> fw_bins w' ''d'' = Some [104, 105]"
proof -
  let ?net = "\<lambda>_. \<lparr>xc_hops = [], xc_reply = Response 200 [[104], [105]] None\<rparr> :: exchange"
  let ?job = "make_job (''j'', 0) ''s'' ''ip'' ''http://h/a'' ''http'' ''a'' [] 0 None"
  have t: "transfer default_fetcher (?net ?job) = (Body 200 [104, 105], [])"
    by (simp add: transfer_def default_fetcher_def)
  have "lower ''http'' = ''http''" by code_simp
  then have "\<exists>w' fr. fetch_and_quarantine (\<lambda>b. ''d'') (\<lambda>b. ''m'') ''0.0'' ?net default_fetcher (Some Riscv64) ?job
      empty_world = (Inr fr, w') \<and> fr_success fr"
    using detect_some [of "[104, 105]"] t
    by (auto simp: fetch_and_quarantine_def make_job_def store_body_def empty_world_def Let_def captured_def
        default_fetcher_def)
  then obtain w' fr where f: "fetch_and_quarantine (\<lambda>b. ''d'') (\<lambda>b. ''m'') ''0.0'' ?net default_fetcher
      (Some Riscv64) ?job empty_world = (Inr fr, w')" and ok: "fr_success fr" by blast
  have "quarantine_ok (\<lambda>b. ''d'') (fc_max_file_size default_fetcher) empty_world"
    by (simp add: quarantine_ok_def empty_world_def)
  from success_means_captured [OF this f ok] have "fr_size fr = 2" "fw_bins w' ''d'' = Some [104, 105]"
    by (auto simp: empty_world_def)
  with f show ?thesis by blast
qed

lemma never_contacts_blocked_witness:
  "fw_contacted (fetch_history (\<lambda>b. ''d'') (\<lambda>b. ''m'') ''0.0'' default_fetcher None
     [(make_job (''j'', 0) ''s'' ''ip'' ''http://h/a'' ''http'' ''a'' [] 0 None,
       \<lparr>xc_hops = [\<lparr>hp_host = ''h'', hp_addrs = Some [dotted 8 8 8 8], hp_error = []\<rparr>,
          \<lparr>hp_host = ''i'', hp_addrs = Some [dotted 10 0 0 5], hp_error = []\<rparr>],
        xc_reply = Response 200 [] None\<rparr>)] empty_world) = [dotted 8 8 8 8]
   \<and> \<not> is_blocked_address (dotted 8 8 8 8)"
proof -
  let ?job = "make_job (''j'', 0) ''s'' ''ip'' ''http://h/a'' ''http'' ''a'' [] 0 None"
  let ?x = "\<lparr>xc_hops = [\<lparr>hp_host = ''h'', hp_addrs = Some [dotted 8 8 8 8], hp_error = []\<rparr>,
          \<lparr>hp_host = ''i'', hp_addrs = Some [dotted 10 0 0 5], hp_error = []\<rparr>],
        xc_reply = Response 200 [] None\<rparr> :: exchange"
  let ?w = "fetch_history (\<lambda>b. ''d'') (\<lambda>b. ''m'') ''0.0'' default_fetcher None [(?job, ?x)] empty_world"
  have g: "\<not> is_blocked_address (dotted 8 8 8 8)" "is_blocked_address (dotted 10 0 0 5)"
    by (simp_all add: is_blocked_address_def parse_ip_dotted quad_private refused_quad_def in_net_quad v4_class_defs
        quad_reserved quad_0)
  have l: "lower ''http'' = ''http''" by code_simp
  have c: "fw_contacted ?w = [dotted 8 8 8 8]"
    by (simp add: fetch_and_quarantine_def transfer_def default_fetcher_def make_job_def l empty_world_def Let_def
        resolve_hop_def safe_resolve_host_def g)
  have "fc_block_private default_fetcher" by (simp add: default_fetcher_def)
  from never_contacts_blocked [OF this, of empty_world "\<lambda>b. ''d''" "\<lambda>b. ''m''" "''0.0''" None "[(?job, ?x)]"] c
  show ?thesis by (simp add: empty_world_def)
qed

subsection \<open>The fetcher as the session's service\<close>

text \<open>What is outside the program: digests, network, clock, files and readings.\<close>

record outside =
  os_sha256 :: "byte list \<Rightarrow> string"
  os_md5 :: "byte list \<Rightarrow> string"
  os_stamp :: string
  os_net :: "job \<Rightarrow> exchange"
  os_files :: "string \<rightharpoonup> string"
  os_job_stamp :: "nat \<Rightarrow> string \<times> int"
  os_reads :: "nat \<Rightarrow> nat \<Rightarrow> nat \<Rightarrow> reading"
  os_frames :: nat
  os_child_stamp :: "job \<Rightarrow> nat \<Rightarrow> string \<times> int"
  os_now :: "job \<Rightarrow> int"

text \<open>Opening a quarantined file by the path the fetch reported, \<open>D.bin\<close>.\<close>

definition read_quarantine :: "string option \<Rightarrow> fetch_world \<Rightarrow> byte list option" where
  "read_quarantine path w =
     (case path of None \<Rightarrow> None | Some p \<Rightarrow> if endswith p ''.bin'' then fw_bins w (take (length p - 4) p) else None)"

definition honeypot :: "config \<Rightarrow> outside \<Rightarrow> fetch_world services" where
  "honeypot cfg os =
     \<lparr>sv_fetch = fetch_and_quarantine (os_sha256 os) (os_md5 os) (os_stamp os) (os_net os) (cf_fetcher cfg)
        (Some (p_arch (cf_persona cfg))),
      sv_files = os_files os, sv_stamp = os_job_stamp os, sv_reads = os_reads os, sv_frames = os_frames os,
      sv_child_stamp = os_child_stamp os, sv_now = os_now os, sv_contents = read_quarantine\<rparr>"

interpretation fetcher: fetch_service "honeypot cfg os" fw_requests for cfg os
proof unfold_locales
  fix jb w r w'
  assume "sv_fetch (honeypot cfg os) jb w = (r, w')"
  then have "fetch_and_quarantine (os_sha256 os) (os_md5 os) (os_stamp os) (os_net os) (cf_fetcher cfg)
      (Some (p_arch (cf_persona cfg))) jb w = (r, w')" by (simp add: honeypot_def)
  then show "fw_requests w' = fw_requests w \<or> fw_requests w' = fw_requests w @ [jb]"
    by (cases rule: fetch_cases) auto
qed

text \<open>
  C8. Following a script up always ends, whatever the scripts list and the network serves: the requests
  it makes for one download are fewer than \<open>(U + 1) ^ (D - d)\<close> (\<open>U\<close> URLs per script, \<open>D\<close> the depth limit, \<open>d\<close>
  the depth of the download), none is at depth 0 or below the limit, and each is charged to the session
  that asked: with what the limiter remembers of the session when the run starts (nothing, once 4096
  other sessions have pushed it out), they stay within the session's stage-two budget, however full
  the limiter's tables are.
\<close>
theorem stage2_requests_bounded:
  assumes "run_stage2_inline cfg (honeypot cfg os) [(jb, fr)] s w lim = (s', w', lim')"
  shows "\<exists>new. fw_requests w' = fw_requests w @ new
    \<and> length new < Suc (fc_stage2_max_urls (cf_fetcher cfg)) ^ (fc_stage2_max_depth (cf_fetcher cfg) - jb_depth jb)
    \<and> remembered lim (jb_session jb) + length new
        \<le> max (remembered lim (jb_session jb)) (fc_stage2_max_per_session (cf_fetcher cfg))
    \<and> (\<forall>j \<in> set new. jb_session j = jb_session jb \<and> 0 < jb_depth j
         \<and> jb_depth j \<le> fc_stage2_max_depth (cf_fetcher cfg))"
  using fetcher.run_stage2_requests [OF assms]
  by (fastforce simp: pending_weight_def job_weight_def)

text \<open>A configuration with the defaults and a network on which nothing answers.\<close>

definition example_config :: config where
  "example_config =
     \<lparr>cf_persona = openwrt_persona, cf_fetcher = default_fetcher,
      cf_credentials = \<lparr>cp_accept_any = True, cp_allow_list = [], cp_username_wordlist = None,
        cp_password_wordlist = None, cp_valid_usernames = []\<rparr>,
      cf_listeners = default_listeners\<rparr>"

definition silent_outside :: outside where
  "silent_outside =
     \<lparr>os_sha256 = (\<lambda>b. ''q''), os_md5 = (\<lambda>b. ''m''), os_stamp = ''0.0'',
      os_net = (\<lambda>j. \<lparr>xc_hops = [], xc_reply = No_Response \<lparr>ex_text = ''timeout'', ex_blocked = None\<rparr>\<rparr>),
      os_files = Map.empty, os_job_stamp = (\<lambda>i. ([], 0)), os_reads = (\<lambda>n i. still), os_frames = 900,
      os_child_stamp = (\<lambda>j i. ([], 0)), os_now = (\<lambda>j. 0)\<rparr>"

definition example_session :: session where
  "example_session = new_session example_config [] ''s'' ''1.2.3.4'' 4321 2223 ''telnet'' None"

lemma silent_fetch:
  assumes "lower (jb_protocol j) = ''http''" and "cf_fetcher cfg = default_fetcher"
  shows "sv_fetch (honeypot cfg silent_outside) j w
    = (Inr (failed_fetch ''timeout''), w\<lparr>fw_requests := fw_requests w @ [j], fw_contacted := fw_contacted w @ [],
         fw_tmp := (fw_tmp w)(jb_id j := None)\<rparr>)"
  using assms by (simp add: honeypot_def silent_outside_def fetch_and_quarantine_def transfer_def default_fetcher_def
      Let_def)

lemma stage2_requests_bounded_witness:
  "\<exists>s' w' lim' j. run_stage2_inline example_config (honeypot example_config silent_outside)
       [(example_parent, example_result)] example_session (empty_world\<lparr>fw_bins := [''q'' \<mapsto> example_script]\<rparr>) new_stage2_limiter
     = (s', w', lim') \<and> fw_requests w' = [j] \<and> jb_depth j \<le> 2"
proof -
  let ?sv = "honeypot example_config silent_outside" and ?w = "empty_world\<lparr>fw_bins := [''q'' \<mapsto> example_script]\<rparr>"
  have fc: "cf_fetcher example_config = default_fetcher" by (simp add: example_config_def)
  obtain pl lim1 j where p: "plan_followups (\<lambda>i. ([], 0)) 0 (Some example_script) example_parent example_result
       default_fetcher new_stage2_limiter = (pl, lim1)" and j: "pl_jobs pl = [j]" "jb_protocol j = ''http''"
    using example_plan by blast
  have read: "read_quarantine (fr_quarantine example_result) ?w = Some example_script"
    by (simp add: read_quarantine_def example_result_def endswith_def startswith_def)
  have plan: "plan_for example_config ?sv example_parent example_result ?w new_stage2_limiter = (pl, lim1)"
    using p read by (simp add: plan_for_def honeypot_def silent_outside_def fc)
  have "lower ''http'' = ''http''" by code_simp
  then have sf: "sv_fetch ?sv j w = (Inr (failed_fetch ''timeout''), w\<lparr>fw_requests := fw_requests w @ [j],
      fw_contacted := fw_contacted w @ [], fw_tmp := (fw_tmp w)(jb_id j := None)\<rparr>)" for w
    by (intro silent_fetch) (simp_all add: j fc)
  have again: "plan_for example_config ?sv j (failed_fetch ''timeout'') w lim = (empty_plan, lim)" for w lim
    by (simp add: plan_for_def plan_followups_def failed_fetch_def)
  obtain s' w' lim' where r: "run_stage2_inline example_config ?sv [(example_parent, example_result)] example_session ?w
      new_stage2_limiter = (s', w', lim')" and req: "fw_requests w' = [j]"
    by (simp add: plan j sf again empty_plan_def) (simp add: empty_world_def)
  from stage2_requests_bounded [OF r] have "jb_depth j \<le> 2"
    by (auto simp: req empty_world_def fc default_fetcher_def)
  with r req show ?thesis by blast
qed

lemma example_download: "dispatch ''wget http://h/a'' p u reads frames fs
    = (Inr (no_result\<lparr>cr_download := Some \<lparr>dl_protocol = ''http'', dl_url = ''http://h/a'', dl_filename = ''a''\<rparr>\<rparr>), fs)"
proof -
  have "strip ''wget http://h/a'' = ''wget http://h/a''" "tokenize ''wget http://h/a'' = [''wget'', ''http://h/a'']"
    by code_simp+
  moreover have "parse_download_args ''wget'' [''http://h/a'']
      = Inr (Some \<lparr>dl_protocol = ''http'', dl_url = ''http://h/a'', dl_filename = ''a''\<rparr>)" by code_simp
  ultimately show ?thesis
    by (simp add: dispatch_eq unwrap_busybox_def run_command_def cmd_download_def download_commands_def Let_def)
qed

end
