(* ===== verification/Telnet.thy ===== *)
theory Telnet
  imports Limiter Fetcher
begin

section \<open>The Telnet listener\<close>

text \<open>
  \<open>honeypot/listeners/telnet.py\<close>: the IAC filter, the line reader and one connection from accept to
  close. The client is the list of chunks that successive \<open>reader.read(4096)\<close> calls return and how
  the stream ends: end of file, a reset, or the session time limit, which cancels the reader that
  is waiting. A write always succeeds; a time limit that strikes during a fetch is not modelled.
\<close>

subsection \<open>Option negotiation\<close>

datatype iac_state = Normal | Got_IAC | Got_Cmd | In_Subneg | Subneg_IAC

abbreviation IAC :: byte where "IAC \<equiv> 0xFF"

abbreviation SB :: byte where "SB \<equiv> 0xFA"

abbreviation SE :: byte where "SE \<equiv> 0xF0"

definition negotiation_commands :: "byte list" where
  "negotiation_commands = [0xFB, 0xFC, 0xFD, 0xFE]"

fun feed :: "iac_state \<Rightarrow> byte \<Rightarrow> byte option \<times> iac_state" where
  "feed Normal b = (if b = IAC then (None, Got_IAC) else (Some b, Normal))"
| "feed Got_IAC b =
     (if b = IAC then (Some IAC, Normal)
      else if b \<in> set negotiation_commands then (None, Got_Cmd)
      else if b = SB then (None, In_Subneg)
      else (None, Normal))"
| "feed Got_Cmd b = (None, Normal)"
| "feed In_Subneg b = (None, if b = IAC then Subneg_IAC else In_Subneg)"
| "feed Subneg_IAC b = (None, if b = SE then Normal else In_Subneg)"

subsection \<open>Lines\<close>

definition max_line_bytes :: nat where
  "max_line_bytes = 8192"

datatype scanned_chunk = More | Line "byte list" | Overlong

text \<open>
  The loop over one chunk. When it meets the end of a line it returns at once: the filter and an
  empty buffer are kept, the rest of the chunk is not.
\<close>

fun read_bytes :: "byte list \<Rightarrow> iac_state \<Rightarrow> byte list \<Rightarrow> scanned_chunk \<times> iac_state \<times> byte list" where
  "read_bytes [] iac buf = (More, iac, buf)"
| "read_bytes (b # bs) iac buf =
     (case feed iac b of
        (None, iac') \<Rightarrow> read_bytes bs iac' buf
      | (Some c, iac') \<Rightarrow>
          if c = 0x0A then (Line buf, iac', [])
          else if c = 0x0D then read_bytes bs iac' buf
          else if length buf \<ge> max_line_bytes then (Overlong, iac', buf)
          else read_bytes bs iac' (buf @ [c]))"

datatype ending = Eof | Reset | Time_Limit

text \<open>Why a connection's coroutine stops early.\<close>

datatype stop = Timed_Out | Connection_Lost | Raised pyexn

record client =
  cl_chunks :: "byte list list"
  cl_ending :: ending
  cl_iac :: iac_state
  cl_buf :: "byte list"

definition end_of_input :: "ending \<Rightarrow> stop + string option" where
  "end_of_input e = (case e of Eof \<Rightarrow> Inr None | Reset \<Rightarrow> Inl Connection_Lost | Time_Limit \<Rightarrow> Inl Timed_Out)"

function read_line :: "client \<Rightarrow> session \<Rightarrow> (stop + string option) \<times> client \<times> session" where
  "read_line cl s =
     (case cl_chunks cl of
        [] \<Rightarrow> (end_of_input (cl_ending cl), cl, s)
      | data # chunks \<Rightarrow>
          (let cl1 = cl\<lparr>cl_chunks := chunks\<rparr>
           in if data = [] then (Inr None, cl1, s)
              else case record_io Recv data s of
                     (Inl e, s1) \<Rightarrow> (Inl (Raised e), cl1, s1)
                   | (Inr _, s1) \<Rightarrow>
                       (case read_bytes data (cl_iac cl) (cl_buf cl) of (r, iac, buf) \<Rightarrow>
                          (let cl2 = cl1\<lparr>cl_iac := iac, cl_buf := buf\<rparr>
                           in case r of
                                More \<Rightarrow> read_line cl2 s1
                              | Line l \<Rightarrow> (Inr (Some (utf8_decode l)), cl2, s1)
                              | Overlong \<Rightarrow> (Inr None, cl2, s1)))))"
  by pat_completeness auto
termination by (relation "measure (\<lambda>(cl, s). length (cl_chunks cl))") auto

declare read_line.simps [simp del]

text \<open>\<open>write\<close>: the bytes sent are recorded.\<close>

definition write_text :: "string \<Rightarrow> session \<Rightarrow> unit result \<times> session" where
  "write_text t s = record_io Send (utf8_encode t) s"

lemma read_line_shorter:
  "read_line cl s = (Inr (Some l), cl', s') \<Longrightarrow> length (cl_chunks cl') < length (cl_chunks cl)"
proof (induction cl s rule: read_line.induct)
  case (1 cl s)
  from 1(2) show ?case
    by (subst (asm) read_line.simps)
      (auto simp: Let_def end_of_input_def dest: 1(1)
        split: list.splits if_splits prod.splits sum.splits scanned_chunk.splits ending.splits)
qed

subsection \<open>A connection\<close>

record 'w conn =
  cn_client :: client
  cn_session :: session
  cn_world :: 'w

text \<open>Steps that may stop the coroutine, in sequence.\<close>

type_synonym ('w, 'a) step = "'w conn \<Rightarrow> (stop + 'a) \<times> 'w conn"

definition and_then :: "('w, 'a) step \<Rightarrow> ('a \<Rightarrow> ('w, 'b) step) \<Rightarrow> ('w, 'b) step" where
  "and_then f g c = (case f c of (Inl e, c1) \<Rightarrow> (Inl e, c1) | (Inr x, c1) \<Rightarrow> g x c1)"

definition return_step :: "'a \<Rightarrow> ('w, 'a) step" where
  "return_step x c = (Inr x, c)"

definition send :: "string \<Rightarrow> ('w, unit) step" where
  "send t c =
     (case write_text t (cn_session c) of
        (Inl e, s) \<Rightarrow> (Inl (Raised e), c\<lparr>cn_session := s\<rparr>)
      | (Inr u, s) \<Rightarrow> (Inr u, c\<lparr>cn_session := s\<rparr>))"

definition next_line :: "('w, string option) step" where
  "next_line c =
     (case read_line (cn_client c) (cn_session c) of
        (r, cl, s) \<Rightarrow> (r, c\<lparr>cn_client := cl, cn_session := s\<rparr>))"

text \<open>One of the three login rounds.\<close>

datatype login_result = Gone | Accepted | Refused

definition check_login ::
  "config \<Rightarrow> 'w services \<Rightarrow> string \<Rightarrow> string \<Rightarrow> ('w, login_result) step" where
  "check_login cfg sv username password c =
     (case try_login cfg sv (strip username) (strip password) (cn_session c) of
        (ok, s) \<Rightarrow>
          if ok then (Inr Accepted, c\<lparr>cn_session := s\<rparr>)
          else and_then (send (newline_str @ ''Login incorrect'' @ newline_str))
                 (\<lambda>_. return_step Refused) (c\<lparr>cn_session := s\<rparr>))"

definition login_round :: "config \<Rightarrow> 'w services \<Rightarrow> ('w, login_result) step" where
  "login_round cfg sv =
     and_then (send ''login: '') (\<lambda>_. and_then next_line (\<lambda>u. case u of
         None \<Rightarrow> return_step Gone
       | Some username \<Rightarrow>
           and_then (send ''Password: '') (\<lambda>_. and_then next_line (\<lambda>p. case p of
               None \<Rightarrow> return_step Gone
             | Some password \<Rightarrow> check_login cfg sv username password))))"

fun login_rounds :: "config \<Rightarrow> 'w services \<Rightarrow> nat \<Rightarrow> ('w, login_result) step" where
  "login_rounds cfg sv 0 = return_step Refused"
| "login_rounds cfg sv (Suc n) =
     and_then (login_round cfg sv) (\<lambda>r. if r = Refused then login_rounds cfg sv n else return_step r)"

text \<open>A command line, its reply and the next prompt; \<open>True\<close> when the session goes on.\<close>

definition run_line :: "config \<Rightarrow> 'w services \<Rightarrow> string \<Rightarrow> ('w, bool) step" where
  "run_line cfg sv l c =
     (case handle_command cfg sv l (cn_session c) (cn_world c) of
        (Inl e, s, w) \<Rightarrow> (Inl (Raised e), c\<lparr>cn_session := s, cn_world := w\<rparr>)
      | (Inr output, s, w) \<Rightarrow>
          (let reply = (if output = [] then [] else output @ newline_str)
                 @ (if ss_should_exit s then [] else prompt cfg s)
           in and_then (send reply) (\<lambda>_. return_step (\<not> ss_should_exit s)) (c\<lparr>cn_session := s, cn_world := w\<rparr>)))"

lemma next_line_shorter:
  "next_line c = (Inr (Some l), c') \<Longrightarrow> length (cl_chunks (cn_client c')) < length (cl_chunks (cn_client c))"
  by (auto simp: next_line_def dest: read_line_shorter split: prod.splits)

lemma send_client: "send t c = (r, c') \<Longrightarrow> cn_client c' = cn_client c"
  by (auto simp: send_def split: prod.splits sum.splits)

lemma run_line_client: "run_line cfg sv l c = (r, c') \<Longrightarrow> cn_client c' = cn_client c"
  by (auto simp: run_line_def and_then_def return_step_def Let_def split: prod.splits sum.splits
      dest!: send_client)

function command_loop :: "config \<Rightarrow> 'w services \<Rightarrow> ('w, unit) step" where
  "command_loop cfg sv c =
     (case next_line c of
        (Inl e, c1) \<Rightarrow> (Inl e, c1)
      | (Inr None, c1) \<Rightarrow> (Inr (), c1)
      | (Inr (Some l), c1) \<Rightarrow>
          (case run_line cfg sv l c1 of
             (Inl e, c2) \<Rightarrow> (Inl e, c2)
           | (Inr go, c2) \<Rightarrow> if go then command_loop cfg sv c2 else (Inr (), c2)))"
  by pat_completeness auto
termination
  by (relation "measure (\<lambda>(cfg, sv, c). length (cl_chunks (cn_client c)))")
    (auto dest!: next_line_shorter [OF sym] run_line_client [OF sym])

declare command_loop.simps [simp del]

definition run_session :: "config \<Rightarrow> 'w services \<Rightarrow> ('w, unit) step" where
  "run_session cfg sv c0 =
     and_then (send (banner cfg (cn_session c0))) (\<lambda>_.
       and_then (login_rounds cfg sv 3) (\<lambda>r c.
         if r = Accepted
         then and_then (send (newline_str @ prompt cfg (cn_session c))) (\<lambda>_. command_loop cfg sv) c
         else (Inr (), c))) c0"

text \<open>
  \<open>handle_telnet_connection\<close>: refused at the limiter, or served; the \<open>finally\<close> block runs however the
  coroutine ends. \<open>None\<close> is a connection that never became a session.
\<close>

definition serve ::
  "config \<Rightarrow> 'w services \<Rightarrow> string \<Rightarrow> client \<Rightarrow> session \<Rightarrow> 'w \<Rightarrow> (stop + unit) \<times> 'w conn" where
  "serve cfg sv duration cl s w =
     (let timed = (if cl_ending cl = Time_Limit \<and> lc_max_session_seconds (cf_listeners cfg) \<le> 0
                   then cl\<lparr>cl_ending := Eof\<rparr> else cl)
      in case run_session cfg sv \<lparr>cn_client = timed, cn_session = on_connect s, cn_world = w\<rparr> of
           (r, c) \<Rightarrow>
             (r, c\<lparr>cn_session := on_disconnect duration
                (if r = Inl Timed_Out then ''max_duration_exceeded'' else ''closed'') (cn_session c)\<rparr>))"

definition handle_telnet_connection ::
  "config \<Rightarrow> 'w services \<Rightarrow> string \<Rightarrow> string \<Rightarrow> string \<Rightarrow> string \<Rightarrow> nat \<Rightarrow> byte list list \<Rightarrow> ending \<Rightarrow> 'w \<Rightarrow> limiter
     \<Rightarrow> session option \<times> 'w \<times> limiter" where
  "handle_telnet_connection cfg sv sample sid duration ip port chunks ending w lim =
     (case try_acquire ip lim of
        (False, lim1) \<Rightarrow> (None, w, lim1)
      | (True, lim1) \<Rightarrow>
          (case serve cfg sv duration
                  \<lparr>cl_chunks = chunks, cl_ending = ending, cl_iac = Normal, cl_buf = []\<rparr>
                  (new_session cfg sample sid ip port (lc_telnet_port (cf_listeners cfg)) ''telnet'' None) w of
             (r, c) \<Rightarrow> (Some (cn_session c), cn_world c, release ip lim1)))"

text \<open>
  \<open>_client_connected\<close>, with what the session's constructor and \<open>on_connect\<close> do to the disk: creating the
  transcript and writing the first event can fail (\<open>disk_ok\<close> is false), after the slot was taken and before
  the \<open>try\<close> whose \<open>finally\<close> gives it back. The exception leaves the callback.
\<close>

definition client_connected ::
  "bool \<Rightarrow> config \<Rightarrow> 'w services \<Rightarrow> string \<Rightarrow> string \<Rightarrow> string \<Rightarrow> string \<Rightarrow> nat \<Rightarrow> byte list list \<Rightarrow> ending \<Rightarrow> 'w
     \<Rightarrow> limiter \<Rightarrow> session option result \<times> 'w \<times> limiter" where
  "client_connected disk_ok cfg sv sample sid duration ip port chunks ending w lim =
     (if disk_ok \<or> \<not> fst (try_acquire ip lim)
      then apfst Inr (handle_telnet_connection cfg sv sample sid duration ip port chunks ending w lim)
      else (Inl OSError, w, snd (try_acquire ip lim)))"

text \<open>A slot that is lost this way is not given back: the address is one connection nearer to its cap.\<close>

lemma failed_setup_leaks_slot:
  assumes "limiter_inv lim" and "0 < max_per_ip lim" and "fst (try_acquire ip lim)"
  shows "client_connected False cfg sv sample sid duration ip port chunks ending w lim
      = (Inl OSError, w, snd (try_acquire ip lim))
    \<and> conn_count (snd (try_acquire ip lim)) ip = Suc (conn_count lim ip)"
proof -
  obtain lim1 where "try_acquire ip lim = (True, lim1)" using assms(3) by (cases "try_acquire ip lim") auto
  with try_acquire_spec [OF assms(1) this] assms(2) show ?thesis by (simp add: client_connected_def)
qed

subsection \<open>The invariant of a connection\<close>

definition login_events :: "session \<Rightarrow> event list" where
  "login_events s = filter (\<lambda>e. fst e \<in> {''login.success'', ''login.failed''}) (ss_events s)"

lemma record_io_open:
  assumes "\<not> tr_closed (ss_transcript s)"
  obtains t where "record_io d data s = (Inr (), s\<lparr>ss_transcript := t\<rparr>)" "\<not> tr_closed t"
  using assms by (auto simp: record_io_def transcript_record_def)

lemma login_attempt_type:
  "fst (login_attempt sid u p ok ip ku kp) = (if ok then ''login.success'' else ''login.failed'')"
  by (simp add: login_attempt_def)

lemma command_events_not_login: "e \<in> set command_events \<Longrightarrow> e \<noteq> ''login.success'' \<and> e \<noteq> ''login.failed''
    \<and> e \<noteq> ''session.closed''"
  by (auto simp: command_events_def)

context fetch_service
begin

text \<open>
  \<open>n\<close> login attempts so far at most; the transcript is open and the session not closed; before a login
  succeeds nothing has been requested and no command logged.
\<close>

definition conn_inv :: "config \<Rightarrow> job list \<Rightarrow> nat \<Rightarrow> 'w conn \<Rightarrow> bool" where
  "conn_inv cfg base n c \<longleftrightarrow>
     (let s = cn_session c
      in own_requests cfg base s (cn_world c) \<and> \<not> ss_closed s \<and> \<not> tr_closed (ss_transcript s)
         \<and> (\<forall>e \<in> set (ss_events s). fst e \<noteq> ''session.closed'') \<and> length (login_events s) \<le> n
         \<and> wf_fs (ss_fs s) \<and> (\<forall>(jb, fr) \<in> set (ss_stage2 s). jb_session jb = ss_id s)
         \<and> (if ss_authenticated s
            then \<exists>u p. accepts (sv_files sv) (cf_credentials cfg) u p \<and> ss_username s = Some u
            else requests (cn_world c) = base \<and> (\<forall>e \<in> set (ss_events s). fst e \<notin> set command_events)))"

lemma conn_inv_transcript:
  assumes "conn_inv cfg base n c" and "\<not> tr_closed t"
  shows "conn_inv cfg base n (c\<lparr>cn_session := (cn_session c)\<lparr>ss_transcript := t\<rparr>\<rparr>)"
    and "conn_inv cfg base n (c\<lparr>cn_client := cl, cn_session := (cn_session c)\<lparr>ss_transcript := t\<rparr>\<rparr>)"
  using assms by (auto simp: conn_inv_def own_requests_def login_events_def Let_def split: if_splits)

lemma send_inv:
  assumes "conn_inv cfg base n c" and "send t c = (r, c')"
  shows "conn_inv cfg base n c' \<and> r = Inr () \<and> ss_authenticated (cn_session c') = ss_authenticated (cn_session c)"
proof -
  have "\<not> tr_closed (ss_transcript (cn_session c))" using assms(1) by (simp add: conn_inv_def Let_def)
  then obtain tr where "record_io Send (utf8_encode t) (cn_session c)
      = (Inr (), (cn_session c)\<lparr>ss_transcript := tr\<rparr>)" "\<not> tr_closed tr"
    by (rule record_io_open)
  with assms conn_inv_transcript(1) show ?thesis by (auto simp: send_def write_text_def)
qed

lemma read_line_transcript:
  assumes "read_line cl s = (r, cl', s')" and "\<not> tr_closed (ss_transcript s)"
  shows "\<exists>t. s' = s\<lparr>ss_transcript := t\<rparr> \<and> \<not> tr_closed t \<and> (\<forall>e. r \<noteq> Inl (Raised e))"
  using assms
proof (induction cl s arbitrary: r cl' s' rule: read_line.induct)
  case (1 cl s)
  show ?case
  proof (cases "cl_chunks cl")
    case Nil
    with 1(2,3) show ?thesis
      by (subst (asm) read_line.simps) (auto simp: end_of_input_def split: ending.splits intro: exI [of _ "ss_transcript s"])
  next
    case (Cons data chunks)
    show ?thesis
    proof (cases "data = []")
      case True
      with 1(2,3) Cons show ?thesis
        by (subst (asm) read_line.simps) (auto intro: exI [of _ "ss_transcript s"])
    next
      case False
      obtain t where t: "record_io Recv data s = (Inr (), s\<lparr>ss_transcript := t\<rparr>)" "\<not> tr_closed t"
        using record_io_open [OF 1(3)] by blast
      obtain sc iac buf where b: "read_bytes data (cl_iac cl) (cl_buf cl) = (sc, iac, buf)" by (metis prod_cases3)
      have eq: "(r, cl', s') = (case sc of
            More \<Rightarrow> read_line (cl\<lparr>cl_chunks := chunks, cl_iac := iac, cl_buf := buf\<rparr>) (s\<lparr>ss_transcript := t\<rparr>)
          | Line l \<Rightarrow> (Inr (Some (utf8_decode l)), cl\<lparr>cl_chunks := chunks, cl_iac := iac, cl_buf := buf\<rparr>,
              s\<lparr>ss_transcript := t\<rparr>)
          | Overlong \<Rightarrow> (Inr None, cl\<lparr>cl_chunks := chunks, cl_iac := iac, cl_buf := buf\<rparr>, s\<lparr>ss_transcript := t\<rparr>))"
        using 1(2) by (subst (asm) read_line.simps) (simp add: Cons False t b Let_def)
      show ?thesis
      proof (cases sc)
        case More
        have "\<exists>t'. s' = s\<lparr>ss_transcript := t\<rparr>\<lparr>ss_transcript := t'\<rparr> \<and> \<not> tr_closed t' \<and> (\<forall>e. r \<noteq> Inl (Raised e))"
          using 1(1) [OF Cons refl False t(1) [symmetric] refl b [symmetric] refl refl More, of r cl' s'] eq More t(2)
          by simp
        then show ?thesis by auto
      qed (use eq t(2) in auto)
    qed
  qed
qed

lemma next_line_inv:
  assumes "conn_inv cfg base n c" and "next_line c = (r, c')"
  shows "conn_inv cfg base n c' \<and> (\<forall>e. r \<noteq> Inl (Raised e))
    \<and> ss_authenticated (cn_session c') = ss_authenticated (cn_session c)"
proof -
  obtain cl s where rl: "read_line (cn_client c) (cn_session c) = (r, cl, s)"
    and c': "c' = c\<lparr>cn_client := cl, cn_session := s\<rparr>"
    using assms(2) by (auto simp: next_line_def split: prod.splits)
  have "\<not> tr_closed (ss_transcript (cn_session c))" using assms(1) by (simp add: conn_inv_def Let_def)
  from read_line_transcript [OF rl this] conn_inv_transcript(2) [OF assms(1)] c' show ?thesis by auto
qed


lemma check_login_inv:
  assumes "conn_inv cfg base n c" and "check_login cfg sv u p c = (r, c')"
    and "\<not> ss_authenticated (cn_session c)"
  shows "conn_inv cfg base (Suc n) c' \<and> (\<forall>e. r \<noteq> Inl (Raised e))
    \<and> (ss_authenticated (cn_session c') \<longleftrightarrow> r = Inr Accepted)"
proof -
  obtain ok s where l: "try_login cfg sv (strip u) (strip p) (cn_session c) = (ok, s)" by fastforce
  let ?c = "c\<lparr>cn_session := s\<rparr>"
  have inv: "conn_inv cfg base (Suc n) ?c"
    using assms(1,3) l
    by (auto simp: conn_inv_def try_login_def Let_def login_attempt_type login_events_def own_requests_def
        command_events_def split: if_splits)
  have auth: "ss_authenticated s \<longleftrightarrow> ok" using assms(3) l by (auto simp: try_login_def Let_def)
  show ?thesis
  proof (cases ok)
    case True
    with assms(2) l inv auth show ?thesis by (auto simp: check_login_def)
  next
    case False
    obtain r1 c1 where s1: "send (newline_str @ ''Login incorrect'' @ newline_str) ?c = (r1, c1)" by fastforce
    from send_inv [OF inv s1] assms(2) l False auth s1 show ?thesis
      by (auto simp: check_login_def and_then_def return_step_def)
  qed
qed

lemma login_round_inv:
  assumes "conn_inv cfg base n c" and "login_round cfg sv c = (r, c')" and "\<not> ss_authenticated (cn_session c)"
  shows "conn_inv cfg base (Suc n) c' \<and> (\<forall>e. r \<noteq> Inl (Raised e))
    \<and> (ss_authenticated (cn_session c') \<longleftrightarrow> r = Inr Accepted)"
proof -
  have up: "conn_inv cfg base (Suc n) x" if "conn_inv cfg base n x" for x
    using that by (auto simp: conn_inv_def Let_def)
  obtain r1 c1 where 1: "send ''login: '' c = (r1, c1)" by fastforce
  note i1 = send_inv [OF assms(1) 1]
  obtain r2 c2 where 2: "next_line c1 = (r2, c2)" by fastforce
  note i2 = next_line_inv [OF conjunct1 [OF i1] 2]
  obtain r3 c3 where 3: "send ''Password: '' c2 = (r3, c3)" by fastforce
  note i3 = send_inv [OF conjunct1 [OF i2] 3]
  obtain r4 c4 where 4: "next_line c3 = (r4, c4)" by fastforce
  note i4 = next_line_inv [OF conjunct1 [OF i3] 4]
  consider e where "r2 = Inl e" | "r2 = Inr None" | u e where "r2 = Inr (Some u)" "r4 = Inl e"
    | u where "r2 = Inr (Some u)" "r4 = Inr None" | u p where "r2 = Inr (Some u)" "r4 = Inr (Some p)"
    by (metis not_None_eq sumE)
  then show ?thesis
  proof cases
    case (5 u p)
    then have "check_login cfg sv u p c4 = (r, c')"
      using assms(2) 1 2 3 4 i1 i3 by (simp add: login_round_def and_then_def)
    from check_login_inv [OF conjunct1 [OF i4] this] i1 i2 i3 i4 assms(3) show ?thesis by simp
  qed (use assms(2,3) 1 2 3 4 i1 i2 i3 i4 up in \<open>auto simp: login_round_def and_then_def return_step_def\<close>)
qed

lemma login_rounds_inv:
  assumes "conn_inv cfg base n c" and "login_rounds cfg sv k c = (r, c')" and "\<not> ss_authenticated (cn_session c)"
  shows "conn_inv cfg base (n + k) c' \<and> (\<forall>e. r \<noteq> Inl (Raised e))
    \<and> (ss_authenticated (cn_session c') \<longleftrightarrow> r = Inr Accepted)"
  using assms
proof (induction k arbitrary: n c)
  case 0
  then show ?case by (auto simp: return_step_def)
next
  case (Suc k)
  obtain r1 c1 where 1: "login_round cfg sv c = (r1, c1)" by fastforce
  note i1 = login_round_inv [OF Suc.prems(1) 1 Suc.prems(3)]
  show ?case
  proof (cases "r1 = Inr Refused")
    case True
    with Suc.prems(2) 1 have "login_rounds cfg sv k c1 = (r, c')" by (simp add: and_then_def)
    from Suc.IH [OF conjunct1 [OF i1] this] i1 True show ?thesis by simp
  next
    case False
    have "conn_inv cfg base (n + Suc k) c1" using i1 by (auto simp: conn_inv_def Let_def)
    with Suc.prems(2) 1 i1 False show ?thesis
      by (auto simp: and_then_def return_step_def split: sum.splits if_splits)
  qed
qed

lemma run_line_inv:
  assumes "conn_inv cfg base n c" and "run_line cfg sv l c = (r, c')" and "ss_authenticated (cn_session c)"
  shows "conn_inv cfg base n c' \<and> ss_authenticated (cn_session c')"
proof -
  obtain h s w where h: "handle_command cfg sv l (cn_session c) (cn_world c) = (h, s, w)" by (metis prod_cases3)
  have "own_requests cfg base (cn_session c) (cn_world c)" using assms(1) by (simp add: conn_inv_def Let_def)
  from handle_command_own [OF this h] have same: "same_session (cn_session c) s" and own: "own_requests cfg base s w"
    by auto
  obtain new where new: "ss_events s = ss_events (cn_session c) @ new" "\<forall>e \<in> set new. fst e \<in> set command_events"
    using same by (auto simp: same_session_def)
  have "filter (\<lambda>e. fst e \<in> {''login.success'', ''login.failed''}) new = []"
    using new(2) by (auto simp: filter_empty_conv dest: command_events_not_login)
  then have "login_events s = login_events (cn_session c)" using new(1) by (simp add: login_events_def)
  moreover have "\<forall>e \<in> set (ss_events s). fst e \<noteq> ''session.closed''"
    using new assms(1) by (auto simp: conn_inv_def Let_def dest: command_events_not_login)
  moreover have "\<forall>(jb, fr) \<in> set (ss_stage2 s). jb_session jb = ss_id s"
  proof -
    obtain tasks where "ss_stage2 s = ss_stage2 (cn_session c) @ tasks"
      "\<forall>(jb, fr) \<in> set tasks. jb_session jb = ss_id (cn_session c)" "ss_id s = ss_id (cn_session c)"
      using same by (auto simp: same_session_def)
    with assms(1) show ?thesis by (auto simp: conn_inv_def Let_def)
  qed
  ultimately have inv: "conn_inv cfg base n (c\<lparr>cn_session := s, cn_world := w\<rparr>)"
    using assms(1,3) same own by (auto simp: conn_inv_def Let_def same_session_def)
  have auth: "ss_authenticated s" using same assms(3) by (simp add: same_session_def)
  show ?thesis
  proof (cases h)
    case (Inl e)
    with assms(2) h inv auth show ?thesis by (auto simp: run_line_def)
  next
    case (Inr out)
    let ?reply = "(if out = [] then [] else out @ newline_str) @ (if ss_should_exit s then [] else prompt cfg s)"
    obtain r1 c1 where 1: "send ?reply (c\<lparr>cn_session := s, cn_world := w\<rparr>) = (r1, c1)" by fastforce
    from send_inv [OF inv 1] assms(2) h Inr 1 auth show ?thesis
      by (auto simp: run_line_def and_then_def return_step_def Let_def)
  qed
qed

lemma command_loop_inv:
  assumes "conn_inv cfg base n c" and "command_loop cfg sv c = (r, c')" and "ss_authenticated (cn_session c)"
  shows "conn_inv cfg base n c' \<and> ss_authenticated (cn_session c')"
  using assms
proof (induction "length (cl_chunks (cn_client c))" arbitrary: c rule: less_induct)
  case less
  obtain r1 c1 where 1: "next_line c = (r1, c1)" by fastforce
  note i1 = next_line_inv [OF less.prems(1) 1]
  consider "\<exists>e. r1 = Inl e" | "r1 = Inr None" | l where "r1 = Inr (Some l)"
    by (metis not_None_eq sumE)
  then show ?case
  proof cases
    case (3 l)
    obtain r2 c2 where 2: "run_line cfg sv l c1 = (r2, c2)" by fastforce
    note i2 = run_line_inv [OF conjunct1 [OF i1] 2]
    have shorter: "length (cl_chunks (cn_client c2)) < length (cl_chunks (cn_client c))"
      using next_line_shorter [OF 1 [unfolded 3]] run_line_client [OF 2] by simp
    show ?thesis
    proof (cases "r2 = Inr True")
      case True
      then have "command_loop cfg sv c2 = (r, c')"
        using less.prems(2) 1 2 3 by (subst (asm) command_loop.simps) simp
      with less.hyps [OF shorter] i1 i2 less.prems(3) show ?thesis by simp
    next
      case False
      with less.prems(2,3) 1 2 3 i1 i2 show ?thesis
        by (subst (asm) command_loop.simps) (auto split: sum.splits)
    qed
  qed (use less.prems(2,3) 1 i1 in \<open>(subst (asm) command_loop.simps, auto)+\<close>)
qed

end

context fetch_service
begin

lemma run_session_inv:
  assumes "conn_inv cfg base 0 c" and "run_session cfg sv c = (r, c')" and "\<not> ss_authenticated (cn_session c)"
  shows "conn_inv cfg base 3 c'"
proof -
  have up: "conn_inv cfg base 3 x" if "conn_inv cfg base 0 x" for x
    using that by (auto simp: conn_inv_def Let_def)
  obtain r1 c1 where 1: "send (banner cfg (cn_session c)) c = (r1, c1)" by fastforce
  note i1 = send_inv [OF assms(1) 1]
  obtain r2 c2 where 2: "login_rounds cfg sv 3 c1 = (r2, c2)" by fastforce
  have i2: "conn_inv cfg base 3 c2 \<and> (ss_authenticated (cn_session c2) \<longleftrightarrow> r2 = Inr Accepted)"
    using login_rounds_inv [OF conjunct1 [OF i1] 2] i1 assms(3) by simp
  show ?thesis
  proof (cases "r2 = Inr Accepted")
    case True
    obtain r3 c3 where 3: "send (newline_str @ prompt cfg (cn_session c2)) c2 = (r3, c3)" by fastforce
    note i3 = send_inv [OF conjunct1 [OF i2] 3]
    have "command_loop cfg sv c3 = (r, c')"
      using assms(2) 1 2 3 i1 i3 True by (simp add: run_session_def and_then_def)
    from command_loop_inv [OF conjunct1 [OF i3] this] i2 i3 True show ?thesis by simp
  next
    case False
    with assms(2) 1 2 i1 i2 show ?thesis
      by (auto simp: run_session_def and_then_def split: sum.splits)
  qed
qed

text \<open>A served connection, at the moment its \<open>finally\<close> block is over.\<close>

lemma serve_inv:
  assumes "serve cfg sv duration cl (new_session cfg sample sid ip port dst proto cid) w = (r, c')"
  obtains c reason where "conn_inv cfg (requests w) 3 c"
    and "c' = c\<lparr>cn_session := on_disconnect duration reason (cn_session c)\<rparr>"
    and "reason \<in> {''closed'', ''max_duration_exceeded''}"
proof -
  let ?s = "new_session cfg sample sid ip port dst proto cid"
  have start: "conn_inv cfg (requests w) 0 \<lparr>cn_client = x, cn_session = on_connect ?s, cn_world = w\<rparr>" for x
    by (simp add: conn_inv_def on_connect_def new_session_def own_requests_def login_events_def new_transcript_def
        new_fs_wf command_events_def)
  have auth: "\<not> ss_authenticated (on_connect ?s)" by (simp add: on_connect_def new_session_def)
  obtain x c where run: "run_session cfg sv \<lparr>cn_client = x, cn_session = on_connect ?s, cn_world = w\<rparr> = (r, c)"
    and c': "c' = c\<lparr>cn_session := on_disconnect duration
      (if r = Inl Timed_Out then ''max_duration_exceeded'' else ''closed'') (cn_session c)\<rparr>"
    using assms unfolding serve_def Let_def by (auto split: prod.splits)
  show thesis
    by (rule that [OF run_session_inv [OF start run] c']) (use auth in simp_all)
qed

end

subsection \<open>Any connection, whatever the client sends\<close>

lemma acquire_release_count:
  assumes "limiter_inv lim" and "try_acquire ip lim = (True, lim1)"
  shows "conn_count (release ip lim1) = conn_count lim"
proof (cases "max_per_ip lim \<le> 0")
  case True
  with assms have "lim1 = lim" "conn_count lim ip = 0"
    by (simp_all add: try_acquire_def limiter_inv_def conn_count_def)
  then show ?thesis by (simp add: release_def)
next
  case False
  with try_acquire_spec [OF assms] release_spec(3) show ?thesis by simp
qed

text \<open>A connection that is served, in the terms of the invariant.\<close>

lemma handle_telnet_inv:
  assumes "handle_telnet_connection cfg (honeypot cfg os) sample sid duration ip port chunks ending w lim
      = (Some s, w', lim')"
  obtains c reason where "fetcher.conn_inv cfg os cfg (fw_requests w) 3 c" and "w' = cn_world c"
    and "s = on_disconnect duration reason (cn_session c)"
    and "reason \<in> {''closed'', ''max_duration_exceeded''}"
proof -
  let ?cl = "\<lparr>cl_chunks = chunks, cl_ending = ending, cl_iac = Normal, cl_buf = []\<rparr>"
  let ?s = "new_session cfg sample sid ip port (lc_telnet_port (cf_listeners cfg)) ''telnet'' None"
  obtain r c' where run: "serve cfg (honeypot cfg os) duration ?cl ?s w = (r, c')"
    and out: "s = cn_session c'" "w' = cn_world c'"
    using assms by (auto simp: handle_telnet_connection_def split: prod.splits bool.splits)
  from run show thesis
    by (rule fetcher.serve_inv) (use out that in auto)
qed


text \<open>
  C2. Nothing is run for a client that has not logged in: unless one of its first three attempts was
  accepted by the credential policy, a connection logs no command, no download and no execution attempt, and
  makes no request; and there are never more than three attempts.
\<close>
theorem telnet_login_gate:
  assumes "handle_telnet_connection cfg (honeypot cfg os) sample sid duration ip port chunks ending w lim
      = (Some s, w', lim')"
  shows "length (login_events s) \<le> 3
    \<and> ((\<exists>u p. accepts (os_files os) (cf_credentials cfg) u p \<and> ss_username s = Some u)
       \<or> (fw_requests w' = fw_requests w \<and> (\<forall>e \<in> set (ss_events s). fst e \<notin> set command_events)))"
proof -
  obtain c reason where inv: "fetcher.conn_inv cfg os cfg (fw_requests w) 3 c" and w: "w' = cn_world c"
    and s: "s = on_disconnect duration reason (cn_session c)"
    by (rule handle_telnet_inv [OF assms])
  have files: "sv_files (honeypot cfg os) = os_files os" by (simp add: honeypot_def)
  show ?thesis
    using inv by (auto simp: s w files fetcher.conn_inv_def on_disconnect_def Let_def login_events_def
        command_events_def split: if_splits)
qed

text \<open>
  C7. What one connection can make the machine fetch: at most \<open>max_downloads_per_session\<close> direct downloads,
  however many commands, chained or not, the client types, and after them, however the stage-two tasks
  that it started take turns, at most what is left of the session's stage-two budget. Every request is
  for this session, and it is at depth 0 exactly when it is a direct one.
\<close>
theorem telnet_request_cap:
  assumes "handle_telnet_connection cfg (honeypot cfg os) sample sid duration ip port chunks ending w lim
      = (Some s, w1, lim')"
    and "background cfg (honeypot cfg os) (map start_task (ss_stage2 s), s, w1, stage2) (ts, s2, w2, stage2')"
  shows "\<exists>direct follow. fw_requests w1 = fw_requests w @ direct \<and> fw_requests w2 = fw_requests w @ direct @ follow
    \<and> length direct \<le> fc_max_downloads (cf_fetcher cfg)
    \<and> (\<forall>j \<in> set direct. jb_session j = ss_id s \<and> jb_depth j = 0)
    \<and> remembered stage2 (ss_id s) + length follow
        \<le> max (remembered stage2 (ss_id s)) (fc_stage2_max_per_session (cf_fetcher cfg))
    \<and> (\<forall>j \<in> set follow. jb_session j = ss_id s \<and> 0 < jb_depth j
         \<and> jb_depth j \<le> fc_stage2_max_depth (cf_fetcher cfg))
    \<and> length (direct @ follow)
        \<le> fc_max_downloads (cf_fetcher cfg) + fc_stage2_max_per_session (cf_fetcher cfg)"
proof -
  obtain c reason where inv: "fetcher.conn_inv cfg os cfg (fw_requests w) 3 c" and w: "w1 = cn_world c"
    and s: "s = on_disconnect duration reason (cn_session c)"
    by (rule handle_telnet_inv [OF assms(1)])
  have same: "ss_id s = ss_id (cn_session c)" "ss_stage2 s = ss_stage2 (cn_session c)"
    by (simp_all add: s on_disconnect_def)
  obtain direct where direct: "fw_requests w1 = fw_requests w @ direct"
    "length direct \<le> fc_max_downloads (cf_fetcher cfg)" "\<forall>j \<in> set direct. jb_session j = ss_id s \<and> jb_depth j = 0"
    using inv by (auto simp: w same fetcher.conn_inv_def fetcher.own_requests_def Let_def)
  have "\<forall>(jb, fr) \<in> set (ss_stage2 s). jb_session jb = ss_id s"
    using inv by (auto simp: same fetcher.conn_inv_def Let_def)
  then have tasks: "\<forall>t \<in> set (map start_task (ss_stage2 s)). task_ok cfg (ss_id s) t \<and> ft_children t = []"
    by (auto simp: start_task_def task_ok_def)
  obtain follow where follow: "fw_requests w2 = fw_requests w1 @ follow" "\<forall>j \<in> set follow. follow_job cfg (ss_id s) j"
    "remembered stage2 (ss_id s) + length follow + outstanding ts \<le> remembered stage2' (ss_id s)"
    "remembered stage2' (ss_id s) \<le> max (remembered stage2 (ss_id s)) (fc_stage2_max_per_session (cf_fetcher cfg))"
    using fetcher.background_requests [OF assms(2) tasks] by auto
  have budget: "remembered stage2 (ss_id s) + length follow
      \<le> max (remembered stage2 (ss_id s)) (fc_stage2_max_per_session (cf_fetcher cfg))"
    using follow(3,4) by simp
  moreover have "length (direct @ follow)
      \<le> fc_max_downloads (cf_fetcher cfg) + fc_stage2_max_per_session (cf_fetcher cfg)"
    using budget direct(2) by auto
  moreover have "\<forall>j \<in> set follow. jb_session j = ss_id s \<and> 0 < jb_depth j
      \<and> jb_depth j \<le> fc_stage2_max_depth (cf_fetcher cfg)" using follow(2) by (simp add: follow_job_def)
  moreover have "fw_requests w2 = fw_requests w @ direct @ follow" using direct(1) follow(1) by simp
  ultimately show ?thesis using direct by blast
qed

subsection \<open>What the reader makes of the bytes\<close>

text \<open>A Telnet client's stream: data, and negotiation that is to be discarded.\<close>

datatype telnet_item = Datum byte | Negotiate byte byte | Subneg "byte list" | Command byte

fun encode_item :: "telnet_item \<Rightarrow> byte list" where
  "encode_item (Datum b) = (if b = IAC then [IAC, IAC] else [b])"
| "encode_item (Negotiate c opt) = [IAC, c, opt]"
| "encode_item (Subneg p) = [IAC, SB] @ p @ [IAC, SE]"
| "encode_item (Command c) = [IAC, c]"

fun ok_telnet_item :: "telnet_item \<Rightarrow> bool" where
  "ok_telnet_item (Datum b) = (b \<noteq> 0x0A)"
| "ok_telnet_item (Negotiate c opt) = (c \<in> set negotiation_commands)"
| "ok_telnet_item (Subneg p) = (IAC \<notin> set p)"
| "ok_telnet_item (Command c) = (c \<notin> set (IAC # SB # negotiation_commands))"

fun data_of :: "telnet_item \<Rightarrow> byte list" where
  "data_of (Datum b) = (if b = 0x0D then [] else [b])"
| "data_of _ = []"

lemma read_bytes_append:
  "read_bytes (xs @ ys) iac buf =
     (case read_bytes xs iac buf of (More, iac', buf') \<Rightarrow> read_bytes ys iac' buf' | r \<Rightarrow> r)"
  by (induction xs iac buf rule: read_bytes.induct) (auto split: prod.splits option.splits)

lemma read_subneg:
  "IAC \<notin> set p \<Longrightarrow> read_bytes (p @ [IAC, SE]) In_Subneg buf = (More, Normal, buf)"
  by (induction p) auto

lemma read_item:
  assumes "ok_telnet_item it" and "length (buf @ data_of it) \<le> max_line_bytes"
  shows "read_bytes (encode_item it) Normal buf = (More, Normal, buf @ data_of it)"
proof (cases it)
  case (Datum b)
  with assms show ?thesis by (cases "b = IAC"; cases "b = 0x0D") auto
next
  case (Negotiate c opt)
  then have "c \<noteq> IAC" using assms by (auto simp: negotiation_commands_def)
  with Negotiate assms show ?thesis by simp
next
  case (Subneg p)
  moreover have "SB \<noteq> IAC" "SB \<notin> set negotiation_commands" by (simp_all add: negotiation_commands_def)
  ultimately show ?thesis using assms read_subneg by simp
next
  case (Command c)
  with assms show ?thesis by simp
qed

lemma read_items:
  assumes "list_all ok_telnet_item items" and "length (buf @ concat (map data_of items)) \<le> max_line_bytes"
  shows "read_bytes (concat (map encode_item items)) Normal buf
    = (More, Normal, buf @ concat (map data_of items))"
  using assms
proof (induction items arbitrary: buf)
  case (Cons it items)
  then have "read_bytes (encode_item it) Normal buf = (More, Normal, buf @ data_of it)"
    by (intro read_item) simp_all
  with Cons show ?case by (simp add: read_bytes_append)
qed simp

text \<open>The reader over chunks does what it does over the whole text, if the line ends with a chunk.\<close>

lemma read_line_chunks:
  assumes "concat pieces = body @ [0x0A]" and "[] \<notin> set pieces"
    and "read_bytes body (cl_iac cl) (cl_buf cl) = (More, Normal, l)"
    and "cl_chunks cl = pieces @ rest" and "\<not> tr_closed (ss_transcript s)"
  shows "\<exists>t. \<not> tr_closed t \<and> read_line cl s =
    (Inr (Some (utf8_decode l)), cl\<lparr>cl_chunks := rest, cl_iac := Normal, cl_buf := []\<rparr>, s\<lparr>ss_transcript := t\<rparr>)"
  using assms
proof (induction pieces arbitrary: body cl s)
  case Nil
  then show ?case by simp
next
  case (Cons p pieces)
  obtain t where t: "record_io Recv p s = (Inr (), s\<lparr>ss_transcript := t\<rparr>)" "\<not> tr_closed t"
    using record_io_open [OF Cons.prems(5)] by blast
  have ne: "p \<noteq> []" using Cons.prems(2) by auto
  show ?case
  proof (cases "pieces = []")
    case True
    then have "read_bytes p (cl_iac cl) (cl_buf cl) = (Line l, Normal, [])"
      using Cons.prems(1,3) by (simp add: read_bytes_append)
    with Cons.prems(4) t ne True show ?thesis
      by (subst read_line.simps) (auto simp: Let_def)
  next
    case False
    then have last: "concat pieces \<noteq> []" using Cons.prems(2) by (cases pieces) auto
    then obtain body' where b: "body = p @ body'" "concat pieces = body' @ [0x0A]"
      using Cons.prems(1) by (metis (no_types, opaque_lifting) append_butlast_last_id butlast_append concat.simps(2)
          last_appendR last_snoc butlast_snoc)
    obtain iac1 buf1 where p: "read_bytes p (cl_iac cl) (cl_buf cl) = (More, iac1, buf1)"
      "read_bytes body' iac1 buf1 = (More, Normal, l)"
      using Cons.prems(3) b(1) by (auto simp: read_bytes_append split: prod.splits scanned_chunk.splits)
    let ?cl = "cl\<lparr>cl_chunks := pieces @ rest, cl_iac := iac1, cl_buf := buf1\<rparr>"
    have "\<exists>t'. \<not> tr_closed t' \<and> read_line ?cl (s\<lparr>ss_transcript := t\<rparr>) = (Inr (Some (utf8_decode l)),
        ?cl\<lparr>cl_chunks := rest, cl_iac := Normal, cl_buf := []\<rparr>, s\<lparr>ss_transcript := t\<rparr>\<lparr>ss_transcript := t'\<rparr>)"
      using Cons.prems(2) b(2) p(2) t(2) by (intro Cons.IH) auto
    moreover have "read_line cl s = read_line ?cl (s\<lparr>ss_transcript := t\<rparr>)"
      using Cons.prems(4) t(1) ne p(1) by (subst read_line.simps) (simp add: Let_def)
    ultimately show ?thesis by auto
  qed
qed

text \<open>
  C33. A line arrives whole: data bytes doubled where they are IAC, with option negotiation, subnegotiation and
  commands anywhere between them and cut into chunks at any byte, are read back as exactly those bytes
  (carriage returns dropped) decoded as UTF-8, if the line is within the limit and ends its chunk.
\<close>
theorem telnet_line_roundtrip:
  assumes "list_all ok_telnet_item items" and "length (concat (map data_of items)) \<le> max_line_bytes"
    and "concat pieces = concat (map encode_item items) @ [0x0A]" and "[] \<notin> set pieces"
    and "cl_iac cl = Normal" and "cl_buf cl = []" and "cl_chunks cl = pieces @ rest"
    and "\<not> tr_closed (ss_transcript s)"
  shows "fst (read_line cl s) = Inr (Some (utf8_decode (concat (map data_of items))))
    \<and> fst (snd (read_line cl s)) = cl\<lparr>cl_chunks := rest\<rparr>"
proof -
  have "read_bytes (concat (map encode_item items)) (cl_iac cl) (cl_buf cl)
      = (More, Normal, concat (map data_of items))"
    using read_items [OF assms(1), of "[]"] assms(2,5,6) by simp
  from read_line_chunks [OF assms(3,4) this assms(7,8)] assms(5,6) show ?thesis by fastforce
qed

text \<open>
  C38. What a client sends after the end of a line in the same chunk is lost: the reader returns, and leaves the
  client, exactly as if the chunk had stopped there, whatever the rest of it was. A client that pipelines its
  user name, password and commands is heard only up to the first line of each read.
\<close>
theorem telnet_pipelined_input_lost:
  assumes "read_bytes line iac buf = (More, iac1, l)" and "feed iac1 b = (Some 0x0A, iac2)"
    and "\<not> tr_closed (ss_transcript s)"
  shows "fst (read_line \<lparr>cl_chunks = (line @ b # lost) # rest, cl_ending = e, cl_iac = iac, cl_buf = buf\<rparr> s)
      = Inr (Some (utf8_decode l))
    \<and> fst (snd (read_line \<lparr>cl_chunks = (line @ b # lost) # rest, cl_ending = e, cl_iac = iac, cl_buf = buf\<rparr> s))
      = \<lparr>cl_chunks = rest, cl_ending = e, cl_iac = iac2, cl_buf = []\<rparr>"
proof -
  obtain t where "record_io Recv (line @ b # lost) s = (Inr (), s\<lparr>ss_transcript := t\<rparr>)"
    using record_io_open [OF assms(3)] by blast
  moreover have "read_bytes (line @ b # lost) iac buf = (Line l, iac2, [])"
    using assms(1,2) by (simp add: read_bytes_append)
  ultimately show ?thesis by (subst (1 2) read_line.simps) (simp add: Let_def)
qed

lemma example_session_open: "\<not> tr_closed (ss_transcript example_session)"
  by (simp add: example_session_def new_session_def new_transcript_def)

lemma telnet_line_roundtrip_witness:
  "fst (read_line \<lparr>cl_chunks = [[0x68, 0xFF], [0xFD, 0x01, 0x69, 0x0A]], cl_ending = Eof, cl_iac = Normal,
      cl_buf = []\<rparr> example_session) = Inr (Some (utf8_decode [0x68, 0x69]))"
proof -
  let ?items = "[Datum 0x68, Negotiate 0xFD 0x01, Datum 0x69]"
  have "list_all ok_telnet_item ?items" by (simp add: negotiation_commands_def)
  moreover have "length (concat (map data_of ?items)) \<le> max_line_bytes" by (simp add: max_line_bytes_def)
  ultimately show ?thesis
    using telnet_line_roundtrip [of ?items "[[0x68, 0xFF], [0xFD, 0x01, 0x69, 0x0A]]"
        "\<lparr>cl_chunks = [[0x68, 0xFF], [0xFD, 0x01, 0x69, 0x0A]], cl_ending = Eof, cl_iac = Normal, cl_buf = []\<rparr>"
        "[]" example_session] example_session_open by simp
qed

lemma telnet_pipelined_input_lost_witness:
  "fst (snd (read_line \<lparr>cl_chunks = [[0x72, 0x0A, 0x70, 0x0A]], cl_ending = Eof, cl_iac = Normal, cl_buf = []\<rparr>
      example_session)) = \<lparr>cl_chunks = [], cl_ending = Eof, cl_iac = Normal, cl_buf = []\<rparr>"
  using telnet_pipelined_input_lost [of "[0x72]" Normal "[]" Normal "[0x72]" "0x0A" Normal example_session
      "[0x70, 0x0A]" "[]" Eof] example_session_open
  by (simp add: max_line_bytes_def)

subsection \<open>An example connection\<close>

text \<open>A bot that logs in, asks for one download and hangs up.\<close>

definition example_input :: "byte list list" where
  "example_input = map (\<lambda>l. map (\<lambda>c. of_nat (of_char c)) (l @ newline_str)) [''root'', ''x'', ''wget http://h/a'']"

lemma example_input_eq:
  "example_input = [[114, 111, 111, 116, 10], [120, 10], [119, 103, 101, 116, 32, 104, 116, 116, 112, 58, 47, 47, 104, 47, 97, 10]]"
  by (simp add: example_input_def newline_str_def)

lemma example_connection:
  "\<exists>s w' lim'. handle_telnet_connection example_config (honeypot example_config silent_outside) [] ''s'' ''1.0''
     ''1.2.3.4'' 4321 example_input Eof empty_world (new_limiter 8) = (Some s, w', lim')
   \<and> length (fw_requests w') = 1"
proof -
  have dec: "utf8_decode [114, 111, 111, 116] = ''root''" "utf8_decode [120] = ''x''"
    "utf8_decode [119, 103, 101, 116, 32, 104, 116, 116, 112, 58, 47, 47, 104, 47, 97] = ''wget http://h/a''"
    by code_simp+
  have strip: "strip ''root'' = ''root''" "strip ''x'' = ''x''" by code_simp+
  have seg: "line_segments ''wget http://h/a'' = [('';'', ''wget http://h/a'')]" by code_simp
  have l: "lower ''http'' = ''http''" by code_simp
  have acq: "try_acquire ''1.2.3.4'' (new_limiter 8) = (True, (new_limiter 8)\<lparr>counts := [''1.2.3.4'' \<mapsto> 1]\<rparr>)"
    by (simp add: try_acquire_def new_limiter_def conn_count_def)
  have sf: "jb_protocol j = ''http'' \<Longrightarrow> sv_fetch (honeypot example_config silent_outside) j w
    = (Inr (failed_fetch ''timeout''), w\<lparr>fw_requests := fw_requests w @ [j], fw_contacted := fw_contacted w @ [],
         fw_tmp := (fw_tmp w)(jb_id j := None)\<rparr>)" for j w
    by (rule silent_fetch) (simp_all add: l example_config_def)
  have cfg: "accepts f (cf_credentials example_config) u v" "fc_max_downloads (cf_fetcher example_config) = 20"
    for f u v by (simp_all add: accepts_def example_config_def default_fetcher_def)
  have parts: "netloc_or_url ''http://h/a'' = Inr ''h''" by code_simp
  show ?thesis
    unfolding handle_telnet_connection_def acq prod.case bool.case example_input_eq
    by (simp add: serve_def run_session_def and_then_def return_step_def send_def write_text_def record_io_def
        transcript_record_def next_line_def read_line.simps command_loop.simps login_round_def check_login_def
        numeral_3_eq_3 max_line_bytes_def dec strip new_session_def on_connect_def new_transcript_def
        try_login_def cfg end_of_input_def Let_def run_line_def handle_command_def seg skipped_def
        run_segment_def begin_segment_def example_download no_result_def log_attempt_def begin_download_def
        log_command_def sf make_job_def finish_download_def start_stage2_def render_download_response_def parts
        failed_fetch_def empty_world_def)
qed


lemma telnet_login_gate_witness:
  "\<exists>s w' lim' u. handle_telnet_connection example_config (honeypot example_config silent_outside) [] ''s'' ''1.0''
     ''1.2.3.4'' 4321 example_input Eof empty_world (new_limiter 8) = (Some s, w', lim')
   \<and> ss_username s = Some u \<and> length (login_events s) \<le> 3"
proof -
  obtain s w' lim' where h: "handle_telnet_connection example_config (honeypot example_config silent_outside) [] ''s''
      ''1.0'' ''1.2.3.4'' 4321 example_input Eof empty_world (new_limiter 8) = (Some s, w', lim')"
    and r: "length (fw_requests w') = 1"
    using example_connection by blast
  have "fw_requests w' \<noteq> fw_requests empty_world" using r by (auto simp: empty_world_def)
  with telnet_login_gate [OF h] obtain u where "ss_username s = Some u" "length (login_events s) \<le> 3" by blast
  with h show ?thesis by blast
qed

lemma telnet_request_cap_witness:
  "\<exists>s w' lim' j. handle_telnet_connection example_config (honeypot example_config silent_outside) [] ''s'' ''1.0''
     ''1.2.3.4'' 4321 example_input Eof empty_world (new_limiter 8) = (Some s, w', lim')
   \<and> fw_requests w' = [j] \<and> jb_session j = ss_id s"
proof -
  obtain s w' lim' where h: "handle_telnet_connection example_config (honeypot example_config silent_outside) [] ''s''
      ''1.0'' ''1.2.3.4'' 4321 example_input Eof empty_world (new_limiter 8) = (Some s, w', lim')"
    and r: "length (fw_requests w') = 1"
    using example_connection by blast
  from r obtain j where j: "fw_requests w' = [j]" by (metis One_nat_def length_0_conv length_Suc_conv)
  have "background example_config (honeypot example_config silent_outside)
      (map start_task (ss_stage2 s), s, w', new_stage2_limiter) (map start_task (ss_stage2 s), s, w', new_stage2_limiter)"
    by (rule background.idle)
  from telnet_request_cap [OF h this] have "jb_session j = ss_id s" by (auto simp: j empty_world_def)
  with h j show ?thesis by blast
qed

end
