(* ===== verification/Job_Queue.thy ===== *)
theory Job_Queue
  imports Fetcher "HOL-Library.Char_ord" "HOL-Library.List_Lexorder" "HOL-Library.Multiset"
begin

section \<open>The job queue, the worker and the queued mode\<close>

text \<open>
  \<open>honeypot/fetcher/queue.py\<close>, \<open>honeypot/fetcher/worker.py\<close> and the queued side of the session manager. The
  jobs directory is its four kinds of file, each by job id: temporary job files, published jobs, the
  claimed jobs in \<open>.processing\<close>, and the results there. A rename is one step. The JSON
  in the files is the subject of \<open>Job_Files\<close>.
\<close>

record jobs_dir =
  jd_tmp :: "(string \<times> job) list"
  jd_pending :: "(string \<times> job) list"
  jd_processing :: "(string \<times> job) list"
  jd_results :: "(string \<times> fetch_result) list"

definition empty_dir :: jobs_dir where
  "empty_dir = \<lparr>jd_tmp = [], jd_pending = [], jd_processing = [], jd_results = []\<rparr>"

subsection \<open>Putting a job in, taking jobs out\<close>

definition write_job :: "job \<Rightarrow> jobs_dir \<Rightarrow> jobs_dir" where
  "write_job j d = d\<lparr>jd_tmp := AList.update (jb_id j) j (jd_tmp d)\<rparr>"

definition publish_job :: "string \<Rightarrow> jobs_dir \<Rightarrow> jobs_dir" where
  "publish_job jid d =
     (case map_of (jd_tmp d) jid of
        None \<Rightarrow> d
      | Some j \<Rightarrow> d\<lparr>jd_tmp := AList.delete jid (jd_tmp d), jd_pending := AList.update jid j (jd_pending d)\<rparr>)"

definition enqueue_job :: "job \<Rightarrow> jobs_dir \<Rightarrow> jobs_dir" where
  "enqueue_job j d = publish_job (jb_id j) (write_job j d)"

text \<open>One \<open>rename\<close> of the claim loop; \<open>None\<close> is the \<open>OSError\<close> of a job that is gone.\<close>

definition claim_one :: "string \<Rightarrow> jobs_dir \<Rightarrow> (string \<times> job) option \<times> jobs_dir" where
  "claim_one jid d =
     (case map_of (jd_pending d) jid of
        None \<Rightarrow> (None, d)
      | Some j \<Rightarrow> (Some (jid, j), d\<lparr>jd_pending := AList.delete jid (jd_pending d),
                                   jd_processing := AList.update jid j (jd_processing d)\<rparr>))"

fun claim_names :: "string list \<Rightarrow> jobs_dir \<Rightarrow> (string \<times> job) list \<times> jobs_dir" where
  "claim_names [] d = ([], d)"
| "claim_names (n # ns) d =
     (case claim_one n d of (c, d1) \<Rightarrow>
        (case claim_names ns d1 of (cs, d2) \<Rightarrow> ((case c of None \<Rightarrow> cs | Some x \<Rightarrow> x # cs), d2)))"

definition pending_names :: "jobs_dir \<Rightarrow> string list" where
  "pending_names d = sort (map fst (jd_pending d))"

definition claim_pending_jobs :: "jobs_dir \<Rightarrow> (string \<times> job) list \<times> jobs_dir" where
  "claim_pending_jobs d = claim_names (pending_names d) d"

subsection \<open>The worker\<close>

text \<open>The result that goes into the file, with what the planner found.\<close>

definition job_answer :: "fetch_result \<Rightarrow> plan \<Rightarrow> fetch_result" where
  "job_answer fr pl =
     fr\<lparr>fr_stage2_jobs := (if pl_jobs pl = [] then None else Some (pl_jobs pl)),
        fr_stage2_found := pl_found pl, fr_stage2_skipped := pl_skipped pl\<rparr>"

text \<open>One claimed job: fetched, its follow-ups planned, its result written, the follow-ups queued.\<close>

definition process_job ::
  "config \<Rightarrow> 'w services \<Rightarrow> string \<times> job \<Rightarrow> jobs_dir \<Rightarrow> 'w \<Rightarrow> stage2_limiter
     \<Rightarrow> unit result \<times> jobs_dir \<times> 'w \<times> stage2_limiter" where
  "process_job cfg sv c d w lim =
     (case sv_fetch sv (snd c) w of
        (Inl e, w1) \<Rightarrow> (Inl e, d, w1, lim)
      | (Inr fr, w1) \<Rightarrow>
          (case plan_for cfg sv (snd c) fr w1 lim of
             (pl, lim1) \<Rightarrow>
               (let d1 = d\<lparr>jd_results := AList.update (fst c) (job_answer fr pl) (jd_results d)\<rparr>
                in (Inr (), fold enqueue_job (pl_jobs pl) d1, w1, lim1))))"

fun process_jobs ::
  "config \<Rightarrow> 'w services \<Rightarrow> (string \<times> job) list \<Rightarrow> nat \<Rightarrow> jobs_dir \<Rightarrow> 'w \<Rightarrow> stage2_limiter
     \<Rightarrow> nat result \<times> jobs_dir \<times> 'w \<times> stage2_limiter" where
  "process_jobs cfg sv [] n d w lim = (Inr n, d, w, lim)"
| "process_jobs cfg sv (c # cs) n d w lim =
     (case process_job cfg sv c d w lim of
        (Inl e, d1, w1, lim1) \<Rightarrow> (Inl e, d1, w1, lim1)
      | (Inr _, d1, w1, lim1) \<Rightarrow> process_jobs cfg sv cs (Suc n) d1 w1 lim1)"

definition process_pending ::
  "config \<Rightarrow> 'w services \<Rightarrow> jobs_dir \<Rightarrow> 'w \<Rightarrow> stage2_limiter
     \<Rightarrow> nat result \<times> jobs_dir \<times> 'w \<times> stage2_limiter" where
  "process_pending cfg sv d w lim =
     (case claim_pending_jobs d of (cs, d1) \<Rightarrow> process_jobs cfg sv cs 0 d1 w lim)"

subsection \<open>The session's side\<close>

text \<open>
  What a poll of \<open>.processing\<close> finds for a job id: no file, a file that is not readable JSON, a result,
  or something that raises: JSON of another shape, a text that does not decode, a null byte in the name.
  \<open>polls\<close> are the polls that fall before the deadline. An exception ends the task.
\<close>

datatype poll = Missing | Unreadable | Loaded fetch_result | Malformed pyexn

fun fetch_via_queue :: "(string \<Rightarrow> poll) list \<Rightarrow> job \<Rightarrow> fetch_result result" where
  "fetch_via_queue [] j = Inr (failed_fetch ''timed out waiting for isolated fetcher'')"
| "fetch_via_queue (p # polls) j =
     (case p (jb_id j) of Loaded fr \<Rightarrow> Inr fr | Malformed e \<Rightarrow> Inl e | _ \<Rightarrow> fetch_via_queue polls j)"

text \<open>A job id that comes back in a result is untrusted: it must be the name of a file.\<close>

definition safe_job_id :: "string \<Rightarrow> bool" where
  "safe_job_id jid \<longleftrightarrow> jid \<noteq> [] \<and> posix_name jid = jid \<and> jid \<notin> set [''.'', ''..'']"

type_synonym awaited = "string \<times> string option \<times> job"

definition poll_child :: "(string \<Rightarrow> poll) \<Rightarrow> job \<Rightarrow> fetch_result option result" where
  "poll_child p info =
     (if safe_job_id (jb_id info)
      then (case p (jb_id info) of Loaded fr \<Rightarrow> Inr (Some fr) | Malformed e \<Rightarrow> Inl e | _ \<Rightarrow> Inr None)
      else Inr (Some (failed_fetch ''invalid follow-up job id'')))"

definition children_of :: "fetch_result \<Rightarrow> job list" where
  "children_of fr = (case fr_stage2_jobs fr of None \<Rightarrow> [] | Some js \<Rightarrow> js)"

definition log_answer :: "awaited \<Rightarrow> fetch_result \<Rightarrow> session \<Rightarrow> session" where
  "log_answer a fr s =
     (case a of (pu, ps, info) \<Rightarrow>
        log_stage2_scan (jb_url info) (fr_sha256 fr) (jb_depth info) (fr_stage2_found fr)
          (length (children_of fr)) (fr_stage2_skipped fr) (log_stage2_outcome info pu ps fr s))"

definition awaited_children :: "awaited \<Rightarrow> fetch_result \<Rightarrow> awaited list" where
  "awaited_children a fr = map (\<lambda>g. (jb_url (snd (snd a)), fr_sha256 fr, g)) (children_of fr)"

text \<open>
  One pass over the pending follow-ups. The first list of the result holds those that are still pending;
  after an exception it holds the ones that nothing was logged for.
\<close>

fun collect_round ::
  "(string \<Rightarrow> poll) \<Rightarrow> awaited list \<Rightarrow> awaited list \<Rightarrow> session \<Rightarrow> unit result \<times> awaited list \<times> session" where
  "collect_round p [] waiting s = (Inr (), waiting, s)"
| "collect_round p (a # as) waiting s =
     (case poll_child p (snd (snd a)) of
        Inl e \<Rightarrow> (Inl e, waiting @ a # as, s)
      | Inr None \<Rightarrow> collect_round p as (waiting @ [a]) s
      | Inr (Some fr) \<Rightarrow> collect_round p as (waiting @ awaited_children a fr) (log_answer a fr s))"

fun collect_rounds ::
  "(string \<Rightarrow> poll) list \<Rightarrow> awaited list \<Rightarrow> session \<Rightarrow> unit result \<times> awaited list \<times> session" where
  "collect_rounds [] pending s = (Inr (), pending, s)"
| "collect_rounds (p # polls) pending s =
     (if pending = [] then (Inr (), [], s)
      else case collect_round p pending [] s of
             (Inl e, waiting, s1) \<Rightarrow> (Inl e, waiting, s1)
           | (Inr _, waiting, s1) \<Rightarrow> collect_rounds polls waiting s1)"

fun log_timeouts :: "awaited list \<Rightarrow> session \<Rightarrow> session" where
  "log_timeouts [] s = s"
| "log_timeouts ((pu, ps, info) # as) s =
     log_timeouts as (log_stage2_outcome info pu ps (failed_fetch ''timed out waiting for isolated fetcher'') s)"

definition collect_stage2_queued ::
  "(string \<Rightarrow> poll) list \<Rightarrow> job \<Rightarrow> fetch_result \<Rightarrow> session \<Rightarrow> unit result \<times> session" where
  "collect_stage2_queued polls jb fr s =
     (case collect_rounds polls (map (\<lambda>i. (jb_url jb, fr_sha256 fr, i)) (children_of fr))
             (log_stage2_scan (jb_url jb) (fr_sha256 fr) (jb_depth jb) (fr_stage2_found fr)
                (length (children_of fr)) (fr_stage2_skipped fr) s) of
        (Inl e, _, s1) \<Rightarrow> (Inl e, s1)
      | (Inr _, left, s1) \<Rightarrow> (Inr (), log_timeouts left s1))"

subsection \<open>Any interleaving of sessions and workers\<close>

text \<open>
  Sessions write and publish jobs, workers scan the directory and then rename what they saw, one file
  per step; any of these steps may come between any others. A job id is fresh when its job is written.
  \<open>q_claimed\<close> is, per claim, the worker and what it will process.
\<close>

record queue_state =
  q_dir :: jobs_dir
  q_seen :: "nat \<Rightarrow> string list"
  q_submitted :: "job list"
  q_claimed :: "(nat \<times> string \<times> job) list"

definition empty_queue :: queue_state where
  "empty_queue = \<lparr>q_dir = empty_dir, q_seen = (\<lambda>_. []), q_submitted = [], q_claimed = []\<rparr>"

inductive queue_step :: "queue_state \<Rightarrow> queue_state \<Rightarrow> bool" where
  Write: "jb_id j \<notin> set (map jb_id (q_submitted q)) \<Longrightarrow>
    queue_step q (q\<lparr>q_dir := write_job j (q_dir q), q_submitted := q_submitted q @ [j]\<rparr>)"
| Publish: "queue_step q (q\<lparr>q_dir := publish_job jid (q_dir q)\<rparr>)"
| Scan: "queue_step q (q\<lparr>q_seen := (q_seen q)(k := pending_names (q_dir q))\<rparr>)"
| Claim: "q_seen q k = n # ns \<Longrightarrow> claim_one n (q_dir q) = (Some c, d) \<Longrightarrow>
    queue_step q (q\<lparr>q_dir := d, q_seen := (q_seen q)(k := ns), q_claimed := q_claimed q @ [(k, c)]\<rparr>)"
| Miss: "q_seen q k = n # ns \<Longrightarrow> claim_one n (q_dir q) = (None, d) \<Longrightarrow>
    queue_step q (q\<lparr>q_dir := d, q_seen := (q_seen q)(k := ns)\<rparr>)"

inductive queue_reachable :: "queue_state \<Rightarrow> bool" where
  queue_start: "queue_reachable empty_queue"
| queue_next: "queue_reachable q \<Longrightarrow> queue_step q q' \<Longrightarrow> queue_reachable q'"

text \<open>Where a job is: in a temporary file, published, or with a worker.\<close>

definition whereabouts :: "queue_state \<Rightarrow> (string \<times> job) multiset" where
  "whereabouts q = mset (jd_tmp (q_dir q)) + mset (jd_pending (q_dir q)) + mset (map snd (q_claimed q))"

definition queue_inv :: "queue_state \<Rightarrow> bool" where
  "queue_inv q \<longleftrightarrow> whereabouts q = mset (map (\<lambda>j. (jb_id j, j)) (q_submitted q))
     \<and> distinct (map jb_id (q_submitted q))"

lemma update_fresh: "k \<notin> fst ` set al \<Longrightarrow> AList.update k v al = al @ [(k, v)]"
  by (induction al) auto

lemma mset_delete:
  "distinct (map fst al) \<Longrightarrow> map_of al k = Some v \<Longrightarrow> mset al = add_mset (k, v) (mset (AList.delete k al))"
proof (induction al)
  case (Cons x al)
  then show ?case
    by (cases x; cases "fst x = k") (auto simp: AList.delete_idem)
qed simp

lemma whereabouts_ids:
  assumes "queue_inv q"
  shows "distinct (map fst (jd_tmp (q_dir q)) @ map fst (jd_pending (q_dir q))
      @ map (fst \<circ> snd) (q_claimed q))" (is "distinct ?ids")
    and "set (map fst (jd_tmp (q_dir q)) @ map fst (jd_pending (q_dir q)) @ map (fst \<circ> snd) (q_claimed q))
      = set (map jb_id (q_submitted q))"
proof -
  have "mset ?ids = image_mset fst (whereabouts q)"
    by (simp add: whereabouts_def mset_map [symmetric] del: mset_map)
  also have "\<dots> = mset (map jb_id (q_submitted q))"
    using assms by (simp add: queue_inv_def multiset.map_comp comp_def)
  finally have m: "mset ?ids = mset (map jb_id (q_submitted q))" .
  show "distinct ?ids" using assms mset_eq_imp_distinct_iff [OF m] by (simp add: queue_inv_def)
  show "set ?ids = set (map jb_id (q_submitted q))" by (rule mset_eq_setD [OF m])
qed

lemma queue_inv_step:
  assumes inv: "queue_inv q" and step: "queue_step q q'"
  shows "queue_inv q'"
  using step
proof cases
  case (Write j)
  with whereabouts_ids(2) [OF inv] have "jb_id j \<notin> fst ` set (jd_tmp (q_dir q))" by auto
  with Write inv show ?thesis
    by (auto simp: queue_inv_def whereabouts_def write_job_def update_fresh)
next
  case (Publish jid)
  show ?thesis
  proof (cases "map_of (jd_tmp (q_dir q)) jid")
    case None
    with Publish inv show ?thesis by (simp add: publish_job_def)
  next
    case (Some j)
    then have "jid \<in> fst ` set (jd_tmp (q_dir q))" by (force dest: map_of_SomeD)
    with whereabouts_ids(1) [OF inv] have "jid \<notin> fst ` set (jd_pending (q_dir q))" by auto
    with Publish Some inv mset_delete [OF _ Some] whereabouts_ids(1) [OF inv] show ?thesis
      by (simp add: queue_inv_def whereabouts_def publish_job_def update_fresh)
  qed
next
  case (Scan k)
  with inv show ?thesis by (simp add: queue_inv_def whereabouts_def)
next
  case (Claim k n ns c d)
  then obtain j where j: "map_of (jd_pending (q_dir q)) n = Some j" and c: "c = (n, j)"
    and d: "jd_tmp d = jd_tmp (q_dir q)" "jd_pending d = AList.delete n (jd_pending (q_dir q))"
    by (auto simp: claim_one_def split: option.splits)
  with Claim inv mset_delete [OF _ j] whereabouts_ids(1) [OF inv] show ?thesis
    by (simp add: queue_inv_def whereabouts_def)
next
  case (Miss k n ns d)
  with inv show ?thesis by (auto simp: queue_inv_def whereabouts_def claim_one_def split: option.splits)
qed

lemma queue_inv_reachable: "queue_reachable q \<Longrightarrow> queue_inv q"
proof (induction rule: queue_reachable.induct)
  case queue_start
  show ?case by (simp add: queue_inv_def whereabouts_def empty_queue_def empty_dir_def)
next
  case (queue_next q q')
  then show ?case by (blast intro: queue_inv_step)
qed
text \<open>
  C3. Whatever the interleaving of sessions that write and publish jobs with any number of workers that
  scan and claim: every job submitted is in exactly one place, unchanged, under its own id (not yet
  renamed, published, or with one worker), and no job id is ever claimed twice.
\<close>
theorem queue_loses_and_doubles_nothing:
  assumes "queue_reachable q"
  shows "whereabouts q = mset (map (\<lambda>j. (jb_id j, j)) (q_submitted q))
    \<and> distinct (map (\<lambda>(k, jid, j). jid) (q_claimed q))"
  using queue_inv_reachable [OF assms] whereabouts_ids(1) [OF queue_inv_reachable [OF assms]]
  by (auto simp: queue_inv_def comp_def case_prod_beta')

text \<open>Two workers see the same job; one gets it, the other misses it.\<close>

definition contested_job :: job where
  "contested_job = make_job (''1'', 0) ''s'' ''i'' ''u'' ''http'' ''f'' ''r'' 0 None"

definition contested :: queue_state where
  "contested = \<lparr>q_dir = \<lparr>jd_tmp = [], jd_pending = [], jd_processing = [(''1'', contested_job)], jd_results = []\<rparr>,
     q_seen = (\<lambda>_. []), q_submitted = [contested_job], q_claimed = [(0, ''1'', contested_job)]\<rparr>"

lemma queue_reachable_contested: "queue_reachable contested"
proof -
  have j: "jb_id contested_job = ''1''" by (simp add: contested_job_def make_job_def)
  note q1 = queue_next [OF queue_start Write [of contested_job]]
  note q2 = queue_next [OF q1 Publish [of _ "''1''"]]
  note q3 = queue_next [OF q2 Scan [of _ 0]]
  note q4 = queue_next [OF q3 Scan [of _ 1]]
  note q5 = queue_next [OF q4 Claim [of _ 0 "''1''" "[]" "(''1'', contested_job)"
      "\<lparr>jd_tmp = [], jd_pending = [], jd_processing = [(''1'', contested_job)], jd_results = []\<rparr>"]]
  note q6 = queue_next [OF q5 Miss [of _ 1 "''1''" "[]"
      "\<lparr>jd_tmp = [], jd_pending = [], jd_processing = [(''1'', contested_job)], jd_results = []\<rparr>"]]
  have "(\<lambda>_. [])(0 := [], Suc 0 := []) = (\<lambda>_ :: nat. [] :: string list)" by auto
  with q6 show ?thesis
    by (simp add: contested_def empty_queue_def empty_dir_def write_job_def publish_job_def j
        pending_names_def claim_one_def fun_upd_twist)
qed

theorem queue_loses_and_doubles_nothing_witness:
  "whereabouts contested = {#(''1'', contested_job)#}
    \<and> distinct (map (\<lambda>(k, jid, j). jid) (q_claimed contested))"
  using queue_loses_and_doubles_nothing [OF queue_reachable_contested]
  by (simp add: contested_def contested_job_def make_job_def)

subsection \<open>Every follow-up is accounted for\<close>

lemma safe_job_id_iff:
  "safe_job_id jid \<longleftrightarrow> jid \<noteq> [] \<and> CHR ''/'' \<notin> set jid \<and> jid \<noteq> ''.'' \<and> jid \<noteq> ''..''"
proof (cases "CHR ''/'' \<in> set jid")
  case True
  let ?parts = "filter (\<lambda>x. x \<noteq> [] \<and> x \<noteq> ''.'') (split_char (CHR ''/'') jid)"
  have "posix_name jid \<noteq> jid"
  proof (cases "?parts = []")
    case True
    with \<open>CHR ''/'' \<in> set jid\<close> show ?thesis by (auto simp: posix_name_def)
  next
    case False
    then have "last ?parts \<in> set (split_on (\<lambda>c. c = CHR ''/'') jid)"
      using last_in_set [OF False] by (simp add: split_char_def)
    from split_on_free [OF this, of "CHR ''/''"] have "CHR ''/'' \<notin> set (last ?parts)" by blast
    with \<open>CHR ''/'' \<in> set jid\<close> False show ?thesis by (auto simp: posix_name_def)
  qed
  with True show ?thesis by (simp add: safe_job_id_def)
next
  case False
  then have "split_char (CHR ''/'') jid = [jid]"
    unfolding split_char_def by (intro split_on_no_sep) auto
  with False show ?thesis by (auto simp: safe_job_id_def posix_name_def)
qed

text \<open>
  What is to become of one follow-up, told from the polls alone: the first poll that finds a result under
  its id settles it, and its own follow-ups are looked for from the next poll on; an id that is no file name
  is refused at the first poll; what no poll finds has timed out; a malformed result is an exception.
\<close>

definition timed_out :: fetch_result where
  "timed_out = failed_fetch ''timed out waiting for isolated fetcher''"

fun fate :: "(string \<Rightarrow> poll) list \<Rightarrow> awaited \<Rightarrow> (awaited \<times> fetch_result result) list" where
  "fate [] a = [(a, Inr timed_out)]"
| "fate (p # polls) a =
     (if \<not> safe_job_id (jb_id (snd (snd a))) then [(a, Inr (failed_fetch ''invalid follow-up job id''))]
      else case p (jb_id (snd (snd a))) of
             Missing \<Rightarrow> fate polls a
           | Unreadable \<Rightarrow> fate polls a
           | Malformed e \<Rightarrow> [(a, Inl e)]
           | Loaded fr \<Rightarrow> (a, Inr fr) # concat (map (fate polls) (awaited_children a fr)))"

definition fates :: "(string \<Rightarrow> poll) list \<Rightarrow> awaited list \<Rightarrow> (awaited \<times> fetch_result result) multiset" where
  "fates polls as = mset (concat (map (fate polls) as))"

definition settled :: "(awaited \<times> fetch_result) list \<Rightarrow> (awaited \<times> fetch_result result) multiset" where
  "settled xs = mset (map (\<lambda>(a, fr). (a, Inr fr)) xs)"

definition outcome_events :: "session \<Rightarrow> event list" where
  "outcome_events s = filter (\<lambda>e. fst e = ''file.download'') (ss_events s)"

definition answer_event :: "string \<Rightarrow> awaited \<times> fetch_result \<Rightarrow> event" where
  "answer_event sid x = (case x of ((pu, ps, info), fr) \<Rightarrow> stage2_outcome_event sid info pu ps fr)"

lemma outcome_events_logs [simp]:
  "outcome_events (log_stage2_scan pu ps d found queued skip s) = outcome_events s"
  "outcome_events (log_answer a fr s) = outcome_events s @ [answer_event (ss_id s) (a, fr)]"
  "ss_id (log_stage2_scan pu ps d found queued skip s) = ss_id s" "ss_id (log_answer a fr s) = ss_id s"
  "outcome_events (log_stage2_outcome info pu ps fr s)
     = outcome_events s @ [stage2_outcome_event (ss_id s) info pu ps fr]"
  "ss_id (log_stage2_outcome info pu ps fr s) = ss_id s"
  by (auto simp: outcome_events_def log_stage2_scan_def log_answer_def log_stage2_outcome_def
      stage2_outcome_event_def answer_event_def stage2_scan_def file_download_def split: prod.splits)

lemma fates_simps [simp]:
  "fates polls [] = {#}" "fates polls (a # as) = mset (fate polls a) + fates polls as"
  "fates polls (as @ bs) = fates polls as + fates polls bs"
  by (simp_all add: fates_def)

lemma settled_simps [simp]:
  "settled [] = {#}" "settled ((a, fr) # xs) = add_mset (a, Inr fr) (settled xs)"
  "settled (xs @ ys) = settled xs + settled ys"
  by (simp_all add: settled_def)

text \<open>What a poll finds, in the terms of the reference.\<close>

lemma fate_poll:
  "fate (p # polls) a =
     (case poll_child p (snd (snd a)) of
        Inl e \<Rightarrow> [(a, Inl e)]
      | Inr None \<Rightarrow> fate polls a
      | Inr (Some fr) \<Rightarrow> (a, Inr fr) # concat (map (fate polls) (awaited_children a fr)))"
  by (auto simp: poll_child_def awaited_children_def children_of_def failed_fetch_def split: poll.split)

definition raised_among :: "pyexn \<Rightarrow> (awaited \<times> fetch_result result) multiset \<Rightarrow> bool" where
  "raised_among e M \<longleftrightarrow> (\<exists>a. (a, Inl e) \<in># M)"

lemma collect_round_fates:
  "collect_round p as waiting s = (r, left, s') \<Longrightarrow>
     ss_id s' = ss_id s \<and>
     (\<exists>xs rest. outcome_events s' = outcome_events s @ map (answer_event (ss_id s)) xs
        \<and> fates (p # polls) as + fates polls waiting = settled xs + rest
        \<and> (case r of Inl e \<Rightarrow> raised_among e rest | Inr _ \<Rightarrow> rest = fates polls left))"
proof (induction p as waiting s rule: collect_round.induct)
  case (1 p waiting s)
  then show ?case by (auto intro!: exI [where x = "[]"])
next
  case (2 p a as waiting s)
  show ?case
  proof (cases "poll_child p (snd (snd a))")
    case (Inl e)
    then have "r = Inl e" "s' = s" "fate (p # polls) a = [(a, Inl e)]"
      using 2(3) by (simp_all add: fate_poll del: fate.simps)
    moreover have "(a, Inl e) \<in># fates (p # polls) (a # as) + fates polls waiting"
      using calculation(3) by (simp del: fate.simps)
    then have "raised_among e (fates (p # polls) (a # as) + fates polls waiting)"
      unfolding raised_among_def by (rule exI)
    ultimately show ?thesis
      by (intro conjI exI [where x = "[]"] exI [where x = "fates (p # polls) (a # as) + fates polls waiting"])
        (simp_all del: fate.simps fates_simps)
  next
    case (Inr c)
    show ?thesis
    proof (cases c)
      case None
      then have f: "fate (p # polls) a = fate polls a" using Inr by (simp add: fate_poll del: fate.simps)
      from 2(1) [OF Inr None] 2(3) Inr None show ?thesis by (auto simp: f add_ac simp del: fate.simps)
    next
      case (Some fr)
      then have f: "mset (fate (p # polls) a) = add_mset (a, Inr fr) (fates polls (awaited_children a fr))"
        using Inr by (simp add: fate_poll fates_def del: fate.simps)
      from 2(2) [OF Inr Some] 2(3) Inr Some obtain xs rest where id: "ss_id s' = ss_id s" and
        ev: "outcome_events s' = outcome_events (log_answer a fr s) @ map (answer_event (ss_id s)) xs" and
        m: "fates (p # polls) as + fates polls (waiting @ awaited_children a fr) = settled xs + rest" and
        out: "case r of Inl e \<Rightarrow> raised_among e rest | Inr _ \<Rightarrow> rest = fates polls left" by auto
      have "fates (p # polls) (a # as) + fates polls waiting
          = add_mset (a, Inr fr) (fates (p # polls) as + fates polls (waiting @ awaited_children a fr))"
        by (simp add: f add_ac del: fate.simps)
      also have "\<dots> = settled ((a, fr) # xs) + rest" unfolding m by simp
      finally show ?thesis using id ev out
        by (intro conjI exI [where x = "(a, fr) # xs"] exI [where x = rest]) simp_all
    qed
  qed
qed

lemma collect_rounds_fates:
  "collect_rounds polls as s = (r, left, s') \<Longrightarrow>
     ss_id s' = ss_id s \<and>
     (\<exists>xs rest. outcome_events s' = outcome_events s @ map (answer_event (ss_id s)) xs
        \<and> fates polls as = settled xs + rest
        \<and> (case r of Inl e \<Rightarrow> raised_among e rest | Inr _ \<Rightarrow> rest = settled (map (\<lambda>a. (a, timed_out)) left)))"
proof (induction polls as s arbitrary: r left s' rule: collect_rounds.induct)
  case (1 as s)
  have "fates [] as = settled (map (\<lambda>a. (a, timed_out)) as)" by (induction as) simp_all
  with 1 show ?case by (auto intro!: exI [where x = "[]"])
next
  case (2 p polls as s)
  show ?case
  proof (cases "as = []")
    case True
    with 2(2) show ?thesis by (auto intro!: exI [where x = "[]"])
  next
    case False
    obtain r1 w s1 where c: "collect_round p as [] s = (r1, w, s1)" by (cases "collect_round p as [] s") auto
    from collect_round_fates [OF c, of polls] obtain xs rest where id: "ss_id s1 = ss_id s"
      and xs: "outcome_events s1 = outcome_events s @ map (answer_event (ss_id s)) xs"
        "fates (p # polls) as = settled xs + rest"
      and out: "case r1 of Inl e \<Rightarrow> raised_among e rest | Inr _ \<Rightarrow> rest = fates polls w" by auto
    show ?thesis
    proof (cases r1)
      case (Inl e)
      with c 2(2) False have "r = Inl e" "s' = s1" by simp_all
      with id xs out Inl show ?thesis
        by (intro conjI exI [where x = xs] exI [where x = rest]) simp_all
    next
      case (Inr u)
      have run: "collect_rounds polls w s1 = (r, left, s')" using 2(2) False c Inr by simp
      from 2(1) [OF False c [symmetric] Inr refl run] id obtain ys rest2 where "ss_id s' = ss_id s"
        and ys: "outcome_events s' = outcome_events s1 @ map (answer_event (ss_id s)) ys"
          "fates polls w = settled ys + rest2"
        and out2: "case r of Inl e \<Rightarrow> raised_among e rest2
          | Inr _ \<Rightarrow> rest2 = settled (map (\<lambda>a. (a, timed_out)) left)" by auto
      moreover have "fates (p # polls) as = settled (xs @ ys) + rest2"
        using xs(2) out Inr ys(2) by (simp add: add.assoc)
      ultimately show ?thesis using xs(1)
        by (intro conjI exI [where x = "xs @ ys"] exI [where x = rest2]) simp_all
    qed
  qed
qed

lemma log_timeouts_events:
  "outcome_events (log_timeouts as s) = outcome_events s
     @ map (answer_event (ss_id s)) (map (\<lambda>a. (a, timed_out)) as)"
  by (induction as s rule: log_timeouts.induct) (simp_all add: answer_event_def timed_out_def)

lemma settled_all_ok: "raised_among e (settled xs) \<Longrightarrow> False"
  by (auto simp: raised_among_def settled_def)

text \<open>
  C13. In queued mode, with the fate of every follow-up that a result reports, and of every follow-up of
  theirs, told from the polls alone: as long as none of the result files is malformed, the log gets exactly
  one outcome for each of them, and it is its fate - the result loaded by the first poll that finds one
  under an id that names a file, the refusal of any other id, or the time-out when no poll did. The collector
  raises exactly when one of them is malformed; then what it has logged before is right, and the rest
  stay without an outcome.
\<close>
theorem collector_settles_every_followup:
  "\<exists>xs. outcome_events (snd (collect_stage2_queued polls jb fr s))
        = outcome_events s @ map (answer_event (ss_id s)) xs
      \<and> (case fst (collect_stage2_queued polls jb fr s) of
           Inr _ \<Rightarrow> settled xs = fates polls (map (\<lambda>i. (jb_url jb, fr_sha256 fr, i)) (children_of fr))
         | Inl e \<Rightarrow> settled xs \<subseteq># fates polls (map (\<lambda>i. (jb_url jb, fr_sha256 fr, i)) (children_of fr)))
      \<and> (\<exists>e. fst (collect_stage2_queued polls jb fr s) = Inl e)
          = (\<exists>e. raised_among e (fates polls (map (\<lambda>i. (jb_url jb, fr_sha256 fr, i)) (children_of fr))))"
proof -
  let ?init = "map (\<lambda>i. (jb_url jb, fr_sha256 fr, i)) (children_of fr)"
  let ?s0 = "log_stage2_scan (jb_url jb) (fr_sha256 fr) (jb_depth jb) (fr_stage2_found fr)
    (length (children_of fr)) (fr_stage2_skipped fr) s"
  obtain r left s1 where c: "collect_rounds polls ?init ?s0 = (r, left, s1)"
    by (cases "collect_rounds polls ?init ?s0") auto
  from collect_rounds_fates [OF c] obtain xs rest where id: "ss_id s1 = ss_id s"
    and xs: "outcome_events s1 = outcome_events s @ map (answer_event (ss_id s)) xs"
      "fates polls ?init = settled xs + rest"
    and out: "case r of Inl e \<Rightarrow> raised_among e rest | Inr _ \<Rightarrow> rest = settled (map (\<lambda>a. (a, timed_out)) left)"
    by auto
  show ?thesis
  proof (cases r)
    case (Inl e)
    have "raised_among e (fates polls ?init)" using out Inl xs(2) by (auto simp: raised_among_def)
    with c xs Inl show ?thesis
      by (intro exI [where x = xs]) (auto simp: collect_stage2_queued_def)
  next
    case (Inr u)
    let ?xs = "xs @ map (\<lambda>a. (a, timed_out)) left"
    have f: "settled ?xs = fates polls ?init" using xs(2) out Inr by simp
    moreover have "\<not> raised_among e (fates polls ?init)" for e
      using settled_all_ok [of e ?xs] unfolding f by blast
    ultimately show ?thesis using c id xs(1) Inr
      by (intro exI [where x = ?xs])
        (simp add: collect_stage2_queued_def log_timeouts_events del: settled_simps)
  qed
qed

subsection \<open>What one pass of the worker does\<close>

lemma claim_names_pending:
  assumes "distinct (map fst (jd_pending d))" "distinct ns" "set ns = fst ` set (jd_pending d)"
  shows "mset (fst (claim_names ns d)) = mset (jd_pending d) \<and> jd_pending (snd (claim_names ns d)) = []
    \<and> jd_tmp (snd (claim_names ns d)) = jd_tmp d \<and> jd_results (snd (claim_names ns d)) = jd_results d
    \<and> map fst (fst (claim_names ns d)) = ns"
  using assms
proof (induction ns arbitrary: d)
  case (Cons n ns)
  from Cons.prems(1,3) obtain j where j: "map_of (jd_pending d) n = Some j"
    using map_of_eq_None_iff [of "jd_pending d" n] by (cases "map_of (jd_pending d) n") auto
  let ?d = "d\<lparr>jd_pending := AList.delete n (jd_pending d), jd_processing := AList.update n j (jd_processing d)\<rparr>"
  have "distinct (map fst (jd_pending ?d))" using Cons.prems(1) by (simp add: AList.distinct_delete)
  moreover have "set (map fst (jd_pending ?d)) = set (map fst (jd_pending d)) - {n}" by (simp add: delete_keys)
  then have "set ns = fst ` set (jd_pending ?d)"
    using Cons.prems(2) unfolding set_map Cons.prems(3) [symmetric] by simp
  ultimately have "mset (fst (claim_names ns ?d)) = mset (AList.delete n (jd_pending d))
      \<and> jd_pending (snd (claim_names ns ?d)) = [] \<and> jd_tmp (snd (claim_names ns ?d)) = jd_tmp d
      \<and> jd_results (snd (claim_names ns ?d)) = jd_results d \<and> map fst (fst (claim_names ns ?d)) = ns"
    using Cons.IH [of ?d] Cons.prems(2) by simp
  with mset_delete [OF Cons.prems(1) j] j show ?case
    by (simp add: claim_one_def case_prod_beta')
qed simp

lemma claim_pending_takes_all:
  assumes "distinct (map fst (jd_pending d))" "claim_pending_jobs d = (cs, d1)"
  shows "mset cs = mset (jd_pending d)" "map fst cs = sort (map fst (jd_pending d))"
    "jd_pending d1 = []" "jd_tmp d1 = jd_tmp d" "jd_results d1 = jd_results d"
  using claim_names_pending [OF assms(1), of "pending_names d"] assms
  by (simp_all add: claim_pending_jobs_def pending_names_def)

lemma enqueue_results [simp]: "jd_results (enqueue_job j d) = jd_results d"
  by (simp add: enqueue_job_def publish_job_def write_job_def split: option.split)

lemma fold_enqueue_results [simp]: "jd_results (fold enqueue_job js d) = jd_results d"
  by (induction js arbitrary: d) simp_all

lemma process_job_results:
  "process_job cfg sv c d w lim = (Inr u, d', w', lim') \<Longrightarrow>
     fst ` set (jd_results d') = insert (fst c) (fst ` set (jd_results d))"
  by (clarsimp simp: process_job_def Let_def split: prod.splits sum.splits )
    (simp add: dom_update)

lemma process_jobs_results:
  "process_jobs cfg sv cs n d w lim = (Inr m, d', w', lim') \<Longrightarrow>
     m = n + length cs \<and> fst ` set (jd_results d') = fst ` set cs \<union> fst ` set (jd_results d)"
proof (induction cfg sv cs n d w lim rule: process_jobs.induct)
  case (2 cfg sv c cs n d w lim)
  obtain r d1 w1 lim1 where p: "process_job cfg sv c d w lim = (r, d1, w1, lim1)"
    by (cases "process_job cfg sv c d w lim") auto
  then obtain u where r: "r = Inr u" using 2(2) by (cases r) auto
  from 2(1) [OF p [symmetric] r refl refl] 2(2) p r process_job_results [OF p [unfolded r]]
  show ?case by auto
qed simp

lemma process_pending_answers:
  assumes "distinct (map fst (jd_pending d))" "process_pending cfg sv d w lim = (Inr n, d', w', lim')"
  shows "n = length (jd_pending d)"
    "fst ` set (jd_results d') = fst ` set (jd_pending d) \<union> fst ` set (jd_results d)"
proof -
  obtain cs d1 where c: "claim_pending_jobs d = (cs, d1)" by (cases "claim_pending_jobs d")
  note cl = claim_pending_takes_all [OF assms(1) c]
  from assms(2) c have "process_jobs cfg sv cs 0 d1 w lim = (Inr n, d', w', lim')"
    by (simp add: process_pending_def)
  from process_jobs_results [OF this] mset_eq_length [OF cl(1)] mset_eq_setD [OF cl(1)] cl(5)
  show "n = length (jd_pending d)"
    "fst ` set (jd_results d') = fst ` set (jd_pending d) \<union> fst ` set (jd_results d)" by simp_all
qed

subsection \<open>Queued mode is a fetch\<close>

text \<open>What a poll of the directory finds once the worker has written its results.\<close>

definition poll_results :: "jobs_dir \<Rightarrow> string \<Rightarrow> poll" where
  "poll_results d jid = (case map_of (jd_results d) jid of None \<Rightarrow> Missing | Some fr \<Rightarrow> Loaded fr)"

lemma enqueue_pending: "fst ` set (jd_pending (enqueue_job j d)) = insert (jb_id j) (fst ` set (jd_pending d))"
  by (simp add: enqueue_job_def write_job_def publish_job_def map_of_update dom_update split: option.split)

lemma fold_enqueue_pending:
  "fst ` set (jd_pending (fold enqueue_job js d)) = jb_id ` set js \<union> fst ` set (jd_pending d)"
  by (induction js arbitrary: d) (auto simp: enqueue_pending)

text \<open>A job of the batch: fetched, planned, answered under its id, its follow-ups queued.\<close>

definition answered :: "config \<Rightarrow> 'w services \<Rightarrow> string \<Rightarrow> job \<Rightarrow> jobs_dir \<Rightarrow> bool" where
  "answered cfg sv k j d \<longleftrightarrow>
     (\<exists>w0 fr w1 lim0 pl lim1. sv_fetch sv j w0 = (Inr fr, w1) \<and> plan_for cfg sv j fr w1 lim0 = (pl, lim1)
        \<and> map_of (jd_results d) k = Some (job_answer fr pl)
        \<and> jb_id ` set (pl_jobs pl) \<subseteq> fst ` set (jd_pending d))"

lemma process_job_answers:
  assumes "process_job cfg sv c d w lim = (Inr u, d', w', lim')"
  shows "answered cfg sv (fst c) (snd c) d'"
    and "k \<noteq> fst c \<Longrightarrow> map_of (jd_results d') k = map_of (jd_results d) k"
    and "fst ` set (jd_pending d) \<subseteq> fst ` set (jd_pending d')"
proof -
  obtain fr pl where f: "sv_fetch sv (snd c) w = (Inr fr, w')" "plan_for cfg sv (snd c) fr w' lim = (pl, lim')"
    and d': "d' = fold enqueue_job (pl_jobs pl) (d\<lparr>jd_results := AList.update (fst c) (job_answer fr pl) (jd_results d)\<rparr>)"
    using assms by (auto simp: process_job_def Let_def split: prod.splits sum.splits)
  show "answered cfg sv (fst c) (snd c) d'"
    unfolding answered_def using f by (intro exI conjI) (auto simp: d' map_of_update fold_enqueue_pending)
  show "k \<noteq> fst c \<Longrightarrow> map_of (jd_results d') k = map_of (jd_results d) k"
    by (simp add: d' map_of_update)
  show "fst ` set (jd_pending d) \<subseteq> fst ` set (jd_pending d')"
    by (auto simp: d' fold_enqueue_pending)
qed

lemma answered_later:
  assumes "answered cfg sv k j d" and "map_of (jd_results d') k = map_of (jd_results d) k"
    and "fst ` set (jd_pending d) \<subseteq> fst ` set (jd_pending d')"
  shows "answered cfg sv k j d'"
proof -
  obtain w0 fr w1 lim0 pl lim1 where a: "sv_fetch sv j w0 = (Inr fr, w1)" "plan_for cfg sv j fr w1 lim0 = (pl, lim1)"
    "map_of (jd_results d) k = Some (job_answer fr pl)" "jb_id ` set (pl_jobs pl) \<subseteq> fst ` set (jd_pending d)"
    using assms(1) unfolding answered_def by (elim exE conjE)
  show ?thesis
    unfolding answered_def by (intro exI conjI, fact a(1), fact a(2), simp only: assms(2) a(3))
      (rule subset_trans [OF a(4) assms(3)])
qed

lemma process_jobs_answers:
  "process_jobs cfg sv cs n d w lim = (Inr m, d', w', lim') \<Longrightarrow> distinct (map fst cs) \<Longrightarrow>
     (\<forall>c \<in> set cs. answered cfg sv (fst c) (snd c) d')
     \<and> (\<forall>k. k \<notin> fst ` set cs \<longrightarrow> map_of (jd_results d') k = map_of (jd_results d) k)
     \<and> fst ` set (jd_pending d) \<subseteq> fst ` set (jd_pending d')"
proof (induction cfg sv cs n d w lim rule: process_jobs.induct)
  case (2 cfg sv c cs n d w lim)
  obtain r d1 w1 lim1 where p: "process_job cfg sv c d w lim = (r, d1, w1, lim1)"
    by (cases "process_job cfg sv c d w lim") auto
  then obtain u where r: "r = Inr u" using 2(2) by (cases r) auto
  note job = process_job_answers [OF p [unfolded r]]
  from 2(1) [OF p [symmetric] r refl refl] 2(2,3) p r
  have rest: "\<forall>c \<in> set cs. answered cfg sv (fst c) (snd c) d'"
    "\<forall>k. k \<notin> fst ` set cs \<longrightarrow> map_of (jd_results d') k = map_of (jd_results d1) k"
    "fst ` set (jd_pending d1) \<subseteq> fst ` set (jd_pending d')" by auto
  have "answered cfg sv (fst c) (snd c) d'"
    using answered_later [OF job(1)] rest(2,3) 2(3) by simp
  moreover have "\<forall>k. k \<notin> fst ` set (c # cs) \<longrightarrow> map_of (jd_results d') k = map_of (jd_results d) k"
    using rest(2) job(2) by simp
  ultimately show ?case using rest(1) subset_trans [OF job(3) rest(3)] by simp
qed simp

text \<open>
  C21. Queued mode is a fetch. When a session puts a job into the queue, whatever else waits there, and a
  pass of the worker over the queue succeeds, then the session's poll after any number of polls that
  find nothing returns the result of fetching this very job, with the follow-ups that were planned for
  it, and each of these is in the queue.
\<close>
theorem queued_fetch_is_fetch:
  assumes "distinct (map fst (jd_pending d))" and "jb_id j \<notin> fst ` set (jd_pending d)"
    and "process_pending cfg sv (enqueue_job j d) w lim = (Inr n, d', w', lim')"
    and "list_all (\<lambda>p. p (jb_id j) = Missing) early"
  shows "\<exists>w0 fr w1 lim0 pl lim1. sv_fetch sv j w0 = (Inr fr, w1) \<and> plan_for cfg sv j fr w1 lim0 = (pl, lim1)
    \<and> fetch_via_queue (early @ poll_results d' # late) j = Inr (job_answer fr pl)
    \<and> jb_id ` set (pl_jobs pl) \<subseteq> fst ` set (jd_pending d')"
proof -
  have pend: "jd_pending (enqueue_job j d) = jd_pending d @ [(jb_id j, j)]"
    using assms(2) by (simp add: enqueue_job_def write_job_def publish_job_def map_of_update update_fresh)
  obtain cs d1 where c: "claim_pending_jobs (enqueue_job j d) = (cs, d1)"
    by (cases "claim_pending_jobs (enqueue_job j d)")
  have "distinct (map fst (jd_pending (enqueue_job j d)))" using assms(1,2) by (simp add: pend)
  note cl = claim_pending_takes_all [OF this c]
  have dist: "distinct (map fst cs)" using assms(1,2) by (simp add: cl(2) pend)
  have "process_jobs cfg sv cs 0 d1 w lim = (Inr n, d', w', lim')"
    using assms(3) c by (simp add: process_pending_def)
  from process_jobs_answers [OF this dist] have "\<forall>c \<in> set cs. answered cfg sv (fst c) (snd c) d'" ..
  moreover have "(jb_id j, j) \<in> set cs" using mset_eq_setD [OF cl(1)] by (simp add: pend)
  ultimately have a: "answered cfg sv (jb_id j) j d'" by fastforce
  have "fetch_via_queue (early @ ps) j = fetch_via_queue ps j" for ps
    using assms(4) by (induction early) simp_all
  with a show ?thesis unfolding answered_def by (fastforce simp: poll_results_def)
qed

theorem queued_fetch_is_fetch_witness:
  "\<exists>d' w' lim' n fr. process_pending example_config (honeypot example_config silent_outside)
       (enqueue_job contested_job empty_dir) empty_world new_stage2_limiter = (Inr n, d', w', lim')
     \<and> fetch_via_queue [(\<lambda>_. Missing), poll_results d'] contested_job = Inr fr"
proof -
  let ?sv = "honeypot example_config silent_outside"
  let ?d = "enqueue_job contested_job empty_dir"
  have j: "jb_id contested_job = ''1''" "jb_protocol contested_job = ''http''"
    by (simp_all add: contested_job_def make_job_def)
  have l: "lower ''http'' = ''http''" by code_simp
  obtain fr w1 where f: "sv_fetch ?sv contested_job empty_world = (Inr fr, w1)"
    using silent_fetch [of contested_job] j l by (auto simp: example_config_def)
  obtain pl lim1 where p: "plan_for example_config ?sv contested_job fr w1 new_stage2_limiter = (pl, lim1)"
    by fastforce
  have c: "claim_pending_jobs ?d = ([(''1'', contested_job)],
      \<lparr>jd_tmp = [], jd_pending = [], jd_processing = [(''1'', contested_job)], jd_results = []\<rparr>)"
    by (simp add: claim_pending_jobs_def pending_names_def enqueue_job_def write_job_def publish_job_def
        empty_dir_def j claim_one_def)
  obtain d' where run: "process_pending example_config ?sv ?d empty_world new_stage2_limiter = (Inr (Suc 0), d', w1, lim1)"
    by (simp add: process_pending_def c process_job_def f p Let_def)
  have "\<exists>w0 fr w1 lim0 pl lim1. sv_fetch ?sv contested_job w0 = (Inr fr, w1)
      \<and> plan_for example_config ?sv contested_job fr w1 lim0 = (pl, lim1)
      \<and> fetch_via_queue ([\<lambda>_. Missing] @ poll_results d' # []) contested_job = Inr (job_answer fr pl)
      \<and> jb_id ` set (pl_jobs pl) \<subseteq> fst ` set (jd_pending d')"
    by (rule queued_fetch_is_fetch [OF _ _ run]) (simp_all add: empty_dir_def)
  with run show ?thesis by auto
qed

end
