(* ===== verification/Ssh.thy ===== *)
theory Ssh
  imports Fetcher Limiter Utf8
begin

section \<open>The SSH listener\<close>

text \<open>
  \<open>honeypot/listeners/ssh.py\<close>. The protocol is \<open>asyncssh\<close>'s: what it calls, and in which order, is the
  list of events of a connection. Several channels share one session; a channel gives way to the others
  while it waits for a line of input or for a download, so the events of channels interleave. Text is
  characters below 256.
\<close>

subsection \<open>A chain of commands up to its next download\<close>

text \<open>
  \<open>run_chain\<close> cut at its \<open>await\<close>: the chain is finished, or it has asked for a download and waits, with
  the segments that are left.
\<close>

datatype progress = Finished "string list"
  | Awaiting string download_request job nat "(string \<times> string) list" "string list"

fun advance ::
  "config \<Rightarrow> 'w services \<Rightarrow> nat \<Rightarrow> (string \<times> string) list \<Rightarrow> nat \<Rightarrow> string list \<Rightarrow> session
     \<Rightarrow> progress result \<times> session" where
  "advance cfg sv i [] status outs s = (Inr (Finished outs), s)"
| "advance cfg sv i ((op, seg) # segs) status outs s =
     (if skipped op status then advance cfg sv (Suc i) segs status outs s
      else case begin_segment cfg sv i seg s of
             (Inl e, s1) \<Rightarrow> (Inl e, s1)
           | (Inr (Done reply status'), s1) \<Rightarrow>
               (let outs' = (if reply = [] then outs else outs @ [reply])
                in if ss_should_exit s1 then (Inr (Finished outs'), s1)
                   else advance cfg sv (Suc i) segs status' outs' s1)
           | (Inr (Fetching req jb), s1) \<Rightarrow> (Inr (Awaiting seg req jb (Suc i) segs outs), s1))"

definition resume ::
  "config \<Rightarrow> 'w services \<Rightarrow> string \<Rightarrow> download_request \<Rightarrow> job \<Rightarrow> nat \<Rightarrow> (string \<times> string) list \<Rightarrow> string list
     \<Rightarrow> fetch_result result \<Rightarrow> session \<Rightarrow> progress result \<times> session" where
  "resume cfg sv raw req jb i segs outs r s =
     (case r of
        Inl e \<Rightarrow> (Inl e, s)
      | Inr fr \<Rightarrow>
          (case finish_download cfg raw req jb fr s of
             (Inl e, s1) \<Rightarrow> (Inl e, s1)
           | (Inr (reply, status), s1) \<Rightarrow>
               (let outs' = (if reply = [] then outs else outs @ [reply])
                in if ss_should_exit s1 then (Inr (Finished outs'), s1)
                   else advance cfg sv i segs status outs' s1)))"

subsection \<open>Channels\<close>

text \<open>
  \<open>Reading\<close> is the shell's loop at its next line; a channel inside \<open>handle_command\<close> is waiting for a
  download, and remembers whether it is an exec request.
\<close>

datatype channel = Unused | Reading | Ended
  | In_Fetch bool string download_request job nat "(string \<times> string) list" "string list"

text \<open>What a step of a channel yields: its next state, the session, the job handed to the fetcher, the text written.\<close>

type_synonym chan_step = "channel \<times> session \<times> job list \<times> string"

definition max_input_chars :: nat where
  "max_input_chars = 8192"

text \<open>The \<open>finally\<close> of \<open>_handle_process\<close>. An exec request leaves the session to \<open>connection_lost\<close>.\<close>

definition end_process :: "string \<Rightarrow> bool \<Rightarrow> string \<Rightarrow> session \<Rightarrow> string \<Rightarrow> chan_step" where
  "end_process dur is_exec reason s written =
     (Ended, if \<not> is_exec \<or> reason \<noteq> ''closed'' then on_disconnect dur reason s else s, [], written)"

text \<open>The rest of a line once its output is known: the reply, the transcript, the shell's next prompt.\<close>

definition send_reply :: "config \<Rightarrow> string \<Rightarrow> bool \<Rightarrow> string list \<Rightarrow> session \<Rightarrow> chan_step" where
  "send_reply cfg dur is_exec outs s =
     (let output = lines outs;
          reply = (if output = [] then [] else output @ newline_str)
            @ (if is_exec \<or> ss_should_exit s then [] else prompt cfg s)
      in case record_io Send (utf8_encode reply) s of
           (Inl e, s1) \<Rightarrow> end_process dur is_exec ''closed'' s1 reply
         | (Inr _, s1) \<Rightarrow>
             (if is_exec \<or> ss_should_exit s1 then end_process dur is_exec ''closed'' s1 reply
              else (Reading, s1, [], reply)))"

definition go_on :: "config \<Rightarrow> string \<Rightarrow> bool \<Rightarrow> progress result \<times> session \<Rightarrow> chan_step" where
  "go_on cfg dur is_exec ps =
     (case ps of
        (Inl e, s) \<Rightarrow> end_process dur is_exec ''closed'' s []
      | (Inr (Finished outs), s) \<Rightarrow> send_reply cfg dur is_exec outs s
      | (Inr (Awaiting raw req jb i segs outs), s) \<Rightarrow> (In_Fetch is_exec raw req jb i segs outs, s, [jb], []))"

text \<open>
  \<open>_run_exec_command\<close>, and the body of the loop in \<open>_run_process_session\<close>: the input is cut and recorded,
  then run. Recording raises once the session is closed.
\<close>

definition handle_input :: "config \<Rightarrow> 'w services \<Rightarrow> string \<Rightarrow> bool \<Rightarrow> string \<Rightarrow> session \<Rightarrow> chan_step" where
  "handle_input cfg sv dur is_exec input s =
     (let line = take max_input_chars input
      in case record_io Recv (utf8_encode (line @ (if is_exec then newline_str else []))) s of
           (Inl e, s1) \<Rightarrow> end_process dur is_exec ''closed'' s1 []
         | (Inr _, s1) \<Rightarrow>
             go_on cfg dur is_exec (advance cfg sv 0 (line_segments line) 0 [] (log_command line s1)))"

subsection \<open>The server object\<close>

record ssh_server =
  sh_limiter :: limiter
  sh_session :: "session option"
  sh_limited_ip :: "string option"
  sh_version_reported :: bool
  sh_auth_user :: "string option"
  sh_tried :: bool
  sh_keys :: nat
  sh_channels :: "nat \<Rightarrow> channel"
  sh_requests :: "job list"
  sh_written :: "(nat \<times> string) list"

definition max_logged_keys :: nat where
  "max_logged_keys = 20"

definition connection_made ::
  "config \<Rightarrow> string \<Rightarrow> string \<Rightarrow> string \<Rightarrow> nat \<Rightarrow> limiter \<Rightarrow> ssh_server" where
  "connection_made cfg sample sid ip port lim =
     (let new = (\<lambda>l s held. \<lparr>sh_limiter = l, sh_session = s, sh_limited_ip = held, sh_version_reported = False,
                sh_auth_user = None, sh_tried = False, sh_keys = 0, sh_channels = (\<lambda>_. Unused),
                sh_requests = [], sh_written = []\<rparr>)
      in case try_acquire ip lim of
           (False, l1) \<Rightarrow> new l1 None None
         | (True, l1) \<Rightarrow>
             new l1 (Some (on_connect (new_session cfg sample sid ip port
                (lc_ssh_port (cf_listeners cfg)) ''ssh'' None))) (Some ip))"

text \<open>The version is \<open>asyncssh\<close>'s \<open>client_version\<close> at the time of the call.\<close>

definition report_client_version :: "string option \<Rightarrow> ssh_server \<Rightarrow> ssh_server" where
  "report_client_version version srv =
     (case (sh_session srv, version) of
        (Some s, Some v) \<Rightarrow>
          (if sh_version_reported srv \<or> v = [] then srv
           else srv\<lparr>sh_version_reported := True, sh_session := Some (on_client_version v s)\<rparr>)
      | _ \<Rightarrow> srv)"

definition begin_auth :: "string \<Rightarrow> string option \<Rightarrow> ssh_server \<Rightarrow> bool \<times> ssh_server" where
  "begin_auth username version srv =
     (True, (report_client_version version srv)\<lparr>sh_auth_user := Some username\<rparr>)"

definition validate_public_key :: "string \<Rightarrow> string \<Rightarrow> string \<Rightarrow> ssh_server \<Rightarrow> bool \<times> ssh_server" where
  "validate_public_key username algorithm fingerprint srv =
     (False,
      case sh_session srv of
        Some s \<Rightarrow>
          (if sh_keys srv < max_logged_keys
           then srv\<lparr>sh_tried := True, sh_keys := Suc (sh_keys srv),
                    sh_session := Some (on_auth_attempt ''publickey'' username
                      [(''key_type'', JStr algorithm), (''key_fingerprint'', JStr fingerprint)] s)\<rparr>
           else srv\<lparr>sh_tried := True\<rparr>)
      | None \<Rightarrow> srv\<lparr>sh_tried := True\<rparr>)"

text \<open>\<open>None\<close> is the \<open>AssertionError\<close> of a server without a session.\<close>

definition validate_password ::
  "config \<Rightarrow> 'w services \<Rightarrow> string \<Rightarrow> string \<Rightarrow> ssh_server \<Rightarrow> bool option \<times> ssh_server" where
  "validate_password cfg sv username password srv =
     (case sh_session srv of
        None \<Rightarrow> (None, srv)
      | Some s \<Rightarrow>
          (case try_login cfg sv username password s of
             (ok, s1) \<Rightarrow> (Some ok, srv\<lparr>sh_tried := True, sh_session := Some s1\<rparr>)))"

text \<open>A client that asked to authenticate and offered no credential is logged as probing with "none".\<close>

definition close_session :: "string \<Rightarrow> ssh_server \<Rightarrow> ssh_server" where
  "close_session dur srv =
     (case sh_session srv of
        None \<Rightarrow> srv
      | Some s \<Rightarrow> srv\<lparr>sh_session := Some (on_disconnect dur ''closed''
          (case sh_auth_user srv of
             None \<Rightarrow> s
           | Some user \<Rightarrow> if sh_tried srv then s else on_auth_attempt ''none'' user [] s))\<rparr>)"

definition release_slot :: "ssh_server \<Rightarrow> ssh_server" where
  "release_slot srv =
     (case sh_limited_ip srv of
        None \<Rightarrow> srv
      | Some ip \<Rightarrow> srv\<lparr>sh_limiter := release ip (sh_limiter srv), sh_limited_ip := None\<rparr>)"

definition connection_lost :: "string \<Rightarrow> string option \<Rightarrow> ssh_server \<Rightarrow> ssh_server" where
  "connection_lost dur version srv = release_slot (close_session dur (report_client_version version srv))"

subsection \<open>A connection\<close>

text \<open>
  Channel events: an exec request or a shell on a new channel, a line of a shell, the result of the
  download a channel waits for, the end of a shell's input (or a break), the session's time limit.
\<close>

datatype ssh_event =
    Begin_Auth string "string option" | Public_Key string string string | Password string string
  | Open_Shell nat | Open_Exec nat string | Line nat string | Fetched nat "fetch_result result"
  | Hangup nat | Time_Out nat

definition on_channel :: "nat \<Rightarrow> (session \<Rightarrow> chan_step) \<Rightarrow> ssh_server \<Rightarrow> ssh_server" where
  "on_channel k f srv =
     (case sh_session srv of
        None \<Rightarrow> srv\<lparr>sh_channels := (sh_channels srv)(k := Ended)\<rparr>
      | Some s \<Rightarrow>
          (case f s of
             (c, s1, js, t) \<Rightarrow>
               srv\<lparr>sh_session := Some s1, sh_channels := (sh_channels srv)(k := c),
                   sh_requests := sh_requests srv @ js, sh_written := sh_written srv @ [(k, t)]\<rparr>))"

fun ssh_step :: "config \<Rightarrow> 'w services \<Rightarrow> string \<Rightarrow> ssh_event \<Rightarrow> ssh_server \<Rightarrow> ssh_server" where
  "ssh_step cfg sv dur (Begin_Auth u v) srv = snd (begin_auth u v srv)"
| "ssh_step cfg sv dur (Public_Key u a f) srv = snd (validate_public_key u a f srv)"
| "ssh_step cfg sv dur (Password u p) srv = snd (validate_password cfg sv u p srv)"
| "ssh_step cfg sv dur (Open_Shell k) srv =
     (if sh_channels srv k = Unused then on_channel k (\<lambda>s. (Reading, s, [], prompt cfg s)) srv else srv)"
| "ssh_step cfg sv dur (Open_Exec k cmd) srv =
     (if sh_channels srv k = Unused then on_channel k (handle_input cfg sv dur True cmd) srv else srv)"
| "ssh_step cfg sv dur (Line k l) srv =
     (if sh_channels srv k = Reading then on_channel k (handle_input cfg sv dur False l) srv else srv)"
| "ssh_step cfg sv dur (Fetched k r) srv =
     (case sh_channels srv k of
        In_Fetch is_exec raw req jb i segs outs \<Rightarrow>
          on_channel k (\<lambda>s. go_on cfg dur is_exec (resume cfg sv raw req jb i segs outs r s)) srv
      | _ \<Rightarrow> srv)"
| "ssh_step cfg sv dur (Hangup k) srv =
     (if sh_channels srv k = Reading then on_channel k (\<lambda>s. end_process dur False ''closed'' s []) srv else srv)"
| "ssh_step cfg sv dur (Time_Out k) srv =
     (if lc_max_session_seconds (cf_listeners cfg) \<le> 0 then srv
      else case sh_channels srv k of
             Reading \<Rightarrow> on_channel k (\<lambda>s. end_process dur False ''max_duration_exceeded'' s []) srv
           | In_Fetch is_exec raw req jb i segs outs \<Rightarrow>
               on_channel k (\<lambda>s. end_process dur is_exec ''max_duration_exceeded'' s []) srv
           | _ \<Rightarrow> srv)"

text \<open>A connection from \<open>connection_made\<close> to \<open>connection_lost\<close>.\<close>

definition ssh_connection ::
  "config \<Rightarrow> 'w services \<Rightarrow> string \<Rightarrow> string \<Rightarrow> string \<Rightarrow> string \<Rightarrow> nat \<Rightarrow> ssh_event list \<Rightarrow> string option \<Rightarrow> limiter
     \<Rightarrow> ssh_server" where
  "ssh_connection cfg sv sample sid dur ip port evs version lim =
     connection_lost dur version
       (fold (ssh_step cfg sv dur) evs (connection_made cfg sample sid ip port lim))"

subsection \<open>Without interleaving, a chain is the one of the session manager\<close>

text \<open>
  When a channel is given the result of its download before anything else happens, advancing and
  resuming make up \<open>run_chain\<close>.
\<close>

fun drive :: "nat \<Rightarrow> config \<Rightarrow> 'w services \<Rightarrow> progress result \<times> session \<Rightarrow> 'w
    \<Rightarrow> string list result \<times> session \<times> 'w" where
  "drive n cfg sv (Inl e, s) w = (Inl e, s, w)"
| "drive n cfg sv (Inr (Finished outs), s) w = (Inr outs, s, w)"
| "drive 0 cfg sv (Inr (Awaiting raw req jb i segs outs), s) w = (Inr outs, s, w)"
| "drive (Suc n) cfg sv (Inr (Awaiting raw req jb i segs outs), s) w =
     (case sv_fetch sv jb w of (r, w1) \<Rightarrow> drive n cfg sv (resume cfg sv raw req jb i segs outs r s) w1)"

lemma seg_result_cases:
  obtains e where "r = Inl e" | reply st where "r = Inr (Done reply st)"
    | req jb where "r = Inr (Fetching req jb)"
  by (metis sum.exhaust seg_step.exhaust)

lemma run_chain_drive:
  "length segs \<le> n \<Longrightarrow>
     drive n cfg sv (advance cfg sv i segs status outs s) w = run_chain cfg sv i segs status outs s w"
proof (induction segs arbitrary: n i status outs s w)
  case (Cons x segs)
  obtain op seg where x: "x = (op, seg)" by (cases x)
  obtain m where m: "n = Suc m" "length segs \<le> m" using Cons.prems by (cases n) auto
  have IH: "drive n cfg sv (advance cfg sv i segs status outs s) w = run_chain cfg sv i segs status outs s w"
    "drive m cfg sv (advance cfg sv i segs status outs s) w = run_chain cfg sv i segs status outs s w"
    for i status outs s w using Cons.IH m by simp_all
  show ?case
  proof (cases "skipped op status")
    case True
    with x IH(1) show ?thesis by simp
  next
    case go: False
    obtain r s1 where b: "begin_segment cfg sv i seg s = (r, s1)" by (cases "begin_segment cfg sv i seg s")
    show ?thesis
    proof (cases r rule: seg_result_cases)
      case 1
      with x go b show ?thesis by (simp add: run_segment_def)
    next
      case 2
      with x go b IH(1) show ?thesis by (simp add: run_segment_def Let_def)
    next
      case (3 req jb)
      obtain fr w1 where f: "sv_fetch sv jb w = (fr, w1)" by (cases "sv_fetch sv jb w")
      show ?thesis
      proof (cases fr)
        case (Inl e)
        with x go b 3 f m show ?thesis by (simp add: run_segment_def resume_def)
      next
        case (Inr res)
        obtain q s2 where q: "finish_download cfg seg req jb res s1 = (q, s2)"
          by (cases "finish_download cfg seg req jb res s1")
        with x go b 3 f m Inr IH(2) show ?thesis
          by (cases q) (auto simp: run_segment_def resume_def Let_def)
      qed
    qed
  qed
qed simp

text \<open>
  Cutting the session manager's \<open>handle_command\<close> at its awaits loses nothing: a channel that is
  always given the result of its download next - started, resumed after each download, until its chain
  is finished - leaves the same output, session and fetcher as \<open>handle_command\<close>, on every line.
\<close>
lemma chain_cut_at_awaits:
  "handle_command cfg sv raw s w =
     (case drive (length (line_segments raw)) cfg sv
             (advance cfg sv 0 (line_segments raw) 0 [] (log_command raw s)) w of
        (rc, s', w') \<Rightarrow> (bind_result rc (\<lambda>outs. Inr (lines outs)), s', w'))"
  by (simp add: run_chain_drive handle_command_def)

subsection \<open>The invariant of a connection\<close>

definition events_of :: "string \<Rightarrow> session \<Rightarrow> event list" where
  "events_of t s = filter (\<lambda>e. fst e = t) (ss_events s)"

text \<open>
  What holds of the session whatever its channels do: its downloads are its own, as many as it has
  counted and no more than the cap; one \<open>session.closed\<close> when it is closed; one \<open>auth.attempt\<close> per key
  counted, and \<open>extra\<close>; a user only through an accepted login.
\<close>

definition session_ok :: "config \<Rightarrow> 'w services \<Rightarrow> string \<Rightarrow> nat \<Rightarrow> job list \<Rightarrow> session \<Rightarrow> bool" where
  "session_ok cfg sv sid keys js s \<longleftrightarrow>
     ss_id s = sid \<and> wf_fs (ss_fs s)
     \<and> length js \<le> min (ss_download_count s) (fc_max_downloads (cf_fetcher cfg))
     \<and> (\<forall>j \<in> set js. jb_session j = sid \<and> jb_depth j = 0)
     \<and> length (events_of ''session.closed'' s) = (if ss_closed s then 1 else 0)
     \<and> length (events_of ''auth.attempt'' s) = keys
     \<and> (ss_authenticated s \<longrightarrow> (\<exists>u p. accepts (sv_files sv) (cf_credentials cfg) u p \<and> ss_username s = Some u))"

lemma events_of_same: "same_session s s' \<Longrightarrow> t \<notin> set command_events \<Longrightarrow> events_of t s' = events_of t s"
  by (auto simp: same_session_def events_of_def filter_empty_conv)

lemma session_ok_same:
  assumes "session_ok cfg sv sid keys js s" and "same_session s s'"
  shows "session_ok cfg sv sid keys js s'"
proof -
  have "''session.closed'' \<notin> set command_events" "''auth.attempt'' \<notin> set command_events"
    by (simp_all add: command_events_def)
  with assms events_of_same [OF assms(2)] show ?thesis
    by (auto simp: session_ok_def same_session_def)
qed

lemma session_ok_fetching:
  assumes "session_ok cfg sv sid keys js s" and "begin_segment cfg sv' i raw s = (Inr (Fetching req jb), s')"
  shows "session_ok cfg sv sid keys (js @ [jb]) s'"
  using session_ok_same [OF assms(1) begin_segment_same(1) [OF assms(2)]]
    begin_segment_same(2) [OF assms(2) refl] assms(1)
  by (auto simp: session_ok_def)

definition started :: "progress result \<Rightarrow> job list" where
  "started r = (case r of Inr (Awaiting raw req jb i segs outs) \<Rightarrow> [jb] | _ \<Rightarrow> [])"

lemma started_simps [simp]:
  "started (Inl e) = []" "started (Inr (Finished outs)) = []"
  "started (Inr (Awaiting raw req jb i segs outs)) = [jb]"
  by (simp_all add: started_def)

lemma advance_ok:
  "session_ok cfg sv sid keys js s \<Longrightarrow> advance cfg sv' i segs status outs s = (r, s') \<Longrightarrow>
     session_ok cfg sv sid keys (js @ started r) s'"
proof (induction cfg sv' i segs status outs s rule: advance.induct)
  case (2 cfg sv' i op seg segs status outs s)
  show ?case
  proof (cases "skipped op status")
    case True
    with 2(1,3,4) show ?thesis by simp
  next
    case go: False
    obtain b s1 where b: "begin_segment cfg sv' i seg s = (b, s1)" by (cases "begin_segment cfg sv' i seg s")
    note ok1 = session_ok_same [OF 2(3) begin_segment_same(1) [OF b]]
    show ?thesis
    proof (cases b rule: seg_result_cases)
      case 1
      with 2(4) go b ok1 show ?thesis by auto
    next
      case 2
      with "2.prems"(2) "2.IH"(2) [OF go b [symmetric] 2 refl _ _ ok1] go b ok1 show ?thesis
        by (auto simp: Let_def started_def split: if_splits)
    next
      case 3
      with 2(4) go b session_ok_fetching [OF 2(3) b [unfolded 3]] show ?thesis by auto
    qed
  qed
qed auto

lemma session_ok_start_stage2:
  "session_ok cfg sv sid keys js s \<Longrightarrow> session_ok cfg sv sid keys js (start_stage2 cfg' jb fr s)"
  by (simp add: start_stage2_def session_ok_def events_of_def)

lemma resume_ok:
  assumes "session_ok cfg sv sid keys js s" and "resume cfg sv' raw req jb i segs outs r s = (p, s')"
  shows "session_ok cfg sv sid keys (js @ started p) s'"
proof (cases r)
  case (Inl e)
  with assms show ?thesis by (auto simp: resume_def)
next
  case (Inr fr)
  obtain q s1 where q: "finish_download cfg raw req jb fr s = (q, s1)"
    by (cases "finish_download cfg raw req jb fr s")
  have "session_ok cfg sv sid keys js s1"
    using q by (auto simp: finish_download_def intro!: session_ok_start_stage2
        session_ok_same [OF assms(1) same_session_log])
  with assms(2) Inr q show ?thesis
    by (cases q) (auto simp: resume_def Let_def dest: advance_ok split: if_splits)
qed

subsection \<open>Every channel step keeps it\<close>

lemma session_ok_transcript [simp]:
  "session_ok cfg sv sid keys js (s\<lparr>ss_transcript := t\<rparr>) \<longleftrightarrow> session_ok cfg sv sid keys js s"
  by (simp add: session_ok_def events_of_def)

lemma session_ok_record:
  "record_io d data s = (r, s') \<Longrightarrow> session_ok cfg sv sid keys js s \<Longrightarrow> session_ok cfg sv sid keys js s'"
  by (auto simp: record_io_def split: prod.splits)

lemma session_ok_disconnect:
  "session_ok cfg sv sid keys js s \<Longrightarrow> session_ok cfg sv sid keys js (on_disconnect dur reason s)"
  by (simp add: on_disconnect_def session_ok_def events_of_def)

lemma on_disconnect_closes: "ss_closed (on_disconnect dur reason s)"
  by (simp add: on_disconnect_def)

text \<open>What a channel step does to the invariant: the jobs it starts are added.\<close>

definition step_ok :: "config \<Rightarrow> 'w services \<Rightarrow> string \<Rightarrow> nat \<Rightarrow> job list \<Rightarrow> chan_step \<Rightarrow> bool" where
  "step_ok cfg sv sid keys js st = (case st of (c, s, new, t) \<Rightarrow> session_ok cfg sv sid keys (js @ new) s)"

lemma end_process_ok:
  "session_ok cfg sv sid keys js s \<Longrightarrow> step_ok cfg sv sid keys js (end_process dur is_exec reason s t)"
  by (simp add: end_process_def step_ok_def session_ok_disconnect)

lemma send_reply_ok:
  assumes "session_ok cfg sv sid keys js s"
  shows "step_ok cfg sv sid keys js (send_reply cfg' dur is_exec outs s)"
proof -
  let ?reply = "(if lines outs = [] then [] else lines outs @ newline_str)
    @ (if is_exec \<or> ss_should_exit s then [] else prompt cfg' s)"
  obtain r s1 where r: "record_io Send (utf8_encode ?reply) s = (r, s1)"
    by (cases "record_io Send (utf8_encode ?reply) s")
  note ok = session_ok_record [OF r assms]
  have "step_ok cfg sv sid keys js (Reading, s1, [], t)" for t using ok by (simp add: step_ok_def)
  with r end_process_ok [OF ok] show ?thesis
    by (cases r) (simp_all add: send_reply_def Let_def del: append_assoc)
qed

lemma go_on_ok:
  assumes "session_ok cfg sv sid keys (js @ started p) s"
  shows "step_ok cfg sv sid keys js (go_on cfg' dur is_exec (p, s))"
proof -
  consider e where "p = Inl e" | outs where "p = Inr (Finished outs)"
    | raw req jb i segs outs where "p = Inr (Awaiting raw req jb i segs outs)"
    by (metis sum.exhaust progress.exhaust)
  then show ?thesis
  proof cases
    case 3
    with assms show ?thesis by (simp add: go_on_def step_ok_def)
  qed (use assms in \<open>simp_all add: go_on_def end_process_ok send_reply_ok\<close>)
qed

lemma handle_input_ok:
  assumes "session_ok cfg sv sid keys js s"
  shows "step_ok cfg sv sid keys js (handle_input cfg sv' dur is_exec input s)"
proof -
  let ?line = "take max_input_chars input"
  let ?data = "utf8_encode (?line @ (if is_exec then newline_str else []))"
  obtain r s1 where r: "record_io Recv ?data s = (r, s1)" by (cases "record_io Recv ?data s")
  note ok = session_ok_record [OF r assms]
  obtain p s2 where p: "advance cfg sv' 0 (line_segments ?line) 0 [] (log_command ?line s1) = (p, s2)"
    by (cases "advance cfg sv' 0 (line_segments ?line) 0 [] (log_command ?line s1)")
  note ok2 = advance_ok [OF session_ok_same [OF ok log_command_same(1)] p]
  show ?thesis
    using r p end_process_ok [OF ok] go_on_ok [OF ok2]
    by (cases r) (simp_all add: handle_input_def Let_def)
qed

lemma resume_step_ok:
  assumes "session_ok cfg sv sid keys js s"
  shows "step_ok cfg sv sid keys js (go_on cfg dur is_exec (resume cfg sv' raw req jb i segs outs r s))"
proof -
  obtain p s' where p: "resume cfg sv' raw req jb i segs outs r s = (p, s')"
    by (cases "resume cfg sv' raw req jb i segs outs r s")
  show ?thesis unfolding p by (rule go_on_ok [OF resume_ok [OF assms p]])
qed

subsection \<open>The whole connection\<close>

definition server_ok :: "config \<Rightarrow> 'w services \<Rightarrow> string \<Rightarrow> ssh_server \<Rightarrow> bool" where
  "server_ok cfg sv sid srv \<longleftrightarrow>
     sh_keys srv \<le> max_logged_keys
     \<and> (case sh_session srv of
          None \<Rightarrow> sh_requests srv = []
        | Some s \<Rightarrow> session_ok cfg sv sid (sh_keys srv) (sh_requests srv) s)"

lemma on_channel_ok:
  assumes "server_ok cfg sv sid srv"
    and "\<And>s. session_ok cfg sv sid (sh_keys srv) (sh_requests srv) s \<Longrightarrow>
           step_ok cfg sv sid (sh_keys srv) (sh_requests srv) (f s)"
  shows "server_ok cfg sv sid (on_channel k f srv)"
  using assms by (fastforce simp: server_ok_def on_channel_def step_ok_def split: option.splits)

lemma session_ok_log:
  assumes "session_ok cfg sv sid keys js s" and "fst e \<notin> {''session.closed'', ''auth.attempt''}"
  shows "session_ok cfg sv sid keys js (log_event e s)"
  using assms by (simp add: session_ok_def events_of_def)

lemma session_ok_client_id [simp]:
  "session_ok cfg sv sid keys js (s\<lparr>ss_client_id := v\<rparr>) \<longleftrightarrow> session_ok cfg sv sid keys js s"
  by (simp add: session_ok_def events_of_def)

lemma report_ok: "server_ok cfg sv sid srv \<Longrightarrow> server_ok cfg sv sid (report_client_version v srv)"
  by (auto simp: server_ok_def report_client_version_def on_client_version_def intro!: session_ok_log
      split: option.splits)

lemma server_ok_auth_user [simp]: "server_ok cfg sv sid (srv\<lparr>sh_auth_user := u\<rparr>) \<longleftrightarrow> server_ok cfg sv sid srv"
  by (simp add: server_ok_def split: option.split)

lemma report_simps [simp]:
  "sh_limited_ip (report_client_version v srv) = sh_limited_ip srv"
  "sh_limiter (report_client_version v srv) = sh_limiter srv"
  "sh_requests (report_client_version v srv) = sh_requests srv"
  "sh_keys (report_client_version v srv) = sh_keys srv"
  "sh_session (report_client_version v srv) = None \<longleftrightarrow> sh_session srv = None"
  by (auto simp: report_client_version_def split: option.splits)

lemma session_ok_attempt:
  "session_ok cfg sv sid keys js s \<Longrightarrow> session_ok cfg sv sid (Suc keys) js (on_auth_attempt how u d s)"
  by (simp add: session_ok_def on_auth_attempt_def events_of_def)

lemma session_ok_user:
  assumes "session_ok cfg sv sid keys js s" and "accepts (sv_files sv) (cf_credentials cfg) u p"
  shows "session_ok cfg sv sid keys js (s\<lparr>ss_authenticated := True, ss_username := Some u\<rparr>)"
  using assms by (auto simp: session_ok_def events_of_def)

lemma session_ok_login:
  assumes "session_ok cfg sv sid keys js s" and "try_login cfg sv u p s = (r, s')"
  shows "session_ok cfg sv sid keys js s'"
proof -
  let ?ok = "accepts (sv_files sv) (cf_credentials cfg) u p"
  let ?s1 = "log_event (login_attempt (ss_id s) u p ?ok (ss_src_ip s)
    (is_known_username (sv_files sv) (cf_credentials cfg) u)
    (is_known_password (sv_files sv) (cf_credentials cfg) p)) s"
  have ok1: "session_ok cfg sv sid keys js ?s1"
    by (rule session_ok_log [OF assms(1)]) (simp add: login_attempt_def)
  have "s' = (if ?ok then ?s1\<lparr>ss_authenticated := True, ss_username := Some u\<rparr> else ?s1)"
    using assms(2) [unfolded try_login_def Let_def prod.inject, THEN conjunct2] by (rule sym)
  moreover have "session_ok cfg sv sid keys js (?s1\<lparr>ss_authenticated := True, ss_username := Some u\<rparr>)" if ?ok
    by (rule session_ok_user [OF ok1 that])
  ultimately show ?thesis using ok1 by (cases ?ok) (simp_all only: if_True if_False)
qed

lemma validate_ok:
  assumes "server_ok cfg sv sid srv"
  shows "server_ok cfg sv sid (snd (validate_public_key u a f srv))"
    and "server_ok cfg sv sid (snd (validate_password cfg sv u p srv))"
proof -
  show "server_ok cfg sv sid (snd (validate_public_key u a f srv))"
    using assms by (cases "sh_session srv") (simp_all add: server_ok_def validate_public_key_def session_ok_attempt)
  show "server_ok cfg sv sid (snd (validate_password cfg sv u p srv))"
  proof (cases "sh_session srv")
    case (Some s)
    obtain r s1 where l: "try_login cfg sv u p s = (r, s1)" by (cases "try_login cfg sv u p s")
    from session_ok_login [OF _ l] assms Some l show ?thesis
      by (simp add: server_ok_def validate_password_def)
  qed (use assms in \<open>simp add: validate_password_def\<close>)
qed

lemma ssh_step_ok: "server_ok cfg sv sid srv \<Longrightarrow> server_ok cfg sv sid (ssh_step cfg sv dur e srv)"
proof (induction cfg sv dur e srv rule: ssh_step.induct)
  case (1 cfg sv dur u v srv)
  then show ?case by (simp add: begin_auth_def report_ok)
next
  case (4 cfg sv dur k srv)
  then show ?case by (auto intro!: on_channel_ok simp: step_ok_def)
next
  case (7 cfg sv dur k r srv)
  then show ?case by (auto intro!: on_channel_ok resume_step_ok split: channel.split)
next
  case (9 cfg sv dur k srv)
  then show ?case by (auto intro!: on_channel_ok end_process_ok split: channel.split)
qed (auto intro!: on_channel_ok handle_input_ok end_process_ok validate_ok)

lemma connection_made_ok:
  "server_ok cfg sv sid (connection_made cfg sample sid ip port lim)"
proof -
  have "session_ok cfg sv sid 0 []
      (on_connect (new_session cfg sample sid ip port (lc_ssh_port (cf_listeners cfg)) ''ssh'' None))"
    by (simp add: session_ok_def on_connect_def new_session_def events_of_def new_fs_wf)
  then show ?thesis
    by (auto simp: server_ok_def connection_made_def Let_def split: prod.split bool.split)
qed

lemma fold_ssh_ok: "server_ok cfg sv sid srv \<Longrightarrow> server_ok cfg sv sid (fold (ssh_step cfg sv dur) evs srv)"
  by (induction evs arbitrary: srv) (simp_all add: ssh_step_ok)

text \<open>The slot that the connection holds: no event touches it.\<close>

lemma ssh_step_slot:
  "sh_limiter (ssh_step cfg sv dur e srv) = sh_limiter srv \<and> sh_limited_ip (ssh_step cfg sv dur e srv) = sh_limited_ip srv
    \<and> (sh_session (ssh_step cfg sv dur e srv) = None \<longleftrightarrow> sh_session srv = None)"
  by (induction cfg sv dur e srv rule: ssh_step.induct)
    (simp_all add: begin_auth_def validate_public_key_def validate_password_def on_channel_def
      split: option.split prod.split channel.split)

lemma fold_ssh_slot:
  "sh_limiter (fold (ssh_step cfg sv dur) evs srv) = sh_limiter srv
    \<and> sh_limited_ip (fold (ssh_step cfg sv dur) evs srv) = sh_limited_ip srv
    \<and> (sh_session (fold (ssh_step cfg sv dur) evs srv) = None \<longleftrightarrow> sh_session srv = None)"
  by (induction evs arbitrary: srv) (simp_all add: ssh_step_slot)

lemma release_slot_simps [simp]:
  "sh_session (release_slot srv) = sh_session srv" "sh_requests (release_slot srv) = sh_requests srv"
  by (simp_all add: release_slot_def split: option.split)

lemma connection_lost_ok:
  assumes "server_ok cfg sv sid srv"
  shows "case sh_session (connection_lost dur version srv) of
      None \<Rightarrow> sh_requests (connection_lost dur version srv) = []
    | Some s \<Rightarrow> ss_closed s \<and> (\<exists>keys. keys \<le> Suc max_logged_keys
        \<and> session_ok cfg sv sid keys (sh_requests (connection_lost dur version srv)) s)"
proof -
  let ?r = "report_client_version version srv"
  have ok: "server_ok cfg sv sid ?r" by (rule report_ok [OF assms])
  show ?thesis
  proof (cases "sh_session ?r")
    case None
    with ok show ?thesis
      by (simp del: report_simps add: connection_lost_def close_session_def server_ok_def)
  next
    case (Some s)
    let ?s = "case sh_auth_user ?r of
        None \<Rightarrow> s | Some user \<Rightarrow> if sh_tried ?r then s else on_auth_attempt ''none'' user [] s"
    have k: "sh_keys ?r \<le> max_logged_keys" and s: "session_ok cfg sv sid (sh_keys ?r) (sh_requests ?r) s"
      using ok Some by (simp_all add: server_ok_def)
    have "\<exists>keys. keys \<le> Suc max_logged_keys \<and> session_ok cfg sv sid keys (sh_requests ?r) ?s"
    proof (cases "sh_auth_user ?r = None \<or> sh_tried ?r")
      case True
      with k s show ?thesis by (intro exI [where x = "sh_keys ?r"]) (auto split: option.split)
    next
      case False
      with k session_ok_attempt [OF s] show ?thesis
        by (intro exI [where x = "Suc (sh_keys ?r)"]) (auto split: option.split)
    qed
    with Some show ?thesis
      by (auto simp: connection_lost_def close_session_def on_disconnect_closes intro: session_ok_disconnect)
  qed
qed

lemma connection_made_slot:
  assumes "try_acquire ip lim = (ok, lim')"
  shows "sh_limiter (connection_made cfg sample sid ip port lim) = lim'"
    and "sh_limited_ip (connection_made cfg sample sid ip port lim) = (if ok then Some ip else None)"
    and "sh_session (connection_made cfg sample sid ip port lim) = None \<longleftrightarrow> \<not> ok"
  using assms by (cases ok; simp add: connection_made_def)+

lemma connection_lost_slot:
  "sh_limiter (connection_lost dur version srv)
     = (case sh_limited_ip srv of None \<Rightarrow> sh_limiter srv | Some ip \<Rightarrow> release ip (sh_limiter srv))"
  "sh_session (connection_lost dur version srv) = None \<longleftrightarrow> sh_session srv = None"
proof -
  have "sh_limited_ip (close_session dur r) = sh_limited_ip r" "sh_limiter (close_session dur r) = sh_limiter r"
    "sh_session (close_session dur r) = None \<longleftrightarrow> sh_session r = None" for r
    by (simp_all add: close_session_def split: option.split)
  then show "sh_limiter (connection_lost dur version srv)
      = (case sh_limited_ip srv of None \<Rightarrow> sh_limiter srv | Some ip \<Rightarrow> release ip (sh_limiter srv))"
    "sh_session (connection_lost dur version srv) = None \<longleftrightarrow> sh_session srv = None"
    by (simp_all add: connection_lost_def release_slot_def split: option.split)
qed

text \<open>
  C4. Whatever a client does on an SSH connection, on however many channels and in whatever order
  their inputs, downloads and time limits interleave: its slot in the limiter is given back, and a
  connection that got a slot ends as exactly one closed session, with at most one authentication
  attempt logged per key up to the limit (and one for "none"), a user only after an accepted login,
  and no more downloads than the session's cap, all its own. A refused connection asks for nothing.
\<close>
theorem ssh_connection_bounds:
  assumes inv: "limiter_inv lim" and srv: "srv = ssh_connection cfg sv sample sid dur ip port evs version lim"
  shows "conn_count (sh_limiter srv) = conn_count lim
    \<and> (case sh_session srv of
         None \<Rightarrow> \<not> fst (try_acquire ip lim) \<and> sh_requests srv = []
       | Some s \<Rightarrow> fst (try_acquire ip lim) \<and> ss_id s = sid \<and> ss_closed s
           \<and> length (events_of ''session.closed'' s) = 1
           \<and> length (events_of ''auth.attempt'' s) \<le> Suc max_logged_keys
           \<and> (ss_authenticated s \<longrightarrow>
                (\<exists>u p. accepts (sv_files sv) (cf_credentials cfg) u p \<and> ss_username s = Some u))
           \<and> length (sh_requests srv) \<le> fc_max_downloads (cf_fetcher cfg)
           \<and> list_all (\<lambda>j. jb_session j = sid \<and> jb_depth j = 0) (sh_requests srv))"
proof -
  obtain ok lim' where acq: "try_acquire ip lim = (ok, lim')" by (cases "try_acquire ip lim")
  let ?srv0 = "connection_made cfg sample sid ip port lim"
  let ?srv1 = "fold (ssh_step cfg sv dur) evs ?srv0"
  note slot = connection_made_slot [OF acq, of cfg sample sid port]
  note spec = try_acquire_spec [OF inv acq]
  have lost: "srv = connection_lost dur version ?srv1" by (simp add: srv ssh_connection_def)
  have "conn_count (sh_limiter srv) = conn_count lim"
    using spec release_spec [OF spec(1)] conn_count_eq_0 [OF inv] inv
    by (auto simp: lost connection_lost_slot(1) fold_ssh_slot slot limiter_inv_def conn_count_def fun_eq_iff)
  moreover have "sh_session srv = None \<longleftrightarrow> \<not> ok"
    by (simp add: lost connection_lost_slot(2) fold_ssh_slot slot)
  moreover have "server_ok cfg sv sid ?srv1" by (rule fold_ssh_ok [OF connection_made_ok])
  from connection_lost_ok [OF this, of dur version]
  have "case sh_session srv of None \<Rightarrow> sh_requests srv = [] | Some s \<Rightarrow> ss_closed s
      \<and> (\<exists>keys. keys \<le> Suc max_logged_keys \<and> session_ok cfg sv sid keys (sh_requests srv) s)"
    by (simp only: lost)
  ultimately show ?thesis
    by (cases "sh_session srv") (auto simp: acq session_ok_def list_all_iff)
qed

text \<open>
  Two exec channels of one connection: both downloads are under way before either result arrives.
\<close>

definition two_droppers :: "ssh_event list" where
  "two_droppers = [Begin_Auth ''root'' (Some ''SSH-2.0-Go''), Password ''root'' ''x'',
     Open_Exec 0 ''wget http://h/a'', Open_Exec 1 ''wget http://h/a'',
     Fetched 1 (Inr (failed_fetch ''timeout'')), Fetched 0 (Inr (failed_fetch ''timeout''))]"

definition two_droppers_run :: ssh_server where
  "two_droppers_run = ssh_connection example_config (honeypot example_config silent_outside) [] ''s'' ''1.0''
     ''1.2.3.4'' 4321 two_droppers None (new_limiter 8)"

lemma two_droppers_requests:
  "length (sh_requests two_droppers_run) = 2 \<and> sh_session two_droppers_run \<noteq> None"
proof -
  have seg: "line_segments ''wget http://h/a'' = [('';'', ''wget http://h/a'')]" by code_simp
  have acq: "try_acquire ''1.2.3.4'' (new_limiter 8) = (True, (new_limiter 8)\<lparr>counts := [''1.2.3.4'' \<mapsto> 1]\<rparr>)"
    by (simp add: try_acquire_def new_limiter_def conn_count_def)
  have cfg: "accepts f (cf_credentials example_config) u v" "fc_max_downloads (cf_fetcher example_config) = 20"
    for f u v by (simp_all add: accepts_def example_config_def default_fetcher_def)
  have parts: "netloc_or_url ''http://h/a'' = Inr ''h''" by code_simp
  show ?thesis
    unfolding two_droppers_run_def two_droppers_def ssh_connection_def
    by (simp add: connection_made_def acq begin_auth_def report_client_version_def validate_password_def
        connection_lost_def release_slot_def close_session_def on_channel_def handle_input_def go_on_def
        resume_def record_io_def transcript_record_def max_input_chars_def new_session_def on_connect_def
        on_client_version_def new_transcript_def try_login_def cfg seg skipped_def begin_segment_def
        example_download no_result_def log_attempt_def begin_download_def log_command_def make_job_def
        finish_download_def start_stage2_def render_download_response_def parts failed_fetch_def
        send_reply_def end_process_def Let_def)
qed

theorem ssh_connection_bounds_witness:
  "\<exists>s. sh_session two_droppers_run = Some s \<and> ss_closed s \<and> length (events_of ''session.closed'' s) = 1
     \<and> length (sh_requests two_droppers_run) = 2
     \<and> list_all (\<lambda>j. jb_session j = ''s'' \<and> jb_depth j = 0) (sh_requests two_droppers_run)"
proof -
  obtain s where "sh_session two_droppers_run = Some s" using two_droppers_requests by blast
  with ssh_connection_bounds [OF limiter_inv_new two_droppers_run_def] two_droppers_requests
  show ?thesis by auto
qed

subsection \<open>Input after the session is closed\<close>

text \<open>
  A shell that ends closes the session of the whole connection. A command that an exec channel brings
  afterwards is neither logged nor run: recording it raises, and the channel ends.
\<close>

lemma input_after_close_is_dropped:
  assumes "tr_closed (ss_transcript s)"
  shows "handle_input cfg sv dur True input s = (Ended, s, [], [])"
  using assms by (simp add: handle_input_def record_io_def transcript_record_def end_process_def Let_def)

lemma shell_end_closes:
  "\<exists>s1. end_process dur False ''closed'' s t = (Ended, s1, [], t) \<and> ss_closed s1
     \<and> (\<not> ss_closed s \<longrightarrow> tr_closed (ss_transcript s1))"
  by (simp add: end_process_def on_disconnect_def transcript_close_def)

end
