(* ===== verification/Sanitize.thy ===== *)
theory Sanitize
  imports Main
begin

section \<open>Log text that cannot act on a terminal\<close>

text \<open>
  \<open>honeypot/logging/sanitize.py\<close>. Text here is a list of Unicode code points, since the table reaches
  beyond Latin-1. What \<open>logging\<close> itself contributes to a line (the time, the level, the logger's name)
  is a parameter, as is the text of an exception or a stack.
\<close>

type_synonym codepoints = "nat list"

definition ascii :: "string \<Rightarrow> codepoints" where
  "ascii s = map of_char s"

definition hex_code :: "nat \<Rightarrow> nat" where
  "hex_code d = (if d < 10 then 48 + d else 87 + d)"

text \<open>\<open>_UNSAFE\<close>: the code points that are shown as \<open>\xNN\<close>, and those shown as \<open>\uNNNN\<close>.\<close>

definition control_code :: "nat \<Rightarrow> bool" where
  "control_code c \<longleftrightarrow> c < 0x20 \<or> c = 0x7F \<or> (0x80 \<le> c \<and> c < 0xA0)"

definition invisible_code :: "nat \<Rightarrow> bool" where
  "invisible_code c \<longleftrightarrow> (0x200B \<le> c \<and> c < 0x2010) \<or> c = 0x2028 \<or> c = 0x2029 \<or> (0x202A \<le> c \<and> c < 0x202F)
     \<or> (0x2060 \<le> c \<and> c < 0x2065) \<or> (0x2066 \<le> c \<and> c < 0x206A) \<or> c = 0xFEFF"

definition unsafe_table :: "nat \<Rightarrow> codepoints option" where
  "unsafe_table c =
     (if control_code c then Some [0x5C, 0x78, hex_code (c div 16), hex_code (c mod 16)]
      else if invisible_code c
      then Some [0x5C, 0x75, hex_code (c div 4096), hex_code (c div 256 mod 16), hex_code (c div 16 mod 16),
                 hex_code (c mod 16)]
      else None)"

definition unsafe_multiline_table :: "nat \<Rightarrow> codepoints option" where
  "unsafe_multiline_table c = (if c = 0x0A \<or> c = 0x09 then None else unsafe_table c)"

text \<open>\<open>str.translate\<close>.\<close>

definition translate_text :: "(nat \<Rightarrow> codepoints option) \<Rightarrow> codepoints \<Rightarrow> codepoints" where
  "translate_text table s = concat (map (\<lambda>c. case table c of None \<Rightarrow> [c] | Some t \<Rightarrow> t) s)"

definition escape_control_chars :: "codepoints \<Rightarrow> bool \<Rightarrow> codepoints" where
  "escape_control_chars s keep_newlines =
     translate_text (if keep_newlines then unsafe_multiline_table else unsafe_table) s"

text \<open>
  The copy of the table in \<open>tools/status_check.py\<close>, which \<open>tools/transcript.py\<close> imports: these tools run on
  hosts without the package.
\<close>

definition tool_unsafe_chars :: "nat \<Rightarrow> codepoints option" where
  "tool_unsafe_chars c =
     (if c < 0x20 \<or> c = 0x7F \<or> (0x80 \<le> c \<and> c < 0xA0)
      then Some (ascii [CHR 0x5C, CHR ''x''] @ [hex_code (c div 16), hex_code (c mod 16)])
      else if (0x200B \<le> c \<and> c < 0x2010) \<or> c = 0x2028 \<or> c = 0x2029 \<or> (0x202A \<le> c \<and> c < 0x202F)
          \<or> (0x2060 \<le> c \<and> c < 0x2065) \<or> (0x2066 \<le> c \<and> c < 0x206A) \<or> c = 0xFEFF
      then Some (ascii [CHR 0x5C, CHR ''u'']
        @ map hex_code [c div 4096, c div 256 mod 16, c div 16 mod 16, c mod 16])
      else None)"

definition tool_unsafe_multiline :: "nat \<Rightarrow> codepoints option" where
  "tool_unsafe_multiline c = (if c = 0x0A \<or> c = 0x09 then None else tool_unsafe_chars c)"

lemma tables_agree: "tool_unsafe_chars = unsafe_table" "tool_unsafe_multiline = unsafe_multiline_table"
  by (simp_all add: fun_eq_iff tool_unsafe_chars_def tool_unsafe_multiline_def unsafe_table_def
      unsafe_multiline_table_def control_code_def invisible_code_def ascii_def)

subsection \<open>The formatter\<close>

text \<open>
  A log record, with its message after its arguments were applied. \<open>lr_exc_text\<close> is the text that an
  earlier formatter left in the record: \<open>logging\<close> prefers it to formatting the exception again.
\<close>

record log_record =
  lr_message :: codepoints
  lr_exc_text :: "codepoints option"
  lr_exc_info :: "codepoints option"
  lr_stack_info :: "codepoints option"

definition format_exception :: "codepoints \<Rightarrow> codepoints" where
  "format_exception t = escape_control_chars t True"

definition format_stack :: "codepoints \<Rightarrow> codepoints" where
  "format_stack t = escape_control_chars t True"

text \<open>\<open>logging.Formatter.format\<close>: each further text starts on a line of its own.\<close>

definition append_block :: "codepoints \<Rightarrow> codepoints \<Rightarrow> codepoints" where
  "append_block s t = (if s \<noteq> [] \<and> last s = 0x0A then s else s @ [0x0A]) @ t"

definition add_text :: "codepoints \<Rightarrow> codepoints option \<Rightarrow> codepoints" where
  "add_text s t = (case t of None \<Rightarrow> s | Some u \<Rightarrow> if u = [] then s else append_block s u)"

definition exception_text :: "log_record \<Rightarrow> codepoints option" where
  "exception_text r =
     (if lr_exc_text r \<in> {None, Some []} then map_option format_exception (lr_exc_info r) else lr_exc_text r)"

definition safe_format :: "codepoints \<Rightarrow> log_record \<Rightarrow> codepoints" where
  "safe_format header r =
     add_text
       (add_text (header @ ascii '': '' @ escape_control_chars (lr_message r) False) (exception_text r))
       (if lr_stack_info r = Some [] then None else map_option format_stack (lr_stack_info r))"

text \<open>The record as it is left: \<open>format\<close> restores the message and keeps the exception's text.\<close>

definition after_format :: "log_record \<Rightarrow> log_record" where
  "after_format r = r\<lparr>lr_exc_text := exception_text r\<rparr>"

subsection \<open>What acts on a terminal\<close>

text \<open>
  The characters that may not reach a terminal, told without the table: the C0 and C1 controls with
  DEL (ISO 6429), the separators that start a line, Unicode's bidirectional controls, and the
  characters without a width. U+061C is a bidirectional control too, but the table does not have it.
\<close>

definition terminal_controls :: "nat set" where
  "terminal_controls = {0..31} \<union> {127} \<union> {128..159}"

definition bidi_controls :: "nat set" where
  "bidi_controls = {0x061C, 0x200E, 0x200F} \<union> {0x202A..0x202E} \<union> {0x2066..0x2069}"

definition line_separators :: "nat set" where
  "line_separators = {0x0A, 0x0D, 0x85, 0x2028, 0x2029}"

definition zero_width :: "nat set" where
  "zero_width = {0x200B, 0x200C, 0x200D, 0xFEFF} \<union> {0x2060..0x2064}"

definition arabic_letter_mark :: nat where
  "arabic_letter_mark = 0x061C"

definition acts_on_terminal :: "nat \<Rightarrow> bool" where
  "acts_on_terminal c \<longleftrightarrow>
     c \<in> terminal_controls \<union> line_separators \<union> (bidi_controls - {arabic_letter_mark}) \<union> zero_width"

subsection \<open>What reaches the terminal\<close>

definition unsafe_code :: "nat \<Rightarrow> bool" where
  "unsafe_code c \<longleftrightarrow> control_code c \<or> invisible_code c"

lemma unsafe_table_None: "unsafe_table c = None \<longleftrightarrow> \<not> unsafe_code c"
  by (simp add: unsafe_table_def unsafe_code_def)

lemma hex_code_range: "d < 16 \<Longrightarrow> 48 \<le> hex_code d \<and> hex_code d \<le> 102"
  by (simp add: hex_code_def)

lemma printable_safe: "32 \<le> c \<Longrightarrow> c \<le> 126 \<Longrightarrow> \<not> unsafe_code c"
  by (simp add: unsafe_code_def control_code_def invisible_code_def)

lemma unsafe_small: "unsafe_code c \<Longrightarrow> c < 65536"
  by (auto simp: unsafe_code_def control_code_def invisible_code_def)

lemma control_digit: "control_code c \<Longrightarrow> c div 16 < 16"
  by (rule less_mult_imp_div_less) (auto simp: control_code_def)

lemma top_digit: "c < 65536 \<Longrightarrow> c div 4096 < (16 :: nat)"
  by (rule less_mult_imp_div_less) simp

lemma escape_printable:
  assumes "unsafe_table c = Some t" and "x \<in> set t"
  shows "32 \<le> x \<and> x \<le> 126"
proof (cases "control_code c")
  case True
  with assms have "x \<in> {0x5C, 0x78} \<union> {hex_code (c div 16), hex_code (c mod 16)}"
    by (auto simp only: unsafe_table_def if_True option.inject list.set Un_iff insert_iff empty_iff)
  with hex_code_range [OF control_digit [OF True]] hex_code_range [of "c mod 16"] show ?thesis
    by (elim UnE insertE) simp_all
next
  case False
  with assms have i: "invisible_code c" and t: "t = [0x5C, 0x75, hex_code (c div 4096), hex_code (c div 256 mod 16),
      hex_code (c div 16 mod 16), hex_code (c mod 16)]"
    by (simp_all add: unsafe_table_def split: if_splits)
  have "c < 65536" using i by (intro unsafe_small) (simp add: unsafe_code_def)
  then have "x \<in> {0x5C, 0x75} \<union> hex_code ` {d. d < 16}"
    using assms(2) t top_digit by fastforce
  then show ?thesis
    using order_trans [OF _ conjunct1 [OF hex_code_range], of 32] order_trans [OF conjunct2 [OF hex_code_range], of _ 126]
    by auto
qed

lemma translate_cases:
  assumes "x \<in> set (translate_text table s)"
  obtains "table x = None" | c t where "table c = Some t" "x \<in> set t"
  using assms by (auto simp: translate_text_def split: option.splits)

lemma escape_safe: "x \<in> set (escape_control_chars s False) \<Longrightarrow> \<not> unsafe_code x"
  unfolding escape_control_chars_def if_False
  by (erule translate_cases) (simp_all add: unsafe_table_None escape_printable printable_safe)

lemma multiline_table_Some: "unsafe_multiline_table c = Some t \<Longrightarrow> unsafe_table c = Some t"
  by (simp add: unsafe_multiline_table_def split: if_splits)

lemma escape_multiline_safe:
  "x \<in> set (escape_control_chars s True) \<Longrightarrow> x = 0x0A \<or> x = 0x09 \<or> \<not> unsafe_code x"
  unfolding escape_control_chars_def if_True
proof (erule translate_cases)
  assume "unsafe_multiline_table x = None"
  then show ?thesis by (auto simp: unsafe_multiline_table_def unsafe_table_None split: if_splits)
next
  fix c t assume "unsafe_multiline_table c = Some t" "x \<in> set t"
  with escape_printable [OF multiline_table_Some] have "32 \<le> x \<and> x \<le> 126" by blast
  then show ?thesis by (simp add: printable_safe)
qed

lemma escape_id: "list_all (\<lambda>c. \<not> unsafe_code c) s \<Longrightarrow> escape_control_chars s False = s"
  by (induction s) (auto simp: escape_control_chars_def translate_text_def unsafe_table_None [THEN iffD2])

lemma escape_idem: "escape_control_chars (escape_control_chars s False) False = escape_control_chars s False"
  by (rule escape_id) (auto simp: list_all_iff dest: escape_safe)

lemma add_text_all:
  "list_all P s \<Longrightarrow> (\<And>u. t = Some u \<Longrightarrow> list_all P u) \<Longrightarrow> P 0x0A \<Longrightarrow> list_all P (add_text s t)"
  by (auto simp: add_text_def append_block_def split: option.splits)

lemma multiline_all: "P 0x0A \<Longrightarrow> P 0x09 \<Longrightarrow> (\<And>c. \<not> unsafe_code c \<Longrightarrow> P c) \<Longrightarrow> list_all P (escape_control_chars t True)"
  using escape_multiline_safe [of _ t] by (auto simp: list_all_iff)

lemma escape_all: "list_all (\<lambda>c. \<not> unsafe_code c) (escape_control_chars s False)"
  by (auto simp: list_all_iff dest: escape_safe)

lemma colon_safe: "list_all (\<lambda>c. \<not> unsafe_code c) (ascii '': '')"
  by (simp add: ascii_def unsafe_code_def control_code_def invisible_code_def)

lemma exception_text_all:
  assumes "P 0x0A" "P 0x09" "\<And>c. \<not> unsafe_code c \<Longrightarrow> P c"
    and "list_all P (case lr_exc_text r of None \<Rightarrow> [] | Some t \<Rightarrow> t)"
  shows "list_all P (case exception_text r of None \<Rightarrow> [] | Some t \<Rightarrow> t)"
  using assms(4) multiline_all [of P, OF assms(1-3)]
  by (auto simp: exception_text_def format_exception_def split: option.splits)

lemma safe_format_all:
  assumes P: "P 0x0A" "P 0x09" "\<And>c. \<not> unsafe_code c \<Longrightarrow> P c" "list_all P header"
    and exc: "list_all P (case lr_exc_text r of None \<Rightarrow> [] | Some t \<Rightarrow> t)"
  shows "list_all P (safe_format header r)"
proof -
  have "list_all P (header @ ascii '': '' @ escape_control_chars (lr_message r) False)"
    using P(3,4) escape_all [of "lr_message r"] colon_safe by (auto simp: list_all_iff)
  moreover have esc: "list_all P (escape_control_chars t True)" for t by (rule multiline_all [OF P(1-3)])
  ultimately show ?thesis
    using exception_text_all [OF P(1-3) exc] unfolding safe_format_def
    by (intro add_text_all P(1)) (auto simp: format_stack_def esc split: if_splits)
qed

lemma after_format_exc: "lr_exc_text (after_format r) = exception_text r"
  by (simp add: after_format_def)

lemma acts_on_terminal_iff: "acts_on_terminal c \<longleftrightarrow> unsafe_code c"
  unfolding acts_on_terminal_def terminal_controls_def bidi_controls_def line_separators_def zero_width_def
    arabic_letter_mark_def unsafe_code_def control_code_def invisible_code_def Un_iff Diff_iff insert_iff
    empty_iff atLeastAtMost_iff
  by presburger


text \<open>The bidirectional control that is let through, and the text of another formatter.\<close>

lemma arabic_letter_mark_passes:
  "escape_control_chars [arabic_letter_mark] False = [arabic_letter_mark] \<and> arabic_letter_mark \<in> bidi_controls"
  by (simp add: escape_control_chars_def translate_text_def unsafe_table_def control_code_def invisible_code_def
      arabic_letter_mark_def bidi_controls_def)

lemma cached_exception_text_passes:
  "safe_format [] \<lparr>lr_message = [], lr_exc_text = Some [0x1B, 0x63], lr_exc_info = Some [0x1B, 0x63],
     lr_stack_info = None\<rparr> = ascii '': '' @ [0x0A, 0x1B, 0x63]"
  by (simp add: safe_format_def exception_text_def add_text_def append_block_def escape_control_chars_def
      translate_text_def ascii_def)

end
