(* ===== verification/Transcript_Tool.thy ===== *)
theory Transcript_Tool
  imports Sanitize Utf8 Events
begin

section \<open>The transcript viewer\<close>

text \<open>
  \<open>tools/transcript.py\<close>: the chunks of a session merged into runs and shown as lines of text. Input is
  bytes, output is code points. A line of the file is blank, not readable (with the exception's
  name), or an entry; \<open>Transcript_File\<close> reads it from its characters.
\<close>

subsection \<open>Bytes as text\<close>

text \<open>\<open>data.replace(b"\r\n", b"\n")\<close>.\<close>

fun fold_crlf :: "nat list \<Rightarrow> nat list" where
  "fold_crlf (a # b # bs) = (if a = 0x0D \<and> b = 0x0A then 0x0A # fold_crlf bs else a # fold_crlf (b # bs))"
| "fold_crlf bs = bs"

text \<open>\<open>decode("utf-8", errors="backslashreplace")\<close>: each byte of an ill-formed prefix as \<open>\xNN\<close>.\<close>

definition backslash_byte :: "nat \<Rightarrow> codepoints" where
  "backslash_byte b = [0x5C, 0x78, hex_code (b div 16), hex_code (b mod 16)]"

function decode_backslash :: "nat list \<Rightarrow> codepoints" where
  "decode_backslash [] = []"
| "decode_backslash (b # bs) =
     (case utf8_next b bs of
        (Some c, n) \<Rightarrow> c # decode_backslash (drop (n - 1) bs)
      | (None, n) \<Rightarrow> concat (map backslash_byte (b # take (n - 1) bs)) @ decode_backslash (drop (n - 1) bs))"
  by pat_completeness auto
termination by (relation "measure length") auto

definition render_bytes :: "byte list \<Rightarrow> codepoints" where
  "render_bytes data = translate_text tool_unsafe_multiline (decode_backslash (fold_crlf (map unat data)))"

lemma render_bytes_eq: "render_bytes data = escape_control_chars (decode_backslash (fold_crlf (map unat data))) True"
  by (simp add: render_bytes_def escape_control_chars_def tables_agree)

subsection \<open>Runs\<close>

datatype file_line = Blank | Unreadable string | Entry string string "byte list"

type_synonym run = "string \<times> string \<times> byte list"

definition unreadable_run :: "nat \<Rightarrow> string \<Rightarrow> run" where
  "unreadable_run lineno exn =
     (''?'', ''error'', utf8_encode (''line '' @ digits_of lineno @ '': unreadable entry ('' @ exn @ '')''))"

definition flush_run :: "run option \<Rightarrow> run list" where
  "flush_run current = (case current of None \<Rightarrow> [] | Some r \<Rightarrow> [r])"

fun merged_from :: "nat \<Rightarrow> run option \<Rightarrow> file_line list \<Rightarrow> run list" where
  "merged_from n current [] = flush_run current"
| "merged_from n current (Blank # ls) = merged_from (Suc n) current ls"
| "merged_from n current (Unreadable exn # ls) =
     flush_run current @ unreadable_run n exn # merged_from (Suc n) None ls"
| "merged_from n current (Entry stamp dir data # ls) =
     (case current of
        Some (s, d, acc) \<Rightarrow>
          (if d = dir then merged_from (Suc n) (Some (s, d, acc @ data)) ls
           else (s, d, acc) # merged_from (Suc n) (Some (stamp, dir, data)) ls)
      | None \<Rightarrow> merged_from (Suc n) (Some (stamp, dir, data)) ls)"

definition merged_runs :: "file_line list \<Rightarrow> run list" where
  "merged_runs ls = merged_from 1 None ls"

subsection \<open>Lines of text\<close>

definition run_label :: "string \<Rightarrow> codepoints" where
  "run_label dir =
     (if dir = ''recv'' then ascii ''client ->''
      else if dir = ''send'' then ascii ''<- honeypot''
      else ascii ''['' @ render_bytes (utf8_encode dir) @ ascii '']'')"

text \<open>\<open>body.split("\n")\<close>, without the empty piece after a final line break.\<close>

definition body_lines :: "codepoints \<Rightarrow> codepoints list" where
  "body_lines body =
     (let pieces = split_on (\<lambda>c. c = 0x0A) body
      in if body \<noteq> [] \<and> last body = 0x0A then butlast pieces else pieces)"

definition render_run :: "run \<Rightarrow> codepoints list" where
  "render_run r =
     (case r of (stamp, dir, data) \<Rightarrow>
        (ascii ''--- '' @ render_bytes (utf8_encode stamp) @ ascii ''  '' @ run_label dir)
          # map (\<lambda>l. ascii ''    '' @ l) (body_lines (render_bytes data)))"

definition render_transcript :: "file_line list \<Rightarrow> bool \<Rightarrow> codepoints list" where
  "render_transcript ls input_only =
     concat (map render_run (filter (\<lambda>(stamp, dir, data). \<not> (input_only \<and> dir \<noteq> ''recv'')) (merged_runs ls)))"

text \<open>The lines that \<open>TranscriptWriter\<close> leaves for what a session recorded, with their time stamps.\<close>

definition direction_name :: "direction \<Rightarrow> string" where
  "direction_name d = (case d of Recv \<Rightarrow> ''recv'' | Send \<Rightarrow> ''send'')"

definition transcript_file :: "(nat \<Rightarrow> string) \<Rightarrow> transcript \<Rightarrow> file_line list" where
  "transcript_file stamps t =
     map (\<lambda>(i, d, data). Entry (stamps i) (direction_name d) data) (enumerate 0 (tr_entries t))"

subsection \<open>No byte is lost and none acts on the terminal\<close>

definition bytes_of :: "string \<Rightarrow> run list \<Rightarrow> byte list" where
  "bytes_of dir rs = concat (map (\<lambda>(stamp, d, data). data) (filter (\<lambda>(stamp, d, data). d = dir) rs))"

definition entry_bytes :: "string \<Rightarrow> file_line list \<Rightarrow> byte list" where
  "entry_bytes dir ls = concat (map (\<lambda>l. case l of Entry _ d data \<Rightarrow> if d = dir then data else [] | _ \<Rightarrow> []) ls)"

lemma bytes_of_simps [simp]:
  "bytes_of dir [] = []" "bytes_of dir ((s, d, data) # rs) = (if d = dir then data else []) @ bytes_of dir rs"
  "bytes_of dir (rs @ rs') = bytes_of dir rs @ bytes_of dir rs'"
  by (simp_all add: bytes_of_def)

lemma entry_bytes_simps [simp]:
  "entry_bytes dir [] = []" "entry_bytes dir (Blank # ls) = entry_bytes dir ls"
  "entry_bytes dir (Unreadable e # ls) = entry_bytes dir ls"
  "entry_bytes dir (Entry s d data # ls) = (if d = dir then data else []) @ entry_bytes dir ls"
  by (simp_all add: entry_bytes_def)

lemma merged_from_bytes:
  "dir \<noteq> ''error'' \<Longrightarrow>
     bytes_of dir (merged_from n current ls) = bytes_of dir (flush_run current) @ entry_bytes dir ls"
  by (induction n current ls rule: merged_from.induct)
    (auto simp: flush_run_def unreadable_run_def split: option.split)

lemma merged_runs_bytes: "dir \<noteq> ''error'' \<Longrightarrow> bytes_of dir (merged_runs ls) = entry_bytes dir ls"
  by (simp add: merged_runs_def merged_from_bytes flush_run_def)

text \<open>A file without unreadable lines: its runs alternate.\<close>

definition readable :: "file_line \<Rightarrow> bool" where
  "readable l \<longleftrightarrow> (case l of Unreadable _ \<Rightarrow> False | _ \<Rightarrow> True)"

definition dirs :: "run list \<Rightarrow> string list" where
  "dirs rs = map (\<lambda>(s, d, data). d) rs"

lemma merged_from_alternate:
  "list_all readable ls \<Longrightarrow>
     distinct_adj (dirs (merged_from n current ls))
     \<and> (case current of None \<Rightarrow> True | Some (s, d, acc) \<Rightarrow>
          (\<exists>rest. dirs (merged_from n current ls) = d # rest))"
proof (induction n current ls rule: merged_from.induct)
  case (1 n current)
  then show ?case by (auto simp: flush_run_def dirs_def split: option.split)
next
  case (2 n current ls)
  then show ?case by (cases current) (auto simp: readable_def)
next
  case (4 n current stamp dir data ls)
  show ?case
  proof (cases current)
    case None
    with 4(1) [OF None] 4(4) show ?thesis by auto
  next
    case (Some r)
    obtain s d acc where r: "r = (s, d, acc)" by (cases r)
    show ?thesis
    proof (cases "d = dir")
      case True
      with 4(2) [OF Some r [symmetric] refl True] 4(4) Some r show ?thesis by auto
    next
      case False
      from 4(3) [OF Some r [symmetric] refl False] 4(4) obtain rest where
        "distinct_adj (dirs (merged_from (Suc n) (Some (stamp, dir, data)) ls))"
        "dirs (merged_from (Suc n) (Some (stamp, dir, data)) ls) = dir # rest" by auto
      with Some r False show ?thesis by (auto simp: dirs_def distinct_adj_Cons)
    qed
  qed
qed (auto simp: readable_def)

text \<open>What may be printed: nothing unsafe but tabs, and line breaks in a rendered field.\<close>

definition shown :: "nat set" where
  "shown = {0x09, 0x0A} \<union> {c. \<not> acts_on_terminal c}"

lemma shown_eq: "shown = {0x09, 0x0A} \<union> {c. \<not> unsafe_code c}"
  by (simp add: shown_def acts_on_terminal_iff)

lemma render_bytes_shown: "set (render_bytes data) \<subseteq> shown"
  using escape_multiline_safe by (auto simp: render_bytes_eq shown_eq)

lemma ascii_shown: "list_all (\<lambda>c. 32 \<le> (of_char c :: nat) \<and> (of_char c :: nat) \<le> 126) s \<Longrightarrow> set (ascii s) \<subseteq> shown"
  by (auto simp: ascii_def shown_eq list_all_iff printable_safe)

lemma split_pieces:
  "l \<in> set (body_lines body) \<Longrightarrow> set l \<subseteq> set body - {0x0A}"
  using set_split_on [of l "\<lambda>c. c = 0x0A" body] split_on_free [of l "\<lambda>c. c = 0x0A" body]
  by (auto simp: body_lines_def Let_def dest: in_set_butlastD split: if_splits)

lemma render_run_shown: "l \<in> set (render_run r) \<Longrightarrow> set l \<subseteq> shown"
proof -
  obtain stamp dir data where r: "r = (stamp, dir, data)" by (cases r)
  have "set (run_label dir) \<subseteq> shown"
    using render_bytes_shown by (simp add: run_label_def ascii_shown)
  moreover have "set (ascii ''--- '') \<subseteq> shown" "set (ascii ''  '') \<subseteq> shown" "set (ascii ''    '') \<subseteq> shown"
    by (simp_all add: ascii_shown)
  moreover assume "l \<in> set (render_run r)"
  ultimately show ?thesis
    using render_bytes_shown [of "utf8_encode stamp"] render_bytes_shown [of data]
    by (auto simp: r render_run_def subset_iff dest!: split_pieces)
qed

text \<open>Text made of printable characters is shown as it was sent.\<close>

lemma decode_backslash_ascii: "list_all (\<lambda>b. b < 128) bs \<Longrightarrow> decode_backslash bs = bs"
  by (induction bs) (simp_all add: utf8_next_def)

lemma fold_crlf_id: "0x0D \<notin> set bs \<Longrightarrow> fold_crlf bs = bs"
  by (induction bs rule: fold_crlf.induct) auto

lemma translate_id: "list_all (\<lambda>c. table c = None) s \<Longrightarrow> translate_text table s = s"
  by (induction s) (simp_all add: translate_text_def)

definition plain_byte :: "byte \<Rightarrow> bool" where
  "plain_byte b \<longleftrightarrow> b \<in> {0x09, 0x0A} \<or> (32 \<le> unat b \<and> unat b \<le> 126)"

lemma render_plain:
  assumes "list_all plain_byte data"
  shows "render_bytes data = map unat data"
proof -
  have u: "unat b \<in> {0x09, 0x0A} \<or> (32 \<le> unat b \<and> unat b \<le> 126)" if "b \<in> set data" for b
    using assms that by (auto simp: list_all_iff plain_byte_def)
  have "fold_crlf (map unat data) = map unat data"
    using u by (intro fold_crlf_id) fastforce
  moreover have "decode_backslash (map unat data) = map unat data"
    using u by (intro decode_backslash_ascii) (fastforce simp: list_all_iff)
  moreover have "translate_text unsafe_multiline_table (map unat data) = map unat data"
    using u by (intro translate_id)
      (fastforce simp: list_all_iff unsafe_multiline_table_def unsafe_table_None printable_safe)
  ultimately show ?thesis by (simp add: render_bytes_eq escape_control_chars_def)
qed

subsection \<open>What bytes read as\<close>

text \<open>
  What the bytes of a transcript are to read as, told without the decoder: CRLF is a line feed, the encoding
  of a character is the character or, where it acts on the terminal, its code in hexadecimal, and a byte that
  encodes nothing is its value. Every byte is accounted for, none twice.
\<close>

definition point_bytes :: "nat \<Rightarrow> nat list" where
  "point_bytes c =
     (if c < 0x80 then [c]
      else if c < 0x800 then [0xC0 + c div 64, 0x80 + c mod 64]
      else if c < 0x10000 then [0xE0 + c div 64 div 64, 0x80 + c div 64 mod 64, 0x80 + c mod 64]
      else [0xF0 + c div 64 div 64 div 64, 0x80 + c div 64 div 64 mod 64, 0x80 + c div 64 mod 64, 0x80 + c mod 64])"

definition hex_text :: "nat \<Rightarrow> codepoints" where
  "hex_text c =
     (if c < 256 then ascii [CHR 0x5C, CHR ''x''] @ map hex_code [c div 16, c mod 16]
      else ascii [CHR 0x5C, CHR ''u''] @ map hex_code [c div 4096, c div 256 mod 16, c div 16 mod 16, c mod 16])"

definition visible :: "nat \<Rightarrow> codepoints" where
  "visible c = (if c \<noteq> 0x09 \<and> c \<noteq> 0x0A \<and> acts_on_terminal c then hex_text c else [c])"

inductive reads_as :: "nat list \<Rightarrow> codepoints \<Rightarrow> bool" where
  reads_nothing: "reads_as [] []"
| reads_line_end: "reads_as bs s \<Longrightarrow> reads_as (0x0D # 0x0A # bs) (0x0A # s)"
| reads_character: "reads_as bs s \<Longrightarrow> reads_as (point_bytes c @ bs) (visible c @ s)"
| reads_stray: "0x80 \<le> b \<Longrightarrow> reads_as bs s \<Longrightarrow> reads_as (b # bs) (hex_text b @ s)"

lemma joined_parts: "(r :: nat) < 64 \<Longrightarrow> (q * 64 + r) div 64 = q \<and> (q * 64 + r) mod 64 = r"
  by simp

lemma three_bytes_range: "(32 :: nat) \<le> x \<Longrightarrow> 0x800 \<le> x * 64 + y" "(x :: nat) < 1024 \<Longrightarrow> y < 64 \<Longrightarrow> x * 64 + y < 0x10000"
  by linarith+

lemma four_bytes_range: "(16 :: nat) \<le> x \<Longrightarrow> 0x10000 \<le> (x * 64 + y) * 64 + z"
  using mult_le_mono1 [of 16 x 4096] by (simp add: distrib_right)

lemma utf8_next_bytes:
  assumes "utf8_next b bs = (Some c, n)"
  shows "b # bs = point_bytes c @ drop (n - 1) bs"
proof -
  consider "b < 0x80" | "0xC2 \<le> b" "b \<le> 0xDF" | "0xE0 \<le> b" "b \<le> 0xEF" | "0xF0 \<le> b" "b \<le> 0xF4"
    using assms by (fastforce simp: utf8_next_def split: if_splits)
  then show ?thesis
  proof cases
    case 1
    with assms show ?thesis by (auto simp: utf8_next_def point_bytes_def)
  next
    case 2
    with assms obtain b1 r where c: "is_cont b1" "bs = b1 # r" "n = 2" "c = (b - 0xC0) * 64 + (b1 - 0x80)"
      by (auto simp: utf8_next_def split: list.splits if_splits)
    have m: "0x80 \<le> b1" "b1 - 0x80 < 64" using c(1) by (auto simp: is_cont_def)
    have "0x80 \<le> c" "c < 0x800" using 2 m by (auto simp: c(4))
    with joined_parts [OF m(2)] 2 m(1) c(2,3) show ?thesis
      by (simp add: point_bytes_def c(4))
  next
    case 3
    with assms obtain b1 b2 r where c: "second_ok b b1" "is_cont b2" "bs = b1 # b2 # r" "n = 3"
      "c = ((b - 0xE0) * 64 + (b1 - 0x80)) * 64 + (b2 - 0x80)"
      by (auto simp: utf8_next_def split: list.splits if_splits)
    have m: "0x80 \<le> b1" "b1 - 0x80 < 64" "0x80 \<le> b2" "b2 - 0x80 < 64" "b = 0xE0 \<Longrightarrow> 0x20 \<le> b1 - 0x80"
      using c(1,2) 3 by (auto simp: is_cont_def second_ok_def split: if_splits)
    have "0x20 \<le> (b - 0xE0) * 64 + (b1 - 0x80)" using m(5) 3 by (cases "b = 0xE0") auto
    moreover have "(b - 0xE0) * 64 + (b1 - 0x80) < 1024" using m(2) 3 by linarith
    ultimately have "0x800 \<le> c" "c < 0x10000" using m(4) by (simp_all only: c(5) three_bytes_range)
    with joined_parts [OF m(4)] joined_parts [OF m(2)] 3 m(1,3) c(3,4) show ?thesis
      by (simp add: point_bytes_def c(5))
  next
    case 4
    with assms obtain b1 b2 b3 r where c: "second_ok b b1" "is_cont b2" "is_cont b3" "bs = b1 # b2 # b3 # r" "n = 4"
      "c = (((b - 0xF0) * 64 + (b1 - 0x80)) * 64 + (b2 - 0x80)) * 64 + (b3 - 0x80)"
      by (auto simp: utf8_next_def split: list.splits if_splits)
    have m: "0x80 \<le> b1" "b1 - 0x80 < 64" "0x80 \<le> b2" "b2 - 0x80 < 64" "0x80 \<le> b3" "b3 - 0x80 < 64"
      "b = 0xF0 \<Longrightarrow> 0x10 \<le> b1 - 0x80"
      using c(1,2,3) 4 by (auto simp: is_cont_def second_ok_def split: if_splits)
    have "0x10 \<le> (b - 0xF0) * 64 + (b1 - 0x80)" using m(7) 4 by (cases "b = 0xF0") auto
    then have "0x10000 \<le> c" by (simp only: c(6) four_bytes_range)
    with joined_parts [OF m(6)] joined_parts [OF m(4)] joined_parts [OF m(2)] 4 m(1,3,5) c(4,5) show ?thesis
      by (simp add: point_bytes_def c(6))
  qed
qed

lemma utf8_next_stray:
  "utf8_next b bs = (None, n) \<Longrightarrow> list_all (\<lambda>x. 0x80 \<le> x) (b # take (n - 1) bs)"
  by (auto simp: utf8_next_def is_cont_def second_ok_def split: list.splits if_splits)

lemma visible_code: "(case tool_unsafe_multiline c of None \<Rightarrow> [c] | Some s \<Rightarrow> s) = visible c"
proof -
  have "control_code c \<Longrightarrow> c < 256" "invisible_code c \<Longrightarrow> \<not> c < 256"
    by (auto simp: control_code_def invisible_code_def)
  then show ?thesis
    by (auto simp: visible_def tables_agree unsafe_multiline_table_def unsafe_table_def acts_on_terminal_iff
        unsafe_code_def hex_text_def ascii_def)
qed

lemma translate_simps:
  "translate_text f [] = []" "translate_text f (c # s) = (case f c of None \<Rightarrow> [c] | Some u \<Rightarrow> u) @ translate_text f s"
  "translate_text f (s @ s') = translate_text f s @ translate_text f s'"
  by (simp_all add: translate_text_def)

lemma hex_code_printable: "d < 16 \<Longrightarrow> tool_unsafe_multiline (hex_code d) = None"
  using hex_code_range [of d]
  by (simp add: tables_agree unsafe_multiline_table_def unsafe_table_None printable_safe)

lemma stray_bytes_read:
  assumes "list_all (\<lambda>x. 0x80 \<le> x \<and> x < 256) xs" and "reads_as bs s"
  shows "reads_as (xs @ bs) (translate_text tool_unsafe_multiline (concat (map backslash_byte xs)) @ s)"
  using assms(1)
proof (induction xs)
  case Nil
  with assms(2) show ?case by (simp add: translate_simps)
next
  case (Cons x xs)
  have "translate_text tool_unsafe_multiline (backslash_byte x) = hex_text x"
  proof -
    have "tool_unsafe_multiline 0x5C = None" "tool_unsafe_multiline 0x78 = None"
      by (simp_all add: tables_agree unsafe_multiline_table_def unsafe_table_None printable_safe)
    moreover have "x div 16 < 16" "x mod 16 < 16" using Cons.prems by auto
    ultimately show ?thesis using Cons.prems
      by (simp add: backslash_byte_def translate_simps hex_code_printable hex_text_def ascii_def)
  qed
  with Cons reads_stray [of x] show ?case by (simp add: translate_simps)
qed

text \<open>Folding CRLF changes nothing of this: it is in no encoding of a character.\<close>

lemma fold_crlf_high:
  "list_all (\<lambda>x. 0x80 \<le> x) p \<Longrightarrow> fold_crlf r = p @ bs \<Longrightarrow> \<exists>r'. r = p @ r' \<and> fold_crlf r' = bs"
proof (induction p arbitrary: r)
  case (Cons a p)
  from Cons.prems have "r \<noteq> []" by auto
  then obtain b r1 where r: "r = b # r1" by (cases r) auto
  with Cons.prems have "fold_crlf r = b # fold_crlf r1" by (cases r1) (auto split: if_splits)
  with Cons.prems Cons.IH [of r1] r show ?case by auto
qed simp

lemma point_bytes_tail: "b # x = point_bytes c @ y \<Longrightarrow> \<exists>p. point_bytes c = b # p \<and> list_all (\<lambda>x. 0x80 \<le> x) p \<and> x = p @ y"
  by (auto simp: point_bytes_def split: if_splits)

lemma decoded_reads:
  "list_all (\<lambda>x. x < 256) bs \<Longrightarrow> reads_as bs (translate_text tool_unsafe_multiline (decode_backslash (fold_crlf bs)))"
proof (induction bs rule: measure_induct_rule [of length])
  case (less bs)
  let ?t = "translate_text tool_unsafe_multiline"
  show ?case
  proof (cases "\<exists>r. bs = 0x0D # 0x0A # r")
    case True
    then obtain r where r: "bs = 0x0D # 0x0A # r" by blast
    with less have "reads_as r (?t (decode_backslash (fold_crlf r)))" by simp
    moreover have "tool_unsafe_multiline 0x0A = None" by (simp add: tool_unsafe_multiline_def)
    ultimately show ?thesis using reads_line_end by (simp add: r utf8_next_def translate_simps)
  next
    case False
    show ?thesis
    proof (cases bs)
      case Nil
      then show ?thesis by (simp add: translate_simps reads_nothing)
    next
      case (Cons b r)
      with False have f: "fold_crlf bs = b # fold_crlf r" by (cases r) auto
      obtain cp n where u: "utf8_next b (fold_crlf r) = (cp, n)" by fastforce
      let ?rest = "drop (n - 1) (fold_crlf r)"
      show ?thesis
      proof (cases cp)
        case (Some c)
        from u [unfolded Some, THEN utf8_next_bytes] obtain p where
          p: "point_bytes c = b # p" "list_all (\<lambda>x. 0x80 \<le> x) p" "fold_crlf r = p @ ?rest"
          using point_bytes_tail by blast
        from fold_crlf_high [OF p(2,3)] obtain r' where r': "r = p @ r'" "fold_crlf r' = ?rest" by blast
        have "length r' < length bs" "list_all (\<lambda>x. x < 256) r'"
          using less.prems Cons r'(1) arg_cong [OF r'(1), of length] by (auto simp: list_all_iff)
        from less.IH [OF this] have "reads_as r' (?t (decode_backslash ?rest))" by (simp only: r'(2))
        from reads_character [OF this, of c] have "reads_as bs (visible c @ ?t (decode_backslash ?rest))"
          using Cons r'(1) p(1) by simp
        moreover have "decode_backslash (fold_crlf bs) = c # decode_backslash ?rest" by (simp add: f u Some)
        ultimately show ?thesis by (simp only: translate_simps visible_code)
      next
        case None
        obtain p where p: "p = take (n - 1) (fold_crlf r)" by blast
        from u [unfolded None, THEN utf8_next_stray] p have h: "0x80 \<le> b" "list_all (\<lambda>x. 0x80 \<le> x) p" by simp_all
        have "fold_crlf r = p @ ?rest" by (simp add: p)
        from fold_crlf_high [OF h(2) this] obtain r' where r': "r = p @ r'" "fold_crlf r' = ?rest" by blast
        have "length r' < length bs" "list_all (\<lambda>x. x < 256) r'" using less.prems Cons r'(1) by (auto simp: list_all_iff)
        from less.IH [OF this] have "reads_as r' (?t (decode_backslash ?rest))" by (simp only: r'(2))
        moreover have "list_all (\<lambda>x. 0x80 \<le> x \<and> x < 256) (b # p)"
          using h less.prems r'(1) Cons by (auto simp: list_all_iff)
        ultimately have "reads_as ((b # p) @ r') (?t (concat (map backslash_byte (b # p))) @ ?t (decode_backslash ?rest))"
          by (rule stray_bytes_read [rotated])
        moreover have "decode_backslash (fold_crlf bs) = concat (map backslash_byte (b # p)) @ decode_backslash ?rest"
          by (simp add: f u None p)
        moreover have "bs = (b # p) @ r'" using Cons r'(1) by simp
        ultimately show ?thesis by (simp only: translate_simps)
      qed
    qed
  qed
qed

lemma render_bytes_reads: "reads_as (map unat data) (render_bytes data)"
  unfolding render_bytes_def
proof (rule decoded_reads)
  have "unat b < 256" for b :: byte using unsigned_less [of b] by simp
  then show "list_all (\<lambda>x. x < 256) (map unat data)" by (simp add: list_all_iff)
qed

subsection \<open>What a run looks like\<close>

text \<open>
  A run as it is to be seen, told without the viewer: a header with the time stamp and who sent it, then the
  data cut at its line feeds, each piece indented. The pieces put together again are what the data reads as,
  a final line feed apart; data of printable characters, tabs and line feeds reads as it is.
\<close>

fun glue_lines :: "codepoints list \<Rightarrow> codepoints" where
  "glue_lines [] = []"
| "glue_lines [p] = p"
| "glue_lines (p # q # ps) = p @ 0x0A # glue_lines (q # ps)"

definition shown_as :: "byte list \<Rightarrow> codepoints \<Rightarrow> bool" where
  "shown_as data body \<longleftrightarrow> reads_as (map unat data) body \<and> (list_all plain_byte data \<longrightarrow> body = map unat data)"

definition shows_run :: "run \<Rightarrow> codepoints list \<Rightarrow> bool" where
  "shows_run r ls \<longleftrightarrow>
     (case r of (stamp, dir, data) \<Rightarrow>
        \<exists>time pieces body. ls = (ascii ''--- '' @ time @ ascii ''  ''
              @ ascii (if dir = ''recv'' then ''client ->'' else ''<- honeypot'')) # map (\<lambda>p. ascii ''    '' @ p) pieces
          \<and> shown_as (utf8_encode stamp) time
          \<and> pieces \<noteq> [] \<and> list_all (\<lambda>p. 0x0A \<notin> set p) pieces
          \<and> body = glue_lines pieces @ (if body \<noteq> [] \<and> last body = 0x0A then [0x0A] else [])
          \<and> shown_as data body)"

lemma glue_split: "glue_lines (split_on (\<lambda>c. c = 0x0A) s) = s"
proof (induction s)
  case (Cons c s)
  obtain w ws where w: "split_on (\<lambda>c. c = 0x0A) s = w # ws"
    by (cases "split_on (\<lambda>c. c = 0x0A) s") auto
  with Cons show ?case by (cases ws) auto
qed simp

lemma split_final_feed: "split_on (\<lambda>c. c = (0x0A :: nat)) (s @ [0x0A]) = split_on (\<lambda>c. c = 0x0A) s @ [[]]"
  by (induction s) (auto split: list.split)

lemma body_lines_glue:
  "body_lines body \<noteq> []" "list_all (\<lambda>p. 0x0A \<notin> set p) (body_lines body)"
  "body = glue_lines (body_lines body) @ (if body \<noteq> [] \<and> last body = 0x0A then [0x0A] else [])"
proof -
  show "list_all (\<lambda>p. 0x0A \<notin> set p) (body_lines body)" using split_pieces by (fastforce simp: list_all_iff)
  have "body_lines body \<noteq> [] \<and>
    body = glue_lines (body_lines body) @ (if body \<noteq> [] \<and> last body = 0x0A then [0x0A] else [])"
  proof (cases "body \<noteq> [] \<and> last body = 0x0A")
    case True
    then obtain b where b: "body = b @ [0x0A]" by (metis append_butlast_last_id)
    then have "body_lines body = split_on (\<lambda>c. c = 0x0A) b"
      by (simp add: body_lines_def split_final_feed)
    then show ?thesis using b by (simp add: glue_split)
  next
    case False
    then have "body_lines body = split_on (\<lambda>c. c = 0x0A) body"
      by (simp only: body_lines_def Let_def if_False)
    with False show ?thesis by (simp add: glue_split)
  qed
  then show "body_lines body \<noteq> []"
    "body = glue_lines (body_lines body) @ (if body \<noteq> [] \<and> last body = 0x0A then [0x0A] else [])" by blast+
qed

lemma shown_as_rendered: "shown_as data (render_bytes data)"
  by (simp add: shown_as_def render_plain render_bytes_reads)

lemma render_run_shows:
  assumes "dir \<in> {''recv'', ''send''}"
  shows "shows_run (stamp, dir, data) (render_run (stamp, dir, data))"
proof -
  let ?body = "render_bytes data"
  have l: "run_label dir = ascii (if dir = ''recv'' then ''client ->'' else ''<- honeypot'')"
    using assms by (elim insertE emptyE) (simp_all add: run_label_def)
  show ?thesis
    unfolding shows_run_def render_run_def prod.case l
    by (intro exI conjI) (rule refl, rule shown_as_rendered, rule body_lines_glue, rule body_lines_glue,
      rule body_lines_glue, rule shown_as_rendered)
qed

text \<open>The chunks of a file, and the run that a group of them makes.\<close>

definition recorded :: "(nat \<Rightarrow> string) \<Rightarrow> transcript \<Rightarrow> run list" where
  "recorded stamps t = map (\<lambda>(i, d, data). (stamps i, direction_name d, data)) (enumerate 0 (tr_entries t))"

definition run_of :: "run list \<Rightarrow> run" where
  "run_of g = (fst (hd g), fst (snd (hd g)), concat (map (snd \<circ> snd) g))"

definition one_direction :: "run list \<Rightarrow> bool" where
  "one_direction g \<longleftrightarrow> g \<noteq> [] \<and> list_all (\<lambda>x. fst (snd x) = fst (snd (hd g))) g"

lemma merged_from_groups:
  assumes "one_direction g"
  shows "\<exists>gs. concat gs = g @ xs \<and> list_all one_direction gs
    \<and> merged_from n (Some (run_of g)) (map (\<lambda>(stamp, dir, data). Entry stamp dir data) xs) = map run_of gs"
  using assms
proof (induction xs arbitrary: n g)
  case Nil
  then show ?case by (intro exI [of _ "[g]"]) (simp add: flush_run_def)
next
  case (Cons x xs)
  obtain stamp dir data where x: "x = (stamp, dir, data)" by (cases x)
  let ?es = "map (\<lambda>(stamp, dir, data). Entry stamp dir data) xs"
  show ?case
  proof (cases "fst (snd (hd g)) = dir")
    case True
    have g: "one_direction (g @ [x])" "run_of (g @ [x]) = (fst (run_of g), dir, snd (snd (run_of g)) @ data)"
      using Cons.prems True by (auto simp: one_direction_def run_of_def x list_all_iff)
    have "merged_from n (Some (run_of g)) (Entry stamp dir data # ?es) = merged_from (Suc n) (Some (run_of (g @ [x]))) ?es"
      using True by (simp add: g(2)) (simp add: run_of_def)
    with Cons.IH [OF g(1), of "Suc n"] show ?thesis by (simp add: x)
  next
    case False
    have "one_direction [x]" "run_of [x] = x" by (simp_all add: one_direction_def run_of_def x)
    with Cons.IH [of "[x]" "Suc n"] obtain gs where gs: "concat gs = x # xs" "list_all one_direction gs"
      "merged_from (Suc n) (Some x) ?es = map run_of gs" by auto
    have "merged_from n (Some (run_of g)) (Entry stamp dir data # ?es) = run_of g # merged_from (Suc n) (Some x) ?es"
      using False by (simp add: x run_of_def)
    with gs Cons.prems show ?thesis by (intro exI [of _ "g # gs"]) (simp add: x)
  qed
qed

lemma merged_runs_groups:
  "\<exists>gs. concat gs = recorded stamps t \<and> list_all one_direction gs
    \<and> merged_runs (transcript_file stamps t) = map run_of gs"
proof -
  have f: "transcript_file stamps t = map (\<lambda>(stamp, dir, data). Entry stamp dir data) (recorded stamps t)"
    by (simp add: transcript_file_def recorded_def case_prod_beta')
  show ?thesis
  proof (cases "recorded stamps t")
    case Nil
    then show ?thesis by (intro exI [of _ "[]"]) (simp add: f merged_runs_def flush_run_def)
  next
    case (Cons x xs)
    have x: "one_direction [x]" "run_of [x] = x" by (simp_all add: one_direction_def run_of_def)
    from merged_from_groups [OF x(1), of xs 2] Cons x(2) show ?thesis
      by (cases x) (simp add: f merged_runs_def numeral_2_eq_2)
  qed
qed

lemma recorded_directions: "list_all (\<lambda>x. fst (snd x) \<in> {''recv'', ''send''}) (recorded stamps t)"
  by (auto simp: recorded_def list_all_iff direction_name_def split: direction.splits)

lemma run_directions:
  "list_all (\<lambda>x. fst (snd x) \<in> {''recv'', ''send''}) (merged_runs (transcript_file stamps t))"
proof -
  obtain gs where gs: "concat gs = recorded stamps t" "list_all one_direction gs"
    "merged_runs (transcript_file stamps t) = map run_of gs" using merged_runs_groups by blast
  have "fst (snd (run_of g)) \<in> {''recv'', ''send''}" if "g \<in> set gs" for g
  proof -
    have "hd g \<in> set (recorded stamps t)"
      using gs(2) that unfolding gs(1) [symmetric] by (auto simp: list_all_iff one_direction_def intro!: bexI [of _ g])
    with recorded_directions [of stamps t] show ?thesis by (auto simp: list_all_iff run_of_def)
  qed
  then show ?thesis by (auto simp: gs(3) list_all_iff)
qed

definition client_runs :: "run list \<Rightarrow> run list" where
  "client_runs rs = filter (\<lambda>(stamp, dir, data). dir = ''recv'') rs"

lemma render_transcript_shows:
  "list_all2 shows_run ((if b then client_runs else id) (merged_runs (transcript_file stamps t)))
     (map render_run ((if b then client_runs else id) (merged_runs (transcript_file stamps t))))
   \<and> render_transcript (transcript_file stamps t) b
     = concat (map render_run ((if b then client_runs else id) (merged_runs (transcript_file stamps t))))"
proof -
  let ?rs = "(if b then client_runs else id) (merged_runs (transcript_file stamps t))"
  have "shows_run x (render_run x)" if "x \<in> set ?rs" for x
  proof -
    have "fst (snd x) \<in> {''recv'', ''send''}"
      using that run_directions [of stamps t] by (auto simp: client_runs_def list_all_iff split: if_splits)
    then show ?thesis using render_run_shows [of "fst (snd x)" "fst x" "snd (snd x)"] by simp
  qed
  then have "list_all2 shows_run ?rs (map render_run ?rs)" by (auto simp: list_all2_conv_all_nth)
  moreover have "filter (\<lambda>(stamp, dir, data). \<not> (b \<and> dir \<noteq> ''recv'')) rs = (if b then client_runs else id) rs"
    for rs :: "run list" by (simp add: client_runs_def)
  ultimately show ?thesis by (simp add: render_transcript_def)
qed

text \<open>The file of a session.\<close>

lemma entry_bytes_file:
  "entry_bytes (direction_name d) (transcript_file stamps t) = concat (map snd (filter (\<lambda>e. fst e = d) (tr_entries t)))"
proof -
  have "entry_bytes (direction_name d) (map (\<lambda>(i, d, data). Entry (stamps i) (direction_name d) data) (enumerate n es))
      = concat (map snd (filter (\<lambda>e. fst e = d) es))" for n es
  proof (induction es arbitrary: n)
    case (Cons e es)
    have "direction_name (fst e) = direction_name d \<longleftrightarrow> fst e = d"
      by (cases "fst e"; cases d) (simp_all add: direction_name_def)
    with Cons show ?case by (cases e) simp
  qed simp
  then show ?thesis by (simp add: transcript_file_def)
qed

lemma transcript_file_readable: "list_all readable (transcript_file stamps t)"
  by (auto simp: transcript_file_def list_all_iff readable_def)

text \<open>
  The viewer shows what a session exchanged and nothing that acts on the terminal: in the runs it
  makes of the file that a session leaves, all bytes of either direction appear once and in order, and
  neighbouring runs have different directions; and for any file at all, forged or damaged, no line of
  output holds a control, C1 or invisible character other than a tab or line break.
\<close>
theorem viewer_is_faithful_and_inert:
  "bytes_of ''recv'' (merged_runs (transcript_file stamps t))
     = concat (map snd (filter (\<lambda>e. fst e = Recv) (tr_entries t)))
   \<and> bytes_of ''send'' (merged_runs (transcript_file stamps t))
     = concat (map snd (filter (\<lambda>e. fst e = Send) (tr_entries t)))
   \<and> distinct_adj (dirs (merged_runs (transcript_file stamps t)))
   \<and> (\<Union>l \<in> set (render_transcript any_file input_only). set l) \<subseteq> shown"
proof -
  have "bytes_of ''recv'' (merged_runs (transcript_file stamps t))
      = concat (map snd (filter (\<lambda>e. fst e = Recv) (tr_entries t)))"
    using merged_runs_bytes [of "''recv''"] entry_bytes_file [of Recv] by (simp add: direction_name_def)
  moreover have "bytes_of ''send'' (merged_runs (transcript_file stamps t))
      = concat (map snd (filter (\<lambda>e. fst e = Send) (tr_entries t)))"
    using merged_runs_bytes [of "''send''"] entry_bytes_file [of Send] by (simp add: direction_name_def)
  moreover have "distinct_adj (dirs (merged_runs (transcript_file stamps t)))"
    unfolding merged_runs_def using merged_from_alternate [OF transcript_file_readable] by blast
  moreover have "set l \<subseteq> shown" if "l \<in> set (render_transcript any_file input_only)" for l
    using that render_run_shown unfolding render_transcript_def by fastforce
  ultimately show ?thesis by blast
qed

subsection \<open>Finding the file\<close>

text \<open>\<open>resolve\<close>: a path, or a session id looked up in a directory; \<open>Inl\<close> is the message of \<open>sys.exit\<close>.\<close>

definition session_id_char :: "char \<Rightarrow> bool" where
  "session_id_char c \<longleftrightarrow>
     (let n = of_char c :: nat
      in (65 \<le> n \<and> n \<le> 90) \<or> (97 \<le> n \<and> n \<le> 122) \<or> (48 \<le> n \<and> n \<le> 57) \<or> n = 95 \<or> n = 45)"

definition resolve_transcript :: "(string \<Rightarrow> bool) \<Rightarrow> string \<Rightarrow> string \<Rightarrow> codepoints + string" where
  "resolve_transcript is_file target dir =
     (if is_file target then Inr target
      else if target = [] \<or> \<not> list_all session_id_char target
      then Inl (ascii ''no such transcript file: '' @ render_bytes (utf8_encode target))
      else
        (let path = dir @ ''/'' @ target @ ''.jsonl''
         in if is_file path then Inr path
            else Inl (ascii ''no transcript for session '' @ ascii target @ ascii '' in '' @ ascii dir)))"

text \<open>A target that is not a file itself never leads out of the directory.\<close>

lemma resolve_stays_inside:
  assumes "resolve_transcript is_file target dir = Inr path" and "\<not> is_file target"
  shows "path = dir @ ''/'' @ target @ ''.jsonl'' \<and> CHR ''/'' \<notin> set target \<and> CHR ''.'' \<notin> set target"
  using assms
  by (auto simp: resolve_transcript_def Let_def list_all_iff session_id_char_def split: if_splits)

end
