(* ===== verification/Json_Reader.thy ===== *)
theory Json_Reader
  imports Events
begin

section \<open>Reading JSON back\<close>

text \<open>
  \<open>json.loads\<close>, through which the dashboard reads the event log, the transcript viewer a transcript, the
  worker a job and the session manager a result. \<open>None\<close> is \<open>JSONDecodeError\<close>. A floating-point number
  is the text it has; duplicate keys of an object leave the last value at the place of the first. Numbers
  of more than 4300 digits and nesting beyond the interpreter's stack, on which Python raises something
  else, are set aside. The reader has fuel; what \<open>loads\<close> gives it is always enough
  (\<open>read_value_fuel\<close>).
\<close>

subsection \<open>Numbers and words\<close>

definition is_json_space :: "char \<Rightarrow> bool" where
  "is_json_space c \<longleftrightarrow> c \<in> {CHR 0x20, CHR 0x09, CHR 0x0A, CHR 0x0D}"

definition skip_space :: "string \<Rightarrow> string" where
  "skip_space s = dropWhile is_json_space s"

text \<open>\<open>(-?(?:0|[1-9][0-9]*))(\.[0-9]+)?([eE][-+]?[0-9]+)?\<close>, part by part: what is matched and the rest.\<close>

definition read_whole :: "string \<Rightarrow> (string \<times> string) option" where
  "read_whole s =
     (case s of
        [] \<Rightarrow> None
      | c # r \<Rightarrow>
          if c = CHR ''0'' then Some ([c], r)
          else if is_digit c then Some (c # takeWhile is_digit r, dropWhile is_digit r) else None)"

definition read_fraction :: "string \<Rightarrow> string \<times> string" where
  "read_fraction s =
     (case s of
        [] \<Rightarrow> ([], [])
      | c # r \<Rightarrow>
          if c = CHR ''.'' \<and> takeWhile is_digit r \<noteq> [] then (c # takeWhile is_digit r, dropWhile is_digit r)
          else ([], s))"

definition exponent_sign :: "string \<Rightarrow> string" where
  "exponent_sign s = (case s of [] \<Rightarrow> [] | c # _ \<Rightarrow> if c \<in> {CHR ''+'', CHR ''-''} then [c] else [])"

definition read_exponent :: "string \<Rightarrow> string \<times> string" where
  "read_exponent s =
     (case s of
        [] \<Rightarrow> ([], [])
      | c # r \<Rightarrow>
          let sg = exponent_sign r; ds = drop (length sg) r
          in if c \<in> {CHR ''e'', CHR ''E''} \<and> takeWhile is_digit ds \<noteq> []
             then (c # sg @ takeWhile is_digit ds, dropWhile is_digit ds)
             else ([], s))"

definition number_value :: "bool \<Rightarrow> string \<Rightarrow> string \<Rightarrow> string \<Rightarrow> json" where
  "number_value neg w f e =
     (if f = [] \<and> e = [] then JInt (if neg then - int (decimal_value w) else int (decimal_value w))
      else JFloat ((if neg then ''-'' else []) @ w @ f @ e))"

definition read_number :: "string \<Rightarrow> (json \<times> string) option" where
  "read_number s =
     (let neg = startswith s ''-''
      in case read_whole (if neg then drop 1 s else s) of
           None \<Rightarrow> None
         | Some (w, r) \<Rightarrow>
             (case read_fraction r of (f, r1) \<Rightarrow>
                (case read_exponent r1 of (e, r2) \<Rightarrow> Some (number_value neg w f e, r2))))"

definition json_words :: "(string \<times> json) list" where
  "json_words =
     [(''null'', JNull), (''true'', JBool True), (''false'', JBool False), (''NaN'', JFloat ''NaN''),
      (''Infinity'', JFloat ''Infinity''), (''-Infinity'', JFloat ''-Infinity'')]"

definition read_word :: "string \<Rightarrow> (json \<times> string) option" where
  "read_word s =
     map_option (\<lambda>(w, v). (v, drop (length w) s)) (find (\<lambda>(w, v). startswith s w) json_words)"

definition read_scalar :: "string \<Rightarrow> (json \<times> string) option" where
  "read_scalar s = (case read_word s of Some x \<Rightarrow> Some x | None \<Rightarrow> read_number s)"

subsection \<open>Values\<close>

definition dict_of :: "(string \<times> json) list \<Rightarrow> (string \<times> json) list" where
  "dict_of kvs = fold (\<lambda>(k, v). AList.update k v) kvs []"

fun read_value :: "nat \<Rightarrow> string \<Rightarrow> (json \<times> string) option"
  and read_items :: "nat \<Rightarrow> string \<Rightarrow> (json list \<times> string) option"
  and read_pairs :: "nat \<Rightarrow> string \<Rightarrow> ((string \<times> json) list \<times> string) option" where
  "read_value 0 s = None"
| "read_items 0 s = None"
| "read_pairs 0 s = None"
| "read_value (Suc n) s =
     (case s of
        [] \<Rightarrow> None
      | c # r \<Rightarrow>
          if c = CHR 0x22 then map_option (apfst JStr) (read_literal r)
          else if c = CHR ''{'' then
            (case skip_space r of
               [] \<Rightarrow> None
             | d # r1 \<Rightarrow> if d = CHR ''}'' then Some (JObj [], r1)
                        else map_option (apfst (\<lambda>kvs. JObj (dict_of kvs))) (read_pairs n (d # r1)))
          else if c = CHR ''['' then
            (case skip_space r of
               [] \<Rightarrow> None
             | d # r1 \<Rightarrow> if d = CHR '']'' then Some (JList [], r1) else map_option (apfst JList) (read_items n (d # r1)))
          else read_scalar s)"
| "read_items (Suc n) s =
     (case read_value n s of
        None \<Rightarrow> None
      | Some (v, r) \<Rightarrow>
          (case skip_space r of
             [] \<Rightarrow> None
           | c # r1 \<Rightarrow>
               if c = CHR '']'' then Some ([v], r1)
               else if c = CHR '','' then map_option (apfst (Cons v)) (read_items n (skip_space r1))
               else None))"
| "read_pairs (Suc n) s =
     (case s of
        [] \<Rightarrow> None
      | q # r \<Rightarrow>
          if q \<noteq> CHR 0x22 then None
          else
            (case read_literal r of
               None \<Rightarrow> None
             | Some (k, r1) \<Rightarrow>
                 (case skip_space r1 of
                    [] \<Rightarrow> None
                  | d # r2 \<Rightarrow>
                      if d \<noteq> CHR '':'' then None
                      else
                        (case read_value n (skip_space r2) of
                           None \<Rightarrow> None
                         | Some (v, r3) \<Rightarrow>
                             (case skip_space r3 of
                                [] \<Rightarrow> None
                              | c # r4 \<Rightarrow>
                                  if c = CHR ''}'' then Some ([(k, v)], r4)
                                  else if c = CHR '','' then
                                    map_option (apfst (Cons (k, v))) (read_pairs n (skip_space r4))
                                  else None)))))"

definition read_fuel :: "string \<Rightarrow> nat" where
  "read_fuel s = Suc (2 * length s)"

definition loads :: "string \<Rightarrow> json option" where
  "loads s =
     (case read_value (read_fuel s) (skip_space s) of
        None \<Rightarrow> None
      | Some (v, r) \<Rightarrow> if skip_space r = [] then Some v else None)"

subsection \<open>Every reader consumes, and the fuel is enough\<close>

declare read_value.simps(2) [simp del] read_items.simps(2) [simp del] read_pairs.simps(2) [simp del]

lemma read_items_Some:
  "read_items (Suc n) s = Some (vs, r) \<longleftrightarrow>
     (\<exists>v r0 c r1. read_value n s = Some (v, r0) \<and> skip_space r0 = c # r1
        \<and> (c = CHR '']'' \<and> vs = [v] \<and> r = r1
           \<or> c = CHR '','' \<and> (\<exists>ws. read_items n (skip_space r1) = Some (ws, r) \<and> vs = v # ws)))"
  by (auto simp: read_items.simps(2) split: option.splits list.splits if_splits)

lemma read_pairs_Some:
  "read_pairs (Suc n) s = Some (kvs, r) \<longleftrightarrow>
     (\<exists>s1 k r1 r2 v r3 c r4. s = CHR 0x22 # s1 \<and> read_literal s1 = Some (k, r1)
        \<and> skip_space r1 = CHR '':'' # r2 \<and> read_value n (skip_space r2) = Some (v, r3) \<and> skip_space r3 = c # r4
        \<and> (c = CHR ''}'' \<and> kvs = [(k, v)] \<and> r = r4
           \<or> c = CHR '','' \<and> (\<exists>ps. read_pairs n (skip_space r4) = Some (ps, r) \<and> kvs = (k, v) # ps)))"
  by (auto simp: read_pairs.simps(2) split: option.splits list.splits if_splits)

lemma read_value_Some:
  "read_value (Suc n) s = Some (v, r) \<longleftrightarrow>
     (\<exists>s1 t. s = CHR 0x22 # s1 \<and> read_literal s1 = Some (t, r) \<and> v = JStr t)
     \<or> (\<exists>s1 d r1. s = CHR ''{'' # s1 \<and> skip_space s1 = d # r1
          \<and> (d = CHR ''}'' \<and> v = JObj [] \<and> r = r1
             \<or> d \<noteq> CHR ''}'' \<and> (\<exists>kvs. read_pairs n (d # r1) = Some (kvs, r) \<and> v = JObj (dict_of kvs))))
     \<or> (\<exists>s1 d r1. s = CHR ''['' # s1 \<and> skip_space s1 = d # r1
          \<and> (d = CHR '']'' \<and> v = JList [] \<and> r = r1
             \<or> d \<noteq> CHR '']'' \<and> (\<exists>vs. read_items n (d # r1) = Some (vs, r) \<and> v = JList vs)))
     \<or> (\<exists>c s1. s = c # s1 \<and> c \<notin> {CHR 0x22, CHR ''{'', CHR ''[''} \<and> read_scalar s = Some (v, r))"
  by (cases s) (auto simp: read_value.simps(2) split: option.splits list.splits if_splits)

lemma length_skip_space: "length (skip_space s) \<le> length s"
  by (simp add: skip_space_def length_dropWhile_le)

lemma skip_space_ConsD: "skip_space s = c # r \<Longrightarrow> length r < length s"
  using length_skip_space [of s] by simp

lemma read_literal_length: "read_literal s = Some (t, r) \<Longrightarrow> length r < length s"
proof (induction s arbitrary: t r rule: read_literal.induct)
  case (2 c s)
  then show ?case
    by (fastforce simp: read_literal.simps(2) push_char_def split: if_splits list.splits option.splits)
qed simp

lemma read_whole_length: "read_whole s = Some (w, r) \<Longrightarrow> length r < length s"
  by (auto simp: read_whole_def length_dropWhile_le le_imp_less_Suc split: list.splits if_splits)

lemma read_fraction_length: "length (snd (read_fraction s)) \<le> length s"
  by (auto simp: read_fraction_def length_dropWhile_le le_SucI split: list.split)

lemma read_exponent_length: "length (snd (read_exponent s)) \<le> length s"
proof -
  have "length (dropWhile is_digit (drop k r)) \<le> Suc (length r)" for k r
    using length_dropWhile_le [of is_digit "drop k r"] by simp
  then show ?thesis by (auto simp: read_exponent_def Let_def split: list.split)
qed

lemma read_number_length:
  assumes "read_number s = Some (v, r)" shows "length r < length s"
proof -
  obtain neg w r0 where w: "read_whole (if neg then drop 1 s else s) = Some (w, r0)"
    and r: "r = snd (read_exponent (snd (read_fraction r0)))"
    using assms by (auto simp: read_number_def Let_def split: option.splits prod.splits)
  have "length r0 < length s" using read_whole_length [OF w] by (auto split: if_splits)
  with read_exponent_length [of "snd (read_fraction r0)"] read_fraction_length [of r0] show ?thesis
    unfolding r by linarith
qed

lemma read_word_length: "read_word s = Some (v, r) \<Longrightarrow> length r < length s"
  by (cases s) (auto simp: read_word_def json_words_def startswith_def split: if_splits)

lemma read_scalar_length: "read_scalar s = Some (v, r) \<Longrightarrow> length r < length s"
  by (auto simp: read_scalar_def intro: read_word_length read_number_length split: option.splits)

lemma read_length:
  "read_value n s = Some (v, r) \<Longrightarrow> length r < length s"
  "read_items n s = Some (vs, r) \<Longrightarrow> length r < length s"
  "read_pairs n s = Some (kvs, r) \<Longrightarrow> length r < length s"
proof (induction n arbitrary: s v r vs kvs)
  case (Suc n)
  {
    case 1
    then show ?case
      unfolding read_value_Some
      by (elim disjE exE conjE)
        (use Suc in \<open>fastforce dest: skip_space_ConsD read_literal_length read_scalar_length\<close>)+
  next
    case 2
    then obtain v r0 c r1 where v: "read_value n s = Some (v, r0)" and c: "skip_space r0 = c # r1"
      and r: "r = r1 \<or> (\<exists>ws. read_items n (skip_space r1) = Some (ws, r))"
      unfolding read_items_Some by blast
    have "length r \<le> length r1" using r length_skip_space [of r1] by (fastforce dest: Suc(2))
    with Suc(1) [OF v] skip_space_ConsD [OF c] show ?case by linarith
  next
    case 3
    then obtain s1 k r1 r2 v r3 c r4 where
      s: "s = CHR 0x22 # s1" and k: "read_literal s1 = Some (k, r1)" and d: "skip_space r1 = CHR '':'' # r2"
      and v: "read_value n (skip_space r2) = Some (v, r3)" and c: "skip_space r3 = c # r4"
      and r: "r = r4 \<or> (\<exists>ps. read_pairs n (skip_space r4) = Some (ps, r))"
      unfolding read_pairs_Some by blast
    have "length r \<le> length r4" using r length_skip_space [of r4] by (fastforce dest: Suc(3))
    with Suc(1) [OF v] skip_space_ConsD [OF c] skip_space_ConsD [OF d] read_literal_length [OF k]
      length_skip_space [of r2] show ?case by (simp add: s)
  }
qed simp_all

text \<open>More fuel than the text is long does not change what is read.\<close>

lemma read_value_fuel:
  "2 * length s < n \<Longrightarrow> 2 * length s < m \<Longrightarrow> read_value n s = read_value m s"
  "2 * length s + 1 < n \<Longrightarrow> 2 * length s + 1 < m \<Longrightarrow> read_items n s = read_items m s"
  "2 * length s + 1 < n \<Longrightarrow> 2 * length s + 1 < m \<Longrightarrow> read_pairs n s = read_pairs m s"
proof (induction n arbitrary: s m)
  case (Suc n)
  {
    case 1
    then obtain k where m: "m = Suc k" by (cases m) auto
    have "read_items n (d # r1) = read_items k (d # r1)" "read_pairs n (d # r1) = read_pairs k (d # r1)"
      if "s = c # r" "skip_space r = d # r1" for c r d r1
      using 1 that skip_space_ConsD [OF that(2)] by (auto simp: m intro!: Suc)
    then show ?case by (auto simp: m read_value.simps(2) split: list.split)
  next
    case 2
    then obtain k where m: "m = Suc k" by (cases m) auto
    have v: "read_value n s = read_value k s" using 2 by (intro Suc) (auto simp: m)
    have "read_items n (skip_space r1) = read_items k (skip_space r1)"
      if "read_value k s = Some (v, r0)" "skip_space r0 = c # r1" for v r0 c r1
      using 2 read_length(1) [OF that(1)] skip_space_ConsD [OF that(2)] length_skip_space [of r1]
      by (intro Suc) (auto simp: m)
    then show ?case by (auto simp: m v read_items.simps(2) split: list.split option.split)
  next
    case 3
    then obtain k where m: "m = Suc k" by (cases m) auto
    have v: "read_value n (skip_space r2) = read_value k (skip_space r2)"
      if "s = q # s1" "read_literal s1 = Some (key, r1)" "skip_space r1 = d # r2" for q s1 key r1 d r2
      using 3 that(1) read_literal_length [OF that(2)] skip_space_ConsD [OF that(3)] length_skip_space [of r2]
      by (intro Suc) (auto simp: m)
    have p: "read_pairs n (skip_space r4) = read_pairs k (skip_space r4)"
      if "s = q # s1" "read_literal s1 = Some (key, r1)" "skip_space r1 = d # r2"
        "read_value k (skip_space r2) = Some (v, r3)" "skip_space r3 = c # r4" for q s1 key r1 d r2 v r3 c r4
      using 3 that(1) read_literal_length [OF that(2)] skip_space_ConsD [OF that(3)] length_skip_space [of r2]
        read_length(1) [OF that(4)] skip_space_ConsD [OF that(5)] length_skip_space [of r4]
      by (intro Suc) (auto simp: m)
    show ?case by (auto simp: m v p read_pairs.simps(2) split: list.split option.split)
  }
qed simp_all

subsection \<open>What follows a value does not change it\<close>

text \<open>A number ends before what cannot belong to it; every other value ends of itself.\<close>

definition number_char :: "char \<Rightarrow> bool" where
  "number_char c \<longleftrightarrow> is_digit c \<or> c \<in> {CHR ''.'', CHR ''e'', CHR ''E'', CHR ''+'', CHR ''-''}"

definition stops :: "(char \<Rightarrow> bool) \<Rightarrow> string \<Rightarrow> bool" where
  "stops P r \<longleftrightarrow> (case r of [] \<Rightarrow> True | c # _ \<Rightarrow> \<not> P c)"

fun is_number :: "json \<Rightarrow> bool" where
  "is_number (JInt i) = True"
| "is_number (JFloat t) = True"
| "is_number v = False"

lemma stops_simps [simp]: "stops P []" "stops P (c # r) \<longleftrightarrow> \<not> P c"
  by (simp_all add: stops_def)

lemma stops_mono: "stops P r \<Longrightarrow> (\<And>c. Q c \<Longrightarrow> P c) \<Longrightarrow> stops Q r"
  by (cases r) auto

lemma stops_space: "skip_space r = c # r1 \<Longrightarrow> \<not> number_char c \<Longrightarrow> stops number_char (r @ q)"
  by (cases r) (auto simp: skip_space_def is_json_space_def number_char_def is_digit_def split: if_splits)

lemma skip_space_append: "skip_space s \<noteq> [] \<Longrightarrow> skip_space (s @ q) = skip_space s @ q"
  by (induction s) (auto simp: skip_space_def)

lemma read_literal_append: "read_literal s = Some (t, r) \<Longrightarrow> read_literal (s @ q) = Some (t, r @ q)"
proof (induction s arbitrary: t r rule: read_literal.induct)
  case (2 c s)
  have "hex4 u = Some n \<Longrightarrow> length u = 4" for u n
    by (auto simp: hex4_def split: list.splits option.splits)
  then have "hex4 (take 4 s') = Some n \<Longrightarrow> 4 \<le> length s'" for s' n
    by fastforce
  with 2 show ?case
    by (fastforce simp: read_literal.simps(2) push_char_def split: if_splits list.splits option.splits)
qed simp

text \<open>The digits that a part of a number takes, when the rest does not begin with one.\<close>

lemma digit_span_append:
  assumes "stops is_digit (dropWhile is_digit s @ q)"
  shows "takeWhile is_digit (s @ q) = takeWhile is_digit s" "dropWhile is_digit (s @ q) = dropWhile is_digit s @ q"
proof -
  have "takeWhile is_digit (s @ q) = takeWhile is_digit s \<and> dropWhile is_digit (s @ q) = dropWhile is_digit s @ q"
    using assms by (induction s) (cases q, auto)
  then show "takeWhile is_digit (s @ q) = takeWhile is_digit s" "dropWhile is_digit (s @ q) = dropWhile is_digit s @ q"
    by blast+
qed

lemma read_whole_append:
  "read_whole s = Some (w, r) \<Longrightarrow> stops is_digit (r @ q) \<Longrightarrow> read_whole (s @ q) = Some (w, r @ q)"
  by (auto simp: read_whole_def digit_span_append split: list.splits if_splits)

lemma read_fraction_append:
  assumes "read_fraction s = (f, r)" and "stops (\<lambda>c. is_digit c \<or> c = CHR ''.'') (r @ q)"
  shows "read_fraction (s @ q) = (f, r @ q)"
proof -
  from assms(2) have "stops is_digit (r @ q)" by (rule stops_mono) simp
  with assms show ?thesis
    by (cases s; cases q) (auto simp: read_fraction_def digit_span_append split: if_splits)
qed

lemma exponent_sign_append: "r \<noteq> [] \<Longrightarrow> exponent_sign (r @ q) = exponent_sign r"
  by (cases r) (auto simp: exponent_sign_def)

lemma length_exponent_sign: "length (exponent_sign r) \<le> length r"
  by (auto simp: exponent_sign_def split: list.split)

lemma read_exponent_append:
  assumes "read_exponent s = (e, r)" and "stops number_char (r @ q)"
  shows "read_exponent (s @ q) = (e, r @ q)"
proof (cases s)
  case Nil
  with assms show ?thesis by (cases q) (auto simp: read_exponent_def number_char_def)
next
  case (Cons c s1)
  let ?ds = "drop (length (exponent_sign s1)) s1"
  show ?thesis
  proof (cases "c \<in> {CHR ''e'', CHR ''E''} \<and> takeWhile is_digit ?ds \<noteq> []")
    case True
    with assms(1) Cons have e: "e = c # exponent_sign s1 @ takeWhile is_digit ?ds" and r: "r = dropWhile is_digit ?ds"
      by (auto simp: read_exponent_def Let_def split: if_splits)
    from assms(2) have "stops is_digit (dropWhile is_digit ?ds @ q)"
      unfolding r by (rule stops_mono) (simp add: number_char_def)
    note d = digit_span_append [OF this]
    from True have "s1 \<noteq> []" by auto
    then show ?thesis
      using True d Cons e r length_exponent_sign [of s1]
      by (simp add: read_exponent_def Let_def exponent_sign_append)
  next
    case False
    with assms Cons have "e = []" "r = s" "\<not> number_char c"
      by (auto simp: read_exponent_def Let_def split: if_splits)
    with Cons show ?thesis by (simp add: read_exponent_def number_char_def)
  qed
qed

lemma read_exponent_stops:
  "read_exponent s = (e, r) \<Longrightarrow> stops number_char (r @ q) \<Longrightarrow> stops (\<lambda>c. is_digit c \<or> c = CHR ''.'') (s @ q)"
proof (cases "e = []")
  case True
  moreover assume "read_exponent s = (e, r)" "stops number_char (r @ q)"
  ultimately have "stops number_char (s @ q)"
    by (auto simp: read_exponent_def Let_def split: list.splits if_splits)
  then show ?thesis by (rule stops_mono) (auto simp: number_char_def)
next
  case False
  moreover assume "read_exponent s = (e, r)"
  ultimately show ?thesis
    by (cases s) (auto simp: read_exponent_def Let_def is_digit_def split: if_splits)
qed

lemma read_fraction_stops:
  "read_fraction s = (f, r) \<Longrightarrow> stops (\<lambda>c. is_digit c \<or> c = CHR ''.'') (r @ q) \<Longrightarrow> stops is_digit (s @ q)"
  by (cases s; cases q) (auto simp: read_fraction_def is_digit_def split: if_splits)

lemma read_number_append:
  assumes "read_number s = Some (v, r)" and "stops number_char (r @ q)"
  shows "read_number (s @ q) = Some (v, r @ q)"
proof -
  define neg where "neg = startswith s ''-''"
  obtain w r0 f r1 e where w: "read_whole (if neg then drop 1 s else s) = Some (w, r0)"
    and f: "read_fraction r0 = (f, r1)" and e: "read_exponent r1 = (e, r)" and v: "v = number_value neg w f e"
    using assms(1) by (auto simp: read_number_def Let_def neg_def split: option.splits prod.splits)
  have "s \<noteq> []" using w by (cases neg) (auto simp: read_whole_def)
  then have n: "startswith (s @ q) ''-'' = neg" "drop 1 (s @ q) = drop 1 s @ q"
    by (cases s; simp add: neg_def startswith_def)+
  note e' = read_exponent_stops [OF e assms(2)] read_exponent_append [OF e assms(2)]
  note f' = read_fraction_stops [OF f e'(1)] read_fraction_append [OF f e'(1)]
  have "read_whole (if neg then drop 1 (s @ q) else s @ q) = Some (w, r0 @ q)"
    using read_whole_append [OF w f'(1)] n(2) by (cases neg) simp_all
  then show ?thesis by (simp add: read_number_def n(1) f'(2) e'(2) v)
qed

text \<open>A word and a number begin differently.\<close>

lemma startswith_cons:
  "startswith s []" "startswith (c # s) (d # p) \<longleftrightarrow> c = d \<and> startswith s p"
  by (auto simp: startswith_def)

lemma read_word_words:
  "read_word (''null'' @ x) = Some (JNull, x)" "read_word (''true'' @ x) = Some (JBool True, x)"
  "read_word (''false'' @ x) = Some (JBool False, x)" "read_word (''NaN'' @ x) = Some (JFloat ''NaN'', x)"
  "read_word (''Infinity'' @ x) = Some (JFloat ''Infinity'', x)"
  "read_word (''-Infinity'' @ x) = Some (JFloat ''-Infinity'', x)"
  by (simp_all add: read_word_def json_words_def startswith_cons)

lemma read_word_is: "(w, v) \<in> set json_words \<Longrightarrow> read_word (w @ x) = Some (v, x)"
  unfolding json_words_def using read_word_words [of x] by fastforce

lemma read_word_Some: "read_word s = Some (v, r) \<Longrightarrow> \<exists>w. (w, v) \<in> set json_words \<and> s = w @ r"
  by (auto simp: read_word_def find_Some_iff startswith_iff dest: nth_mem)

definition number_head :: "string \<Rightarrow> bool" where
  "number_head s \<longleftrightarrow>
     (case s of [] \<Rightarrow> False
      | c # r \<Rightarrow> is_digit c \<or> (c = CHR ''-'' \<and> (case r of [] \<Rightarrow> False | d # _ \<Rightarrow> is_digit d)))"

lemma read_number_head: "read_number s = Some x \<Longrightarrow> number_head s"
  by (auto simp: read_number_def read_whole_def number_head_def startswith_def is_digit_def Let_def
      split: list.splits if_splits option.splits)

lemma number_head_append: "number_head s \<Longrightarrow> number_head (s @ q)"
  by (auto simp: number_head_def split: list.splits)

lemma number_head_no_word:
  assumes "number_head s" shows "read_word s = None"
proof (cases "read_word s")
  case (Some x)
  moreover have "(w, v) \<in> set json_words \<Longrightarrow> \<not> number_head (w @ r)" for w v r
    by (auto simp: json_words_def number_head_def is_digit_def)
  ultimately show ?thesis using assms read_word_Some [of s "fst x" "snd x"] by auto
qed

lemma read_number_is_number: "read_number s = Some (v, r) \<Longrightarrow> is_number v"
  by (auto simp: read_number_def Let_def number_value_def split: option.splits prod.splits)

lemma read_scalar_append:
  assumes "read_scalar s = Some (v, r)" and "is_number v \<Longrightarrow> stops number_char (r @ q)"
  shows "read_scalar (s @ q) = Some (v, r @ q)"
proof (cases "read_word s")
  case None
  with assms(1) have n: "read_number s = Some (v, r)" by (simp add: read_scalar_def)
  with assms(2) have "read_number (s @ q) = Some (v, r @ q)"
    by (blast intro: read_number_append read_number_is_number)
  then show ?thesis
    by (simp add: read_scalar_def number_head_no_word [OF number_head_append [OF read_number_head [OF n]]])
next
  case (Some x)
  with assms(1) have "read_word s = Some (v, r)" by (simp add: read_scalar_def)
  from read_word_Some [OF this] show ?thesis by (auto simp: read_scalar_def read_word_is)
qed

lemma skip_space_eq_append: "skip_space s = c # r \<Longrightarrow> skip_space (s @ q) = c # r @ q"
  using skip_space_append [of s q] by simp

lemma read_append:
  "read_value n s = Some (v, r) \<Longrightarrow> (is_number v \<Longrightarrow> stops number_char (r @ q)) \<Longrightarrow> read_value n (s @ q) = Some (v, r @ q)"
  "read_items n s = Some (vs, r) \<Longrightarrow> read_items n (s @ q) = Some (vs, r @ q)"
  "read_pairs n s = Some (kvs, r) \<Longrightarrow> read_pairs n (s @ q) = Some (kvs, r @ q)"
proof (induction n arbitrary: s v r vs kvs)
  case (Suc n)
  {
    case 1
    from 1(1) show ?case
      unfolding read_value_Some
      apply (elim disjE exE conjE)
      subgoal by (simp add: read_value.simps(2) read_literal_append)
      subgoal by (simp add: read_value.simps(2) skip_space_eq_append)
      subgoal using Suc(3) [of "_ # _"] by (fastforce simp: read_value.simps(2) skip_space_eq_append)
      subgoal by (simp add: read_value.simps(2) skip_space_eq_append)
      subgoal using Suc(2) [of "_ # _"] by (fastforce simp: read_value.simps(2) skip_space_eq_append)
      subgoal using read_scalar_append [of s v r q] 1(2) by (simp add: read_value.simps(2))
      done
  next
    case 2
    then obtain v r0 c r1 where v: "read_value n s = Some (v, r0)" and c: "skip_space r0 = c # r1"
      and r: "c = CHR '']'' \<and> vs = [v] \<and> r = r1 \<or>
        c = CHR '','' \<and> (\<exists>ws. read_items n (skip_space r1) = Some (ws, r) \<and> vs = v # ws)"
      unfolding read_items_Some by blast
    have "\<not> number_char c" using r by (auto simp: number_char_def is_digit_def)
    from Suc(1) [OF v stops_space [OF c this]] have "read_value n (s @ q) = Some (v, r0 @ q)" .
    moreover note skip_space_eq_append [OF c, of q]
    moreover have "read_items n (skip_space (r1 @ q)) = Some (ws, r @ q)" if "read_items n (skip_space r1) = Some (ws, r)" for ws
      using that Suc(2) [OF that] read_length(2) [OF that] by (subst skip_space_append) auto
    ultimately show ?case using r unfolding read_items_Some by blast
  next
    case 3
    then obtain s1 k r1 r2 v r3 c r4 where
      s: "s = CHR 0x22 # s1" and k: "read_literal s1 = Some (k, r1)" and d: "skip_space r1 = CHR '':'' # r2"
      and v: "read_value n (skip_space r2) = Some (v, r3)" and c: "skip_space r3 = c # r4"
      and r: "c = CHR ''}'' \<and> kvs = [(k, v)] \<and> r = r4 \<or>
        c = CHR '','' \<and> (\<exists>ps. read_pairs n (skip_space r4) = Some (ps, r) \<and> kvs = (k, v) # ps)"
      unfolding read_pairs_Some by blast
    have "\<not> number_char c" using r by (auto simp: number_char_def is_digit_def)
    from Suc(1) [OF v stops_space [OF c this]] have "read_value n (skip_space (r2 @ q)) = Some (v, r3 @ q)"
      using read_length(1) [OF v] by (subst skip_space_append) auto
    moreover note skip_space_eq_append [OF c, of q] skip_space_eq_append [OF d, of q] read_literal_append [OF k, of q]
    moreover have "read_pairs n (skip_space (r4 @ q)) = Some (ps, r @ q)" if "read_pairs n (skip_space r4) = Some (ps, r)" for ps
      using that Suc(3) [OF that] read_length(3) [OF that] by (subst skip_space_append) auto
    ultimately show ?case using r s unfolding read_pairs_Some by simp blast
  }
qed simp_all

subsection \<open>What was written is what is read\<close>

text \<open>
  A value as Python has it: the keys of a dictionary are distinct and the text of a floating-point number
  is one.
\<close>

definition float_text :: "string \<Rightarrow> bool" where
  "float_text t \<longleftrightarrow> read_scalar t = Some (JFloat t, [])"

fun json_ok :: "json \<Rightarrow> bool" where
  "json_ok (JFloat t) = float_text t"
| "json_ok (JList vs) = list_all json_ok vs"
| "json_ok (JObj kvs) = (distinct (map fst kvs) \<and> list_all (\<lambda>(k, v). json_ok v) kvs)"
| "json_ok _ = True"

lemma update_new: "map_of al k = None \<Longrightarrow> AList.update k v al = al @ [(k, v)]"
  by (induction al) auto

lemma dict_of_distinct: "distinct (map fst kvs) \<Longrightarrow> dict_of kvs = kvs"
proof -
  have "distinct (map fst (acc @ kvs)) \<Longrightarrow> fold (\<lambda>(k, v). AList.update k v) kvs acc = acc @ kvs" for acc
  proof (induction kvs arbitrary: acc)
    case (Cons kv kvs)
    then have "map_of acc (fst kv) = None" by (auto simp: map_of_eq_None_iff)
    with Cons show ?case by (cases kv) (simp add: update_new)
  qed simp
  from this [of "[]"] show "distinct (map fst kvs) \<Longrightarrow> dict_of kvs = kvs" by (simp add: dict_of_def)
qed

text \<open>Numbers.\<close>

lemma digits_of_head: "n \<noteq> 0 \<Longrightarrow> hd (digits_of n) \<noteq> CHR ''0''"
proof (induction n rule: digits_of.induct)
  case (1 n)
  have "char_of (48 + n) \<noteq> CHR ''0''" if "n < 10"
  proof
    assume "char_of (48 + n) = CHR ''0''"
    then have "(of_char (char_of (48 + n) :: char) :: nat) = 48" by simp
    with that 1 show False by simp
  qed
  with 1 show ?case by (subst digits_of.simps) auto
qed

lemma read_whole_digits_of: "read_whole (digits_of n) = Some (digits_of n, [])"
proof (cases "n = 0")
  case True
  moreover have "read_whole (digits_of 0) = Some (digits_of 0, [])" by code_simp
  ultimately show ?thesis by simp
next
  case False
  obtain c r where c: "digits_of n = c # r" by (cases "digits_of n") simp_all
  moreover have "list_all is_digit (c # r)" using digits_of_digits [of n] by (simp add: c)
  ultimately show ?thesis using digits_of_head [OF False] by (simp add: read_whole_def list_all_iff)
qed

lemma read_number_int: "read_number (int_text i) = Some (JInt i, [])"
proof -
  obtain c r where c: "digits_of (nat i) = c # r" by (cases "digits_of (nat i)") simp_all
  have "is_digit c" using digits_of_digits [of "nat i"] by (simp add: c)
  then have "\<not> startswith (digits_of (nat i)) ''-''" by (auto simp: c startswith_def is_digit_def)
  moreover have "startswith (CHR ''-'' # s) ''-''" for s by (simp add: startswith_def)
  ultimately show ?thesis
    by (simp add: read_number_def int_text_def read_whole_digits_of read_fraction_def read_exponent_def
        number_value_def decimal_value_digits_of)
qed

lemma read_scalar_int: "read_scalar (int_text i) = Some (JInt i, [])"
  using read_number_int number_head_no_word [OF read_number_head [OF read_number_int]] by (simp add: read_scalar_def)

text \<open>How a value's text begins.\<close>

lemma read_scalar_head:
  assumes "read_scalar s = Some x"
  obtains c r where "s = c # r" "\<not> is_json_space c" "c \<notin> {CHR 0x22, CHR ''{'', CHR ''['', CHR ''}'', CHR '']''}"
proof (cases "read_word s")
  case None
  with assms have "number_head s" by (intro read_number_head) (simp add: read_scalar_def)
  then show ?thesis
    by (intro that [of "hd s" "tl s"])
      (auto simp: number_head_def is_json_space_def is_digit_def split: list.splits)
next
  case (Some y)
  then obtain w v where "(w, v) \<in> set json_words" "s = w @ snd y" using read_word_Some [of s "fst y" "snd y"] by auto
  then show ?thesis
    by (intro that [of "hd s" "tl s"]) (auto simp: json_words_def is_json_space_def)
qed

lemma dumps_head:
  assumes "json_ok v"
  obtains c r where "dumps v = c # r" "\<not> is_json_space c" "c \<noteq> CHR ''}''" "c \<noteq> CHR '']''"
proof (cases v)
  case (JInt i)
  then show ?thesis using read_scalar_head [OF read_scalar_int [of i]] that by auto
next
  case (JFloat t)
  with assms have "read_scalar t = Some (JFloat t, [])" by (simp add: float_text_def)
  from read_scalar_head [OF this] show ?thesis using that JFloat by auto
next
  case (JBool b)
  then show ?thesis by (cases b) (use that in \<open>auto simp: is_json_space_def\<close>)
qed (use that in \<open>auto simp: json_string_def is_json_space_def\<close>)

lemma skip_space_Cons: "\<not> is_json_space c \<Longrightarrow> skip_space (c # r) = c # r"
  by (simp add: skip_space_def)

lemma skip_space_blank: "skip_space (CHR '' '' # r) = skip_space r"
  by (simp add: skip_space_def is_json_space_def)

lemma skip_dumps: "json_ok v \<Longrightarrow> skip_space (dumps v @ rest) = dumps v @ rest"
  by (metis append_Cons dumps_head skip_space_Cons)

lemma json_punctuation:
  "\<not> is_json_space CHR '',''" "\<not> is_json_space CHR '']''" "\<not> is_json_space CHR ''}''" "\<not> is_json_space CHR '':''"
  "\<not> is_json_space CHR 0x22"
  "\<not> number_char CHR '',''" "\<not> number_char CHR '']''" "\<not> number_char CHR ''}''"
  by code_simp+

definition reads_back :: "json \<Rightarrow> bool" where
  "reads_back v \<longleftrightarrow>
     (\<forall>n rest. 2 * length (dumps v @ rest) < n \<longrightarrow> stops number_char rest \<longrightarrow>
        read_value n (dumps v @ rest) = Some (v, rest))"

lemma reads_backD:
  "reads_back v \<Longrightarrow> 2 * length (dumps v @ rest) < n \<Longrightarrow> stops number_char rest \<Longrightarrow>
     read_value n (dumps v @ rest) = Some (v, rest)"
  by (simp add: reads_back_def)

lemma read_value_scalar:
  assumes "read_scalar s = Some x" shows "read_value (Suc n) s = Some x"
  by (rule read_scalar_head [OF assms]) (use assms in \<open>auto simp: read_value.simps(2)\<close>)

lemma reads_back_scalar:
  assumes "read_scalar (dumps v) = Some (v, [])" shows "reads_back v"
  unfolding reads_back_def
proof (intro allI impI)
  fix n rest assume n: "2 * length (dumps v @ rest) < n" and "stops number_char rest"
  with read_scalar_append [OF assms, of rest] have "read_scalar (dumps v @ rest) = Some (v, rest)" by simp
  moreover obtain k where "n = Suc k" using n by (cases n) auto
  ultimately show "read_value n (dumps v @ rest) = Some (v, rest)" by (simp only: read_value_scalar)
qed

lemma read_items_back:
  assumes "list_all json_ok vs" "list_all reads_back vs" "vs \<noteq> []"
    and "2 * length (join '', '' (map dumps vs) @ CHR '']'' # rest) + 1 < n"
  shows "read_items n (join '', '' (map dumps vs) @ CHR '']'' # rest) = Some (vs, rest)"
  using assms
proof (induction vs arbitrary: n rule: induct_list012)
  case (2 v)
  then obtain k where "n = Suc k" by (cases n) auto
  with 2 show ?case by (simp add: read_items.simps(2) reads_backD json_punctuation skip_space_Cons)
next
  case (3 v w vs)
  then obtain k where n: "n = Suc k" by (cases n) auto
  let ?r = "join '', '' (map dumps (w # vs)) @ CHR '']'' # rest"
  obtain x where x: "?r = dumps w @ x" by (cases vs) auto
  then have s: "skip_space ?r = ?r" using 3(3) by (simp add: skip_dumps)
  have "read_value k (dumps v @ '', '' @ ?r) = Some (v, '', '' @ ?r)"
    using 3 n by (intro reads_backD) (auto simp: json_punctuation)
  moreover have "read_items k ?r = Some (w # vs, rest)" using 3 n by (intro 3(2)) auto
  ultimately show ?case
    using s by (simp add: n read_items.simps(2) json_punctuation skip_space_Cons skip_space_blank)
qed simp

definition pair_text :: "string \<times> json \<Rightarrow> string" where
  "pair_text kv = json_string (fst kv) @ '': '' @ dumps (snd kv)"

lemma read_pairs_back:
  assumes "list_all (\<lambda>kv. json_ok (snd kv)) kvs" "list_all (\<lambda>kv. reads_back (snd kv)) kvs" "kvs \<noteq> []"
    and "2 * length (join '', '' (map pair_text kvs) @ CHR ''}'' # rest) + 1 < n"
  shows "read_pairs n (join '', '' (map pair_text kvs) @ CHR ''}'' # rest) = Some (kvs, rest)"
  using assms
proof (induction kvs arbitrary: n rule: induct_list012)
  case (2 kv)
  then obtain k where "n = Suc k" by (cases n) auto
  with 2 show ?case
    by (simp add: read_pairs.simps(2) pair_text_def json_string_def read_literal_string reads_backD
        json_punctuation skip_space_Cons skip_space_blank skip_dumps)
next
  case (3 kv kw kvs)
  then obtain k where n: "n = Suc k" by (cases n) auto
  let ?r = "join '', '' (map pair_text (kw # kvs)) @ CHR ''}'' # rest"
  obtain x where x: "?r = CHR 0x22 # x" by (cases kvs) (auto simp: pair_text_def json_string_def)
  then have s: "skip_space ?r = ?r" by (simp add: skip_space_Cons json_punctuation)
  have "read_value k (dumps (snd kv) @ '', '' @ ?r) = Some (snd kv, '', '' @ ?r)"
    using 3 n by (intro reads_backD) (auto simp: json_punctuation pair_text_def [of kv])
  moreover have "read_pairs k ?r = Some (kw # kvs, rest)" using 3 n by (intro 3(2)) auto
  moreover have "skip_space (dumps (snd kv) @ y) = dumps (snd kv) @ y" for y using 3(3) by (simp add: skip_dumps)
  ultimately show ?case
    using s by (simp add: n read_pairs.simps(2) pair_text_def [of kv] json_string_def read_literal_string
        json_punctuation skip_space_Cons skip_space_blank)
qed simp

lemma reads_back_all: "json_ok v \<Longrightarrow> reads_back v"
proof (induction v)
  case (JList vs)
  then have vs: "list_all json_ok vs" "list_all reads_back vs" by (auto simp: list_all_iff)
  show ?case
    unfolding reads_back_def
  proof (intro allI impI)
    fix n rest assume n: "2 * length (dumps (JList vs) @ rest) < n"
    then obtain k where k: "n = Suc k" by (cases n) auto
    show "read_value n (dumps (JList vs) @ rest) = Some (JList vs, rest)"
    proof (cases vs)
      case Nil
      then show ?thesis by (simp add: k read_value.simps(2) skip_space_Cons json_punctuation)
    next
      case (Cons v ws)
      let ?r = "join '', '' (map dumps vs) @ CHR '']'' # rest"
      have "read_items k ?r = Some (vs, rest)" using vs n Cons by (intro read_items_back) (auto simp: k)
      moreover obtain x where x: "?r = dumps v @ x" using Cons by (cases ws) auto
      moreover obtain c y where c: "dumps v = c # y" "\<not> is_json_space c" "c \<noteq> CHR '']''"
        by (rule dumps_head [of v]) (use vs Cons in auto)
      ultimately show ?thesis by (simp add: k read_value.simps(2) skip_space_Cons)
    qed
  qed
next
  case (JObj kvs)
  then have vs: "list_all (\<lambda>kv. json_ok (snd kv)) kvs" "list_all (\<lambda>kv. reads_back (snd kv)) kvs"
    and d: "dict_of kvs = kvs" by (fastforce simp: list_all_iff dict_of_distinct)+
  show ?case
    unfolding reads_back_def
  proof (intro allI impI)
    fix n rest
    have t: "dumps (JObj kvs) = CHR ''{'' # join '', '' (map pair_text kvs) @ ''}''"
      by (simp add: pair_text_def [abs_def] case_prod_beta')
    assume n: "2 * length (dumps (JObj kvs) @ rest) < n"
    then obtain k where k: "n = Suc k" by (cases n) auto
    show "read_value n (dumps (JObj kvs) @ rest) = Some (JObj kvs, rest)"
    proof (cases kvs)
      case Nil
      then show ?thesis by (simp add: k read_value.simps(2) skip_space_Cons json_punctuation)
    next
      case (Cons kv kws)
      let ?r = "join '', '' (map pair_text kvs) @ CHR ''}'' # rest"
      have "read_pairs k ?r = Some (kvs, rest)"
        using vs n Cons unfolding t by (intro read_pairs_back) (auto simp: k)
      moreover obtain x where x: "?r = CHR 0x22 # x" using Cons by (cases kws) (auto simp: pair_text_def json_string_def)
      ultimately show ?thesis
        unfolding t by (simp add: k read_value.simps(2) skip_space_Cons json_punctuation d)
    qed
  qed
next
  case (JInt i)
  show ?case by (rule reads_back_scalar) (simp add: read_scalar_int)
next
  case (JFloat t)
  then show ?case by (intro reads_back_scalar) (simp add: float_text_def)
next
  case (JBool b)
  show ?case by (rule reads_back_scalar)
      (use read_word_words(2) [of "[]"] read_word_words(3) [of "[]"] in \<open>simp add: read_scalar_def\<close>)
next
  case JNull
  show ?case by (rule reads_back_scalar) (use read_word_words(1) [of "[]"] in \<open>simp add: read_scalar_def\<close>)
next
  case (JStr s)
  show ?case
    unfolding reads_back_def
  proof (intro allI impI)
    fix n rest assume "2 * length (dumps (JStr s) @ rest) < n"
    then obtain k where k: "n = Suc k" by (cases n) auto
    show "read_value n (dumps (JStr s) @ rest) = Some (JStr s, rest)"
      by (simp add: k read_value.simps(2) json_string_def read_literal_string)
  qed
qed

text \<open>The round trip, and a text that is cut off: an object's text is whole or malformed.\<close>

lemma loads_dumps:
  assumes "json_ok v" shows "loads (dumps v) = Some v"
proof -
  have "read_value (read_fuel (dumps v)) (dumps v @ []) = Some (v, [])"
    using reads_back_all [OF assms] by (rule reads_backD) (simp_all add: read_fuel_def)
  moreover have "skip_space (dumps v) = dumps v" using skip_dumps [OF assms, of "[]"] by simp
  ultimately show ?thesis by (simp add: loads_def) (simp add: skip_space_def)
qed

lemma loads_cut:
  assumes "json_ok (JObj kvs)" and "dumps (JObj kvs) = p @ q" and "q \<noteq> []"
  shows "loads p = None"
proof (cases p)
  case Nil
  then show ?thesis by (simp add: loads_def skip_space_def read_fuel_def read_value.simps(2))
next
  case (Cons c p1)
  with assms(2) have p: "p = CHR ''{'' # p1" by simp
  then have s: "skip_space p = p" by (simp add: skip_space_Cons is_json_space_def)
  show ?thesis
  proof (cases "read_value (read_fuel p) p")
    case (Some x)
    let ?n = "read_fuel (p @ q)"
    obtain v r where "read_value (read_fuel p) p = Some (v, r)" using Some by (cases x) auto
    then have x: "read_value ?n p = Some (v, r)"
      using read_value_fuel(1) [of p "read_fuel p" ?n] by (simp add: read_fuel_def)
    then have "\<not> is_number v" unfolding read_fuel_def read_value_Some by (auto simp: p)
    with read_append(1) [OF x, of q] have "read_value ?n (p @ q) = Some (v, r @ q)" by simp
    moreover have "read_value ?n (p @ q) = Some (JObj kvs, [])"
      using reads_backD [OF reads_back_all [OF assms(1)], of "[]" ?n]
      unfolding append_Nil2 assms(2) by (simp add: read_fuel_def)
    ultimately show ?thesis using assms(3) by simp
  qed (simp add: loads_def s)
qed

subsection \<open>A number's text is printable\<close>

lemma digit_run_number: "list_all number_char (takeWhile is_digit s)"
  by (auto simp: list_all_iff number_char_def dest: set_takeWhileD)

lemma read_whole_text: "read_whole s = Some (w, r) \<Longrightarrow> s = w @ r \<and> list_all number_char w"
  using digit_run_number by (auto simp: read_whole_def number_char_def is_digit_def [of "CHR ''0''"] split: list.splits if_splits)

lemma read_fraction_text: "read_fraction s = (f, r) \<Longrightarrow> s = f @ r \<and> list_all number_char f"
  using digit_run_number by (auto simp: read_fraction_def number_char_def split: list.splits if_splits)

lemma exponent_sign_text: "exponent_sign s @ drop (length (exponent_sign s)) s = s" "list_all number_char (exponent_sign s)"
  by (auto simp: exponent_sign_def number_char_def split: list.split)

lemma read_exponent_text:
  assumes "read_exponent s = (e, r)" shows "s = e @ r \<and> list_all number_char e"
proof (cases s)
  case (Cons c s1)
  with assms exponent_sign_text [of s1] digit_run_number show ?thesis
    by (auto simp: read_exponent_def Let_def number_char_def split: if_splits)
qed (use assms in \<open>simp add: read_exponent_def\<close>)

lemma read_number_text:
  assumes "read_number s = Some (v, r)" shows "\<exists>w. s = w @ r \<and> list_all number_char w"
proof -
  define neg where "neg = startswith s ''-''"
  obtain w r0 f r1 e where w: "read_whole (if neg then drop 1 s else s) = Some (w, r0)"
    and f: "read_fraction r0 = (f, r1)" and e: "read_exponent r1 = (e, r)"
    using assms by (auto simp: read_number_def Let_def neg_def split: option.splits prod.splits)
  have "s = (if neg then ''-'' else []) @ (if neg then drop 1 s else s)"
    by (cases s) (auto simp: neg_def startswith_def)
  moreover have "number_char (CHR ''-'')" by (simp add: number_char_def)
  ultimately show ?thesis
    using read_whole_text [OF w] read_fraction_text [OF f] read_exponent_text [OF e]
    by (intro exI [of _ "(if neg then ''-'' else []) @ w @ f @ e"]) (simp split: if_splits)
qed

lemma number_char_printable: "number_char c \<Longrightarrow> printable c"
  by (auto simp: number_char_def is_digit_def printable_def Let_def)

lemma float_text_printable: "float_text t \<Longrightarrow> list_all printable t"
proof (cases "read_word t")
  case None
  moreover assume "float_text t"
  ultimately have "read_number t = Some (JFloat t, [])" by (simp add: float_text_def read_scalar_def)
  from read_number_text [OF this] show ?thesis by (auto simp: list_all_iff number_char_printable)
next
  case (Some x)
  moreover assume "float_text t"
  ultimately have "read_word t = Some (JFloat t, [])" by (simp add: float_text_def read_scalar_def)
  from read_word_Some [OF this] have "t \<in> {''NaN'', ''Infinity'', ''-Infinity''}" by (auto simp: json_words_def)
  moreover have "list_all printable ''NaN''" "list_all printable ''Infinity''" "list_all printable ''-Infinity''"
    by code_simp+
  ultimately show ?thesis by auto
qed

lemma json_ok_floats: "json_ok v \<Longrightarrow> floats_ok v"
  by (induction v) (auto simp: list_all_iff dest: float_text_printable [unfolded list_all_iff])

subsection \<open>A file of one object per line\<close>

text \<open>Universal newlines; the end of a line is left out, which stripping removes.\<close>

fun text_lines :: "string \<Rightarrow> string list" where
  "text_lines [] = []"
| "text_lines (c # cs) =
     (if c = CHR 0x0A \<or> (c = CHR 0x0D \<and> \<not> startswith cs [CHR 0x0A]) then [] # text_lines cs
      else if c = CHR 0x0D then text_lines cs
      else (case text_lines cs of [] \<Rightarrow> [[c]] | l # ls \<Rightarrow> (c # l) # ls))"

lemma text_lines_line:
  assumes "CHR 0x0A \<notin> set l" "CHR 0x0D \<notin> set l"
  shows "text_lines (l @ CHR 0x0A # rest) = l # text_lines rest" "text_lines l = (if l = [] then [] else [l])"
  using assms by (induction l) (auto simp: startswith_def)

lemma printable_no_line_end: "list_all printable l \<Longrightarrow> CHR 0x0A \<notin> set l \<and> CHR 0x0D \<notin> set l"
  by (auto simp: list_all_iff printable_def)

lemma filter_no_line_end: "CHR 0x0A \<notin> set l \<Longrightarrow> filter (\<lambda>c. c = CHR 0x0A) (take n l) = []"
  by (auto simp: filter_empty_conv dest: in_set_takeD)

lemma strip_object: "strip (dumps (JObj kvs)) = dumps (JObj kvs)"
proof -
  have t: "hd (dumps (JObj kvs)) = CHR ''{''" "last (dumps (JObj kvs)) = CHR ''}''" "dumps (JObj kvs) \<noteq> []" by simp_all
  then have "\<not> is_space (hd (dumps (JObj kvs)))" "\<not> is_space (last (dumps (JObj kvs)))" by (simp_all add: is_space_def)
  with t(3) show ?thesis by (simp add: strip_def lstrip_idem rstrip_idem)
qed

definition object_file :: "(string \<times> json) list list \<Rightarrow> string" where
  "object_file os = concat (map (\<lambda>kvs. dumps (JObj kvs) @ [CHR 0x0A]) os)"

text \<open>The whole objects in the first \<open>k\<close> characters: an object is whole with or without its line end.\<close>

definition whole_objects :: "nat \<Rightarrow> (string \<times> json) list list \<Rightarrow> nat" where
  "whole_objects k os = length (filter (\<lambda>c. c = CHR 0x0A) (take (Suc k) (object_file os)))"

lemma object_file_Cons: "object_file (kvs # os) = dumps (JObj kvs) @ CHR 0x0A # object_file os"
  by (simp add: object_file_def del: dumps.simps)

lemma dumps_no_line_end: "json_ok v \<Longrightarrow> CHR 0x0A \<notin> set (dumps v) \<and> CHR 0x0D \<notin> set (dumps v)"
  by (intro printable_no_line_end printable_dumps json_ok_floats)

text \<open>
  A file that is cut anywhere has the lines of the whole objects, and at most one more, the beginning of the
  next.
\<close>

lemma lines_of_cut_file:
  "list_all (\<lambda>kvs. json_ok (JObj kvs)) os \<Longrightarrow>
     \<exists>torn. text_lines (take k (object_file os)) = map (\<lambda>kvs. dumps (JObj kvs)) (take (whole_objects k os) os) @ torn
       \<and> (torn = [] \<or> (\<exists>p q. torn = [p] \<and> q \<noteq> [] \<and> whole_objects k os < length os
              \<and> dumps (JObj (os ! whole_objects k os)) = p @ q))"
proof (induction os arbitrary: k)
  case Nil
  show ?case by (simp add: object_file_def)
next
  case (Cons kvs os)
  let ?l = "dumps (JObj kvs)"
  from Cons.prems have ok: "json_ok (JObj kvs)" by (simp del: json_ok.simps)
  note ends = dumps_no_line_end [OF ok]
  consider "k < length ?l" | "k = length ?l" | j where "k = Suc (length ?l + j)"
    by (metis less_imp_Suc_add linorder_neqE_nat)
  then show ?case
  proof cases
    case 1
    then have w: "whole_objects k (kvs # os) = 0"
      using filter_no_line_end [of ?l "Suc k"] ends by (simp add: whole_objects_def object_file_Cons del: dumps.simps)
    have t: "take k (object_file (kvs # os)) = take k ?l" using 1 by (simp add: object_file_Cons del: dumps.simps)
    have "CHR 0x0A \<notin> set (take k ?l)" "CHR 0x0D \<notin> set (take k ?l)" using ends by (auto dest: in_set_takeD)
    note l = text_lines_line(2) [OF this]
    show ?thesis
    proof (cases "take k ?l = []")
      case False
      then show ?thesis using l 1 unfolding t w
        by (intro exI [of _ "[take k ?l]"]) (auto intro!: exI [of _ "take k ?l"] exI [of _ "drop k ?l"] simp del: dumps.simps)
    qed (use l in \<open>simp add: t w del: dumps.simps\<close>)
  next
    case 2
    then have "take k (object_file (kvs # os)) = ?l" "whole_objects k (kvs # os) = Suc 0"
      using filter_no_line_end [of ?l "length ?l"] ends by (simp_all add: whole_objects_def object_file_Cons del: dumps.simps)
    moreover have "?l \<noteq> []" by simp
    ultimately show ?thesis using text_lines_line(2) [of ?l] ends by (simp del: dumps.simps)
  next
    case 3
    then have t: "take k (object_file (kvs # os)) = ?l @ CHR 0x0A # take j (object_file os)"
      and w: "whole_objects k (kvs # os) = Suc (whole_objects j os)"
      using filter_no_line_end [of ?l "length ?l"] ends by (simp_all add: whole_objects_def object_file_Cons del: dumps.simps)
    obtain torn where "text_lines (take j (object_file os)) = map (\<lambda>kvs. dumps (JObj kvs)) (take (whole_objects j os) os) @ torn"
      "torn = [] \<or> (\<exists>p q. torn = [p] \<and> q \<noteq> [] \<and> whole_objects j os < length os
              \<and> dumps (JObj (os ! whole_objects j os)) = p @ q)"
      using Cons.IH [of j] Cons.prems by (auto simp del: dumps.simps json_ok.simps)
    then show ?thesis
      unfolding t w using text_lines_line(1) [of ?l] ends by (intro exI [of _ torn]) (simp del: dumps.simps)
  qed
qed

end
