(* ===== verification/Transcript_File.thy ===== *)
theory Transcript_File
  imports Transcript_Tool Json_Reader
begin

section \<open>The transcript on disk\<close>

text \<open>
  The characters of \<open>var/transcripts/<session_id>.jsonl\<close>: what \<open>TranscriptWriter.record\<close> of
  \<open>logging/events.py\<close> writes and what a line is to \<open>merged_runs\<close> of \<open>tools/transcript.py\<close>, through
  \<open>json.loads\<close> and \<open>base64.b64decode(..., validate=True)\<close>. A crash of the honeypot may leave the file cut
  anywhere.
\<close>

subsection \<open>Base64\<close>

definition base64_digit :: "nat \<Rightarrow> char" where
  "base64_digit n =
     char_of (if n < 26 then 65 + n else if n < 52 then 71 + n else if n < 62 then n - 4 else if n = 62 then 43 else 47)"

definition base64_value :: "char \<Rightarrow> nat option" where
  "base64_value c =
     (let n = of_char c
      in if 65 \<le> n \<and> n \<le> 90 then Some (n - 65)
         else if 97 \<le> n \<and> n \<le> 122 then Some (n - 71)
         else if 48 \<le> n \<and> n \<le> 57 then Some (n + 4)
         else if n = 43 then Some 62 else if n = 47 then Some 63 else None)"

fun b64encode :: "byte list \<Rightarrow> string" where
  "b64encode [] = []"
| "b64encode [a] =
     [base64_digit (unat a div 4), base64_digit (unat a mod 4 * 16), CHR ''='', CHR ''='']"
| "b64encode [a, b] =
     [base64_digit (unat a div 4), base64_digit (unat a mod 4 * 16 + unat b div 16),
      base64_digit (unat b mod 16 * 4), CHR ''='']"
| "b64encode (a # b # c # bs) =
     base64_digit (unat a div 4) # base64_digit (unat a mod 4 * 16 + unat b div 16)
     # base64_digit (unat b mod 16 * 4 + unat c div 64) # base64_digit (unat c mod 64) # b64encode bs"

text \<open>
  The decoder of \<open>binascii\<close> in strict mode: the position in the group of four, the bits left over, the
  padding seen since the last digit, and whether there was any. \<open>None\<close> is \<open>binascii.Error\<close>.
\<close>

fun a2b_base64 :: "nat \<Rightarrow> nat \<Rightarrow> nat \<Rightarrow> bool \<Rightarrow> string \<Rightarrow> byte list option" where
  "a2b_base64 pos left pads started [] = (if pos = 0 then Some [] else None)"
| "a2b_base64 pos left pads started (c # cs) =
     (if c = CHR ''='' then
        (if 2 \<le> pos \<and> 4 \<le> pos + Suc pads then (if cs = [] then Some [] else None)
         else a2b_base64 pos left (if 2 \<le> pos then Suc pads else pads) True cs)
      else
        (case base64_value c of
           None \<Rightarrow> None
         | Some v \<Rightarrow>
             if started then None
             else if pos = 0 then a2b_base64 1 v 0 False cs
             else if pos = 1 then map_option ((#) (of_nat (left * 4 + v div 16))) (a2b_base64 2 (v mod 16) 0 False cs)
             else if pos = 2 then map_option ((#) (of_nat (left * 16 + v div 4))) (a2b_base64 3 (v mod 4) 0 False cs)
             else map_option ((#) (of_nat (left * 64 + v))) (a2b_base64 0 0 0 False cs)))"

definition b64decode :: "string \<Rightarrow> byte list option" where
  "b64decode s = (if startswith s ''='' then None else a2b_base64 0 0 0 False s)"

lemma base64_digit_reads:
  assumes "n < 64"
  shows "base64_value (base64_digit n) = Some n" "base64_digit n \<noteq> CHR ''=''" "(of_char (base64_digit n) :: nat) < 128"
proof -
  have c: "of_char (base64_digit n)
      = (if n < 26 then 65 + n else if n < 52 then 71 + n else if n < 62 then n - 4 else if n = 62 then 43 else 47 :: nat)"
    using assms by (simp add: base64_digit_def)
  show "base64_value (base64_digit n) = Some n"
    using assms by (simp only: base64_value_def Let_def c) (auto split: if_splits)
  show "(of_char (base64_digit n) :: nat) < 128" using assms unfolding c by (auto split: if_split)
  have "of_char (base64_digit n) \<noteq> (61 :: nat)" using assms unfolding c by (auto split: if_split)
  then show "base64_digit n \<noteq> CHR ''=''" by auto
qed

lemma byte_less: "unat (b :: byte) < 256"
  using unsigned_less [of b] by simp

lemma byte_parts:
  fixes b :: byte
  shows "unat b div 4 < 64" "unat b div 16 < 16" "unat b div 64 < 4"
  using byte_less [of b] by (simp_all add: less_mult_imp_div_less)

lemma joined_less: "(p :: nat) < 4 \<Longrightarrow> q < 16 \<Longrightarrow> p * 16 + q < 64" "(p :: nat) < 16 \<Longrightarrow> q < 4 \<Longrightarrow> p * 4 + q < 64"
  by simp_all

lemma byte_bits:
  fixes a b c :: byte
  shows "unat a div 4 < 64" "unat a mod 4 * 16 + unat b div 16 < 64" "unat b mod 16 * 4 + unat c div 64 < 64"
    "unat a mod 4 * 16 < 64" "unat b mod 16 * 4 < 64" "unat c mod 64 < 64"
proof -
  have m: "unat a mod 4 < 4" "unat b mod 16 < 16" by (simp_all only: mod_less_divisor zero_less_numeral)
  show "unat a div 4 < 64" by (rule byte_parts)
  show "unat a mod 4 * 16 + unat b div 16 < 64" by (rule joined_less(1) [OF m(1) byte_parts(2)])
  show "unat b mod 16 * 4 + unat c div 64 < 64" by (rule joined_less(2) [OF m(2) byte_parts(3)])
  show "unat a mod 4 * 16 < 64" "unat b mod 16 * 4 < 64"
    using joined_less(1) [OF m(1), of 0] joined_less(2) [OF m(2), of 0] by simp_all
  show "unat c mod 64 < 64" by (simp only: mod_less_divisor zero_less_numeral)
qed

lemma low_part: "(r :: nat) < m \<Longrightarrow> (q * m + r) div m = q \<and> (q * m + r) mod m = r"
  by simp

lemma byte_joins:
  fixes a b c :: byte
  shows "of_nat (unat a div 4 * 4 + (unat a mod 4 * 16 + unat b div 16) div 16) = a"
    "of_nat ((unat a mod 4 * 16 + unat b div 16) mod 16 * 16 + (unat b mod 16 * 4 + unat c div 64) div 4) = b"
    "of_nat ((unat b mod 16 * 4 + unat c div 64) mod 4 * 64 + unat c mod 64) = c"
    "of_nat (unat a div 4 * 4 + unat a mod 4 * 16 div 16) = a"
    "of_nat ((unat a mod 4 * 16 + unat b div 16) mod 16 * 16 + unat b mod 16 * 4 div 4) = b"
proof -
  note l = low_part [OF byte_parts(2) [of b]] low_part [OF byte_parts(3) [of c]]
  show "of_nat (unat a div 4 * 4 + (unat a mod 4 * 16 + unat b div 16) div 16) = a"
    "of_nat ((unat a mod 4 * 16 + unat b div 16) mod 16 * 16 + (unat b mod 16 * 4 + unat c div 64) div 4) = b"
    "of_nat ((unat b mod 16 * 4 + unat c div 64) mod 4 * 64 + unat c mod 64) = c"
    "of_nat (unat a div 4 * 4 + unat a mod 4 * 16 div 16) = a"
    "of_nat ((unat a mod 4 * 16 + unat b div 16) mod 16 * 16 + unat b mod 16 * 4 div 4) = b"
    by (simp_all only: l div_mult_mod_eq div_mult_self_is_m zero_less_numeral) simp_all
qed

lemma a2b_encoded: "a2b_base64 0 0 0 False (b64encode data) = Some data"
  by (induction data rule: b64encode.induct)
    (simp_all only: b64encode.simps a2b_base64.simps base64_digit_reads byte_bits byte_joins option.case
      if_True if_False refl option.map simp_thms, simp_all add: byte_joins)

lemma b64decode_encode: "b64decode (b64encode data) = Some data"
proof -
  have "\<not> startswith (b64encode data) ''=''"
    using base64_digit_reads(2) byte_bits(1)
    by (cases data rule: b64encode.cases) (simp_all add: startswith_def)
  then show ?thesis by (simp add: b64decode_def a2b_encoded)
qed

lemma b64encode_ascii: "list_all (\<lambda>c. (of_char c :: nat) < 128) (b64encode data)"
  by (induction data rule: b64encode.induct) (simp_all add: base64_digit_reads(3) byte_bits)

subsection \<open>What is written and what is read\<close>

definition transcript_object :: "string \<Rightarrow> direction \<Rightarrow> byte list \<Rightarrow> (string \<times> json) list" where
  "transcript_object stamp d data =
     [(''timestamp'', JStr stamp), (''direction'', JStr (direction_name d)), (''data_b64'', JStr (b64encode data))]"

definition transcript_objects :: "(nat \<Rightarrow> string) \<Rightarrow> transcript \<Rightarrow> (string \<times> json) list list" where
  "transcript_objects stamps t = map (\<lambda>(i, d, data). transcript_object (stamps i) d data) (enumerate 0 (tr_entries t))"

definition transcript_text :: "(nat \<Rightarrow> string) \<Rightarrow> transcript \<Rightarrow> string" where
  "transcript_text stamps t = object_file (transcript_objects stamps t)"

text \<open>\<open>str(value)\<close>; the text of a float, list or dict is a parameter.\<close>

fun py_str :: "(json \<Rightarrow> string) \<Rightarrow> json \<Rightarrow> string" where
  "py_str repr JNull = ''None''"
| "py_str repr (JBool b) = (if b then ''True'' else ''False'')"
| "py_str repr (JInt i) = int_text i"
| "py_str repr (JStr s) = s"
| "py_str repr v = repr v"

text \<open>
  A line as \<open>merged_runs\<close> reads it. The direction is not checked: one that is no string gives a run like any
  other, on which \<open>render_transcript\<close> then fails.
\<close>

datatype viewer_line = Sound file_line | Odd_Direction string "byte list"

definition entry_data :: "json \<Rightarrow> string + byte list" where
  "entry_data v =
     (case v of
        JStr s \<Rightarrow>
          if \<not> list_all (\<lambda>c. (of_char c :: nat) < 128) s then Inl ''ValueError''
          else (case b64decode s of None \<Rightarrow> Inl ''Error'' | Some data \<Rightarrow> Inr data)
      | _ \<Rightarrow> Inl ''TypeError'')"

definition viewer_entry :: "(json \<Rightarrow> string) \<Rightarrow> (string \<times> json) list \<Rightarrow> viewer_line" where
  "viewer_entry repr kvs =
     (case (map_of kvs ''direction'', map_of kvs ''data_b64'') of
        (Some dir, Some v) \<Rightarrow>
          (case entry_data v of
             Inl exn \<Rightarrow> Sound (Unreadable exn)
           | Inr data \<Rightarrow>
               let stamp = (case map_of kvs ''timestamp'' of None \<Rightarrow> ''?'' | Some ts \<Rightarrow> py_str repr ts)
               in (case dir of JStr d \<Rightarrow> Sound (Entry stamp d data) | _ \<Rightarrow> Odd_Direction stamp data))
      | _ \<Rightarrow> Sound (Unreadable ''KeyError''))"

definition viewer_line_of :: "(json \<Rightarrow> string) \<Rightarrow> string \<Rightarrow> viewer_line" where
  "viewer_line_of repr l =
     (if strip l = [] then Sound Blank
      else case loads l of
             None \<Rightarrow> Sound (Unreadable ''JSONDecodeError'')
           | Some (JObj kvs) \<Rightarrow> viewer_entry repr kvs
           | Some _ \<Rightarrow> Sound (Unreadable ''TypeError''))"

text \<open>
  The viewer over the characters of a file: the lines it prints and whether it then raises \<open>AttributeError\<close>,
  from \<open>direction.encode()\<close>. A run with an odd direction ends the run before it, so all runs of the lines
  before are printed; with \<open>--input-only\<close> it is passed over like any direction that is not \<open>recv\<close>.
\<close>

fun sound :: "viewer_line \<Rightarrow> bool" where
  "sound (Sound _) = True"
| "sound (Odd_Direction _ _) = False"

fun passed_line :: "viewer_line \<Rightarrow> file_line" where
  "passed_line (Sound l) = l"
| "passed_line (Odd_Direction stamp data) = Entry stamp ''?'' data"

definition view_transcript :: "(json \<Rightarrow> string) \<Rightarrow> string \<Rightarrow> bool \<Rightarrow> codepoints list \<times> pyexn option" where
  "view_transcript repr s input_only =
     (let ls = map (viewer_line_of repr) (text_lines s)
      in if input_only then (render_transcript (map passed_line ls) True, None)
         else (render_transcript (map passed_line (takeWhile sound ls)) False,
               if list_all sound ls then None else Some AttributeError))"

text \<open>The runs of a file without odd directions.\<close>

definition runs_of_text :: "(json \<Rightarrow> string) \<Rightarrow> string \<Rightarrow> run list" where
  "runs_of_text repr s = merged_runs (map passed_line (map (viewer_line_of repr) (text_lines s)))"

subsection \<open>Every whole entry is read as it was recorded\<close>

lemma transcript_objects_ok: "list_all (\<lambda>kvs. json_ok (JObj kvs)) (transcript_objects stamps t)"
  by (auto simp: transcript_objects_def list_all_iff transcript_object_def)

lemma viewer_line_object:
  "viewer_line_of repr (dumps (JObj (transcript_object stamp d data))) = Sound (Entry stamp (direction_name d) data)"
proof -
  have "json_ok (JObj (transcript_object stamp d data))" by (simp add: transcript_object_def)
  note l = loads_dumps [OF this]
  have "dumps (JObj kvs) \<noteq> []" for kvs by simp
  then show ?thesis
    unfolding viewer_line_of_def strip_object l
    by (simp add: viewer_entry_def transcript_object_def entry_data_def b64encode_ascii b64decode_encode)
qed

lemma viewer_lines_whole:
  "map (\<lambda>kvs. viewer_line_of repr (dumps (JObj kvs))) (take n (transcript_objects stamps t))
     = map Sound (take n (transcript_file stamps t))"
  by (simp add: transcript_objects_def transcript_file_def take_map viewer_line_object case_prod_beta' comp_def
      del: dumps.simps)

lemma viewer_line_cut:
  assumes "json_ok (JObj kvs)" "dumps (JObj kvs) = p @ q" "q \<noteq> []"
  shows "viewer_line_of repr p \<in> {Sound Blank, Sound (Unreadable ''JSONDecodeError'')}"
  using loads_cut [OF assms] by (simp add: viewer_line_of_def)

text \<open>A file cut anywhere: the whole entries, and at most one line that is blank or reported.\<close>

lemma viewer_lines_of_cut_transcript:
  "\<exists>torn. map (viewer_line_of repr) (text_lines (take k (transcript_text stamps t)))
       = map Sound (take (whole_objects k (transcript_objects stamps t)) (transcript_file stamps t) @ torn)
     \<and> set torn \<subseteq> {Blank, Unreadable ''JSONDecodeError''} \<and> length torn \<le> 1"
proof -
  let ?os = "transcript_objects stamps t"
  let ?m = "whole_objects k ?os"
  obtain torn where l: "text_lines (take k (transcript_text stamps t)) = map (\<lambda>kvs. dumps (JObj kvs)) (take ?m ?os) @ torn"
    and torn: "torn = [] \<or> (\<exists>p q. torn = [p] \<and> q \<noteq> [] \<and> ?m < length ?os \<and> dumps (JObj (?os ! ?m)) = p @ q)"
    using lines_of_cut_file [OF transcript_objects_ok [of stamps t], of k] unfolding transcript_text_def by blast
  have "\<exists>torn'. map (viewer_line_of repr) torn = map Sound torn'
      \<and> set torn' \<subseteq> {Blank, Unreadable ''JSONDecodeError''} \<and> length torn' \<le> 1"
  proof (cases "torn = []")
    case False
    then obtain p q where p: "torn = [p]" "q \<noteq> []" "?m < length ?os" "dumps (JObj (?os ! ?m)) = p @ q"
      using torn by blast
    have "json_ok (JObj (?os ! ?m))" using transcript_objects_ok [of stamps t] p(3) unfolding list_all_length by blast
    from viewer_line_cut [OF this p(4,2), of repr] show ?thesis unfolding p(1)
      by (elim insertE emptyE) (rule exI [of _ "[Blank]"], simp, rule exI [of _ "[Unreadable ''JSONDecodeError'']"], simp)
  qed simp
  then obtain torn' where t: "map (viewer_line_of repr) torn = map Sound torn'"
    "set torn' \<subseteq> {Blank, Unreadable ''JSONDecodeError''}" "length torn' \<le> 1" by blast
  have "map (viewer_line_of repr) (text_lines (take k (transcript_text stamps t)))
      = map Sound (take ?m (transcript_file stamps t) @ torn')"
    unfolding l map_append t(1) map_map comp_def viewer_lines_whole ..
  with t(2,3) show ?thesis by blast
qed

subsection \<open>The viewer over a file\<close>

lemma take_transcript_file: "take n (transcript_file stamps t) = transcript_file stamps (t\<lparr>tr_entries := take n (tr_entries t)\<rparr>)"
  by (simp add: transcript_file_def take_map enumerate_eq_zip take_zip min_def)

lemma entry_bytes_append: "entry_bytes dir (ls @ ls') = entry_bytes dir ls @ entry_bytes dir ls'"
  by (simp add: entry_bytes_def)

lemma entry_bytes_torn: "set torn \<subseteq> {Blank, Unreadable e} \<Longrightarrow> entry_bytes dir torn = []"
  by (induction torn) auto

lemma runs_of_cut_transcript:
  "bytes_of (direction_name d) (runs_of_text repr (take k (transcript_text stamps t)))
     = concat (map snd (filter (\<lambda>e. fst e = d) (take (whole_objects k (transcript_objects stamps t)) (tr_entries t))))"
proof -
  let ?m = "whole_objects k (transcript_objects stamps t)"
  obtain torn where l: "map (viewer_line_of repr) (text_lines (take k (transcript_text stamps t)))
      = map Sound (take ?m (transcript_file stamps t) @ torn)"
    and torn: "set torn \<subseteq> {Blank, Unreadable ''JSONDecodeError''}"
    using viewer_lines_of_cut_transcript by blast
  have "direction_name d \<noteq> ''error''" by (cases d) (simp_all add: direction_name_def)
  then have "bytes_of (direction_name d) (runs_of_text repr (take k (transcript_text stamps t)))
      = entry_bytes (direction_name d) (take ?m (transcript_file stamps t) @ torn)"
    unfolding runs_of_text_def l by (simp add: merged_runs_bytes comp_def)
  also have "\<dots> = concat (map snd (filter (\<lambda>e. fst e = d) (take ?m (tr_entries t))))"
    by (simp add: entry_bytes_append entry_bytes_torn [OF torn] take_transcript_file entry_bytes_file)
  finally show ?thesis .
qed

lemma viewer_lines_transcript:
  "map (viewer_line_of repr) (text_lines (transcript_text stamps t)) = map Sound (transcript_file stamps t)"
proof -
  have "text_lines (object_file os) = map (\<lambda>kvs. dumps (JObj kvs)) os"
    if "list_all (\<lambda>kvs. json_ok (JObj kvs)) os" for os
    using that
  proof (induction os)
    case (Cons kvs os)
    then have "json_ok (JObj kvs)" by (simp del: json_ok.simps)
    from dumps_no_line_end [OF this] have "text_lines (object_file (kvs # os)) = dumps (JObj kvs) # text_lines (object_file os)"
      unfolding object_file_Cons by (intro text_lines_line(1)) blast+
    with Cons show ?case by (simp del: json_ok.simps dumps.simps)
  qed (simp add: object_file_def)
  from this [OF transcript_objects_ok [of stamps t]] show ?thesis
    unfolding transcript_text_def
    using viewer_lines_whole [of repr "length (transcript_objects stamps t)" stamps t]
    by (simp add: comp_def transcript_objects_def transcript_file_def del: dumps.simps)
qed

lemma takeWhile_sound: "takeWhile sound (map Sound ls) = map Sound ls"
  by (induction ls) simp_all

lemma view_of_transcript:
  "view_transcript repr (transcript_text stamps t) b = (render_transcript (transcript_file stamps t) b, None)"
  by (cases b) (simp_all add: view_transcript_def viewer_lines_transcript takeWhile_sound comp_def list_all_iff)

text \<open>
  C39. The transcript of a session, from its characters on disk. A file that was closed is shown, without an
  error, as its runs one after another: the runs are the recorded chunks in order, neighbours of one
  direction put together under the time of the first, directions alternating, and each is printed as a
  header and its data piece by piece, nothing left out (with \<open>--input-only\<close> the client's runs alone). Of a
  file that a crash cut at any character, the runs hold all bytes of the entries that were written in whole,
  in order and per direction, and nothing else; and of any file, forged or damaged, no line that is printed
  holds a control, C1 or invisible character other than a tab or line break.
\<close>
theorem transcript_on_disk_is_shown:
  "(\<exists>gs blocks. view_transcript repr (transcript_text stamps t) b = (concat blocks, None)
      \<and> list_all2 shows_run ((if b then client_runs else id) (map run_of gs)) blocks
      \<and> concat gs = recorded stamps t \<and> list_all one_direction gs \<and> distinct_adj (dirs (map run_of gs)))
   \<and> bytes_of (direction_name d) (merged_runs (transcript_file stamps t))
     = concat (map snd (filter (\<lambda>e. fst e = d) (tr_entries t)))
   \<and> bytes_of (direction_name d) (runs_of_text repr (take k (transcript_text stamps t)))
     = concat (map snd (filter (\<lambda>e. fst e = d) (take (whole_objects k (transcript_objects stamps t)) (tr_entries t))))
   \<and> (\<Union>l \<in> set (fst (view_transcript repr any_text b)). set l) \<subseteq> shown"
proof -
  note v = viewer_is_faithful_and_inert [where stamps = stamps and t = t]
  have "bytes_of (direction_name d) (merged_runs (transcript_file stamps t))
      = concat (map snd (filter (\<lambda>e. fst e = d) (tr_entries t)))"
    using v by (cases d) (auto simp: direction_name_def)
  moreover have "(\<Union>l \<in> set (fst (view_transcript repr any_text b)). set l) \<subseteq> shown"
    using v unfolding view_transcript_def Let_def by (cases b) (simp_all only: if_True if_False fst_conv)
  moreover have "distinct_adj (dirs (merged_runs (transcript_file stamps t)))"
    by (rule v [THEN conjunct2, THEN conjunct2, THEN conjunct1])
  moreover obtain gs where "concat gs = recorded stamps t" "list_all one_direction gs"
    "merged_runs (transcript_file stamps t) = map run_of gs" using merged_runs_groups by blast
  ultimately show ?thesis
    using render_transcript_shows [of b stamps t]
    by (intro conjI runs_of_cut_transcript exI) (auto simp: view_of_transcript)
qed

text \<open>An entry with a direction that is no string stops the viewer, though not with \<open>--input-only\<close>.\<close>

definition odd_entry :: string where
  "odd_entry = dumps (JObj [(''direction'', JNull), (''data_b64'', JStr (b64encode [0x68, 0x69]))])"

lemma odd_entry_line: "viewer_line_of repr odd_entry = Odd_Direction ''?'' [0x68, 0x69]"
proof -
  let ?kvs = "[(''direction'', JNull), (''data_b64'', JStr (b64encode [0x68, 0x69]))]"
  have "loads (dumps (JObj ?kvs)) = Some (JObj ?kvs)" by (rule loads_dumps) simp
  moreover have "dumps (JObj ?kvs) \<noteq> []" by simp
  ultimately show ?thesis
    unfolding odd_entry_def viewer_line_of_def strip_object
    by (simp add: viewer_entry_def entry_data_def b64encode_ascii b64decode_encode del: b64encode.simps dumps.simps)
qed

lemma odd_direction_stops_viewer:
  "view_transcript repr odd_entry False = ([], Some AttributeError)"
  "view_transcript repr odd_entry True = ([], None)"
proof -
  have "json_ok (JObj [(''direction'', JNull), (''data_b64'', JStr (b64encode [0x68, 0x69]))])" by simp
  from dumps_no_line_end [OF this] have "text_lines odd_entry = [odd_entry]"
    using text_lines_line(2) [of odd_entry] by (simp add: odd_entry_def)
  then show "view_transcript repr odd_entry False = ([], Some AttributeError)"
    "view_transcript repr odd_entry True = ([], None)"
    by (simp_all add: view_transcript_def odd_entry_line render_transcript_def merged_runs_def flush_run_def)
qed

subsection \<open>The tool from its parsed arguments on\<close>

text \<open>
  \<open>main\<close>: the message of \<open>sys.exit\<close>, or the lines printed and the exception at the end, if any. \<open>shown_path\<close> is
  the text of a \<open>Path\<close> and \<open>read_file\<close> the characters of a file.
\<close>

definition transcript_main ::
  "(string \<Rightarrow> bool) \<Rightarrow> (string \<Rightarrow> string) \<Rightarrow> (string \<Rightarrow> string) \<Rightarrow> (json \<Rightarrow> string) \<Rightarrow> string \<Rightarrow> string \<Rightarrow> bool
     \<Rightarrow> codepoints + codepoints list \<times> pyexn option" where
  "transcript_main is_file shown_path read_file repr target dir input_only =
     (case resolve_transcript is_file target dir of
        Inl msg \<Rightarrow> Inl msg
      | Inr path \<Rightarrow>
          (case view_transcript repr (read_file path) input_only of
             (printed, exn) \<Rightarrow>
               Inr ((ascii ''# transcript '' @ render_bytes (utf8_encode (shown_path path))) # printed, exn)))"

lemma view_shown: "l \<in> set (fst (view_transcript repr s b)) \<Longrightarrow> set l \<subseteq> shown"
  using render_run_shown unfolding view_transcript_def Let_def render_transcript_def by (cases b) fastforce+

lemma transcript_main_shown:
  assumes "transcript_main is_file shown_path read_file repr target dir b = Inr (printed, exn)" "l \<in> set printed"
  shows "set l \<subseteq> shown"
proof -
  have "set (ascii ''# transcript '') \<subseteq> shown" by (simp add: ascii_shown)
  with assms show ?thesis
    using render_bytes_shown view_shown
    by (auto simp: transcript_main_def case_prod_beta' split: sum.splits dest!: subsetD) blast+
qed

end
