(* ===== verification/Report.thy ===== *)
theory Report
  imports Events "HOL-Library.Char_ord" "HOL-Library.List_Lexorder" "HOL-Library.Multiset"
begin

section \<open>The report over the log\<close>

text \<open>
  The aggregation of \<open>tools/dashboard.py\<close>, which \<open>tools/status_check.py\<close> shares, and the latter's own
  filter and command patterns. A log event is the dictionary of one line. A field that the honeypot
  writes as a string is read as one: absent, it is the default the code gives.
\<close>

type_synonym log_event = "(string \<times> json) list"

definition field :: "string \<Rightarrow> log_event \<Rightarrow> json option" where
  "field k ev = map_of ev k"

definition text_field :: "string \<Rightarrow> string \<Rightarrow> log_event \<Rightarrow> string" where
  "text_field k dflt ev = (case field k ev of Some (JStr s) \<Rightarrow> s | _ \<Rightarrow> dflt)"

definition event_type :: "log_event \<Rightarrow> string" where
  "event_type ev = text_field ''event'' [] ev"

text \<open>The dictionary that a line of the honeypot's log holds.\<close>

definition logged :: "string \<Rightarrow> event \<Rightarrow> log_event" where
  "logged stamp e = (''timestamp'', JStr stamp) # (''event'', JStr (fst e)) # snd e"

subsection \<open>Dictionaries of counts, and sorting\<close>

definition count_of :: "('k \<times> nat) list \<Rightarrow> 'k \<Rightarrow> nat" where
  "count_of c k = (case map_of c k of None \<Rightarrow> 0 | Some n \<Rightarrow> n)"

definition count_up :: "'k \<Rightarrow> ('k \<times> nat) list \<Rightarrow> ('k \<times> nat) list" where
  "count_up k c = AList.update k (Suc (count_of c k)) c"

definition counter :: "'k list \<Rightarrow> ('k \<times> nat) list" where
  "counter ks = fold count_up ks []"

text \<open>\<open>sorted(xs, key=f, reverse=True)\<close>: largest first, equal keys in their order.\<close>

definition sort_desc :: "('a \<Rightarrow> 'k :: linorder) \<Rightarrow> 'a list \<Rightarrow> 'a list" where
  "sort_desc f xs = rev (sort_key f (rev xs))"

definition most_common :: "('k \<times> nat) list \<Rightarrow> ('k \<times> nat) list" where
  "most_common c = sort_desc snd c"

subsection \<open>\<open>Report\<close>\<close>

record report =
  rp_events :: "log_event list"
  rp_sessions :: "(string \<times> string \<times> string) list"
  rp_ip_counts :: "(string \<times> nat) list"
  rp_commands :: "log_event list"
  rp_downloads :: "log_event list"
  rp_usernames :: "(string \<times> nat) list"
  rp_passwords :: "(string \<times> nat) list"
  rp_success :: nat
  rp_failed :: nat
  rp_off_list :: "log_event list"
  rp_success_by_ip :: "(string \<times> log_event list) list"
  rp_timestamps :: "string list"

definition empty_report :: "log_event list \<Rightarrow> report" where
  "empty_report evs =
     \<lparr>rp_events = evs, rp_sessions = [], rp_ip_counts = [], rp_commands = [], rp_downloads = [],
      rp_usernames = [], rp_passwords = [], rp_success = 0, rp_failed = 0, rp_off_list = [],
      rp_success_by_ip = [], rp_timestamps = []\<rparr>"

definition is_login :: "log_event \<Rightarrow> bool" where
  "is_login ev \<longleftrightarrow> event_type ev \<in> {''login.success'', ''login.failed''}"

definition off_wordlist :: "log_event \<Rightarrow> bool" where
  "off_wordlist ev \<longleftrightarrow>
     field ''username_known'' ev = Some (JBool False) \<or> field ''password_known'' ev = Some (JBool False)"

definition add_connect :: "log_event \<Rightarrow> report \<Rightarrow> report" where
  "add_connect ev r =
     (let ip = text_field ''src_ip'' ''unknown'' ev
      in r\<lparr>rp_sessions := AList.update (text_field ''session_id'' [] ev) (ip, text_field ''protocol'' [] ev) (rp_sessions r),
           rp_ip_counts := count_up ip (rp_ip_counts r)\<rparr>)"

definition add_login :: "log_event \<Rightarrow> report \<Rightarrow> report" where
  "add_login ev r0 =
     (let r1 = r0\<lparr>rp_usernames := count_up (text_field ''username'' [] ev) (rp_usernames r0),
                  rp_passwords := count_up (text_field ''password'' [] ev) (rp_passwords r0)\<rparr>;
          ip = text_field ''src_ip'' [] ev;
          r2 = (if event_type ev = ''login.success''
                then r1\<lparr>rp_success := Suc (rp_success r1),
                        rp_success_by_ip := AList.update ip
                          ((case map_of (rp_success_by_ip r1) ip of None \<Rightarrow> [] | Some es \<Rightarrow> es) @ [ev])
                          (rp_success_by_ip r1)\<rparr>
                else r1\<lparr>rp_failed := Suc (rp_failed r1)\<rparr>)
      in if off_wordlist ev then r2\<lparr>rp_off_list := rp_off_list r2 @ [ev]\<rparr> else r2)"

definition is_download :: "log_event \<Rightarrow> bool" where
  "is_download ev \<longleftrightarrow> event_type ev = ''file.download'' \<and> field ''outcome'' ev \<noteq> Some (JStr ''requested'')"

definition add_stamp :: "log_event \<Rightarrow> report \<Rightarrow> report" where
  "add_stamp ev r =
     (let stamp = text_field ''timestamp'' [] ev
      in if stamp = [] then r else r\<lparr>rp_timestamps := rp_timestamps r @ [stamp]\<rparr>)"

definition add_event :: "log_event \<Rightarrow> report \<Rightarrow> report" where
  "add_event ev r0 =
     (let r = add_stamp ev r0
      in if event_type ev = ''session.connect'' then add_connect ev r
         else if event_type ev = ''command.input'' then r\<lparr>rp_commands := rp_commands r @ [ev]\<rparr>
         else if is_download ev then r\<lparr>rp_downloads := rp_downloads r @ [ev]\<rparr>
         else if is_login ev then add_login ev r
         else r)"

definition by_time :: "log_event list \<Rightarrow> log_event list" where
  "by_time evs = sort_desc (text_field ''timestamp'' []) evs"

definition make_report :: "log_event list \<Rightarrow> report" where
  "make_report evs =
     (let r = fold add_event evs (empty_report evs)
      in r\<lparr>rp_commands := by_time (rp_commands r), rp_downloads := by_time (rp_downloads r),
           rp_off_list := by_time (rp_off_list r)\<rparr>)"

definition unique_ips :: "report \<Rightarrow> string list" where
  "unique_ips r = sort_desc (count_of (rp_ip_counts r)) (map fst (rp_ip_counts r))"

definition repeat_visitors :: "report \<Rightarrow> (string \<times> log_event list) list" where
  "repeat_visitors r = sort_desc (\<lambda>(ip, evs). length evs) (filter (\<lambda>(ip, evs). length evs > 1) (rp_success_by_ip r))"

definition first_seen :: "report \<Rightarrow> string option" where
  "first_seen r = (case rp_timestamps r of [] \<Rightarrow> None | t # ts \<Rightarrow> Some (fold min ts t))"

definition last_seen :: "report \<Rightarrow> string option" where
  "last_seen r = (case rp_timestamps r of [] \<Rightarrow> None | t # ts \<Rightarrow> Some (fold max ts t))"

subsection \<open>\<open>status_check.py\<close>\<close>

definition excluded_sessions :: "log_event list \<Rightarrow> string list \<Rightarrow> string list" where
  "excluded_sessions evs ips =
     map fst (filter (\<lambda>(sid, ip). ip \<in> set ips)
       (fold (\<lambda>e m. case (field ''session_id'' e, field ''src_ip'' e) of
            (Some (JStr sid), Some (JStr ip)) \<Rightarrow> if event_type e = ''session.connect'' then AList.update sid ip m else m
          | _ \<Rightarrow> m) evs []))"

definition filter_excluded_ips :: "log_event list \<Rightarrow> string list \<Rightarrow> log_event list" where
  "filter_excluded_ips evs ips =
     (if ips = [] then evs
      else filter (\<lambda>e. case field ''session_id'' e of
          Some (JStr sid) \<Rightarrow> sid \<notin> set (excluded_sessions evs ips) | _ \<Rightarrow> True) evs)"

definition commands_of :: "log_event list \<Rightarrow> string \<Rightarrow> string list" where
  "commands_of evs sid =
     map (\<lambda>e. strip (text_field ''raw'' [] e))
       (filter (\<lambda>e. event_type e = ''command.input'' \<and> text_field ''session_id'' [] e = sid) evs)"

definition command_patterns :: "report \<Rightarrow> (string list \<times> nat) list" where
  "command_patterns r =
     counter (map (commands_of (rp_events r))
       (remdups (map (text_field ''session_id'' []) (filter (\<lambda>e. event_type e = ''login.success'') (rp_events r)))))"

subsection \<open>Counters and sorting\<close>

lemma count_of_up [simp]: "count_of (count_up k c) k' = (if k' = k then Suc (count_of c k) else count_of c k')"
  by (simp add: count_of_def count_up_def map_of_update)

lemma count_up_keys: "distinct (map fst c) \<Longrightarrow> distinct (map fst (count_up k c))"
  by (simp add: count_up_def distinct_update)

lemma counter_snoc: "counter (ks @ [k]) = count_up k (counter ks)"
  by (simp add: counter_def)

lemma count_of_counter: "count_of (counter ks) k = count_list ks k"
proof (induction ks rule: rev_induct)
  case Nil
  show ?case by (simp add: counter_def count_of_def)
qed (auto simp: counter_snoc)

lemma counter_distinct: "distinct (map fst (counter ks))"
  by (induction ks rule: rev_induct) (simp_all add: counter_snoc count_up_keys counter_def [of "[]"])

lemma counter_keys: "fst ` set (counter ks) = set ks"
  by (induction ks rule: rev_induct) (auto simp: counter_snoc count_up_def dom_update counter_def [of "[]"])

text \<open>The counts of a counter add up to what was counted.\<close>

definition total_of :: "('k \<times> nat) list \<Rightarrow> nat" where
  "total_of c = sum_list (map snd c)"

lemma total_update:
  "distinct (map fst c) \<Longrightarrow> total_of (AList.update k n c) + count_of c k = total_of c + n"
proof (induction c)
  case (Cons x c)
  then show ?case
    by (cases x) (auto simp: total_of_def count_of_def map_of_eq_None_iff [symmetric] split: option.splits)
qed (simp add: total_of_def count_of_def)

lemma total_counter: "total_of (counter ks) = length ks"
proof (induction ks rule: rev_induct)
  case (snoc k ks)
  from total_update [OF counter_distinct, of k "Suc (count_of (counter ks) k)" ks] snoc show ?case
    by (simp add: counter_snoc count_up_def)
qed (simp add: counter_def total_of_def)

lemma mset_sort_desc [simp]: "mset (sort_desc f xs) = mset xs"
  by (simp add: sort_desc_def)

lemma set_sort_desc [simp]: "set (sort_desc f xs) = set xs"
  by (simp add: sort_desc_def)

lemma length_sort_desc [simp]: "length (sort_desc f xs) = length xs"
  by (simp add: sort_desc_def)

lemma sorted_sort_desc: "sorted_wrt (\<lambda>x y. f y \<le> f x) (sort_desc f xs)"
proof -
  have "sorted_wrt (\<lambda>x y. f x \<le> f y) (sort_key f (rev xs))"
    using sorted_sort_key [of f "rev xs"] by (simp add: sorted_map)
  then show ?thesis by (simp add: sort_desc_def sorted_wrt_rev)
qed

lemma sort_desc_stable: "filter (\<lambda>x. f x = k) (sort_desc f xs) = filter (\<lambda>x. f x = k) xs"
  by (simp add: sort_desc_def rev_filter [symmetric] sort_key_stable)

subsection \<open>What a report says of a log\<close>

definition is_connect :: "log_event \<Rightarrow> bool" where
  "is_connect ev \<longleftrightarrow> event_type ev = ''session.connect''"

definition is_success :: "log_event \<Rightarrow> bool" where
  "is_success ev \<longleftrightarrow> event_type ev = ''login.success''"

text \<open>
  Values in the order in which each comes first, and a list arranged by a key: the greatest first, those of
  one key in the order they had. There is one such arrangement.
\<close>

definition firsts :: "'a list \<Rightarrow> 'a list" where
  "firsts xs = rev (remdups (rev xs))"

definition arranged :: "('a \<Rightarrow> 'k :: linorder) \<Rightarrow> 'a list \<Rightarrow> 'a list \<Rightarrow> bool" where
  "arranged f xs ys \<longleftrightarrow> sorted_wrt (\<lambda>x y. f y \<le> f x) ys \<and> (\<forall>k. filter (\<lambda>x. f x = k) ys = filter (\<lambda>x. f x = k) xs)"

lemma firsts_snoc: "firsts (xs @ [x]) = (if x \<in> set xs then firsts xs else firsts xs @ [x])"
  by (simp add: firsts_def)

lemma firsts_set [simp]: "set (firsts xs) = set xs" "firsts [] = []" "distinct (firsts xs)"
  by (simp_all add: firsts_def)

lemma arranged_sort_desc: "arranged f xs (sort_desc f xs)"
  by (simp add: arranged_def sorted_sort_desc sort_desc_stable)

lemma arranged_mset: "arranged f xs ys \<Longrightarrow> mset ys = mset xs"
proof (rule multiset_eqI)
  fix x
  have c: "count (mset zs) x = count (mset (filter (\<lambda>y. f y = f x) zs)) x" for zs by (induction zs) auto
  assume "arranged f xs ys"
  then have "filter (\<lambda>y. f y = f x) ys = filter (\<lambda>y. f y = f x) xs" by (simp only: arranged_def)
  then show "count (mset ys) x = count (mset xs) x" by (simp only: c [of ys] c [of xs])
qed

lemma counter_order: "map fst (counter ks) = firsts ks"
  by (induction ks rule: rev_induct)
    (simp_all add: counter_snoc count_up_def update_keys counter_keys firsts_snoc counter_def [of "[]"])

text \<open>What the log says: the sessions, and the successful logins from an address.\<close>

definition session_in :: "log_event list \<Rightarrow> string \<Rightarrow> (string \<times> string) option" where
  "session_in evs sid =
     (case rev (filter (\<lambda>ev. is_connect ev \<and> text_field ''session_id'' [] ev = sid) evs) of
        [] \<Rightarrow> None
      | ev # _ \<Rightarrow> Some (text_field ''src_ip'' ''unknown'' ev, text_field ''protocol'' [] ev))"

definition successes_of :: "log_event list \<Rightarrow> string \<Rightarrow> log_event list" where
  "successes_of evs ip = filter (\<lambda>ev. is_success ev \<and> text_field ''src_ip'' [] ev = ip) evs"

lemma session_in_snoc:
  "session_in (evs @ [ev]) sid =
     (if is_connect ev \<and> text_field ''session_id'' [] ev = sid
      then Some (text_field ''src_ip'' ''unknown'' ev, text_field ''protocol'' [] ev) else session_in evs sid)"
  by (simp add: session_in_def)

lemma keys_update: "map fst al = firsts ks \<Longrightarrow> map fst (AList.update k v al) = firsts (ks @ [k])"
  by (metis update_keys firsts_snoc firsts_set(1))

lemma spec_snoc_other [simp]:
  "\<not> is_connect ev \<Longrightarrow> session_in (evs @ [ev]) = session_in evs"
  "\<not> is_success ev \<Longrightarrow> successes_of (evs @ [ev]) = successes_of evs"
  "successes_of [] ip = []" "session_in [] = Map.empty"
  by (auto simp: fun_eq_iff session_in_snoc successes_of_def session_in_def)

lemma successes_of_snoc:
  "is_success ev \<Longrightarrow> successes_of (evs @ [ev]) ip = successes_of evs ip @ (if text_field ''src_ip'' [] ev = ip then [ev] else [])"
  by (simp add: successes_of_def)

text \<open>The abstract report: each number and list by itself, from the events it is about.\<close>

definition spec_parts :: "log_event list \<Rightarrow> report \<Rightarrow> bool" where
  "spec_parts evs r \<longleftrightarrow>
     rp_ip_counts r = counter (map (text_field ''src_ip'' ''unknown'') (filter is_connect evs))
     \<and> map fst (rp_sessions r) = firsts (map (text_field ''session_id'' []) (filter is_connect evs))
     \<and> map_of (rp_sessions r) = session_in evs
     \<and> rp_commands r = filter (\<lambda>ev. event_type ev = ''command.input'') evs
     \<and> rp_downloads r = filter is_download evs
     \<and> rp_usernames r = counter (map (text_field ''username'' []) (filter is_login evs))
     \<and> rp_passwords r = counter (map (text_field ''password'' []) (filter is_login evs))
     \<and> rp_success r = length (filter is_success evs)
     \<and> rp_failed r = length (filter (\<lambda>ev. event_type ev = ''login.failed'') evs)
     \<and> rp_off_list r = filter (\<lambda>ev. is_login ev \<and> off_wordlist ev) evs
     \<and> map fst (rp_success_by_ip r) = firsts (map (text_field ''src_ip'' []) (filter is_success evs))
     \<and> (\<forall>ip. (case map_of (rp_success_by_ip r) ip of None \<Rightarrow> [] | Some es \<Rightarrow> es) = successes_of evs ip)"

definition stamps_of :: "log_event list \<Rightarrow> string list" where
  "stamps_of evs = filter (\<lambda>t. t \<noteq> []) (map (text_field ''timestamp'' []) evs)"

lemma event_kinds:
  "event_type ev = ''session.connect'' \<Longrightarrow> \<not> is_download ev \<and> \<not> is_login ev \<and> \<not> is_success ev"
  "event_type ev = ''command.input'' \<Longrightarrow> \<not> is_download ev \<and> \<not> is_login ev \<and> \<not> is_success ev \<and> \<not> is_connect ev"
  "is_download ev \<Longrightarrow> \<not> is_login ev \<and> \<not> is_success ev \<and> \<not> is_connect ev"
  "is_login ev \<Longrightarrow> \<not> is_connect ev \<and> event_type ev \<noteq> ''command.input''"
  "is_success ev \<Longrightarrow> is_login ev" "event_type ev = ''login.failed'' \<Longrightarrow> is_login ev"
  by (auto simp: is_download_def is_login_def is_success_def is_connect_def)

lemma spec_parts_stamps [simp]: "spec_parts evs (r\<lparr>rp_timestamps := ts\<rparr>) \<longleftrightarrow> spec_parts evs r"
  by (simp add: spec_parts_def)

lemma spec_add_connect:
  assumes "spec_parts evs r" and "event_type ev = ''session.connect''"
  shows "spec_parts (evs @ [ev]) (add_connect ev r)"
proof -
  note k = event_kinds(1) [OF assms(2)]
  have "is_connect ev" "event_type ev \<noteq> ''command.input''" "event_type ev \<noteq> ''login.failed''"
    using assms(2) by (simp_all add: is_connect_def)
  with assms(1) k show ?thesis
    by (simp add: spec_parts_def add_connect_def Let_def counter_snoc keys_update update_conv' session_in_snoc
        fun_eq_iff)
qed

lemma spec_add_command:
  assumes "spec_parts evs r" and "event_type ev = ''command.input''"
  shows "spec_parts (evs @ [ev]) (r\<lparr>rp_commands := rp_commands r @ [ev]\<rparr>)"
  using assms event_kinds(2) [OF assms(2)] by (simp add: spec_parts_def)

lemma spec_add_download:
  assumes "spec_parts evs r" and "is_download ev"
  shows "spec_parts (evs @ [ev]) (r\<lparr>rp_downloads := rp_downloads r @ [ev]\<rparr>)"
proof -
  have "event_type ev \<noteq> ''command.input''" "event_type ev \<noteq> ''login.failed''"
    using assms(2) by (auto simp: is_download_def)
  with assms event_kinds(3) [OF assms(2)] show ?thesis by (simp add: spec_parts_def)
qed

lemma spec_add_other:
  assumes "spec_parts evs r" and "\<not> is_connect ev" "event_type ev \<noteq> ''command.input''" "\<not> is_download ev" "\<not> is_login ev"
  shows "spec_parts (evs @ [ev]) r"
  using assms event_kinds(5,6) [of ev] by (auto simp: spec_parts_def)

lemma spec_add_login:
  assumes "spec_parts evs r" and "is_login ev"
  shows "spec_parts (evs @ [ev]) (add_login ev r)"
proof -
  have k: "\<not> is_connect ev" "event_type ev \<noteq> ''command.input''" "\<not> is_download ev"
    using event_kinds(3,4) assms(2) by auto
  show ?thesis
  proof (cases "is_success ev")
    case True
    then have "event_type ev = ''login.success''" by (simp add: is_success_def)
    with assms k True show ?thesis
      by (simp add: spec_parts_def add_login_def Let_def counter_snoc keys_update map_of_update successes_of_snoc)
  next
    case False
    then have f: "event_type ev = ''login.failed''" "event_type ev \<noteq> ''login.success''"
      using assms(2) by (auto simp: is_login_def is_success_def)
    with assms k False show ?thesis by (simp add: spec_parts_def add_login_def Let_def counter_snoc)
  qed
qed

lemma add_stamps: "rp_timestamps (add_connect ev r) = rp_timestamps r" "rp_timestamps (add_login ev r) = rp_timestamps r"
  "rp_events (add_connect ev r) = rp_events r" "rp_events (add_login ev r) = rp_events r"
  by (simp_all add: add_connect_def add_login_def Let_def)

lemma spec_add_event:
  assumes "spec_parts evs r"
  shows "spec_parts (evs @ [ev]) (add_event ev r)"
proof -
  have r: "spec_parts evs (add_stamp ev r)" using assms by (simp add: add_stamp_def Let_def)
  show ?thesis
    using spec_add_connect [OF r, of ev] spec_add_command [OF r, of ev] spec_add_download [OF r, of ev]
      spec_add_login [OF r, of ev] spec_add_other [OF r, of ev]
    unfolding add_event_def Let_def is_connect_def by (auto split: if_split)
qed

lemma add_event_keeps:
  "rp_timestamps (add_event ev r) = rp_timestamps r @ stamps_of [ev]" "rp_events (add_event ev r) = rp_events r"
  by (simp_all add: add_event_def add_stamp_def Let_def add_stamps stamps_of_def)

lemma fold_add_event:
  "spec_parts evs (fold add_event evs (empty_report all)) \<and>
     rp_timestamps (fold add_event evs (empty_report all)) = stamps_of evs \<and>
     rp_events (fold add_event evs (empty_report all)) = all"
proof (induction evs rule: rev_induct)
  case Nil
  show ?case by (simp add: spec_parts_def empty_report_def stamps_of_def counter_def)
next
  case (snoc ev evs)
  then show ?case using spec_add_event [of evs _ ev] by (simp add: add_event_keeps) (simp add: stamps_of_def)
qed

lemma min_fold: "fold min ts t = Min (set (t # ts))" "fold max ts t = Max (set (t # ts))" for t :: "'a :: linorder"
  by (simp_all only: Min.set_eq_fold Max.set_eq_fold)

lemma filed_by_key:
  assumes "distinct (map fst al)" and "\<forall>k. (case map_of al k of None \<Rightarrow> d | Some v \<Rightarrow> v) = f k"
  shows "al = map (\<lambda>k. (k, f k)) (map fst al)"
proof -
  have "map (\<lambda>p. (fst p, f (fst p))) al = al"
  proof (rule map_idI)
    fix p assume "p \<in> set al"
    then have "map_of al (fst p) = Some (snd p)" using assms(1) by (intro map_of_is_SomeI) simp_all
    then show "(fst p, f (fst p)) = p" using assms(2) [rule_format, of "fst p"] by (simp add: prod_eq_iff)
  qed
  then show ?thesis by (simp add: comp_def)
qed

lemma make_report_parts:
  "spec_parts evs (fold add_event evs (empty_report evs))" "rp_timestamps (make_report evs) = stamps_of evs"
  "rp_sessions (make_report evs) = rp_sessions (fold add_event evs (empty_report evs))"
  "rp_ip_counts (make_report evs) = rp_ip_counts (fold add_event evs (empty_report evs))"
  "rp_success_by_ip (make_report evs) = rp_success_by_ip (fold add_event evs (empty_report evs))"
  using fold_add_event [of evs evs] by (simp_all add: make_report_def Let_def)

lemma unique_ips_arranged:
  "arranged (\<lambda>ip. length (filter (\<lambda>ev. is_connect ev \<and> text_field ''src_ip'' ''unknown'' ev = ip) evs))
     (firsts (map (text_field ''src_ip'' ''unknown'') (filter is_connect evs))) (unique_ips (make_report evs))"
proof -
  have c: "rp_ip_counts (make_report evs) = counter (map (text_field ''src_ip'' ''unknown'') (filter is_connect evs))"
    using make_report_parts(1) [of evs] by (simp add: make_report_parts(4) spec_parts_def)
  have "count_list (map g (filter P xs)) k = length (filter (\<lambda>x. P x \<and> g x = k) xs)"
    for g :: "log_event \<Rightarrow> string" and P k xs by (induction xs) auto
  with c have n: "count_of (rp_ip_counts (make_report evs))
      = (\<lambda>ip. length (filter (\<lambda>ev. is_connect ev \<and> text_field ''src_ip'' ''unknown'' ev = ip) evs))"
    by (simp add: fun_eq_iff count_of_counter)
  have k: "map fst (rp_ip_counts (make_report evs)) = firsts (map (text_field ''src_ip'' ''unknown'') (filter is_connect evs))"
    by (simp only: c counter_order)
  show ?thesis unfolding unique_ips_def n k by (rule arranged_sort_desc)
qed

lemma repeat_visitors_arranged:
  "arranged (length \<circ> snd)
     (map (\<lambda>ip. (ip, successes_of evs ip))
       (filter (\<lambda>ip. 1 < length (successes_of evs ip)) (firsts (map (text_field ''src_ip'' []) (filter is_success evs)))))
     (repeat_visitors (make_report evs))"
proof -
  let ?al = "rp_success_by_ip (make_report evs)" and ?ks = "firsts (map (text_field ''src_ip'' []) (filter is_success evs))"
  have k: "map fst ?al = ?ks" "\<forall>ip. (case map_of ?al ip of None \<Rightarrow> [] | Some es \<Rightarrow> es) = successes_of evs ip"
    using make_report_parts(1) [of evs] unfolding make_report_parts(5) spec_parts_def by blast+
  have "distinct (map fst ?al)" by (simp only: k(1) firsts_set)
  from filed_by_key [OF this k(2)] have "?al = map (\<lambda>ip. (ip, successes_of evs ip)) ?ks" by (simp only: k(1))
  then have "filter (\<lambda>(ip, evs). 1 < length evs) ?al
      = map (\<lambda>ip. (ip, successes_of evs ip)) (filter (\<lambda>ip. 1 < length (successes_of evs ip)) ?ks)"
    by (simp add: filter_map comp_def)
  moreover have "(\<lambda>(ip, evs). length evs) = (length \<circ> snd :: string \<times> log_event list \<Rightarrow> nat)" by (simp add: fun_eq_iff)
  ultimately show ?thesis
    using arranged_sort_desc [of "length \<circ> snd" "filter (\<lambda>(ip, evs). 1 < length evs) ?al"] by (simp add: repeat_visitors_def)
qed


end
