(* ===== verification/Charts.thy ===== *)
theory Charts
  imports Report Download_Args
begin

section \<open>The figures of the dashboard\<close>

text \<open>
  The groupings of \<open>tools/dashboard.py\<close>: failure reasons, CPU families, EABI versions, and the
  selection of at most six slices. How the slices are drawn is not modelled.
\<close>

subsection \<open>Why a download failed\<close>

text \<open>\<open>^HTTP (\d{3})$\<close>, where \<open>$\<close> also stands before a final line break.\<close>

definition http_status_error :: "string \<Rightarrow> string option" where
  "http_status_error e =
     (if length e \<in> {8, 9} \<and> startswith e ''HTTP '' \<and> list_all is_digit (take 3 (drop 5 e))
         \<and> drop 8 e \<in> {[], [CHR 0x0A]}
      then Some (take 3 (drop 5 e)) else None)"

definition failure_reason :: "string option \<Rightarrow> string" where
  "failure_reason error =
     (let e = py_or error ''(unknown)''
      in case http_status_error e of
           Some status \<Rightarrow> ''HTTP '' @ status
         | None \<Rightarrow>
             if startswith e ''blocked non-public destination'' then ''blocked: non-public destination (SSRF guard)''
             else if startswith e ''protocol '' \<and> contains ''not permitted'' e
               then ''protocol not permitted (fetcher.allowed_protocols)''
             else if contains ''not yet implemented'' e then ''protocol not implemented (tftp/ftp)''
             else if contains ''exceeded max_file_size_bytes'' e then ''oversized transfer (max_file_size_bytes)''
             else if contains ''per-session download limit'' e then ''per-session download limit reached''
             else if contains ''timed out waiting for isolated fetcher'' e
               then ''isolated fetcher did not respond (queued mode)''
             else take 80 e @ (if length e > 80 then ''...'' else []))"

definition outcome_is :: "string \<Rightarrow> log_event \<Rightarrow> bool" where
  "outcome_is what ev \<longleftrightarrow> field ''outcome'' ev = Some (JStr what)"

definition opt_text :: "string \<Rightarrow> log_event \<Rightarrow> string option" where
  "opt_text k ev = (case field k ev of Some (JStr s) \<Rightarrow> Some s | _ \<Rightarrow> None)"

text \<open>\<open>if ev.get("stage")\<close>: a stage is a number of at least two.\<close>

definition has_stage :: "log_event \<Rightarrow> bool" where
  "has_stage ev \<longleftrightarrow> (case field ''stage'' ev of Some (JInt i) \<Rightarrow> i \<noteq> 0 | _ \<Rightarrow> False)"

fun failure_groups :: "log_event list \<Rightarrow> (string \<times> nat \<times> nat) list \<Rightarrow> (string \<times> nat \<times> nat) list" where
  "failure_groups [] g = g"
| "failure_groups (ev # evs) g =
     (if \<not> outcome_is ''failed'' ev then failure_groups evs g
      else
        let reason = failure_reason (opt_text ''error'' ev);
            (n, staged) = (case map_of g reason of None \<Rightarrow> (0, 0) | Some x \<Rightarrow> x)
        in failure_groups evs
             (AList.update reason (Suc n, if has_stage ev then Suc staged else staged) g))"

text \<open>Rows before escaping: reason, count, stage-two count.\<close>

definition failure_breakdown :: "log_event list \<Rightarrow> (string \<times> nat \<times> nat) list" where
  "failure_breakdown evs = sort_desc (\<lambda>(reason, n, staged). n) (failure_groups evs [])"

subsection \<open>Labels\<close>

definition machine_family :: "(string \<times> string) list" where
  "machine_family =
    [(''EM_RISCV'', ''RISC-V''), (''EM_ARM'', ''ARM''), (''EM_AARCH64'', ''AArch64''), (''EM_MIPS'', ''MIPS''),
     (''EM_MIPS_RS3_LE'', ''MIPS''), (''EM_X86_64'', ''x86-64''), (''EM_386'', ''x86''), (''EM_PPC'', ''PowerPC''),
     (''EM_PPC64'', ''PowerPC''), (''EM_SPARC'', ''SPARC''), (''EM_SPARC32PLUS'', ''SPARC''),
     (''EM_SPARCV9'', ''SPARC''), (''EM_SH'', ''SuperH''), (''EM_68K'', ''m68k'')]"

definition non_elf_label :: string where
  "non_elf_label = ''(non-ELF file)''"

definition family_order :: "string list" where
  "family_order = [''RISC-V'', ''ARM'', ''AArch64'', ''MIPS'', ''x86-64'', ''x86'', ''PowerPC'', ''SPARC'', ''SuperH'', ''m68k'']"

definition arm_eabi_order :: "string list" where
  "arm_eabi_order = [''EABI5'', ''EABI4'', ''EABI3'', ''EABI2'', ''EABI1'', ''EABI0'', ''pre-EABI'', ''unknown'']"

text \<open>\<open>s1\<close> to \<open>s8\<close>, by position in the fixed list.\<close>

definition slots :: "string list \<Rightarrow> (string \<times> string) list" where
  "slots names = map (\<lambda>(i, name). (name, ''s'' @ digits_of (Suc i))) (enumerate 0 names)"

definition slot_for_label :: "string \<Rightarrow> string" where
  "slot_for_label label =
     (if label = ''Other'' \<or> label = non_elf_label then ''other''
      else case map_of (slots (take 8 family_order)) label of
             Some s \<Rightarrow> s
           | None \<Rightarrow>
               (case map_of (slots arm_eabi_order) label of
                  Some s \<Rightarrow> s
                | None \<Rightarrow> ''s'' @ digits_of (sum_list (map of_char label) mod 8 + 1)))"

definition arch_family :: "log_event \<Rightarrow> string" where
  "arch_family ev =
     (if field ''detected_type'' ev \<noteq> Some (JStr ''elf'') then non_elf_label
      else
        let machine = py_or (opt_text ''detected_machine'' ev) []
        in case map_of machine_family machine of
             Some f \<Rightarrow> f
           | None \<Rightarrow> if machine = [] then ''(unknown machine)'' else machine)"

text \<open>\<open>^(EABI\d+|pre-EABI)\b\<close>: the greedy digits may be given back until a word ends.\<close>

definition is_word_char :: "char \<Rightarrow> bool" where
  "is_word_char c \<longleftrightarrow>
     (let n = of_char c :: nat
      in (48 \<le> n \<and> n \<le> 57) \<or> (65 \<le> n \<and> n \<le> 90) \<or> n = 95 \<or> (97 \<le> n \<and> n \<le> 122)
         \<or> n \<in> {0xAA, 0xB2, 0xB3, 0xB5, 0xB9, 0xBA, 0xBC, 0xBD, 0xBE} \<or> (0xC0 \<le> n \<and> n \<notin> {0xD7, 0xF7}))"

definition ends_word :: "string \<Rightarrow> bool" where
  "ends_word rest \<longleftrightarrow> (case rest of [] \<Rightarrow> True | c # _ \<Rightarrow> \<not> is_word_char c)"

definition match_eabi :: "string \<Rightarrow> string option" where
  "match_eabi t =
     (let digits = takeWhile is_digit (drop 4 t)
      in if startswith t ''EABI'' \<and> digits \<noteq> [] \<and> ends_word (drop (4 + length digits) t)
           then Some (''EABI'' @ digits)
         else if startswith t ''pre-EABI'' \<and> ends_word (drop 8 t) then Some ''pre-EABI''
         else None)"

definition arm_eabi_bucket :: "log_event \<Rightarrow> string" where
  "arm_eabi_bucket ev =
     (case opt_text ''detected_abi'' ev of
        None \<Rightarrow> ''unknown''
      | Some t \<Rightarrow> if t = [] then ''unknown'' else (case match_eabi t of None \<Rightarrow> ''unknown'' | Some b \<Rightarrow> b))"

subsection \<open>At most six slices\<close>

definition max_donut_slices :: nat where
  "max_donut_slices = 6"

definition ordered_labels :: "(string \<times> nat) list \<Rightarrow> string list \<Rightarrow> string list" where
  "ordered_labels counts order =
     filter (\<lambda>l. l \<in> fst ` set counts) order @ sort (filter (\<lambda>l. l \<notin> set order) (map fst counts))"

definition kept_labels :: "(string \<times> nat) list \<Rightarrow> string list \<Rightarrow> nat \<Rightarrow> string list" where
  "kept_labels counts ordered max_slices =
     take (max_slices - 1) (sort_key (\<lambda>l. - int (count_of counts l)) ordered)"

definition lump_and_cap :: "(string \<times> nat) list \<Rightarrow> string list \<Rightarrow> nat \<Rightarrow> (string \<times> nat) list" where
  "lump_and_cap counts order max_slices =
     (if counts = [] then []
      else
        let ordered = ordered_labels counts order
        in if length ordered \<le> max_slices then map (\<lambda>l. (l, count_of counts l)) ordered
           else
             let kept = kept_labels counts ordered max_slices
             in map (\<lambda>l. (l, count_of counts l)) (filter (\<lambda>l. l \<in> set kept) ordered)
                @ [(''Other'', sum_list (map snd (filter (\<lambda>(l, n). l \<notin> set kept) counts)))])"

record donut =
  dn_rows :: "(string \<times> nat) list"
  dn_persona :: "(string \<times> nat \<times> nat) list"

definition successes :: "log_event list \<Rightarrow> log_event list" where
  "successes evs = filter (outcome_is ''success'') evs"

definition judged :: "bool \<Rightarrow> log_event list \<Rightarrow> string \<Rightarrow> nat" where
  "judged b evs family =
     length (filter (\<lambda>ev. field ''arch_mismatch'' ev = Some (JBool b) \<and> arch_family ev = family) (successes evs))"

definition architecture_donut :: "log_event list \<Rightarrow> donut option" where
  "architecture_donut evs =
     (let rows = lump_and_cap (counter (map arch_family (successes evs))) family_order max_donut_slices
      in if rows = [] then None
         else Some \<lparr>dn_rows = rows, dn_persona = map (\<lambda>(l, n). (l, judged False evs l, judged True evs l)) rows\<rparr>)"

definition arm_version_donut :: "log_event list \<Rightarrow> donut option" where
  "arm_version_donut evs =
     (let rows = lump_and_cap (counter (map arm_eabi_bucket (filter (\<lambda>ev. arch_family ev = ''ARM'') (successes evs))))
                   arm_eabi_order max_donut_slices
      in if rows = [] then None else Some \<lparr>dn_rows = rows, dn_persona = []\<rparr>)"

subsection \<open>Every download is in the figures\<close>

lemma distinct_ordered:
  assumes "distinct (map fst counts)" and "distinct order"
  shows "distinct (ordered_labels counts order)" "set (ordered_labels counts order) = fst ` set counts"
  using assms by (auto simp: ordered_labels_def)

lemma total_as_sum:
  assumes "distinct (map fst c)"
  shows "total_of c = (\<Sum>l \<in> fst ` set c. count_of c l)"
  using assms
proof (induction c)
  case (Cons x c)
  have "count_of c l = count_of (x # c) l" if "l \<in> fst ` set c" for l
    using that Cons.prems by (cases x) (auto simp: count_of_def)
  then have "(\<Sum>l \<in> fst ` set c. count_of c l) = (\<Sum>l \<in> fst ` set c. count_of (x # c) l)"
    by (intro sum.cong refl) simp
  with Cons show ?case by (cases x) (simp add: total_of_def count_of_def)
qed (simp add: total_of_def)

lemma total_map: "distinct ls \<Longrightarrow> total_of (map (\<lambda>l. (l, count_of c l)) ls) = (\<Sum>l \<in> set ls. count_of c l)"
  by (simp add: total_of_def comp_def sum_list_distinct_conv_sum_set)

lemma folded_tail:
  assumes "distinct (map fst c)"
  shows "sum_list (map snd (filter (\<lambda>(l, n). l \<notin> K) c)) = (\<Sum>l \<in> fst ` set c - K. count_of c l)"
proof -
  let ?c = "filter (\<lambda>(l, n). l \<notin> K) c"
  have d: "distinct (map fst ?c)" using assms by (induction c) auto
  have s: "fst ` set ?c = fst ` set c - K" by force
  have "count_of ?c l = count_of c l" if "l \<notin> K" for l
    using that by (induction c) (auto simp: count_of_def)
  then have "(\<Sum>l \<in> fst ` set ?c. count_of ?c l) = (\<Sum>l \<in> fst ` set c - K. count_of c l)"
    unfolding s by (intro sum.cong refl) simp
  with total_as_sum [OF d] show ?thesis by (simp add: total_of_def)
qed

lemma kept_subset: "set (kept_labels c ls m) \<subseteq> set ls"
  using set_take_subset [of "m - 1" "sort_key (\<lambda>l. - int (count_of c l)) ls"] by (simp add: kept_labels_def)

lemma kept_length: "distinct ls \<Longrightarrow> length (filter (\<lambda>l. l \<in> set (kept_labels c ls m)) ls) \<le> m - 1"
proof -
  assume d: "distinct ls"
  have "length (filter (\<lambda>l. l \<in> set (kept_labels c ls m)) ls) = card (set (kept_labels c ls m))"
    using d kept_subset [of c ls m] by (simp add: distinct_card [symmetric] Int_absorb1 Collect_conj_eq Int_commute)
  also have "\<dots> \<le> m - 1"
    using card_length [of "kept_labels c ls m"] by (simp add: kept_labels_def)
  finally show ?thesis .
qed

lemma kept_biggest:
  assumes "k \<in> set (kept_labels c ls m)" and "l \<in> set ls" and "l \<notin> set (kept_labels c ls m)"
  shows "count_of c l \<le> count_of c k"
proof -
  let ?s = "sort_key (\<lambda>l. - int (count_of c l)) ls"
  have "sorted_wrt (\<lambda>x y. - int (count_of c x) \<le> - int (count_of c y)) (take (m - 1) ?s @ drop (m - 1) ?s)"
    using sorted_sort_key [of "\<lambda>l. - int (count_of c l)" ls] by (simp add: sorted_map)
  then have "- int (count_of c x) \<le> - int (count_of c y)"
    if "x \<in> set (take (m - 1) ?s)" "y \<in> set (drop (m - 1) ?s)" for x y
    using that unfolding sorted_wrt_append by blast
  moreover have "set ls = set (take (m - 1) ?s) \<union> set (drop (m - 1) ?s)"
    unfolding set_append [symmetric] append_take_drop_id by simp
  with assms(2,3) have "l \<in> set (drop (m - 1) ?s)" by (simp add: kept_labels_def)
  ultimately have "- int (count_of c k) \<le> - int (count_of c l)" using assms(1) by (simp only: kept_labels_def)
  then show ?thesis by simp
qed

lemma lump_total:
  assumes "distinct (map fst counts)" and "distinct order"
  shows "total_of (lump_and_cap counts order m) = total_of counts"
proof (cases "counts = [] \<or> length (ordered_labels counts order) \<le> m")
  case True
  with distinct_ordered [OF assms] total_as_sum [OF assms(1)] show ?thesis
    by (auto simp: lump_and_cap_def total_map)
next
  case False
  let ?o = "ordered_labels counts order"
  let ?K = "set (kept_labels counts ?o m)"
  note o = distinct_ordered [OF assms]
  have "total_of (lump_and_cap counts order m)
      = (\<Sum>l \<in> set (filter (\<lambda>l. l \<in> ?K) ?o). count_of counts l) + (\<Sum>l \<in> fst ` set counts - ?K. count_of counts l)"
    using False total_map [OF distinct_filter [OF o(1)], of counts "\<lambda>l. l \<in> ?K"] folded_tail [OF assms(1), of ?K]
    by (simp add: lump_and_cap_def Let_def total_of_def)
  also have "set (filter (\<lambda>l. l \<in> ?K) ?o) = fst ` set counts \<inter> ?K" using o(2) by auto
  also have "(\<Sum>l \<in> fst ` set counts \<inter> ?K. count_of counts l) + (\<Sum>l \<in> fst ` set counts - ?K. count_of counts l)
      = (\<Sum>l \<in> fst ` set counts. count_of counts l)"
    by (rule sum.Int_Diff [symmetric]) simp
  finally show ?thesis using total_as_sum [OF assms(1)] by simp
qed

lemma lump_length:
  assumes "distinct (map fst counts)" and "distinct order" and "0 < m"
  shows "length (lump_and_cap counts order m) \<le> m"
  using kept_length [OF distinct_ordered(1) [OF assms(1,2)], of counts m] assms(3)
  by (auto simp: lump_and_cap_def Let_def)

lemma orders_distinct: "distinct family_order" "distinct arm_eabi_order"
  by code_simp+

lemma failure_groups_total:
  "distinct (map fst g) \<Longrightarrow>
     sum_list (map (\<lambda>(r, n, st). n) (failure_groups evs g))
       = sum_list (map (\<lambda>(r, n, st). n) g) + length (filter (outcome_is ''failed'') evs)"
proof (induction evs g rule: failure_groups.induct)
  case (2 ev evs g)
  show ?case
  proof (cases "outcome_is ''failed'' ev")
    case True
    let ?reason = "failure_reason (opt_text ''error'' ev)"
    obtain n st where ns: "(case map_of g ?reason of None \<Rightarrow> (0, 0) | Some x \<Rightarrow> x) = (n, st)" by fastforce
    have upd: "sum_list (map (\<lambda>(r, n, st). n) (AList.update ?reason (Suc n, st') g))
        = Suc (sum_list (map (\<lambda>(r, n, st). n) g))" for st'
      using ns 2(3)
    proof (induction g)
      case (Cons x g)
      then show ?case by (cases x) (auto simp: map_of_eq_None_iff [symmetric] split: option.splits if_splits)
    qed simp
    from 2(2) [of ?reason "(n, st)" n st] True ns 2(3) show ?thesis
      by (simp add: distinct_update upd)
  next
    case False
    with 2 show ?thesis by simp
  qed
qed simp

lemma arch_rows:
  "total_of (case architecture_donut evs of None \<Rightarrow> [] | Some d \<Rightarrow> dn_rows d) = length (successes evs)"
  "length (case architecture_donut evs of None \<Rightarrow> [] | Some d \<Rightarrow> dn_rows d) \<le> 6"
proof -
  let ?rows = "lump_and_cap (counter (map arch_family (successes evs))) family_order max_donut_slices"
  have "(case architecture_donut evs of None \<Rightarrow> [] | Some d \<Rightarrow> dn_rows d) = ?rows"
    by (simp add: architecture_donut_def Let_def)
  then show "total_of (case architecture_donut evs of None \<Rightarrow> [] | Some d \<Rightarrow> dn_rows d) = length (successes evs)"
    "length (case architecture_donut evs of None \<Rightarrow> [] | Some d \<Rightarrow> dn_rows d) \<le> 6"
    using lump_total [OF counter_distinct orders_distinct(1)] lump_length [OF counter_distinct orders_distinct(1)]
    by (simp_all add: total_counter max_donut_slices_def)
qed

lemma arm_rows:
  "total_of (case arm_version_donut evs of None \<Rightarrow> [] | Some d \<Rightarrow> dn_rows d)
     = length (filter (\<lambda>ev. arch_family ev = ''ARM'') (successes evs))"
  "length (case arm_version_donut evs of None \<Rightarrow> [] | Some d \<Rightarrow> dn_rows d) \<le> 6"
proof -
  let ?rows = "lump_and_cap (counter (map arm_eabi_bucket (filter (\<lambda>ev. arch_family ev = ''ARM'') (successes evs))))
    arm_eabi_order max_donut_slices"
  have "(case arm_version_donut evs of None \<Rightarrow> [] | Some d \<Rightarrow> dn_rows d) = ?rows"
    by (simp add: arm_version_donut_def Let_def)
  then show "total_of (case arm_version_donut evs of None \<Rightarrow> [] | Some d \<Rightarrow> dn_rows d)
      = length (filter (\<lambda>ev. arch_family ev = ''ARM'') (successes evs))"
    "length (case arm_version_donut evs of None \<Rightarrow> [] | Some d \<Rightarrow> dn_rows d) \<le> 6"
    using lump_total [OF counter_distinct orders_distinct(2)] lump_length [OF counter_distinct orders_distinct(2)]
    by (simp_all add: total_counter max_donut_slices_def)
qed

lemma report_downloads: "mset (rp_downloads (make_report log)) = mset (filter is_download log)"
  using fold_add_event [of log log] by (simp add: make_report_def Let_def spec_parts_def by_time_def)

lemma length_filter_mset: "mset xs = mset ys \<Longrightarrow> length (filter P xs) = length (filter P ys)"
  by (metis mset_filter size_mset)

text \<open>
  What a chart should show of some labels, told without the chart's code: with six labels or fewer, each
  with its number; with more, five of them that no other label exceeds and the number of all others under
  "Other". Known labels come first, in their fixed order, then the rest alphabetically.
\<close>

definition in_legend_order :: "string list \<Rightarrow> string list \<Rightarrow> bool" where
  "in_legend_order order ls \<longleftrightarrow> ls = filter (\<lambda>l. l \<in> set ls) order @ sort (filter (\<lambda>l. l \<notin> set order) ls)"

definition chart_shows :: "string list \<Rightarrow> string list \<Rightarrow> (string \<times> nat) list \<Rightarrow> bool" where
  "chart_shows labels order rows \<longleftrightarrow>
     (\<exists>shown. distinct shown \<and> set shown \<subseteq> set labels \<and> in_legend_order order shown
        \<and> (if card (set labels) \<le> 6
           then set shown = set labels \<and> rows = map (\<lambda>l. (l, count_list labels l)) shown
           else length shown = 5
             \<and> (\<forall>k \<in> set shown. \<forall>l \<in> set labels - set shown. count_list labels l \<le> count_list labels k)
             \<and> rows = map (\<lambda>l. (l, count_list labels l)) shown
                 @ [(''Other'', length (filter (\<lambda>l. l \<notin> set shown) labels))]))"

lemma count_list_mset: "count_list xs x = count (mset xs) x"
  by (induction xs) auto

lemma chart_shows_mset: "mset labels = mset labels' \<Longrightarrow> chart_shows labels order rows \<Longrightarrow> chart_shows labels' order rows"
proof -
  assume m: "mset labels = mset labels'"
  then have "set labels = set labels'" "count_list labels = count_list labels'"
    by (auto simp: count_list_mset fun_eq_iff dest: mset_eq_setD)
  moreover have "length (filter P labels) = length (filter P labels')" for P
    using m by (rule length_filter_mset)
  ultimately show "chart_shows labels order rows \<Longrightarrow> chart_shows labels' order rows" by (simp only: chart_shows_def)
qed

lemma ordered_in_legend:
  assumes "distinct (map fst c)" "distinct order"
  shows "in_legend_order order (filter (\<lambda>l. l \<in> K) (ordered_labels c order))"
proof -
  let ?o = "filter (\<lambda>l. l \<in> K) (ordered_labels c order)"
  have "sort (filter (\<lambda>l. l \<notin> set order) ?o) = filter (\<lambda>l. l \<in> K) (sort (filter (\<lambda>l. l \<notin> set order) (map fst c)))"
    by (auto simp: ordered_labels_def filter_sort [symmetric] sorted_sort_id intro!: filter_cong)
  moreover have "filter (\<lambda>l. l \<in> set ?o) order = filter (\<lambda>l. l \<in> K) (filter (\<lambda>l. l \<in> fst ` set c) order)"
    by (auto simp: ordered_labels_def intro!: filter_cong)
  ultimately show ?thesis by (simp add: in_legend_order_def) (simp add: ordered_labels_def)
qed

lemma kept_length_exact:
  assumes "distinct ls" "m \<le> length ls" "0 < m"
  shows "length (filter (\<lambda>l. l \<in> set (kept_labels c ls m)) ls) = m - 1"
proof -
  have "length (filter (\<lambda>l. l \<in> set (kept_labels c ls m)) ls) = card (set (kept_labels c ls m))"
    using assms(1) kept_subset [of c ls m] by (simp add: distinct_card [symmetric] Int_absorb1 Collect_conj_eq Int_commute)
  also have "\<dots> = length (kept_labels c ls m)"
    using assms(1) by (intro distinct_card) (simp add: kept_labels_def)
  also have "\<dots> = m - 1" using assms(2,3) by (simp add: kept_labels_def)
  finally show ?thesis .
qed

lemma folded_count:
  "sum_list (map snd (filter (\<lambda>(l, n). l \<notin> K) (counter labels))) = length (filter (\<lambda>l. l \<notin> K) labels)"
proof -
  have "(\<Sum>l \<in> set labels - K. count_list labels l) = length (filter (\<lambda>l. l \<notin> K) labels)"
  proof -
    have "(\<Sum>l \<in> set labels - K. count_list labels l) = (\<Sum>l \<in> set (filter (\<lambda>l. l \<notin> K) labels). count_list (filter (\<lambda>l. l \<notin> K) labels) l)"
      by (rule sum.cong) (auto simp: count_list_mset)
    also have "\<dots> = length (filter (\<lambda>l. l \<notin> K) labels)" by (rule sum_count_set) simp_all
    finally show ?thesis .
  qed
  then show ?thesis using folded_tail [OF counter_distinct, of K labels] by (simp add: counter_keys count_of_counter)
qed

lemma lump_shows:
  assumes "distinct order"
  shows "chart_shows labels order (lump_and_cap (counter labels) order 6)"
proof -
  let ?c = "counter labels"
  let ?o = "ordered_labels ?c order"
  note o = distinct_ordered [OF counter_distinct assms, of labels]
  have s: "set ?o = set labels" using o(2) by (simp add: counter_keys)
  have l: "length ?o = card (set labels)" using distinct_card [OF o(1)] s by simp
  have n: "(\<lambda>l. (l, count_of ?c l)) = (\<lambda>l. (l, count_list labels l))" by (simp add: count_of_counter)
  show ?thesis
  proof (cases "card (set labels) \<le> 6")
    case True
    have "lump_and_cap ?c order 6 = map (\<lambda>l. (l, count_list labels l)) ?o"
    proof (cases "?c = []")
      case True
      then show ?thesis using s counter_keys [of labels] by (simp add: lump_and_cap_def)
    qed (use True l n in \<open>simp add: lump_and_cap_def\<close>)
    moreover have "in_legend_order order ?o" using ordered_in_legend [OF counter_distinct assms, of UNIV labels] by simp
    ultimately show ?thesis using True o(1) s unfolding chart_shows_def by (intro exI [of _ ?o]) simp
  next
    case False
    let ?K = "set (kept_labels ?c ?o 6)"
    let ?kept = "filter (\<lambda>l. l \<in> ?K) ?o"
    have k: "set ?kept = ?K" using kept_subset [of ?c ?o 6] by auto
    have "?c \<noteq> []" using False counter_keys [of labels] by auto
    then have "lump_and_cap ?c order 6 = map (\<lambda>l. (l, count_list labels l)) ?kept
        @ [(''Other'', length (filter (\<lambda>l. l \<notin> set ?kept) labels))]"
      using False l unfolding k folded_count [symmetric] by (simp add: lump_and_cap_def Let_def n)
    moreover have "\<forall>k \<in> set ?kept. \<forall>l \<in> set labels - set ?kept. count_list labels l \<le> count_list labels k"
      unfolding k using kept_biggest [of _ ?c ?o 6] s by (simp add: count_of_counter)
    moreover have "length ?kept = 5" using kept_length_exact [OF o(1), of 6 ?c] l False by simp
    ultimately show ?thesis using False o(1) s ordered_in_legend [OF counter_distinct assms, of ?K labels]
      unfolding chart_shows_def by (intro exI [of _ ?kept]) auto
  qed
qed


text \<open>The failure table: one row for every reason.\<close>

definition failed_for :: "string \<Rightarrow> log_event \<Rightarrow> bool" where
  "failed_for reason ev \<longleftrightarrow> outcome_is ''failed'' ev \<and> failure_reason (opt_text ''error'' ev) = reason"

lemma failure_groups_keys:
  "map fst g = firsts ks \<Longrightarrow>
     map fst (failure_groups evs g)
       = firsts (ks @ map (\<lambda>ev. failure_reason (opt_text ''error'' ev)) (filter (outcome_is ''failed'') evs))"
proof (induction evs arbitrary: g ks)
  case (Cons ev evs)
  show ?case
  proof (cases "outcome_is ''failed'' ev")
    case True
    let ?r = "failure_reason (opt_text ''error'' ev)"
    from Cons.IH [OF keys_update [OF Cons.prems, of ?r]] True show ?thesis
      by (simp add: Let_def split: prod.split)
  qed (use Cons in simp)
qed simp

lemma failure_groups_counts:
  "(case map_of (failure_groups evs g) reason of None \<Rightarrow> (0, 0) | Some x \<Rightarrow> x)
     = (fst (case map_of g reason of None \<Rightarrow> (0, 0) | Some x \<Rightarrow> x) + length (filter (failed_for reason) evs),
        snd (case map_of g reason of None \<Rightarrow> (0, 0) | Some x \<Rightarrow> x)
          + length (filter (\<lambda>ev. failed_for reason ev \<and> has_stage ev) evs))"
proof (induction evs arbitrary: g)
  case (Cons ev evs)
  obtain n st where g: "(case map_of g (failure_reason (opt_text ''error'' ev)) of None \<Rightarrow> (0, 0) | Some x \<Rightarrow> x) = (n, st)"
    by fastforce
  show ?case
    using Cons.IH g by (auto simp: failed_for_def Let_def map_of_update)
qed simp

lemma failure_rows:
  "arranged (fst \<circ> snd)
     (map (\<lambda>reason. (reason, length (filter (failed_for reason) evs),
         length (filter (\<lambda>ev. failed_for reason ev \<and> has_stage ev) evs)))
       (firsts (map (\<lambda>ev. failure_reason (opt_text ''error'' ev)) (filter (outcome_is ''failed'') evs))))
     (failure_breakdown evs)"
proof -
  let ?al = "failure_groups evs []"
  let ?ks = "firsts (map (\<lambda>ev. failure_reason (opt_text ''error'' ev)) (filter (outcome_is ''failed'') evs))"
  have k: "map fst ?al = ?ks" using failure_groups_keys [of "[]" "[]" evs] by simp
  have "distinct (map fst ?al)" by (simp only: k firsts_set)
  from filed_by_key [OF this, where d = "(0, 0)"] failure_groups_counts [of evs "[]"]
  have "?al = map (\<lambda>reason. (reason, length (filter (failed_for reason) evs),
      length (filter (\<lambda>ev. failed_for reason ev \<and> has_stage ev) evs))) ?ks"
    by (simp add: k)
  moreover have "(\<lambda>(reason, n, staged). n) = (fst \<circ> snd :: string \<times> nat \<times> nat \<Rightarrow> nat)" by (simp add: fun_eq_iff)
  ultimately show ?thesis using arranged_sort_desc [of "fst \<circ> snd" ?al] by (simp add: failure_breakdown_def)
qed

text \<open>
  C31. The dashboard's figures account for every download in the log. The architecture chart, over the
  successful downloads, and the ARM chart, over those for ARM, each show every label with its number as long
  as there are at most six, and otherwise the five that no other label exceeds and the number of all others
  as "Other", in the fixed order of the legend; their slices, never more than six, add up to the downloads
  they are about. The failure table has one row for every reason, with the number of failed downloads that
  had it and of those at a later stage, the most frequent first, and its rows add up to the failed downloads.
\<close>
theorem figures_account_for_every_download:
  "let evs = rp_downloads (make_report log);
       saved = filter (\<lambda>ev. event_type ev = ''file.download'' \<and> outcome_is ''success'' ev) log;
       failed = filter (\<lambda>ev. event_type ev = ''file.download'' \<and> outcome_is ''failed'' ev) log;
       arch = (case architecture_donut evs of None \<Rightarrow> [] | Some d \<Rightarrow> dn_rows d);
       arm = (case arm_version_donut evs of None \<Rightarrow> [] | Some d \<Rightarrow> dn_rows d)
   in chart_shows (map arch_family saved) family_order arch
      \<and> length arch \<le> 6 \<and> total_of arch = length saved
      \<and> chart_shows (map arm_eabi_bucket (filter (\<lambda>ev. arch_family ev = ''ARM'') saved)) arm_eabi_order arm
      \<and> length arm \<le> 6 \<and> total_of arm = length (filter (\<lambda>ev. arch_family ev = ''ARM'') saved)
      \<and> arranged (fst \<circ> snd)
          (map (\<lambda>reason. (reason, length (filter (failed_for reason) failed),
              length (filter (\<lambda>ev. failed_for reason ev \<and> has_stage ev) failed)))
            (firsts (map (\<lambda>ev. failure_reason (opt_text ''error'' ev)) (filter (outcome_is ''failed'') evs))))
          (failure_breakdown evs)
      \<and> sum_list (map (\<lambda>(reason, n, staged). n) (failure_breakdown evs)) = length failed"
proof -
  let ?evs = "rp_downloads (make_report log)"
  let ?saved = "filter (\<lambda>ev. event_type ev = ''file.download'' \<and> outcome_is ''success'' ev) log"
  let ?failed = "filter (\<lambda>ev. event_type ev = ''file.download'' \<and> outcome_is ''failed'' ev) log"
  have dl: "is_download ev \<and> outcome_is what ev \<longleftrightarrow> event_type ev = ''file.download'' \<and> outcome_is what ev"
    if "what \<noteq> ''requested''" for ev what
    using that by (auto simp: is_download_def outcome_is_def)
  have m: "mset (filter (outcome_is what) ?evs) = mset (filter (\<lambda>ev. event_type ev = ''file.download'' \<and> outcome_is what ev) log)"
    if "what \<noteq> ''requested''" for what
    by (simp only: mset_filter report_downloads) (simp add: filter_filter_mset dl [OF that] conj_commute)
  have s: "mset (successes ?evs) = mset ?saved" unfolding successes_def by (rule m) simp
  have f: "length (filter P ?failed) = length (filter P (filter (outcome_is ''failed'') ?evs))" for P
    using m [of "''failed''"] by (intro length_filter_mset) simp
  have n: "filter (failed_for reason) (filter (outcome_is ''failed'') ?evs) = filter (failed_for reason) ?evs"
    "filter (\<lambda>ev. failed_for reason ev \<and> has_stage ev) (filter (outcome_is ''failed'') ?evs)
      = filter (\<lambda>ev. failed_for reason ev \<and> has_stage ev) ?evs" for reason
    by (auto simp: failed_for_def intro!: filter_cong)
  have c: "chart_shows (map arch_family ?saved) family_order
      (lump_and_cap (counter (map arch_family (successes ?evs))) family_order 6)"
    using s by (intro chart_shows_mset [OF _ lump_shows [OF orders_distinct(1)]]) simp
  have "mset (filter (\<lambda>ev. arch_family ev = ''ARM'') (successes ?evs)) = mset (filter (\<lambda>ev. arch_family ev = ''ARM'') ?saved)"
    by (simp only: mset_filter s)
  note a = this [THEN mset_eq_length] this
  have d: "chart_shows (map arm_eabi_bucket (filter (\<lambda>ev. arch_family ev = ''ARM'') ?saved)) arm_eabi_order
      (lump_and_cap (counter (map arm_eabi_bucket (filter (\<lambda>ev. arch_family ev = ''ARM'') (successes ?evs)))) arm_eabi_order 6)"
    by (intro chart_shows_mset [OF _ lump_shows [OF orders_distinct(2)]]) (simp only: mset_map a(2))
  have fail: "sum_list (map (\<lambda>(reason, n, staged). n) (failure_breakdown ?evs)) = length ?failed"
    using failure_groups_total [of "[]" ?evs] mset_sort_desc f [of "\<lambda>x. True"]
    by (simp add: failure_breakdown_def sum_mset_sum_list [symmetric])
  have rows: "(case architecture_donut ?evs of None \<Rightarrow> [] | Some d \<Rightarrow> dn_rows d)
      = lump_and_cap (counter (map arch_family (successes ?evs))) family_order 6"
    "(case arm_version_donut ?evs of None \<Rightarrow> [] | Some d \<Rightarrow> dn_rows d)
      = lump_and_cap (counter (map arm_eabi_bucket (filter (\<lambda>ev. arch_family ev = ''ARM'') (successes ?evs)))) arm_eabi_order 6"
    by (simp_all add: architecture_donut_def arm_version_donut_def Let_def max_donut_slices_def)
  note t = arch_rows [of ?evs] arm_rows [of ?evs]
  show ?thesis
    unfolding Let_def f n
    by (intro conjI failure_rows fail) (use t c d a(1) s [THEN mset_eq_length] in \<open>simp_all only: rows\<close>)
qed

end
