(* ===== verification/Log_Files.thy ===== *)
theory Log_Files
  imports Report Json_Reader "HOL-Library.Product_Lexorder"
begin

section \<open>The log with its rotated copies\<close>

text \<open>
  The loading half of \<open>tools/dashboard.py\<close>: which files belong to a log, in what order they are read, and
  the cache that keeps the live dashboard from parsing an old file again.
\<close>

subsection \<open>Files\<close>

text \<open>
  A line is what stripping and \<open>json.loads\<close> make of it. \<open>lf_lines\<close> are the lines that could be read: all of
  them, or those before the error where \<open>lf_cut\<close> holds. \<open>lf_stat\<close> is the modification time and the size, or
  nothing when \<open>stat\<close> fails.
\<close>

datatype json_line = Empty_Line | Malformed | Json log_event

record logged_file =
  lf_stat :: "(int \<times> nat) option"
  lf_lines :: "json_line list"
  lf_cut :: bool

text \<open>A directory: its files by name.\<close>

type_synonym log_dir = "(string \<times> logged_file) list"

definition parse_file :: "logged_file \<Rightarrow> log_event list" where
  "parse_file f = concat (map (\<lambda>l. case l of Json ev \<Rightarrow> [ev] | _ \<Rightarrow> []) (lf_lines f))"

subsection \<open>Rotated siblings\<close>

text \<open>
  \<open>^\.(\d+)(\.gz)?$\<close> over the rest of a name that begins with the log's and a dot; \<open>$\<close> also stands before
  a final line feed. The log's own name has no character that is special in a glob pattern.
\<close>

definition rotation_number :: "string \<Rightarrow> nat option" where
  "rotation_number ending =
     (let digits = takeWhile is_digit (drop 1 ending)
      in if startswith ending ''.'' \<and> digits \<noteq> []
            \<and> drop (1 + length digits) ending \<in> {[], [CHR 0x0A], ''.gz'', ''.gz'' @ [CHR 0x0A]}
         then Some (decimal_value digits) else None)"

definition is_rotated :: "string \<Rightarrow> string \<Rightarrow> bool" where
  "is_rotated name p \<longleftrightarrow> startswith p (name @ ''.'') \<and> rotation_number (drop (length name) p) \<noteq> None"

definition age_number :: "string \<Rightarrow> string \<Rightarrow> nat" where
  "age_number name p = (case rotation_number (drop (length name) p) of None \<Rightarrow> 0 | Some n \<Rightarrow> n)"

definition rotated_siblings :: "string \<Rightarrow> log_dir \<Rightarrow> string list" where
  "rotated_siblings name dir =
     (let found = map (\<lambda>p. (age_number name p, p)) (filter (is_rotated name) (map fst dir))
      in map snd (sort_desc id found))"

subsection \<open>The cache\<close>

text \<open>\<open>_ROTATED_CACHE\<close>, keyed by path, modification time and size.\<close>

type_synonym file_cache = "((string \<times> int \<times> nat) \<times> log_event list) list"

definition parse_rotated :: "string \<Rightarrow> log_dir \<Rightarrow> file_cache \<Rightarrow> log_event list \<times> file_cache" where
  "parse_rotated p dir cache =
     (case map_of dir p of
        None \<Rightarrow> ([], cache)
      | Some f \<Rightarrow>
          (case lf_stat f of
             None \<Rightarrow> ([], cache)
           | Some (mtime, sz) \<Rightarrow>
               (case map_of cache (p, mtime, sz) of
                  Some evs \<Rightarrow> (evs, cache)
                | None \<Rightarrow>
                    let evs = parse_file f
                    in (evs, AList.update (p, mtime, sz) evs (filter (\<lambda>(k, v). fst k \<noteq> p) cache)))))"

fun parse_all_rotated :: "string list \<Rightarrow> log_dir \<Rightarrow> file_cache \<Rightarrow> log_event list \<times> file_cache" where
  "parse_all_rotated [] dir cache = ([], cache)"
| "parse_all_rotated (p # ps) dir cache =
     (let (evs, cache1) = parse_rotated p dir cache;
          (rest, cache2) = parse_all_rotated ps dir cache1
      in (evs @ rest, cache2))"

definition load_events :: "string \<Rightarrow> bool \<Rightarrow> log_dir \<Rightarrow> file_cache \<Rightarrow> log_event list \<times> file_cache" where
  "load_events name include_rotated dir cache0 =
     (let (old, cache) = (if include_rotated then parse_all_rotated (rotated_siblings name dir) dir cache0 else ([], cache0))
      in case map_of dir name of
           Some f \<Rightarrow> (old @ parse_file f, cache)
         | None \<Rightarrow> (old, cache))"

text \<open>The live dashboard: one load per page view, over the directory as it is then.\<close>

fun page_views :: "string \<Rightarrow> log_dir list \<Rightarrow> file_cache \<Rightarrow> log_event list list \<times> file_cache" where
  "page_views name [] cache = ([], cache)"
| "page_views name (dir # dirs) cache =
     (let (evs, cache1) = load_events name True dir cache;
          (later, cache2) = page_views name dirs cache1
      in (evs # later, cache2))"

subsection \<open>Every rotated file is read, oldest first\<close>

text \<open>Loading without a cache.\<close>

definition fresh_rotated :: "log_dir \<Rightarrow> string \<Rightarrow> log_event list" where
  "fresh_rotated dir p =
     (case map_of dir p of None \<Rightarrow> [] | Some f \<Rightarrow> if lf_stat f = None then [] else parse_file f)"

definition fresh_events :: "string \<Rightarrow> log_dir \<Rightarrow> log_event list" where
  "fresh_events name dir =
     concat (map (fresh_rotated dir) (rotated_siblings name dir))
       @ (case map_of dir name of None \<Rightarrow> [] | Some f \<Rightarrow> parse_file f)"

text \<open>\<open>contents\<close> is what the versions of the files hold: rotated files do not change once written.\<close>

definition stable_dir :: "(string \<times> int \<times> nat \<Rightarrow> log_event list) \<Rightarrow> log_dir \<Rightarrow> bool" where
  "stable_dir contents dir \<longleftrightarrow>
     list_all (\<lambda>(p, f). case lf_stat f of None \<Rightarrow> True | Some (m, n) \<Rightarrow> parse_file f = contents (p, m, n)) dir"

definition cache_ok :: "(string \<times> int \<times> nat \<Rightarrow> log_event list) \<Rightarrow> file_cache \<Rightarrow> bool" where
  "cache_ok contents cache \<longleftrightarrow>
     list_all (\<lambda>(k, evs). evs = contents k) cache \<and> distinct (map (fst \<circ> fst) cache)"

lemma stable_dirD:
  "stable_dir contents dir \<Longrightarrow> map_of dir p = Some f \<Longrightarrow> lf_stat f = Some (m, n) \<Longrightarrow> parse_file f = contents (p, m, n)"
  using map_of_SomeD [of dir p f] by (force simp: stable_dir_def list_all_iff)

lemma cache_okD: "cache_ok contents cache \<Longrightarrow> map_of cache k = Some evs \<Longrightarrow> evs = contents k"
  using map_of_SomeD [of cache k evs] by (force simp: cache_ok_def list_all_iff)

lemma cache_ok_insert:
  assumes "cache_ok contents cache"
  shows "cache_ok contents (AList.update (p, m, n) (contents (p, m, n)) (filter (\<lambda>(k, v). fst k \<noteq> p) cache))"
proof -
  let ?c = "filter (\<lambda>(k, v). fst k \<noteq> p) cache"
  have "map_of ?c (p, m, n) = None" by (auto simp: map_of_eq_None_iff)
  moreover have "distinct (map (fst \<circ> fst) ?c)"
    using assms unfolding cache_ok_def by (simp add: distinct_map_filter)
  ultimately show ?thesis
    using assms by (auto simp: cache_ok_def list_all_iff update_new)
qed

lemma parse_rotated_fresh:
  assumes "stable_dir contents dir" and "cache_ok contents cache"
  shows "fst (parse_rotated p dir cache) = fresh_rotated dir p \<and> cache_ok contents (snd (parse_rotated p dir cache))"
proof (cases "map_of dir p")
  case (Some f)
  show ?thesis
  proof (cases "lf_stat f")
    case (Some v)
    obtain m n where v: "v = (m, n)" by (cases v)
    note f = stable_dirD [OF assms(1) \<open>map_of dir p = Some f\<close> Some [unfolded v]]
    show ?thesis
      using \<open>map_of dir p = Some f\<close> Some v f assms(2) cache_okD [OF assms(2), of "(p, m, n)"]
        cache_ok_insert [OF assms(2), of p m n]
      by (cases "map_of cache (p, m, n)") (simp_all add: parse_rotated_def fresh_rotated_def Let_def)
  qed (use Some assms in \<open>simp add: parse_rotated_def fresh_rotated_def\<close>)
qed (use assms in \<open>simp add: parse_rotated_def fresh_rotated_def\<close>)

lemma parse_all_fresh:
  assumes "stable_dir contents dir"
  shows "cache_ok contents cache \<Longrightarrow>
    fst (parse_all_rotated ps dir cache) = concat (map (fresh_rotated dir) ps)
    \<and> cache_ok contents (snd (parse_all_rotated ps dir cache))"
proof (induction ps arbitrary: cache)
  case (Cons p ps)
  from parse_rotated_fresh [OF assms Cons.prems, of p] Cons.IH [of "snd (parse_rotated p dir cache)"] show ?case
    by (simp add: Let_def case_prod_beta)
qed simp

lemma load_fresh:
  assumes "stable_dir contents dir" and "cache_ok contents cache"
  shows "fst (load_events name True dir cache) = fresh_events name dir
    \<and> cache_ok contents (snd (load_events name True dir cache))"
  using parse_all_fresh [OF assms, of "rotated_siblings name dir"]
  by (simp add: load_events_def fresh_events_def Let_def case_prod_beta split: option.split)

lemma rotation_number_of:
  "rotation_number (''.'' @ digits_of n) = Some n" "rotation_number (''.'' @ digits_of n @ ''.gz'') = Some n"
proof -
  have "takeWhile is_digit (digits_of n @ r) = digits_of n @ takeWhile is_digit r" for r
    using digits_of_digits [of n] by (intro takeWhile_append2) (simp add: list_all_iff)
  note t = this [of "[]"] this [of "''.gz''"]
  have "takeWhile is_digit ''.gz'' = []" by code_simp
  with t have "takeWhile is_digit (digits_of n) = digits_of n" "takeWhile is_digit (digits_of n @ ''.gz'') = digits_of n"
    by (simp_all del: takeWhile_eq_all_conv)
  then show "rotation_number (''.'' @ digits_of n) = Some n" "rotation_number (''.'' @ digits_of n @ ''.gz'') = Some n"
    by (simp_all add: rotation_number_def startswith_def decimal_value_digits_of Let_def del: takeWhile_eq_all_conv)
qed

lemma page_views_fresh:
  "list_all (stable_dir contents) dirs \<Longrightarrow> cache_ok contents cache \<Longrightarrow>
     fst (page_views name dirs cache) = map (fresh_events name) dirs
     \<and> cache_ok contents (snd (page_views name dirs cache))"
proof (induction dirs arbitrary: cache)
  case (Cons dir dirs)
  then show ?case
    using load_fresh [of contents dir cache name] Cons.IH [of "snd (load_events name True dir cache)"]
    by (simp add: Let_def case_prod_beta)
qed simp

lemma siblings_set: "set (rotated_siblings name dir) = {p \<in> fst ` set dir. is_rotated name p}"
  unfolding rotated_siblings_def by (auto simp: image_image)

lemma siblings_sorted: "sorted_wrt (\<lambda>p q. age_number name q \<le> age_number name p) (rotated_siblings name dir)"
proof -
  let ?found = "map (\<lambda>p. (age_number name p, p)) (filter (is_rotated name) (map fst dir))"
  have n: "fst x = age_number name (snd x)" if "x \<in> set (sort_desc id ?found)" for x
    using that by auto
  have "sorted_wrt (\<lambda>x y. y \<le> x) (sort_desc id ?found)" using sorted_sort_desc [of id ?found] by simp
  then have "sorted_wrt (\<lambda>x y. age_number name (snd y) \<le> age_number name (snd x)) (sort_desc id ?found)"
  proof (rule sorted_wrt_mono_rel [rotated])
    fix x y assume "x \<in> set (sort_desc id ?found)" "y \<in> set (sort_desc id ?found)" "y \<le> x"
    with n [of x] n [of y] show "age_number name (snd y) \<le> age_number name (snd x)"
      by (cases x; cases y) (auto simp: less_eq_prod_def)
  qed
  then show ?thesis by (simp add: rotated_siblings_def Let_def sorted_wrt_map)
qed

subsection \<open>What a view reads, by the views before it\<close>

text \<open>
  Told without the cache. The views before, the latest first: a rotated file is read as it was found by the
  first of the views since which its path has had this modification time and size; views that did not find
  the path, or could not \<open>stat\<close> it, do not count.
\<close>

fun kept_read :: "log_dir list \<Rightarrow> string \<Rightarrow> int \<times> nat \<Rightarrow> logged_file \<Rightarrow> log_event list" where
  "kept_read [] p v f = parse_file f"
| "kept_read (d # ds) p v f =
     (case map_of d p of
        None \<Rightarrow> kept_read ds p v f
      | Some g \<Rightarrow>
          (case lf_stat g of
             None \<Rightarrow> kept_read ds p v f
           | Some w \<Rightarrow> if w = v then kept_read ds p v g else parse_file f))"

definition rotated_read :: "log_dir list \<Rightarrow> log_dir \<Rightarrow> string \<Rightarrow> log_event list" where
  "rotated_read earlier dir p =
     (case map_of dir p of
        None \<Rightarrow> []
      | Some f \<Rightarrow> (case lf_stat f of None \<Rightarrow> [] | Some v \<Rightarrow> kept_read earlier p v f))"

fun views_by_history :: "string \<Rightarrow> log_dir list \<Rightarrow> log_dir list \<Rightarrow> log_event list list" where
  "views_by_history name earlier [] = []"
| "views_by_history name earlier (dir # dirs) =
     (concat (map (rotated_read earlier dir) (rotated_siblings name dir))
       @ (case map_of dir name of None \<Rightarrow> [] | Some f \<Rightarrow> parse_file f))
     # views_by_history name (dir # earlier) dirs"

fun latest_version :: "log_dir list \<Rightarrow> string \<Rightarrow> (int \<times> nat) option" where
  "latest_version [] p = None"
| "latest_version (d # ds) p =
     (case map_of d p of
        None \<Rightarrow> latest_version ds p
      | Some g \<Rightarrow> (case lf_stat g of None \<Rightarrow> latest_version ds p | Some w \<Rightarrow> Some w))"

lemma kept_read_other: "latest_version h p \<noteq> Some v \<Longrightarrow> kept_read h p v f = parse_file f"
  by (induction h) (auto split: option.splits)

lemma kept_read_same: "latest_version h p = Some v \<Longrightarrow> kept_read h p v f = kept_read h p v g"
  by (induction h) (auto split: option.splits)

text \<open>The cache after some views holds the latest version of a path and what was kept of it.\<close>

definition remembers :: "log_dir list \<Rightarrow> file_cache \<Rightarrow> string \<Rightarrow> bool" where
  "remembers h cache p \<longleftrightarrow>
     (\<forall>v f. map_of cache (p, v) = (if latest_version h p = Some v then Some (kept_read h p v f) else None))"

lemma map_of_other_paths:
  "map_of (filter (\<lambda>(k, v). fst k \<noteq> p) cache) (q, v) = (if q = p then None else map_of cache (q, v))"
  by (induction cache) auto

lemma map_of_parse_rotated: "q \<noteq> p \<Longrightarrow> map_of (snd (parse_rotated p dir cache)) (q, v) = map_of cache (q, v)"
  by (auto simp: parse_rotated_def Let_def update_conv' map_of_other_paths split: option.split)

lemma remembers_other: "q \<noteq> p \<Longrightarrow> remembers h (snd (parse_rotated p dir cache)) q = remembers h cache q"
  by (simp add: remembers_def map_of_parse_rotated)

lemma remembers_absent:
  "(\<forall>f. map_of dir p = Some f \<longrightarrow> lf_stat f = None) \<Longrightarrow> remembers (dir # h) cache p = remembers h cache p"
  by (auto simp: remembers_def split: option.split)

lemma remembersD:
  "remembers h cache p \<Longrightarrow> map_of cache (p, v) = (if latest_version h p = Some v then Some (kept_read h p v f) else None)"
  unfolding remembers_def by blast

lemma parse_rotated_read:
  assumes "remembers h cache p \<or> remembers (dir # h) cache p"
  shows "fst (parse_rotated p dir cache) = rotated_read h dir p \<and> remembers (dir # h) (snd (parse_rotated p dir cache)) p"
proof (cases "\<exists>f v. map_of dir p = Some f \<and> lf_stat f = Some v")
  case False
  then have "\<forall>f. map_of dir p = Some f \<longrightarrow> lf_stat f = None" by (metis option.exhaust)
  from this remembers_absent [OF this] assms show ?thesis
    by (auto simp: parse_rotated_def rotated_read_def split: option.split)
next
  case True
  then obtain f m n where f: "map_of dir p = Some f" "lf_stat f = Some (m, n)" by auto
  have l: "latest_version (dir # h) p = Some (m, n)" "kept_read (dir # h) p (m, n) g = kept_read h p (m, n) f" for g
    using f by simp_all
  note r = l remembersD [of h cache p] remembersD [of "dir # h" cache p]
  have read: "rotated_read h dir p = kept_read h p (m, n) f" by (simp add: rotated_read_def f)
  show ?thesis
  proof (cases "map_of cache (p, m, n)")
    case None
    with assms r(1,2) r(3) [of "(m, n)" f] r(4) [of "(m, n)" f] have "latest_version h p \<noteq> Some (m, n)"
      by (auto split: if_splits)
    with l None f read show ?thesis
      by (simp add: parse_rotated_def Let_def remembers_def update_conv' map_of_other_paths kept_read_other
          del: latest_version.simps kept_read.simps)
  next
    case (Some evs)
    with assms r(1,2) r(3) [of "(m, n)" f] r(4) [of "(m, n)" f] have e: "evs = kept_read h p (m, n) f"
      by (auto split: if_splits)
    have "map_of cache (p, w) = None" if "w \<noteq> (m, n)" for w
      using assms that Some r(1) r(3) [of w f] r(4) [of w f] r(3) [of "(m, n)" f] by (auto split: if_splits)
    with l Some f read e show ?thesis
      by (auto simp: parse_rotated_def remembers_def simp del: latest_version.simps kept_read.simps)
  qed
qed

lemma parse_all_other:
  "q \<notin> set ps \<Longrightarrow> remembers h (snd (parse_all_rotated ps dir cache)) q = remembers h cache q"
  by (induction ps arbitrary: cache) (simp_all add: Let_def case_prod_beta remembers_other)

lemma parse_all_read:
  "list_all (\<lambda>p. remembers h cache p \<or> remembers (dir # h) cache p) ps \<Longrightarrow>
     fst (parse_all_rotated ps dir cache) = concat (map (rotated_read h dir) ps)
     \<and> list_all (remembers (dir # h) (snd (parse_all_rotated ps dir cache))) ps"
proof (induction ps arbitrary: cache)
  case (Cons p ps)
  let ?c = "snd (parse_rotated p dir cache)"
  from Cons.prems have p: "fst (parse_rotated p dir cache) = rotated_read h dir p" "remembers (dir # h) ?c p"
    using parse_rotated_read [of h cache p dir] by auto
  have "list_all (\<lambda>x. remembers h ?c x \<or> remembers (dir # h) ?c x) ps"
    using Cons.prems p(2) remembers_other [where p = p and dir = dir and cache = cache] by (fastforce simp: list_all_iff)
  note IH = Cons.IH [OF this]
  have "remembers (dir # h) (snd (parse_all_rotated ps dir ?c)) p"
    using IH p(2) by (cases "p \<in> set ps") (auto simp: list_all_iff parse_all_other)
  with IH p(1) show ?case by (simp add: Let_def case_prod_beta)
qed simp

lemma load_events_read:
  assumes "\<And>p. is_rotated name p \<Longrightarrow> remembers h cache p"
  shows "fst (load_events name True dir cache) # views_by_history name (dir # h) dirs = views_by_history name h (dir # dirs)"
    and "is_rotated name p \<Longrightarrow> remembers (dir # h) (snd (load_events name True dir cache)) p"
proof -
  have "list_all (\<lambda>p. remembers h cache p \<or> remembers (dir # h) cache p) (rotated_siblings name dir)"
    using assms by (simp add: list_all_iff siblings_set)
  note a = parse_all_read [OF this]
  then show "fst (load_events name True dir cache) # views_by_history name (dir # h) dirs = views_by_history name h (dir # dirs)"
    by (simp add: load_events_def Let_def case_prod_beta split: option.split)
  have s: "snd (load_events name True dir cache) = snd (parse_all_rotated (rotated_siblings name dir) dir cache)"
    by (simp add: load_events_def Let_def case_prod_beta split: option.split)
  assume p: "is_rotated name p"
  show "remembers (dir # h) (snd (load_events name True dir cache)) p"
  proof (cases "p \<in> set (rotated_siblings name dir)")
    case True
    with a show ?thesis by (simp add: s list_all_iff)
  next
    case False
    with p have "map_of dir p = None" by (simp add: siblings_set map_of_eq_None_iff)
    with assms [OF p] show ?thesis by (simp add: s parse_all_other [OF False] remembers_absent)
  qed
qed

lemma page_views_history:
  assumes "\<And>p. is_rotated name p \<Longrightarrow> remembers h cache p"
  shows "fst (page_views name dirs cache) = views_by_history name h dirs"
  using assms
proof (induction dirs arbitrary: h cache)
  case (Cons dir dirs)
  from Cons.IH [OF load_events_read(2) [OF Cons.prems]] load_events_read(1) [OF Cons.prems, where dir = dir and dirs = dirs] show ?case
    by (simp add: Let_def case_prod_beta del: views_by_history.simps(2))
qed simp

lemma parse_rotated_distinct:
  "distinct (map (fst \<circ> fst) cache) \<Longrightarrow> distinct (map (fst \<circ> fst) (snd (parse_rotated p dir cache)))"
proof -
  assume "distinct (map (fst \<circ> fst) cache)"
  moreover have "map_of (filter (\<lambda>(k, v). fst k \<noteq> p) cache) (p, v) = None" for v by (simp add: map_of_other_paths)
  ultimately show ?thesis
    by (auto simp: parse_rotated_def Let_def update_new map_of_eq_None_iff distinct_map_filter split: option.split)
qed

lemma parse_all_distinct:
  "distinct (map (fst \<circ> fst) cache) \<Longrightarrow> distinct (map (fst \<circ> fst) (snd (parse_all_rotated ps dir cache)))"
  by (induction ps arbitrary: cache) (simp_all add: Let_def case_prod_beta parse_rotated_distinct)

lemma page_views_distinct:
  "distinct (map (fst \<circ> fst) cache) \<Longrightarrow> distinct (map (fst \<circ> fst) (snd (page_views name dirs cache)))"
proof (induction dirs arbitrary: cache)
  case (Cons dir dirs)
  have "distinct (map (fst \<circ> fst) (snd (load_events name True dir cache)))"
    using parse_all_distinct [OF Cons.prems, where ps = "rotated_siblings name dir" and dir = dir]
    by (simp add: load_events_def Let_def case_prod_beta split: option.split)
  from Cons.IH [OF this] show ?case by (simp add: Let_def case_prod_beta)
qed simp

text \<open>
  C29. What the live dashboard reads, over any sequence of page views, however files were rotated, replaced,
  cut or removed in between. Each view shows every rotated sibling, the highest number first, as it was found
  by the first of the views since which its path has had this modification time and size, and then the log
  as it is now; the cache never holds two versions of a path. So when a version of a file reads the same
  whenever it is read, every view is a load without a cache. That last part leaves out a read that was cut
  short by an error, which is kept although the file has become readable (\<open>cut_read_is_remembered\<close>).
\<close>
theorem cached_views_are_fresh:
  "fst (page_views name dirs []) = views_by_history name [] dirs
   \<and> (list_all (stable_dir contents) dirs \<longrightarrow> fst (page_views name dirs []) = map (fresh_events name) dirs)
   \<and> distinct (map (fst \<circ> fst) (snd (page_views name dirs [])))
   \<and> set (rotated_siblings name dir) = {p \<in> fst ` set dir. is_rotated name p}
   \<and> sorted_wrt (\<lambda>p q. age_number name q \<le> age_number name p) (rotated_siblings name dir)"
proof -
  have "cache_ok contents []" by (simp add: cache_ok_def)
  moreover have "remembers [] [] p" for p by (simp add: remembers_def)
  moreover have "distinct (map (fst \<circ> fst) (snd (page_views name dirs [])))" by (rule page_views_distinct) simp
  ultimately show ?thesis
    using page_views_fresh [of contents dirs "[]" name] page_views_history [of name "[]" "[]" dirs]
      siblings_set [of name dir] siblings_sorted [of name dir] by blast
qed

theorem cached_views_are_fresh_witness:
  "fst (page_views ''e''
      [[(''e'', \<lparr>lf_stat = Some (9, 2), lf_lines = [Json [(''event'', JStr ''b'')]], lf_cut = False\<rparr>),
        (''e.1'', \<lparr>lf_stat = Some (5, 2), lf_lines = [Json [(''event'', JStr ''a'')]], lf_cut = False\<rparr>)],
       [(''e.1'', \<lparr>lf_stat = Some (9, 2), lf_lines = [Json [(''event'', JStr ''b'')]], lf_cut = False\<rparr>),
        (''e.2.gz'', \<lparr>lf_stat = Some (5, 1), lf_lines = [Empty_Line, Json [(''event'', JStr ''a'')]], lf_cut = False\<rparr>)]] [])
   = [[[(''event'', JStr ''a'')], [(''event'', JStr ''b'')]], [[(''event'', JStr ''a'')], [(''event'', JStr ''b'')]]]"
proof -
  let ?d1 = "[(''e'', \<lparr>lf_stat = Some (9, 2), lf_lines = [Json [(''event'', JStr ''b'')]], lf_cut = False\<rparr>),
        (''e.1'', \<lparr>lf_stat = Some (5, 2), lf_lines = [Json [(''event'', JStr ''a'')]], lf_cut = False\<rparr>)] :: log_dir"
  let ?d2 = "[(''e.1'', \<lparr>lf_stat = Some (9, 2), lf_lines = [Json [(''event'', JStr ''b'')]], lf_cut = False\<rparr>),
        (''e.2.gz'', \<lparr>lf_stat = Some (5, 1), lf_lines = [Empty_Line, Json [(''event'', JStr ''a'')]], lf_cut = False\<rparr>)] :: log_dir"
  let ?c = "\<lambda>(p :: string, m :: int, n :: nat). [[(''event'', JStr (if m = 5 then ''a'' else ''b''))]]"
  have "list_all (stable_dir ?c) [?d1, ?d2]" by (simp add: stable_dir_def parse_file_def)
  from cached_views_are_fresh [of "''e''" "[?d1, ?d2]" ?c "[]", THEN conjunct2, THEN conjunct1, THEN mp, OF this]
  have "fst (page_views ''e'' [?d1, ?d2] []) = [fresh_events ''e'' ?d1, fresh_events ''e'' ?d2]" by simp
  moreover have "fresh_events ''e'' ?d1 = [[(''event'', JStr ''a'')], [(''event'', JStr ''b'')]]"
    "fresh_events ''e'' ?d2 = [[(''event'', JStr ''a'')], [(''event'', JStr ''b'')]]" by code_simp+
  ultimately show ?thesis by simp
qed

text \<open>
  What was read of a file before an error is cached like the whole of it: later views do not read the rest,
  although the file is readable again and has not changed.
\<close>

lemma cut_read_is_remembered:
  "fst (page_views ''e''
      [[(''e.1'', \<lparr>lf_stat = Some (5, 2), lf_lines = [], lf_cut = True\<rparr>)],
       [(''e.1'', \<lparr>lf_stat = Some (5, 2), lf_lines = [Json [(''event'', JStr ''a'')]], lf_cut = False\<rparr>)]] []) = [[], []]"
  by code_simp

end
