(* ===== verification/Dashboard_Html.thy ===== *)
theory Dashboard_Html
  imports Charts Log_Files
begin

section \<open>The dashboard's page\<close>

text \<open>
  The rendering half of \<open>tools/dashboard.py\<close>. The text of a floating-point number is a parameter: what it
  is for and the integers it is computed from. So are the positions that the GeoIP database gives for
  an address, and the world's outline (\<open>nm_outline\<close>): what is in the bundled data file, a country as its
  polygons, their rings and the text of each projected point, or nothing where the file cannot be read.
\<close>

record numbers =
  nm_float :: "string \<Rightarrow> nat list \<Rightarrow> string"
  nm_x :: "string \<Rightarrow> string"
  nm_y :: "string \<Rightarrow> string"
  nm_outline :: "string list list list list option"

definition nl :: string where
  "nl = [CHR 0x0A]"

text \<open>A run of constant text.\<close>

definition chunk :: "string list \<Rightarrow> string" where
  "chunk ss = concat ss"

subsection \<open>Escaping\<close>

text \<open>\<open>html.escape(value, quote=True)\<close>.\<close>

definition esc_char :: "char \<Rightarrow> string" where
  "esc_char c =
     (if c = CHR ''&'' then ''&amp;''
      else if c = CHR ''<'' then ''&lt;''
      else if c = CHR ''>'' then ''&gt;''
      else if c = CHR 0x22 then ''&quot;''
      else if c = CHR 0x27 then ''&#x27;''
      else [c])"

definition esc :: "string \<Rightarrow> string" where
  "esc s = concat (map esc_char s)"

text \<open>A field that the honeypot writes as a number or as null, shown with \<open>str\<close>.\<close>

definition number_field :: "string \<Rightarrow> string \<Rightarrow> log_event \<Rightarrow> string" where
  "number_field k dflt ev =
     (case field k ev of Some (JInt i) \<Rightarrow> int_text i | Some JNull \<Rightarrow> ''None'' | _ \<Rightarrow> dflt)"

subsection \<open>Tables\<close>

definition table_row :: "string list \<Rightarrow> string" where
  "table_row row =
     ''<tr>'' @ concat (map (\<lambda>cell. ''<td>'' @ cell @ ''</td>'') row) @ ''</tr>''"

definition html_table :: "string list \<Rightarrow> string list list \<Rightarrow> string" where
  "html_table headers rows =
     (if rows = [] then ''<p class='empty'>No data yet.</p>''
      else ''<table><thead><tr>'' @ concat (map (\<lambda>h. ''<th>'' @ esc h @ ''</th>'') headers) @
        ''</tr></thead><tbody>'' @ concat (map table_row rows) @ ''</tbody></table>'')"

definition wrap_cell :: "string \<Rightarrow> string" where
  "wrap_cell s =
     ''<span class='wrap-cell'>'' @ esc s @ ''</span>''"

definition pill :: "bool \<Rightarrow> string \<Rightarrow> string" where
  "pill ok s =
     ''<span class='pill '' @ (if ok then ''ok'' else ''bad'') @
     chunk [[CHR 0x27], ''>''] @ esc s @ ''</span>''"

text \<open>The rows of the tables, cell by cell.\<close>

definition command_row :: "log_event \<Rightarrow> string list" where
  "command_row ev =
     [esc (text_field ''timestamp'' [] ev), esc (take 8 (text_field ''session_id'' [] ev)),
      wrap_cell (text_field ''raw'' [] ev)]"

definition detected_label :: "log_event \<Rightarrow> string" where
  "detected_label ev =
     (let detected = py_or (opt_text ''detected_type'' ev) ''-'';
          endian_text = (case opt_text ''detected_endianness'' ev of
              None \<Rightarrow> [] | Some e \<Rightarrow> if e = [] then [] else '', '' @ e @ ''-endian'');
          abi_text = (case opt_text ''detected_abi'' ev of None \<Rightarrow> [] | Some a \<Rightarrow> if a = [] then [] else '', '' @ a)
      in case opt_text ''detected_machine'' ev of
           None \<Rightarrow> detected
         | Some m \<Rightarrow>
             if m = [] then detected
             else detected @ '' / '' @ m @ '' ('' @ number_field ''detected_bitness'' ''None'' ev @ ''-bit'' @ endian_text @ abi_text @ '')'')"

definition arch_label :: "log_event \<Rightarrow> string" where
  "arch_label ev =
     (case field ''arch_mismatch'' ev of Some (JBool b) \<Rightarrow> if b then ''MISMATCH'' else ''match'' | _ \<Rightarrow> ''-'')"

definition download_row :: "log_event \<Rightarrow> string list" where
  "download_row ev =
     [esc (text_field ''timestamp'' [] ev), pill (outcome_is ''success'' ev) (text_field ''outcome'' [] ev),
      wrap_cell (text_field ''url'' [] ev), esc (text_field ''requested_filename'' [] ev),
      esc (number_field ''size_bytes'' ''-'' ev),
      wrap_cell (take 16 (py_or (opt_text ''sha256'' ev) ''-'')), esc (detected_label ev), esc (arch_label ev)]"

definition failure_row :: "string \<times> nat \<times> nat \<Rightarrow> string list" where
  "failure_row g =
     (case g of (reason, n, staged) \<Rightarrow>
        [esc reason, digits_of n, if staged = 0 then ''-'' else digits_of staged])"

definition off_list_row :: "log_event \<Rightarrow> string list" where
  "off_list_row ev =
     (let result = (if event_type ev = ''login.success'' then ''success'' else ''failed'');
          unknown = (\<lambda>k. field k ev = Some (JBool False));
          which = join '', '' ((if unknown ''username_known'' then [''username''] else [])
                    @ (if unknown ''password_known'' then [''password''] else []))
      in [esc (text_field ''timestamp'' [] ev), esc (text_field ''src_ip'' [] ev), esc (text_field ''username'' [] ev),
          esc (text_field ''password'' [] ev), pill (result = ''success'') result,
          esc (if which = [] then ''-'' else which)])"

subsection \<open>Locations\<close>

text \<open>
  \<open>GeoLookup\<close>: \<open>db\<close> is the reader of the database, if one was opened; an address that it refuses has no
  result. A place without coordinates is no place.
\<close>

definition json_object :: "string \<Rightarrow> (string \<times> json) list \<Rightarrow> (string \<times> json) list" where
  "json_object k kvs = (case map_of kvs k of Some (JObj inner) \<Rightarrow> inner | _ \<Rightarrow> [])"

definition geo_country :: "(string \<Rightarrow> json option) option \<Rightarrow> string \<Rightarrow> string option" where
  "geo_country db ip =
     (case Option.bind db (\<lambda>reader. reader ip) of
        Some (JObj result) \<Rightarrow>
          let country = opt_text ''en'' (json_object ''names'' (json_object ''country'' result));
              location = json_object ''location'' result
          in if result = [] \<or> field ''latitude'' location \<in> {None, Some JNull}
                \<or> field ''longitude'' location \<in> {None, Some JNull} then None
             else Some (py_or country ''Unknown'')
      | _ \<Rightarrow> None)"

definition ip_row :: "(string \<Rightarrow> string option) \<Rightarrow> report \<Rightarrow> string \<Rightarrow> string list" where
  "ip_row geo r ip =
     [esc ip, digits_of (count_of (rp_ip_counts r) ip), esc (case geo ip of None \<Rightarrow> ''-'' | Some c \<Rightarrow> c)]"

definition repeat_row :: "(string \<Rightarrow> string option) \<Rightarrow> string \<times> log_event list \<Rightarrow> string list" where
  "repeat_row geo v =
     (case v of (ip, logins) \<Rightarrow>
        let stamps = sort (map (text_field ''timestamp'' []) logins);
            users = sort (remdups (map (text_field ''username'' []) logins))
        in [esc ip, digits_of (length logins), esc (hd stamps), esc (last stamps), esc (join '', '' users),
            esc (case geo ip of None \<Rightarrow> ''-'' | Some c \<Rightarrow> c)])"

definition country_counts :: "(string \<Rightarrow> string option) \<Rightarrow> report \<Rightarrow> (string \<times> nat) list" where
  "country_counts geo r =
     fold (\<lambda>ip c. case geo ip of
          None \<Rightarrow> c
        | Some country \<Rightarrow> AList.update country (count_of c country + count_of (rp_ip_counts r) ip) c)
       (take 25 (unique_ips r)) []"

subsection \<open>Charts\<close>

definition donut_arc :: "numbers \<Rightarrow> nat \<Rightarrow> nat \<Rightarrow> nat list \<Rightarrow> string \<times> nat \<Rightarrow> string" where
  "donut_arc nm tot slices sofar row =
     (case row of (label, n) \<Rightarrow>
     ''<circle class='donut-arc '' @ slot_for_label label @
     chunk [[CHR 0x27],
       '' cx='74.0' cy='74.0' r='61.00' stroke-width='26' stroke-linecap='butt' stroke-dasharray='',
       [CHR 0x27]] @ nm_float nm ''dash'' [n, tot, slices] @ '' '' @
     nm_float nm ''gap'' [n, tot, slices] @
     chunk [[CHR 0x27], '' stroke-dashoffset='', [CHR 0x27]] @ nm_float nm ''offset'' (tot # sofar) @
     chunk [[CHR 0x27], ''><title>''] @ esc label @ '': '' @ digits_of n @ '' ('' @
     nm_float nm ''percent'' [n, tot] @ ''%)</title></circle>'')"

definition persona_note :: "nat \<times> nat \<Rightarrow> string" where
  "persona_note v =
     (case v of (m, mm) \<Rightarrow>
        if m = 0 \<and> mm = 0 then []
        else ''<span class='donut-legend-note'>'' @
     join '' '' ((if m = 0 then [] else [''<span class='donut-match'>&check; '' @ digits_of m @ '' match</span>''])
          @ (if mm = 0 then [] else [''<span class='donut-mismatch'>&ne; '' @ digits_of mm @ '' mismatch</span>''])) @
     ''</span>'')"

definition donut_legend :: "numbers \<Rightarrow> nat \<Rightarrow> (string \<times> nat \<times> nat) list \<Rightarrow> string \<times> nat \<Rightarrow> string" where
  "donut_legend nm tot persona row =
     (case row of (label, n) \<Rightarrow>
     ''<div class='donut-legend-row'><span class='swatch '' @ slot_for_label label @
     chunk [[CHR 0x27], ''></span><span class='donut-legend-label'>''] @ esc label @
     ''</span><span class='donut-legend-count'>'' @ digits_of n @ '' &middot; '' @
     nm_float nm ''percent'' [n, tot] @ ''%</span>'' @
     persona_note (case map_of persona label of None \<Rightarrow> (0, 0) | Some v \<Rightarrow> v) @
     ''</div>'')"

fun donut_arcs :: "numbers \<Rightarrow> nat \<Rightarrow> nat \<Rightarrow> nat list \<Rightarrow> (string \<times> nat) list \<Rightarrow> string" where
  "donut_arcs nm tot slices sofar [] = []"
| "donut_arcs nm tot slices sofar (row # rows) =
     donut_arc nm tot slices sofar row @ donut_arcs nm tot slices (sofar @ [snd row]) rows"

definition donut_svg :: "numbers \<Rightarrow> donut \<Rightarrow> string \<Rightarrow> string \<Rightarrow> string" where
  "donut_svg nm d center_label chart_id =
     (let rows = dn_rows d; total_n = total_of rows
      in if rows = [] \<or> total_n = 0 then ''<p class='empty'>No data yet.</p>''
      else
     chunk [''<div class='donut' id='', [CHR 0x27]] @ chart_id @
     chunk [[CHR 0x27], ''><svg viewBox='0 0 148 148' width='148' height='148' role='img' aria-label='',
       [CHR 0x27]] @ esc center_label @ '': '' @ digits_of total_n @
     '' total'><g transform='rotate(-90 74.0 74.0)'>'' @ donut_arcs nm total_n (length rows) [] rows @
     ''</g><text x='74.0' y='71.0' text-anchor='middle' class='donut-total'>'' @ digits_of total_n @
     ''</text><text x='74.0' y='89.0' text-anchor='middle' class='donut-total-label'>'' @
     esc center_label @ ''</text></svg><div class='donut-legend'>'' @
     concat (map (donut_legend nm total_n (dn_persona d)) rows) @ ''</div></div>'')"

definition cloud_word :: "numbers \<Rightarrow> nat \<Rightarrow> string \<times> nat \<Rightarrow> string" where
  "cloud_word nm most wc =
     (case wc of (word, n) \<Rightarrow>
     ''<span class='cloud-word' style='font-size:'' @ nm_float nm ''size'' [n, most] @
     chunk [''em' title='', [CHR 0x27]] @ digits_of n @ ''x'>'' @ esc word @ ''</span>'')"

definition word_cloud :: "numbers \<Rightarrow> (string \<times> nat) list \<Rightarrow> string \<Rightarrow> string" where
  "word_cloud nm counts empty_label =
     (let items = filter (\<lambda>(w, c). w \<noteq> []) (take 60 (most_common counts))
      in if items = [] then ''<p class='empty'>'' @ esc empty_label @ ''</p>''
         else ''<div class='cloud'>'' @ concat (map (cloud_word nm (Max (set (map snd items)))) items) @
     ''</div>'')"

definition map_dot :: "numbers \<Rightarrow> nat \<Rightarrow> string \<times> string \<times> nat \<Rightarrow> string" where
  "map_dot nm most p =
     (case p of (ip, label, n) \<Rightarrow>
     chunk [''<circle class='ip-dot' cx='', [CHR 0x27]] @ nm_x nm ip @
     chunk [[CHR 0x27], '' cy='', [CHR 0x27]] @ nm_y nm ip @
     chunk [[CHR 0x27], '' r='', [CHR 0x27]] @ nm_float nm ''radius'' [n, most] @
     chunk [[CHR 0x27], ''><title>''] @ esc label @ '' ('' @ digits_of n @ ''x)</title></circle>'')"

text \<open>The outlines: a country is one path, unless it has no ring of two points or more.\<close>

definition ring_path :: "string list \<Rightarrow> string" where
  "ring_path ps = ''M'' @ join '' L'' ps @ ''Z''"

definition country_rings :: "string list list list \<Rightarrow> string list" where
  "country_rings polys = map ring_path (filter (\<lambda>ps. 2 \<le> length ps) (concat polys))"

definition land_paths :: "numbers \<Rightarrow> string list" where
  "land_paths nm =
     (case nm_outline nm of
        None \<Rightarrow> []
      | Some countries \<Rightarrow> map (join '' '') (filter (\<lambda>rings. rings \<noteq> []) (map country_rings countries)))"

text \<open>The dots' positions are those of their addresses.\<close>

definition render_map :: "numbers \<Rightarrow> (string \<times> string \<times> nat) list \<Rightarrow> string" where
  "render_map nm points =
     (let most = (if points = [] then 1 else Max (set (map (\<lambda>(ip, l, n). n) points)))
      in ''<svg viewBox='0 0 720 360' class='world-map' role='img' aria-label='Attacker source locations'>'' @
        concat (map (\<lambda>d. chunk [''<path class='land' d='', [CHR 0x27]] @ d @
     chunk [[CHR 0x27], ''/>'']) (land_paths nm)) @
        concat (map (map_dot nm most) points) @ ''</svg>'')"

subsection \<open>The page\<close>

definition css :: string where
  "css =
     chunk [nl,
       '':root {'', nl,
       ''  color-scheme: light dark;'', nl,
       ''  --bg: #0f1420; --panel: #171d2b; --border: #2a3348; --text: #e8ecf4;'', nl,
       ''  --muted: #8b96ad; --accent: #5fb0ff; --dot: #ff6b6b;'', nl,
       ''  /* Categorical series (dark step): validated against this file's own dark'', nl,
       ''     --panel #171d2b with the dataviz skill's validator -- worst adjacent CVD'', nl,
       ''     Delta E 8.4 (>=8 target), worst normal-vision Delta E 19.3 (>=15 floor),'', nl,
       ''     all 8 >= 3:1 contrast. Order is fixed and never re-cycled -- see'', nl,
       ''     _FAMILY_SLOT in this file for why RISC-V is always slot 1. */'', nl,
       ''  --series-1: #3987e5; --series-2: #d95926; --series-3: #199e70; --series-4: #c98500;'', nl,
       ''  --series-5: #d55181; --series-6: #008300; --series-7: #9085e9; --series-8: #e66767;'', nl,
       ''}'', nl,
       ''@media (prefers-color-scheme: light) {'', nl,
       ''  :root { --bg: #f4f6fb; --panel: #ffffff; --border: #dde3ee; --text: #16202e;'', nl,
       ''          --muted: #5b6779; --accent: #1266c9; --dot: #d1364a;'', nl,
       ''          /* Light step: validated against #ffffff -- worst adjacent CVD Delta E 9.1,'', nl,
       ''             worst normal-vision Delta E 19.6. Three slots (3/5/... aqua/magenta family)'', nl,
       ''             sit below 3:1 on this light surface by design; every use here pairs the'', nl,
       ''             color with visible text (legend label + count), never color alone. */'', nl,
       ''          --series-1: #2a78d6; --series-2: #eb6834; --series-3: #1baf7a; --series-4: #eda100;'',
       nl,
       ''          --series-5: #e87ba4; --series-6: #008300; --series-7: #4a3aa7; --series-8: #e34948; }'',
       nl,
       ''}'', nl,
       ''* { box-sizing: border-box; }'', nl,
       ''body { margin: 0; padding: 24px 16px; background: var(--bg); color: var(--text);'', nl,
       ''       font: 14px/1.5 -apple-system, Segoe UI, Roboto, sans-serif; }'', nl,
       ''.wrap { max-width: 1100px; margin: 0 auto; display: flex; flex-direction: column; gap: 20px; }'',
       nl,
       ''h1 { font-size: 1.4em; margin: 0 0 4px; }'', nl,
       ''.subtitle { color: var(--muted); margin: 0 0 8px; font-size: 0.9em; }'', nl,
       ''.stats { display: flex; flex-wrap: wrap; gap: 12px; }'', nl,
       ''.stat { background: var(--panel); border: 1px solid var(--border); border-radius: 10px;'', nl,
       ''        padding: 12px 16px; min-width: 130px; flex: 1; }'', nl,
       ''.stat .n { font-size: 1.6em; font-weight: 600; }'', nl,
       ''.stat .l { color: var(--muted); font-size: 0.8em; }'', nl,
       ''.panel { background: var(--panel); border: 1px solid var(--border); border-radius: 10px;'', nl,
       ''         padding: 16px; overflow-x: auto; }'', nl,
       ''.panel h2 { margin: 0 0 12px; font-size: 1.05em; }'', nl,
       ''.grid-2 { display: grid; grid-template-columns: 1fr; gap: 20px; }'', nl,
       ''@media (min-width: 800px) { .grid-2 { grid-template-columns: 1fr 1fr; } }'', nl,
       ''table { border-collapse: collapse; width: 100%; font-size: 0.85em; white-space: nowrap; }'',
       nl,
       ''th, td { text-align: left; padding: 6px 10px; border-bottom: 1px solid var(--border); }'', nl,
       ''th { color: var(--muted); font-weight: 600; }'', nl,
       ''td.wrap-cell { white-space: normal; word-break: break-all; }'', nl,
       ''.empty { color: var(--muted); }'', nl,
       ''.world-map { width: 100%; height: auto; background: transparent; }'', nl,
       ''.world-map .land { fill: var(--border); stroke: var(--muted); stroke-width: 0.3; }'', nl,
       ''.world-map .ip-dot { fill: var(--dot); fill-opacity: 0.75; stroke: var(--dot); stroke-width: 0.5; }'',
       nl,
       ''.cloud { display: flex; flex-wrap: wrap; gap: 10px 14px; align-items: baseline; }'', nl,
       ''.cloud-word { color: var(--accent); font-weight: 600; }'', nl,
       ''.pill { display: inline-block; padding: 1px 8px; border-radius: 999px; font-size: 0.8em; }'',
       nl,
       ''.pill.ok { background: #1c8a4a33; color: #1c8a4a; }'', nl,
       ''.pill.bad { background: #c4384033; color: #c43840; }'', nl,
       ''.donut { display: flex; flex-wrap: wrap; align-items: center; gap: 18px 24px; }'', nl,
       ''.donut svg { flex: none; }'', nl,
       ''.donut-arc { fill: none; }'', nl,
       ''.donut-arc.s1, .swatch.s1 { --slot: var(--series-1); }'', nl,
       ''.donut-arc.s2, .swatch.s2 { --slot: var(--series-2); }'', nl,
       ''.donut-arc.s3, .swatch.s3 { --slot: var(--series-3); }'', nl,
       ''.donut-arc.s4, .swatch.s4 { --slot: var(--series-4); }'', nl,
       ''.donut-arc.s5, .swatch.s5 { --slot: var(--series-5); }'', nl,
       ''.donut-arc.s6, .swatch.s6 { --slot: var(--series-6); }'', nl,
       ''.donut-arc.s7, .swatch.s7 { --slot: var(--series-7); }'', nl,
       ''.donut-arc.s8, .swatch.s8 { --slot: var(--series-8); }'', nl,
       ''.donut-arc.other, .swatch.other { --slot: var(--muted); }'', nl,
       ''.donut-arc { stroke: var(--slot); }'', nl,
       ''.donut-total { font-size: 26px; font-weight: 700; fill: var(--text); }'', nl,
       ''.donut-total-label { font-size: 10px; fill: var(--muted); text-transform: uppercase; letter-spacing: 0.04em; }'',
       nl,
       ''.donut-legend { display: flex; flex-direction: column; gap: 7px; flex: 1 1 200px; min-width: 200px; }'',
       nl,
       ''.donut-legend-row { display: flex; align-items: center; gap: 8px; font-size: 0.85em; flex-wrap: wrap; }'',
       nl,
       ''.swatch { width: 11px; height: 11px; min-width: 11px; border-radius: 3px; background: var(--slot); }'',
       nl,
       ''.donut-legend-label { flex: 1; }'', nl,
       ''.donut-legend-count { color: var(--muted); font-variant-numeric: tabular-nums; }'', nl,
       ''.donut-legend-note { flex-basis: 100%; padding-left: 19px; font-size: 0.9em; }'', nl,
       ''.donut-match { color: #0ca30c; font-weight: 600; }'', nl,
       ''.donut-mismatch { color: #d03b3b; font-weight: 600; }'', nl]"

definition stat_box :: "string \<times> string \<Rightarrow> string" where
  "stat_box s =
     (case s of (n, l) \<Rightarrow>
     ''<div class='stat'><div class='n'>'' @ esc n @ ''</div><div class='l'>'' @ esc l @
     ''</div></div>'')"

definition page_stats :: "report \<Rightarrow> (string \<times> string) list" where
  "page_stats r =
     [(digits_of (length (rp_sessions r)), ''Sessions''),
      (digits_of (length (unique_ips r)), ''Unique source IPs''),
      (digits_of (length (rp_commands r)), ''Commands captured''),
      (digits_of (length (rp_downloads r)), ''Download attempts''),
      (digits_of (length (filter has_stage (rp_downloads r))), ''Stage-2 downloads''),
      (digits_of (rp_success r) @ '' / '' @ digits_of (rp_success r + rp_failed r), ''Accepted / total logins''),
      (digits_of (length (rp_off_list r)), ''Off-wordlist credentials''),
      (digits_of (length (repeat_visitors r)), ''Repeat visitor IPs'')]"

definition arm_section :: "numbers \<Rightarrow> log_event list \<Rightarrow> string" where
  "arm_section nm evs =
     (case arm_version_donut evs of
        None \<Rightarrow> []
      | Some d \<Rightarrow>
     chunk [nl,
       ''    <div class='', [CHR 0x22], ''panel'', [CHR 0x22], ''>'', nl,
       ''      <h2>ARM builds by EABI version</h2>'', nl,
       ''      <p class='', [CHR 0x22], ''subtitle'', [CHR 0x22], '' style='', [CHR 0x22],
       ''margin:-4px 0 10px'', [CHR 0x22], ''>e_flags does not carry the ARM CPU'', nl,
       ''      architecture level (v5/v6/v7 lives in a section honeypot/fetcher/elf.py deliberately'',
       nl,
       ''      never walks) -- EABI version and float ABI is the finest split the detector can make.</p>'',
       nl,
       ''      ''] @ donut_svg nm d ''ARM downloads'' ''donut-arm'' @
     chunk [nl,
       ''    </div>''])"

definition architecture_html :: "numbers \<Rightarrow> log_event list \<Rightarrow> string" where
  "architecture_html nm evs =
     (case architecture_donut evs of
        None \<Rightarrow> ''<p class='empty'>No successful downloads yet.</p>''
      | Some d \<Rightarrow> donut_svg nm d ''downloads'' ''donut-architecture'')"

definition wordlists_configured :: "log_event list \<Rightarrow> bool" where
  "wordlists_configured evs =
     list_ex (\<lambda>ev. is_login ev
        \<and> (field ''username_known'' ev \<notin> {None, Some JNull} \<or> field ''password_known'' ev \<notin> {None, Some JNull})) evs"

definition off_list_section :: "report \<Rightarrow> string" where
  "off_list_section r =
     (let content = (if wordlists_configured (rp_events r)
        then html_table [''Timestamp'', ''Source IP'', ''Username'', ''Password'', ''Outcome'', ''Not on wordlist'']
               (map off_list_row (take 20 (rp_off_list r)))
        else ''<p class='empty'>No username/password wordlist configured on the honeypot (credentials.username_wordlist_path / password_wordlist_path) -- nothing to compare against.</p>'')
      in chunk [nl,
       ''    <div class='', [CHR 0x22], ''panel'', [CHR 0x22], ''>'', nl,
       ''      <h2>Credential attempts not on the known wordlist (''] @
     digits_of (length (rp_off_list r)) @
     chunk ['')</h2>'', nl,
       ''      ''] @ content @
     chunk [nl,
       ''    </div>''])"

definition map_points :: "(string \<Rightarrow> string option) \<Rightarrow> report \<Rightarrow> (string \<times> string \<times> nat) list" where
  "map_points geo r =
     concat (map (\<lambda>ip. case geo ip of
         None \<Rightarrow> []
       | Some country \<Rightarrow> [(ip, ip @ '' ('' @ country @ '')'', count_of (rp_ip_counts r) ip)]) (take 25 (unique_ips r)))"

definition map_section :: "numbers \<Rightarrow> (string \<Rightarrow> json option) option \<Rightarrow> report \<Rightarrow> string" where
  "map_section nm db r =
     (case db of
        Some _ \<Rightarrow>
     chunk [nl,
       ''        <div class='', [CHR 0x22], ''panel'', [CHR 0x22], ''>'', nl,
       ''          <h2>Source locations</h2>'', nl,
       ''          ''] @ render_map nm (map_points (geo_country db) r) @
     chunk [nl,
       ''        </div>'']
      | None \<Rightarrow>
     chunk [nl,
       ''        <div class='', [CHR 0x22], ''panel'', [CHR 0x22], ''>'', nl,
       ''          <h2>Source locations</h2>'', nl,
       ''          <p class='', [CHR 0x22], ''empty'', [CHR 0x22],
       ''>No GeoIP database configured -- pass --geoip path/to/GeoLite2-City.mmdb'', nl,
       ''          to enable the map and country breakdown.</p>'', nl,
       ''        </div>''])"

definition repeat_html :: "(string \<Rightarrow> string option) \<Rightarrow> report \<Rightarrow> string" where
  "repeat_html geo r =
     (if repeat_visitors r = [] then
     ''<p class='empty'>None yet -- worth watching for: a Mirai-style campaign often splits into a harvester bot that just verifies credentials work, and a separate loader bot that returns later (sometimes hours/days) to actually drop a payload using them. An IP showing up here is your signal to watch it for a download attempt.</p>''
      else html_table [''Source IP'', ''Successful logins'', ''First seen'', ''Last seen'', ''Usernames used'', ''Country'']
        (map (repeat_row geo) (repeat_visitors r)))"

text \<open>\<open>db\<close> is the GeoIP database, if one was opened.\<close>

definition page_head :: "numbers \<Rightarrow> (string \<Rightarrow> json option) option \<Rightarrow> report \<Rightarrow> string" where
  "page_head nm db r =
     (let geo = geo_country db
      in chunk [''<!doctype html>'', nl,
       ''<html><head><meta charset='', [CHR 0x22], ''utf-8'', [CHR 0x22], ''><meta name='', [CHR 0x22],
       ''viewport'', [CHR 0x22], '' content='', [CHR 0x22], ''width=device-width,initial-scale=1'',
       [CHR 0x22], ''>'', nl,
       ''<title>Honeypot Dashboard</title><style>''] @ css @
     chunk [''</style></head>'', nl,
       ''<body><div class='', [CHR 0x22], ''wrap'', [CHR 0x22], ''>'', nl,
       ''  <div>'', nl,
       ''    <h1>RISC-V Honeypot Dashboard</h1>'', nl,
       ''    <p class='', [CHR 0x22], ''subtitle'', [CHR 0x22], ''>Data from ''] @
     esc (py_or (first_seen r) ''-'') @ '' to '' @ esc (py_or (last_seen r) ''-'') @
     chunk [nl,
       ''    &middot; generated by tools/dashboard.py, a standalone read-only report -- not part of the honeypot itself.</p>'',
       nl,
       ''  </div>'', nl,
       ''  <div class='', [CHR 0x22], ''stats'', [CHR 0x22], ''>''] @
     concat (map stat_box (page_stats r)) @
     chunk [''</div>'', nl,
       ''  ''] @ map_section nm db r @
     chunk [nl,
       ''  <div class='', [CHR 0x22], ''grid-2'', [CHR 0x22], ''>'', nl,
       ''    <div class='', [CHR 0x22], ''panel'', [CHR 0x22], ''><h2>Top source IPs</h2>''] @
     html_table [''Source IP'', ''Sessions'', ''Country''] (map (ip_row geo r) (take 25 (unique_ips r))) @
     chunk [''</div>'', nl,
       ''    <div class='', [CHR 0x22], ''panel'', [CHR 0x22], ''><h2>Top countries</h2>''] @
     html_table [''Country'', ''Sessions'']
       (map (\<lambda>(c, n). [esc c, digits_of n]) (take 15 (most_common (country_counts geo r)))) @
     chunk [''</div>'', nl,
       ''  </div>'', nl])"

definition page_tables :: "(string \<Rightarrow> json option) option \<Rightarrow> report \<Rightarrow> string" where
  "page_tables db r =
     (let geo = geo_country db
      in chunk [''  <div class='', [CHR 0x22], ''panel'', [CHR 0x22], ''>'', nl,
       ''    <h2>Repeat successful logins (''] @ digits_of (length (repeat_visitors r)) @
     chunk ['')</h2>'', nl,
       ''    ''] @ repeat_html geo r @
     chunk [nl,
       ''  </div>'', nl,
       ''  <div class='', [CHR 0x22], ''panel'', [CHR 0x22], ''><h2>Last 10 commands</h2>''] @
     html_table [''Timestamp'', ''Session'', ''Command''] (map command_row (take 10 (rp_commands r))) @
     chunk [''</div>'', nl,
       ''  <div class='', [CHR 0x22], ''panel'', [CHR 0x22], ''><h2>Last 10 file downloads</h2>''] @
     html_table [''Timestamp'', ''Outcome'', ''URL'', ''Filename'', ''Bytes'', ''SHA256'', ''Detected type'', ''Arch vs. persona'']
       (map download_row (take 10 (rp_downloads r))) @
     chunk [''</div>'', nl])"

definition page_figures :: "numbers \<Rightarrow> report \<Rightarrow> string" where
  "page_figures nm r =
     chunk [''  <div class='', [CHR 0x22], ''grid-2'', [CHR 0x22], ''>'', nl,
       ''    <div class='', [CHR 0x22], ''panel'', [CHR 0x22]] @
     (if arm_version_donut (rp_downloads r) \<noteq> None then [] else chunk ['' style='grid-column:1/-1'', [CHR 0x27]]) @
     chunk [''>'', nl,
       ''      <h2>Downloads by architecture</h2>'', nl,
       ''      <p class='', [CHR 0x22], ''subtitle'', [CHR 0x22], '' style='', [CHR 0x22],
       ''margin:-4px 0 10px'', [CHR 0x22], ''>Successful downloads, grouped into CPU families'', nl,
       ''      (related machines lumped together, e.g. MIPS/MIPSEL) -- a &check; next to RISC-V is this honeypot's'',
       nl,
       ''      own persona architecture actually being matched, the whole point of the project.</p>'',
       nl,
       ''      ''] @ architecture_html nm (rp_downloads r) @
     chunk [nl,
       ''    </div>''] @ arm_section nm (rp_downloads r) @
     chunk [nl,
       ''  </div>'', nl,
       ''  <div class='', [CHR 0x22], ''panel'', [CHR 0x22], ''><h2>Failed downloads by reason</h2>''] @
     html_table [''Reason'', ''Count'', ''Stage-2''] (map failure_row (failure_breakdown (rp_downloads r))) @
     chunk [''</div>'', nl,
       ''  ''] @ off_list_section r @
     chunk [nl,
       ''  <div class='', [CHR 0x22], ''grid-2'', [CHR 0x22], ''>'', nl,
       ''    <div class='', [CHR 0x22], ''panel'', [CHR 0x22], ''><h2>Attempted usernames</h2>''] @
     word_cloud nm (rp_usernames r) ''No login attempts yet.'' @
     chunk [''</div>'', nl,
       ''    <div class='', [CHR 0x22], ''panel'', [CHR 0x22], ''><h2>Attempted passwords</h2>''] @
     word_cloud nm (rp_passwords r) ''No login attempts yet.'' @
     chunk [''</div>'', nl,
       ''  </div>'', nl,
       ''</div></body></html>'', nl]"

definition render_html :: "numbers \<Rightarrow> (string \<Rightarrow> json option) option \<Rightarrow> report \<Rightarrow> string" where
  "render_html nm db r =
     page_head nm db r @ page_tables db r @ page_figures nm r"

subsection \<open>The live page\<close>

text \<open>
  \<open>tools/dashboard_server.py\<close>: a view loads the log as it is now, and asks the browser to come back after
  \<open>refresh\<close> seconds.
\<close>

definition refresh_tag :: "int \<Rightarrow> string" where
  "refresh_tag refresh =
     chunk [''<head><meta http-equiv='', [CHR 0x22], ''refresh'', [CHR 0x22], '' content='', [CHR 0x22]] @
     int_text refresh @
     chunk [[CHR 0x22], ''>'']"

definition index_page :: "numbers \<Rightarrow> (string \<Rightarrow> json option) option \<Rightarrow> int \<Rightarrow> string \<Rightarrow> bool \<Rightarrow> log_dir \<Rightarrow> file_cache \<Rightarrow> string \<times> file_cache" where
  "index_page nm db refresh name include_rotated dir cache0 =
     (let (evs, cache) = load_events name include_rotated dir cache0;
          page = render_html nm db (make_report evs)
      in (if refresh > 0 then replace ''<head>'' (refresh_tag refresh) (Some 1) page else page, cache))"

end
