(* ===== verification/Status_Check.thy ===== *)
theory Status_Check
  imports Log_Files Charts Sanitize
begin

section \<open>The status report on a terminal\<close>

text \<open>
  \<open>tools/status_check.py\<close>. Its output is a list of lines. What depends on floating point is a parameter: the
  text of a percentage, and which logged durations exceed the thirty seconds of an idle session. The
  clock is the number of microseconds since the first day of year one.
\<close>

subsection \<open>Text that a terminal may show\<close>

text \<open>\<open>_printable\<close>, with the tool's own table.\<close>

definition printable_text :: "string \<Rightarrow> string" where
  "printable_text s =
     concat (map (\<lambda>c. case tool_unsafe_chars (of_char c) of None \<Rightarrow> [c] | Some t \<Rightarrow> map char_of t) s)"

text \<open>\<open>str\<close> of a field. The fields shown here are never written with a list or a dictionary.\<close>

definition value_text :: "json option \<Rightarrow> string" where
  "value_text v =
     (case v of Some (JStr s) \<Rightarrow> s | Some (JInt i) \<Rightarrow> int_text i | Some (JFloat t) \<Rightarrow> t
      | Some (JBool b) \<Rightarrow> if b then ''True'' else ''False'' | _ \<Rightarrow> ''None'')"

definition shown_field :: "string \<Rightarrow> log_event \<Rightarrow> string" where
  "shown_field k ev = printable_text (value_text (field k ev))"

definition shown_option :: "string option \<Rightarrow> string" where
  "shown_option v = printable_text (case v of None \<Rightarrow> ''None'' | Some s \<Rightarrow> s)"

text \<open>\<open>repr\<close> of a string, a tuple of strings and a dictionary of counts.\<close>

definition repr_char :: "char \<Rightarrow> char \<Rightarrow> string" where
  "repr_char q c =
     (let n = of_char c :: nat
      in if c = q \<or> c = CHR 0x5C then [CHR 0x5C, c]
         else if c = CHR 0x09 then [CHR 0x5C, CHR ''t'']
         else if c = CHR 0x0A then [CHR 0x5C, CHR ''n'']
         else if c = CHR 0x0D then [CHR 0x5C, CHR ''r'']
         else if n < 32 \<or> (127 \<le> n \<and> n \<le> 160) \<or> n = 173
         then [CHR 0x5C, CHR ''x'', hex_digit (n div 16), hex_digit n]
         else [c])"

definition repr_text :: "string \<Rightarrow> string" where
  "repr_text s =
     (let q = (if CHR 0x27 \<in> set s \<and> CHR 0x22 \<notin> set s then CHR 0x22 else CHR 0x27)
      in [q] @ concat (map (repr_char q) s) @ [q])"

definition repr_tuple :: "string list \<Rightarrow> string" where
  "repr_tuple ss =
     (case ss of [s] \<Rightarrow> ''('' @ repr_text s @ '',)'' | _ \<Rightarrow> ''('' @ join '', '' (map repr_text ss) @ '')'')"

definition repr_counts :: "(string \<times> nat) list \<Rightarrow> string" where
  "repr_counts c = ''{'' @ join '', '' (map (\<lambda>(k, n). repr_text k @ '': '' @ digits_of n) c) @ ''}''"

subsection \<open>Time stamps\<close>

record utc_time =
  ut_year :: nat
  ut_month :: nat
  ut_day :: nat
  ut_hour :: nat
  ut_minute :: nat
  ut_second :: nat

definition leap_year :: "nat \<Rightarrow> bool" where
  "leap_year y \<longleftrightarrow> y mod 4 = 0 \<and> (y mod 100 \<noteq> 0 \<or> y mod 400 = 0)"

definition month_days :: "nat \<Rightarrow> nat \<Rightarrow> nat" where
  "month_days y m = (if m = 2 then (if leap_year y then 29 else 28) else if m \<in> {4, 6, 9, 11} then 30 else 31)"

definition valid_time :: "utc_time \<Rightarrow> bool" where
  "valid_time t \<longleftrightarrow>
     1 \<le> ut_year t \<and> ut_year t \<le> 9999 \<and> 1 \<le> ut_month t \<and> ut_month t \<le> 12
     \<and> 1 \<le> ut_day t \<and> ut_day t \<le> month_days (ut_year t) (ut_month t)
     \<and> ut_hour t \<le> 23 \<and> ut_minute t \<le> 59 \<and> ut_second t \<le> 59"

text \<open>
  \<open>strptime(value, "%Y-%m-%dT%H:%M:%SZ")\<close>: four digits of a year, one or two digits of the rest, a day also
  after a blank, letters in either case, and a \<open>ValueError\<close> for a date or a time that does not exist.
\<close>

definition cut_at :: "char set \<Rightarrow> string \<Rightarrow> (string \<times> string) option" where
  "cut_at cs s =
     (let w = takeWhile (\<lambda>c. c \<notin> cs) s in if length w < length s then Some (w, drop (Suc (length w)) s) else None)"

definition short_number :: "string \<Rightarrow> nat option" where
  "short_number s = (if length s \<in> {1, 2} \<and> list_all is_digit s then Some (decimal_value s) else None)"

definition day_number :: "string \<Rightarrow> nat option" where
  "day_number s =
     (case s of
        [b, d] \<Rightarrow> if b = CHR '' '' then short_number [d] else short_number s
      | _ \<Rightarrow> short_number s)"

definition year_number :: "string \<Rightarrow> nat option" where
  "year_number s = (if length s = 4 \<and> list_all is_digit s then Some (decimal_value s) else None)"

definition strptime :: "string \<Rightarrow> utc_time option" where
  "strptime s0 =
     Option.bind (cut_at {CHR ''-''} s0) (\<lambda>(y, s1).
     Option.bind (cut_at {CHR ''-''} s1) (\<lambda>(mo, s2).
     Option.bind (cut_at {CHR ''T'', CHR ''t''} s2) (\<lambda>(d, s3).
     Option.bind (cut_at {CHR '':''} s3) (\<lambda>(h, s4).
     Option.bind (cut_at {CHR '':''} s4) (\<lambda>(mi, s5).
     Option.bind (cut_at {CHR ''Z'', CHR ''z''} s5) (\<lambda>(sec, rest).
     Option.bind (year_number y) (\<lambda>year.
     Option.bind (short_number mo) (\<lambda>month.
     Option.bind (day_number d) (\<lambda>day.
     Option.bind (short_number h) (\<lambda>hour.
     Option.bind (short_number mi) (\<lambda>minute.
     Option.bind (short_number sec) (\<lambda>second.
       let t = \<lparr>ut_year = year, ut_month = month, ut_day = day, ut_hour = hour, ut_minute = minute, ut_second = second\<rparr>
       in if rest = [] \<and> valid_time t then Some t else None))))))))))))"

definition parse_timestamp :: "json option \<Rightarrow> utc_time option" where
  "parse_timestamp v = (case v of Some (JStr s) \<Rightarrow> strptime s | _ \<Rightarrow> None)"

definition pad :: "nat \<Rightarrow> nat \<Rightarrow> string" where
  "pad w n = replicate (w - length (digits_of n)) (CHR ''0'') @ digits_of n"

definition utc_text :: "utc_time \<Rightarrow> string" where
  "utc_text t =
     pad 4 (ut_year t) @ ''-'' @ pad 2 (ut_month t) @ ''-'' @ pad 2 (ut_day t) @ ''T''
     @ pad 2 (ut_hour t) @ '':'' @ pad 2 (ut_minute t) @ '':'' @ pad 2 (ut_second t) @ ''Z''"

definition day_ordinal :: "nat \<Rightarrow> nat \<Rightarrow> nat \<Rightarrow> nat" where
  "day_ordinal y m d =
     (let p = y - 1 in p * 365 + p div 4 - p div 100 + p div 400 + sum_list (map (month_days y) [1..<m]) + d)"

definition seconds_of :: "utc_time \<Rightarrow> int" where
  "seconds_of t =
     ((int (day_ordinal (ut_year t) (ut_month t) (ut_day t)) * 24 + int (ut_hour t)) * 60 + int (ut_minute t)) * 60
     + int (ut_second t)"

definition format_age :: "int \<Rightarrow> string" where
  "format_age age =
     (let total_minutes = nat (max 0 (age div 60000000)); h = total_minutes div 60; m = total_minutes mod 60
      in if h \<noteq> 0 then digits_of h @ ''h'' @ pad 2 m @ ''m'' else digits_of m @ ''m'')"

text \<open>\<open>max(stamped, key=...)\<close>: the first of the latest.\<close>

fun latest_of :: "utc_time \<Rightarrow> utc_time list \<Rightarrow> utc_time" where
  "latest_of t [] = t"
| "latest_of t (u # us) = latest_of (if seconds_of t < seconds_of u then u else t) us"

definition stamped_times :: "log_event list \<Rightarrow> utc_time list" where
  "stamped_times evs = List.map_filter (\<lambda>e. parse_timestamp (field ''timestamp'' e)) evs"

definition liveness_lines :: "log_event list \<Rightarrow> int \<Rightarrow> int \<Rightarrow> string list" where
  "liveness_lines evs now stale =
     (case stamped_times evs of
        [] \<Rightarrow> [''Newest event: (none in this log)'']
      | t # ts \<Rightarrow>
          let newest = latest_of t ts;
              age = now - seconds_of newest * 1000000;
              beats = stamped_times (filter (\<lambda>e. event_type e = ''honeypot.heartbeat'') evs)
          in [''Newest event: '' @ utc_text newest @ ''  ('' @ format_age age @ '' ago)'']
             @ (case beats of [] \<Rightarrow> []
                | b # bs \<Rightarrow> [''Heartbeat:    last '' @ utc_text (latest_of b bs) @ '', '' @ digits_of (length beats) @ '' in this log''])
             @ (if age > stale
                then [''WARNING:      nothing logged for '' @ format_age age @ ''. If this is the live log, the honeypot ''
                      @ ''may be down: check `docker compose ps` and `docker compose logs honeypot`.'']
                else []))"

subsection \<open>SSH clients, keys and silent sessions\<close>

text \<open>The field \<open>k\<close> of the last event of a kind, per session.\<close>

definition session_values :: "string \<Rightarrow> string \<Rightarrow> log_event list \<Rightarrow> (string \<times> string option) list" where
  "session_values k kind evs =
     fold (\<lambda>e m. case opt_text ''session_id'' e of
         Some sid \<Rightarrow> if event_type e = kind then AList.update sid (opt_text k e) m else m
       | None \<Rightarrow> m) evs []"

definition client_lines :: "nat \<Rightarrow> (string \<times> string option) list \<Rightarrow> string list" where
  "client_lines limit client_of =
     (if client_of = [] then []
      else
        let counts = counter (map snd client_of)
        in [[], ''SSH client versions ('' @ digits_of (length client_of) @ '' sessions, '' @ digits_of (length counts)
              @ '' distinct):'']
           @ map (\<lambda>(v, n). ''  '' @ rjust 5 (digits_of n) @ ''  '' @ shown_option v) (take limit (most_common counts)))"

text \<open>A public key's type, the addresses that offered it, and how often.\<close>

record key_use =
  ku_type :: "string option"
  ku_ips :: "string option list"
  ku_count :: nat

definition key_uses :: "log_event list \<Rightarrow> (string \<times> key_use) list" where
  "key_uses attempts =
     fold (\<lambda>a keys. case opt_text ''key_fingerprint'' a of
         Some fp \<Rightarrow>
           if opt_text ''method'' a = Some ''publickey'' \<and> fp \<noteq> []
           then let u = (case map_of keys fp of Some u \<Rightarrow> u | None \<Rightarrow> \<lparr>ku_type = opt_text ''key_type'' a, ku_ips = [], ku_count = 0\<rparr>)
                in AList.update fp (u\<lparr>ku_ips := List.insert (opt_text ''src_ip'' a) (ku_ips u), ku_count := Suc (ku_count u)\<rparr>) keys
           else keys
       | None \<Rightarrow> keys) attempts []"

definition shared_keys :: "(string \<times> key_use) list \<Rightarrow> (nat \<times> string \<times> key_use) list" where
  "shared_keys keys =
     sort_key (\<lambda>(n, fp, u). (- int n, fp))
       (map (\<lambda>(fp, u). (length (ku_ips u), fp, u)) (filter (\<lambda>(fp, u). length (ku_ips u) > 1) keys))"

definition attempt_lines :: "nat \<Rightarrow> log_event list \<Rightarrow> string list" where
  "attempt_lines limit attempts =
     (if attempts = [] then []
      else
        let methods = counter (map (opt_text ''method'') attempts);
            keys = key_uses attempts;
            shared = shared_keys keys;
            users = counter (map (opt_text ''username'') attempts)
        in [[], ''Non-password auth attempts: '' @ digits_of (length attempts) @ '' (''
              @ join '', '' (map (\<lambda>(m, n). shown_option m @ '' '' @ digits_of n) (most_common methods)) @ ''), ''
              @ digits_of (length keys) @ '' distinct public keys'']
           @ (if shared = [] then []
              else ''  Keys offered from more than one source IP (one campaign or toolkit):''
                   # map (\<lambda>(n, fp, u). ''    '' @ rjust 3 (digits_of n) @ '' IPs  '' @ shown_option (ku_type u) @ ''  ''
                       @ printable_text fp) (take limit shared))
           @ [''  Usernames: '' @ join '', '' (map (\<lambda>(u, n). shown_option u @ '' x'' @ digits_of n) (take limit (most_common users)))])"

text \<open>\<open>duration_seconds > idle_seconds\<close>, for the thirty seconds that the code is called with.\<close>

definition idle_long :: "(string \<Rightarrow> bool) \<Rightarrow> log_event \<Rightarrow> bool" where
  "idle_long exceeds ev =
     (case field ''duration_seconds'' ev of Some (JInt i) \<Rightarrow> i > 30 | Some (JFloat t) \<Rightarrow> exceeds t | _ \<Rightarrow> False)"

definition active_sessions :: "log_event list \<Rightarrow> string option set" where
  "active_sessions evs =
     set (map (opt_text ''session_id'') (filter (\<lambda>e.
       (is_login e \<or> event_type e = ''command.input'') \<and> field ''session_id'' e \<noteq> None) evs))"

definition methods_of :: "log_event list \<Rightarrow> string option \<Rightarrow> string list" where
  "methods_of attempts sid =
     sort (remdups (map (\<lambda>a. value_text (field ''method'' a)) (filter (\<lambda>a. opt_text ''session_id'' a = sid) attempts)))"

definition session_value :: "(string \<times> string option) list \<Rightarrow> string option \<Rightarrow> string option" where
  "session_value m sid = Option.bind sid (\<lambda>s. Option.bind (map_of m s) id)"

definition silent_sessions :: "(string \<Rightarrow> bool) \<Rightarrow> log_event list \<Rightarrow> ((string option \<times> string option \<times> string list) \<times> nat) list" where
  "silent_sessions exceeds evs =
     (let ip_of = session_values ''src_ip'' ''session.connect'' evs;
          client_of = session_values ''client_id'' ''session.client_version'' evs;
          attempts = filter (\<lambda>e. event_type e = ''auth.attempt'') evs
      in counter (map (\<lambda>e. let sid = opt_text ''session_id'' e
                           in (session_value ip_of sid, session_value client_of sid, methods_of attempts sid))
           (filter (\<lambda>e. event_type e = ''session.closed'' \<and> opt_text ''session_id'' e \<notin> active_sessions evs
                        \<and> idle_long exceeds e) evs)))"

definition silent_line :: "(string option \<times> string option \<times> string list) \<times> nat \<Rightarrow> string" where
  "silent_line row =
     (case row of ((ip, client, kinds), n) \<Rightarrow>
        ''  '' @ rjust 4 (digits_of n) @ ''  ''
        @ ljust 16 (case ip of None \<Rightarrow> ''?'' | Some t \<Rightarrow> if t = [] then ''?'' else printable_text t) @ '' ''
        @ (case client of None \<Rightarrow> ''-'' | Some c \<Rightarrow> if c = [] then ''-'' else printable_text c) @ ''  ''
        @ (let names = join ''/'' (map printable_text kinds) in if names = [] then ''no auth attempt'' else names))"

definition silent_lines :: "nat \<Rightarrow> ((string option \<times> string option \<times> string list) \<times> nat) list \<Rightarrow> string list" where
  "silent_lines limit silent =
     (if silent = [] then []
      else [[], ''Sessions held open > 30s without trying a login or command ('' @ digits_of (sum_list (map snd silent)) @ ''):'']
           @ map silent_line (take limit (most_common silent)))"

definition ssh_summary :: "(string \<Rightarrow> bool) \<Rightarrow> nat \<Rightarrow> log_event list \<Rightarrow> string list" where
  "ssh_summary exceeds limit evs =
     client_lines limit (session_values ''client_id'' ''session.client_version'' evs)
     @ attempt_lines limit (filter (\<lambda>e. event_type e = ''auth.attempt'') evs)
     @ silent_lines limit (silent_sessions exceeds evs)"

subsection \<open>Downloads\<close>

fun hex_digits :: "nat \<Rightarrow> string" where
  "hex_digits n = (if n < 16 then [hex_digit n] else hex_digits (n div 16) @ [hex_digit n])"

declare hex_digits.simps [simp del]

definition hex_text :: "int \<Rightarrow> string" where
  "hex_text i = (if i < 0 then ''-'' else []) @ ''0x'' @ hex_digits (nat \<bar>i\<bar>)"

text \<open>The details of an ELF file that have a value: class, byte order, and the ABI or else the raw flags.\<close>

definition elf_details :: "log_event \<Rightarrow> string list" where
  "elf_details d =
     (case field ''detected_bitness'' d of Some (JInt i) \<Rightarrow> if i = 0 then [] else [int_text i @ ''-bit''] | _ \<Rightarrow> [])
     @ (let e = py_or (opt_text ''detected_endianness'' d) [] in if e = [] then [] else [e])
     @ (let abi_text = py_or (opt_text ''detected_abi'' d) []
        in if abi_text \<noteq> [] then [abi_text]
           else case field ''detected_flags'' d of Some (JInt i) \<Rightarrow> if i = 0 then [] else [''flags='' @ hex_text i] | _ \<Rightarrow> [])"

definition download_line :: "log_event \<Rightarrow> string" where
  "download_line d =
     (let tag = (if has_stage d then ''[stage '' @ shown_field ''stage'' d @ ''] '' else []);
          machine = py_or (opt_text ''detected_machine'' d) [];
          arch = (if machine = [] then [] else ''  '' @ printable_text (join '' '' (machine # elf_details d)));
          outcome_text = printable_text (case field ''outcome'' d of None \<Rightarrow> ''-'' | v \<Rightarrow> value_text v)
      in ''  '' @ shown_field ''timestamp'' d @ ''  '' @ ljust 8 outcome_text @ ''  '' @ tag
         @ shown_field ''url'' d @ arch)"

subsection \<open>The whole report\<close>

record status_env =
  se_now :: int
  se_stale :: int
  se_percent :: "nat \<Rightarrow> nat \<Rightarrow> string"
  se_above :: "string \<Rightarrow> bool"

definition summary_lines :: "status_env \<Rightarrow> nat \<Rightarrow> log_event list \<Rightarrow> report \<Rightarrow> string list" where
  "summary_lines env limit all_events r =
     [''Window:       '' @ printable_text (py_or (first_seen r) ''-'') @ ''  to  '' @ printable_text (py_or (last_seen r) ''-'')]
     @ liveness_lines all_events (se_now env) (se_stale env)
     @ [''Volume:       '' @ digits_of (length (rp_sessions r)) @ '' sessions'',
        ''Unique IPs:   '' @ digits_of (length (unique_ips r)),
        ''Protocols:    '' @ printable_text (repr_counts (counter (map (\<lambda>(sid, ip, proto). proto) (rp_sessions r)))),
        ''Logins:       '' @ digits_of (rp_success r) @ '' succeeded / '' @ digits_of (rp_success r + rp_failed r) @ '' total (''
          @ (if rp_success r + rp_failed r = 0 then ''0.0'' else se_percent env (rp_success r) (rp_success r + rp_failed r)) @ ''%)'',
        ''Off-wordlist: '' @ digits_of (length (rp_off_list r)) @ '' credential attempts'',
        ''Downloads:    '' @ digits_of (length (rp_downloads r)) @ '' attempts, ''
          @ digits_of (length (successes (rp_downloads r))) @ '' succeeded'',
        ''Repeat IPs:   '' @ digits_of (length (repeat_visitors r)) @ '' logged in successfully more than once'',
        [], ''Top '' @ digits_of limit @ '' source IPs:'']
     @ map (\<lambda>ip. ''  '' @ rjust 5 (digits_of (count_of (rp_ip_counts r) ip)) @ ''  '' @ printable_text ip) (take limit (unique_ips r))"

definition pattern_lines :: "nat \<Rightarrow> (string list \<times> nat) list \<Rightarrow> string list" where
  "pattern_lines limit patterns =
     (let blank = count_of patterns [] + count_of patterns [[]];
          notable = filter (\<lambda>(p, c). p \<notin> {[], [[]]}) (most_common patterns)
      in [[], ''Command patterns across successful logins ('' @ digits_of blank @ '' sent nothing -- harvester-style):'']
         @ (if notable = [] then [''  (none -- every successful login sent nothing)'']
            else map (\<lambda>(p, c). ''  '' @ rjust 5 (digits_of c) @ ''  '' @ printable_text (repr_tuple p)) (take limit notable)))"

definition visitor_line :: "string \<times> log_event list \<Rightarrow> string" where
  "visitor_line v =
     (case v of (ip, logins) \<Rightarrow>
        ''  '' @ rjust 3 (digits_of (length logins)) @ '' logins  '' @ ljust 16 (printable_text ip) @ '' usernames: ''
        @ join '', '' (map printable_text (sort (remdups (map (text_field ''username'' []) logins)))))"

definition status_lines :: "status_env \<Rightarrow> nat \<Rightarrow> string list \<Rightarrow> log_event list \<Rightarrow> string list" where
  "status_lines env limit excluded all_events =
     (let evs = filter_excluded_ips all_events excluded;
          r = make_report evs
      in summary_lines env limit all_events r
         @ ssh_summary (se_above env) limit evs
         @ pattern_lines limit (command_patterns r)
         @ (if rp_downloads r = [] then [] else [[], ''Download attempts:''] @ map download_line (rp_downloads r))
         @ (if repeat_visitors r = [] then []
            else [[], ''Top '' @ digits_of limit @ '' repeat visitors:''] @ map visitor_line (take limit (repeat_visitors r))))"

subsection \<open>Nothing acts on the terminal\<close>

definition safe_char :: "char \<Rightarrow> bool" where
  "safe_char c \<longleftrightarrow> \<not> unsafe_code (of_char c)"

abbreviation safe_text :: "string \<Rightarrow> bool" where
  "safe_text s \<equiv> list_all safe_char s"

text \<open>The characters of the code's own literals.\<close>

definition literal_chars :: string where
  "literal_chars =
     ''abcdefghijklmnopqrstuvwxyzABCDEFGHIJKLMNOPQRSTUVWXYZ0123456789 .,:;!?+-*/=<>()[]{}|&%$#@^~_'' @ [CHR 0x22, CHR 0x27, CHR 0x5C, CHR 0x60]"

lemma literal_safe: "c \<in> set literal_chars \<Longrightarrow> safe_char c"
proof -
  have "list_all (\<lambda>c. 32 \<le> (of_char c :: nat) \<and> (of_char c :: nat) \<le> 126) literal_chars"
    by (simp add: literal_chars_def)
  moreover assume "c \<in> set literal_chars"
  ultimately have "32 \<le> (of_char c :: nat)" "(of_char c :: nat) \<le> 126" by (auto simp: list_all_iff)
  then show "safe_char c" unfolding safe_char_def by (rule printable_safe)
qed

lemma safe_literal: "list_all (\<lambda>c. c \<in> set literal_chars) s \<Longrightarrow> safe_text s"
  using literal_safe by (auto simp: list_all_iff)

lemma safe_printable: "safe_text (printable_text s)"
proof -
  have "safe_char x" if "unsafe_table (of_char c) = Some t" "x \<in> set (map char_of t)" for c :: char and t x
  proof -
    from that(2) obtain n where n: "n \<in> set t" "x = char_of n" by auto
    from escape_printable [OF that(1) n(1)] have "32 \<le> n" "n \<le> 126" by simp_all
    with n(2) show ?thesis by (simp add: safe_char_def printable_safe)
  qed
  moreover have "safe_char c" if "unsafe_table (of_char c) = None" for c
    using that by (simp add: safe_char_def unsafe_table_None)
  ultimately show ?thesis by (auto simp: printable_text_def tables_agree list_all_iff split: option.splits)
qed

lemma safe_digits: "safe_text (digits_of n)"
proof -
  have "safe_char c" if "is_digit c" for c
    using that by (simp add: safe_char_def is_digit_def Let_def printable_safe)
  with digits_of_digits [of n] show ?thesis by (auto simp: list_all_iff)
qed

lemma safe_append: "safe_text s \<Longrightarrow> safe_text t \<Longrightarrow> safe_text (s @ t)"
  by simp

lemma safe_join: "safe_text sep \<Longrightarrow> list_all safe_text ss \<Longrightarrow> safe_text (join sep ss)"
  by (induction sep ss rule: join.induct) auto

lemma safe_fill: "safe_text (replicate n CHR '' '')" "safe_text (replicate n CHR ''0'')"
proof -
  have "safe_char CHR '' ''" "safe_char CHR ''0''" by (rule literal_safe, code_simp)+
  then show "safe_text (replicate n CHR '' '')" "safe_text (replicate n CHR ''0'')" by (induction n) simp_all
qed

lemma safe_just:
  "safe_text s \<Longrightarrow> safe_text (rjust w s)" "safe_text s \<Longrightarrow> safe_text (ljust w s)" "safe_text (pad w n)"
  unfolding rjust_def ljust_def pad_def by (intro safe_append safe_fill safe_digits; assumption)+

lemma safe_if: "(b \<Longrightarrow> safe_text s) \<Longrightarrow> (\<not> b \<Longrightarrow> safe_text t) \<Longrightarrow> safe_text (if b then s else t)"
  by simp

lemma safe_shown: "safe_text (shown_field k ev)" "safe_text (shown_option v)"
  by (simp_all add: shown_field_def shown_option_def safe_printable)

lemmas safe_rules = safe_append safe_join safe_just safe_digits safe_printable safe_shown

abbreviation safe_lines :: "string list \<Rightarrow> bool" where
  "safe_lines ls \<equiv> list_all safe_text ls"

lemma lines_append: "safe_lines xs \<Longrightarrow> safe_lines ys \<Longrightarrow> safe_lines (xs @ ys)"
  by simp

lemma lines_Cons: "safe_text x \<Longrightarrow> safe_lines xs \<Longrightarrow> safe_lines (x # xs)"
  by simp

lemma lines_Nil: "safe_lines []"
  by simp

lemma lines_map: "(\<And>x. safe_text (f x)) \<Longrightarrow> safe_lines (map f xs)"
  by (simp add: list_all_iff)

lemma lines_if: "(b \<Longrightarrow> safe_lines s) \<Longrightarrow> (\<not> b \<Longrightarrow> safe_lines t) \<Longrightarrow> safe_lines (if b then s else t)"
  by simp

lemmas line_rules = lines_append lines_Cons lines_Nil lines_map lines_if

lemma safe_utc: "safe_text (utc_text t)"
  unfolding utc_text_def by (intro safe_rules; rule safe_literal, code_simp)

lemma safe_age: "safe_text (format_age a)"
  unfolding format_age_def Let_def by (intro safe_if safe_rules; rule safe_literal, code_simp)

lemma safe_liveness: "safe_lines (liveness_lines evs now stale)"
  unfolding liveness_lines_def Let_def
  by (split list.split, intro conjI impI allI; (split list.split, intro conjI impI allI)?;
      intro line_rules safe_append safe_utc safe_age safe_digits; rule safe_literal, code_simp)

lemma safe_client_lines: "safe_lines (client_lines limit clients)"
  unfolding client_lines_def Let_def case_prod_beta
  by (intro line_rules safe_rules; rule safe_literal, code_simp)

lemma safe_attempt_lines: "safe_lines (attempt_lines limit attempts)"
  unfolding attempt_lines_def Let_def case_prod_beta
  by (intro line_rules safe_rules; rule safe_literal, code_simp)

lemma safe_silent_line: "safe_text (silent_line row)"
proof -
  obtain k n where kn: "row = (k, n)" by (cases row)
  obtain ip client kinds where k: "k = (ip, client, kinds)" by (cases k)
  note row = kn [unfolded k]
  have o: "safe_text (case v of None \<Rightarrow> d | Some t \<Rightarrow> if t = [] then d else printable_text t)" if "safe_text d" for v d
    using that safe_printable by (cases v) simp_all
  show ?thesis unfolding silent_line_def row prod.case Let_def
    by (intro safe_append safe_just safe_digits o safe_if safe_join lines_map safe_printable; rule safe_literal, code_simp)
qed

lemma safe_silent_lines: "safe_lines (silent_lines limit silent)"
  unfolding silent_lines_def Let_def
  by (intro line_rules safe_rules safe_silent_line; rule safe_literal, code_simp)

lemma safe_download_line: "safe_text (download_line d)"
  unfolding download_line_def Let_def
  by (intro safe_if safe_rules; rule safe_literal, code_simp)

lemma safe_pattern_lines: "safe_lines (pattern_lines limit patterns)"
  unfolding pattern_lines_def Let_def case_prod_beta
  by (intro line_rules safe_rules; rule safe_literal, code_simp)

lemma safe_visitor_line: "safe_text (visitor_line v)"
  unfolding visitor_line_def case_prod_beta
  by (intro safe_append safe_just safe_digits safe_join lines_map safe_printable; rule safe_literal, code_simp)

lemma safe_summary_lines:
  assumes "\<And>m n. safe_text (se_percent env m n)"
  shows "safe_lines (summary_lines env limit evs r)"
  unfolding summary_lines_def
  by (intro line_rules safe_liveness safe_if safe_rules assms; rule safe_literal, code_simp)

text \<open>
  C20. Nothing that the status report prints can act on the operator's terminal: whatever names, commands,
  URLs, banners, fingerprints and patterns a log holds, no line contains a control or an invisible
  character, not even a line break, so no line is an attacker's. The percentage's text is the hypothesis.
\<close>
theorem status_report_is_inert:
  assumes "\<And>m n. safe_text (se_percent env m n)"
  shows "list_all (list_all (\<lambda>c. \<not> acts_on_terminal (of_char c))) (status_lines env limit excluded evs)"
proof -
  have "safe_lines (status_lines env limit excluded evs)"
    unfolding status_lines_def Let_def ssh_summary_def
    by (intro line_rules safe_summary_lines safe_client_lines safe_attempt_lines safe_silent_lines safe_pattern_lines
        safe_download_line safe_visitor_line safe_rules assms; rule safe_literal, code_simp)
  then show ?thesis by (simp add: safe_char_def [abs_def] acts_on_terminal_iff)
qed

theorem status_report_is_inert_witness:
  "list_all (list_all (\<lambda>c. \<not> acts_on_terminal (of_char c)))
     (status_lines \<lparr>se_now = 0, se_stale = 0, se_percent = (\<lambda>_ _. ''50.0''), se_above = (\<lambda>_. True)\<rparr> 10 [''10.0.0.1'']
       [[(''event'', JStr ''command.input''), (''raw'', JStr (''a'' @ [CHR 0x1B] @ ''[2J''))]])"
proof -
  have "safe_text ''50.0''" by (rule safe_literal, code_simp)
  then show ?thesis by (intro status_report_is_inert) simp
qed

subsection \<open>Silence is reported\<close>

lemma pad_short: "n < 10 ^ w \<Longrightarrow> 0 < w \<Longrightarrow> length (pad w n) = w"
proof -
  have "length (digits_of n) \<le> w" if "n < 10 ^ w" "0 < w" for n w
    using that
  proof (induction n arbitrary: w rule: digits_of.induct)
    case (1 n)
    show ?case
    proof (cases "n < 10")
      case True
      with 1(3) show ?thesis by (simp add: digits_of.simps [of n])
    next
      case False
      obtain v where v: "w = Suc v" using 1(3) by (cases w) auto
      have "n div 10 < 10 ^ v" using 1(2) v by (intro less_mult_imp_div_less) (simp add: mult.commute)
      moreover from this False have "0 < v" by (cases v) auto
      ultimately have "length (digits_of (n div 10)) \<le> v" using 1(1) False by blast
      with False v show ?thesis by (subst digits_of.simps) simp
    qed
  qed
  then show "n < 10 ^ w \<Longrightarrow> 0 < w \<Longrightarrow> length (pad w n) = w" by (simp add: pad_def)
qed

lemma pad_digits: "list_all is_digit (pad w n)"
proof -
  have "is_digit CHR ''0''" by code_simp
  then have "list_all is_digit (replicate k CHR ''0'')" for k by (induction k) simp_all
  with digits_of_digits show ?thesis by (simp add: pad_def)
qed

lemma pad_value: "decimal_value (pad w n) = n"
proof -
  have "foldl (\<lambda>n c. 10 * n + digit_value c) 0 (replicate k CHR ''0'' @ ds) = foldl (\<lambda>n c. 10 * n + digit_value c) 0 ds" for k ds
    by (induction k) (simp_all add: digit_value_def)
  then show ?thesis using decimal_value_digits_of [of n] by (simp add: pad_def decimal_value_def)
qed

lemma cut_at_digits:
  assumes "list_all is_digit s" "c \<in> cs" "list_all (\<lambda>c. \<not> is_digit c) cl" "cs = set cl"
  shows "cut_at cs (s @ c # rest) = Some (s, rest)"
proof -
  have "takeWhile (\<lambda>c. c \<notin> cs) (s @ c # rest) = s"
    using assms by (subst takeWhile_append2) (auto simp: list_all_iff)
  then show ?thesis by (simp add: cut_at_def Let_def)
qed

lemma strptime_utc_text:
  assumes "valid_time t"
  shows "strptime (utc_text t) = Some t"
proof -
  have r: "ut_month t < 10 ^ 2" "ut_day t < 10 ^ 2" "ut_hour t < 10 ^ 2" "ut_minute t < 10 ^ 2" "ut_second t < 10 ^ 2" "ut_year t < 10 ^ 4"
  proof -
    have "month_days y m \<le> 31" for y m by (simp add: month_days_def)
    then have "ut_day t \<le> 31" using assms order_trans unfolding valid_time_def by blast
    with assms show "ut_month t < 10 ^ 2" "ut_day t < 10 ^ 2" "ut_hour t < 10 ^ 2" "ut_minute t < 10 ^ 2" "ut_second t < 10 ^ 2"
      "ut_year t < 10 ^ 4"
      by (simp_all add: valid_time_def)
  qed
  have sep: "list_all (\<lambda>c. \<not> is_digit c) [CHR ''-'']" "list_all (\<lambda>c. \<not> is_digit c) [CHR ''T'', CHR ''t'']"
    "list_all (\<lambda>c. \<not> is_digit c) [CHR '':'']" "list_all (\<lambda>c. \<not> is_digit c) [CHR ''Z'', CHR ''z'']"
    by code_simp+
  have c: "cut_at {CHR ''-''} (pad w n @ CHR ''-'' # x) = Some (pad w n, x)"
    "cut_at {CHR ''T'', CHR ''t''} (pad w n @ CHR ''T'' # x) = Some (pad w n, x)"
    "cut_at {CHR '':''} (pad w n @ CHR '':'' # x) = Some (pad w n, x)"
    "cut_at {CHR ''Z'', CHR ''z''} (pad w n @ CHR ''Z'' # x) = Some (pad w n, x)" for w n x
    using cut_at_digits [OF pad_digits _ sep(1)] cut_at_digits [OF pad_digits _ sep(2)]
      cut_at_digits [OF pad_digits _ sep(3)] cut_at_digits [OF pad_digits _ sep(4)] by simp_all
  have s: "short_number (pad 2 n) = Some n" if "n < 10 ^ 2" for n
    using pad_short [OF that] pad_digits pad_value by (simp add: short_number_def)
  have d: "day_number (pad 2 n) = Some n" if n: "n < 10 ^ 2" for n
  proof -
    obtain a b where ab: "pad 2 n = [a, b]" using pad_short [OF n] by (auto simp: numeral_2_eq_2 length_Suc_conv)
    have "is_digit a" using pad_digits [of 2 n] ab by simp
    moreover have "\<not> is_digit CHR '' ''" by code_simp
    ultimately have "a \<noteq> CHR '' ''" by auto
    with s [OF n] ab show ?thesis by (simp add: day_number_def)
  qed
  have y: "year_number (pad 4 (ut_year t)) = Some (ut_year t)"
    using pad_short [OF r(6)] pad_digits pad_value by (simp add: year_number_def)
  have eta: "\<lparr>ut_year = ut_year t, ut_month = ut_month t, ut_day = ut_day t, ut_hour = ut_hour t,
      ut_minute = ut_minute t, ut_second = ut_second t\<rparr> = t"
    by (cases t) simp
  show ?thesis
    unfolding utc_text_def strptime_def append_Cons append_Nil append_assoc
    by (simp only: c Option.bind.simps prod.case y s [OF r(1)] s [OF r(3)] s [OF r(4)] s [OF r(5)] d [OF r(2)])
      (simp add: eta assms)
qed

lemma latest_in: "latest_of t ts \<in> set (t # ts)"
  by (induction ts arbitrary: t) (auto split: if_splits)

lemma latest_max: "v \<in> set (t # ts) \<Longrightarrow> seconds_of v \<le> seconds_of (latest_of t ts)"
proof (induction ts arbitrary: t v)
  case (Cons u ts)
  define m where "m = (if seconds_of t < seconds_of u then u else t)"
  have m: "seconds_of m \<le> seconds_of (latest_of m ts)" "seconds_of t \<le> seconds_of m" "seconds_of u \<le> seconds_of m"
    using Cons.IH [of m m] by (simp_all add: m_def)
  have l: "latest_of t (u # ts) = latest_of m ts" by (simp add: m_def)
  from Cons.prems consider "v = t" | "v = u" | "v \<in> set ts" by auto
  then show ?case
  proof cases
    case 3
    then show ?thesis unfolding l by (intro Cons.IH) simp
  qed (use m l in simp_all)
qed simp

lemma stamped_logged:
  "list_all (\<lambda>(t, e). valid_time t) log \<Longrightarrow>
     stamped_times (map (\<lambda>(t, e). logged (utc_text t) e) log) = map fst log"
  by (induction log)
    (auto simp: stamped_times_def map_filter_simps logged_def field_def parse_timestamp_def strptime_utc_text)

lemma startswith_simps: "startswith s [] = True" "startswith (c # s) (d # t) = (c = d \<and> startswith s t)"
  by (simp_all add: startswith_def)

lemma warning_iff:
  assumes "list_all (\<lambda>(t, e). valid_time t) log"
  shows "list_ex (\<lambda>l. startswith l ''WARNING'') (liveness_lines (map (\<lambda>(t, e). logged (utc_text t) e) log) now stale)
       \<longleftrightarrow> log \<noteq> [] \<and> list_all (\<lambda>(t, e). stale < now - seconds_of t * 1000000) log"
proof -
  have w: "list_ex (\<lambda>l. startswith l ''WARNING'') (liveness_lines evs now stale)
      \<longleftrightarrow> (case stamped_times evs of [] \<Rightarrow> False | t # ts \<Rightarrow> stale < now - seconds_of (latest_of t ts) * 1000000)" for evs
    by (simp add: liveness_lines_def Let_def startswith_simps split: list.split)
  have "(stale < now - seconds_of (latest_of t ts) * 1000000)
      \<longleftrightarrow> (\<forall>v \<in> set (t # ts). stale < now - seconds_of v * 1000000)" for t ts
    using latest_max [of _ t ts] latest_in [of t ts] by fastforce
  then show ?thesis
    unfolding w stamped_logged [OF assms] 
    by (cases log) (auto simp: list_all_iff)
qed

text \<open>
  C40. The report warns of silence exactly when there is silence: for a log as the honeypot writes it, the
  warning is printed if and only if the log has events and every one of them is older than the limit.
  The time stamps are read back as they were written.
\<close>
theorem silence_is_reported:
  assumes "list_all (\<lambda>(t, e). valid_time t) log" and "valid_time u"
  shows "(list_ex (\<lambda>l. startswith l ''WARNING'') (liveness_lines (map (\<lambda>(t, e). logged (utc_text t) e) log) now stale)
       \<longleftrightarrow> log \<noteq> [] \<and> list_all (\<lambda>(t, e). stale < now - seconds_of t * 1000000) log)
     \<and> strptime (utc_text u) = Some u"
  using warning_iff [OF assms(1)] strptime_utc_text [OF assms(2)] by blast

theorem silence_is_reported_witness:
  "list_ex (\<lambda>l. startswith l ''WARNING'') (liveness_lines (map (\<lambda>(t, e). logged (utc_text t) e)
     [(\<lparr>ut_year = 2024, ut_month = 2, ut_day = 29, ut_hour = 23, ut_minute = 59, ut_second = 58\<rparr>, heartbeat ''0.0'')])
     (seconds_of \<lparr>ut_year = 2024, ut_month = 3, ut_day = 1, ut_hour = 0, ut_minute = 30, ut_second = 0\<rparr> * 1000000) 1800000000)"
proof -
  let ?t = "\<lparr>ut_year = 2024, ut_month = 2, ut_day = 29, ut_hour = 23, ut_minute = 59, ut_second = 58\<rparr>"
  let ?u = "\<lparr>ut_year = 2024, ut_month = 3, ut_day = 1, ut_hour = 0, ut_minute = 30, ut_second = 0\<rparr>"
  have v: "list_all (\<lambda>(t, e). valid_time t) [(?t, heartbeat ''0.0'')]" "valid_time ?t"
    by (simp_all add: valid_time_def month_days_def leap_year_def)
  have "seconds_of ?u - seconds_of ?t = 1802"
    by (simp add: seconds_of_def day_ordinal_def month_days_def leap_year_def upt_rec Let_def)
  then have "list_all (\<lambda>(t, e). 1800000000 < seconds_of ?u * 1000000 - seconds_of t * 1000000) [(?t, heartbeat ''0.0'')]"
    by simp
  with silence_is_reported [OF v, of "seconds_of ?u * 1000000" 1800000000] show ?thesis by blast
qed

end
