(* ===== verification/Startup.thy ===== *)
theory Startup
  imports Status_Check Job_Queue
begin

section \<open>The processes\<close>

text \<open>
  \<open>honeypot/main.py\<close> up to the tasks that it runs, the heartbeat that tells a quiet honeypot from a stopped
  one, the loop of \<open>fetcher/worker.py\<close>, and \<open>setup_logging\<close>. Sockets and the event loop are left out:
  starting a listener succeeds or raises.
\<close>

subsection \<open>Configuration\<close>

text \<open>\<open>LoggingConfig\<close> with its defaults, the heartbeat in microseconds, and the validator of a persona.\<close>

record logging_config =
  lg_log_dir :: string
  lg_transcript_dir :: string
  lg_json_log_filename :: string
  lg_level :: string
  lg_forward_url :: "string option"
  lg_heartbeat :: int

definition default_logging :: logging_config where
  "default_logging =
     \<lparr>lg_log_dir = ''var/logs'', lg_transcript_dir = ''var/transcripts'', lg_json_log_filename = ''events.jsonl'',
      lg_level = ''INFO'', lg_forward_url = None, lg_heartbeat = 300 * 1000000\<rparr>"

definition positive_hart_count :: "int \<Rightarrow> int result" where
  "positive_hart_count v = (if v < 1 then Inl ValueError else Inr v)"

subsection \<open>Starting\<close>

text \<open>What \<open>run\<close> reads of the configuration; the heartbeat's interval in microseconds.\<close>

record service_config =
  sc_ssh_enabled :: bool
  sc_telnet_enabled :: bool
  sc_heartbeat :: int

datatype server = Ssh_Server | Telnet_Server

datatype task = Heartbeat int | Serve server

text \<open>The servers in the order in which they are started, unless one of them cannot be.\<close>

definition start_servers :: "service_config \<Rightarrow> (server \<Rightarrow> pyexn option) \<Rightarrow> server list result" where
  "start_servers cfg fails =
     bind_result (if sc_ssh_enabled cfg then (case fails Ssh_Server of None \<Rightarrow> Inr [Ssh_Server] | Some e \<Rightarrow> Inl e) else Inr [])
       (\<lambda>servers.
         if sc_telnet_enabled cfg
         then (case fails Telnet_Server of None \<Rightarrow> Inr (servers @ [Telnet_Server]) | Some e \<Rightarrow> Inl e)
         else Inr servers)"

definition run_tasks :: "service_config \<Rightarrow> (server \<Rightarrow> pyexn option) \<Rightarrow> task list result" where
  "run_tasks cfg fails =
     bind_result (start_servers cfg fails) (\<lambda>servers.
       if servers = [] then Inr []
       else Inr ((if sc_heartbeat cfg > 0 then [Heartbeat (sc_heartbeat cfg)] else []) @ map Serve servers))"

lemma run_tasks_exact:
  "run_tasks cfg fails = Inr ts \<Longrightarrow>
     (Serve Ssh_Server \<in> set ts \<longleftrightarrow> sc_ssh_enabled cfg) \<and> (Serve Telnet_Server \<in> set ts \<longleftrightarrow> sc_telnet_enabled cfg)
     \<and> (Heartbeat n \<in> set ts \<longleftrightarrow> n = sc_heartbeat cfg \<and> 0 < n \<and> (sc_ssh_enabled cfg \<or> sc_telnet_enabled cfg))"
  by (auto simp: run_tasks_def start_servers_def split: if_splits option.splits)

subsection \<open>The heartbeat\<close>

text \<open>
  One turn of the loop: the time at which it writes, the text of the process's age, and whether the write
  fails with an \<open>OSError\<close>, which is logged elsewhere and not raised.
\<close>

record tick =
  tk_time :: utc_time
  tk_uptime :: string
  tk_fails :: bool

fun heartbeat_loop :: "tick list \<Rightarrow> (utc_time \<times> event) list" where
  "heartbeat_loop [] = []"
| "heartbeat_loop (t # ts) =
     (if tk_fails t then [] else [(tk_time t, heartbeat (tk_uptime t))]) @ heartbeat_loop ts"

lemma heartbeat_written: "t \<in> set ts \<Longrightarrow> \<not> tk_fails t \<Longrightarrow> (tk_time t, heartbeat (tk_uptime t)) \<in> set (heartbeat_loop ts)"
  by (induction ts) auto

text \<open>
  Whatever else the honeypot logs, in whatever order: as long as one heartbeat of the last \<open>stale\<close>
  microseconds was written, the status report does not warn.
\<close>

lemma heartbeat_prevents_warning:
  assumes "set (heartbeat_loop ticks) \<subseteq> set log" and "list_all (\<lambda>(t, e). valid_time t) log"
    and "t \<in> set ticks" "\<not> tk_fails t" "now - seconds_of (tk_time t) * 1000000 \<le> stale"
  shows "\<not> list_ex (\<lambda>l. startswith l ''WARNING'') (liveness_lines (map (\<lambda>(t, e). logged (utc_text t) e) log) now stale)"
proof -
  have "(tk_time t, heartbeat (tk_uptime t)) \<in> set log" using heartbeat_written [OF assms(3,4)] assms(1) by blast
  then have "\<not> list_all (\<lambda>(t, e). stale < now - seconds_of t * 1000000) log"
    using assms(5) by (force simp: list_all_iff)
  with warning_iff [OF assms(2)] show ?thesis by blast
qed

subsection \<open>The worker's loop\<close>

text \<open>
  One pass after another, with the jobs that sessions put into the queue between them. An exception out
  of a pass ends the process.
\<close>

fun worker_loop ::
  "config \<Rightarrow> 'w services \<Rightarrow> job list list \<Rightarrow> jobs_dir \<Rightarrow> 'w \<Rightarrow> stage2_limiter
     \<Rightarrow> unit result \<times> jobs_dir \<times> 'w \<times> stage2_limiter" where
  "worker_loop cfg sv [] d w lim = (Inr (), d, w, lim)"
| "worker_loop cfg sv (js # arrivals) d w lim =
     (case process_pending cfg sv (fold enqueue_job js d) w lim of
        (Inl e, d1, w1, lim1) \<Rightarrow> (Inl e, d1, w1, lim1)
      | (Inr _, d1, w1, lim1) \<Rightarrow> worker_loop cfg sv arrivals d1 w1 lim1)"

lemma worker_loop_append:
  "worker_loop cfg sv (as @ bs) d w lim =
     (case worker_loop cfg sv as d w lim of
        (Inl e, d1, w1, lim1) \<Rightarrow> (Inl e, d1, w1, lim1)
      | (Inr _, d1, w1, lim1) \<Rightarrow> worker_loop cfg sv bs d1 w1 lim1)"
  by (induction as arbitrary: d w lim) (auto split: prod.split sum.split)

subsection \<open>Logging\<close>

text \<open>A handler of the root logger: its mark, its stream, and whether its formatter is the safe one.\<close>

record log_handler =
  lh_marked :: bool
  lh_stream :: nat
  lh_safe_formatter :: bool

definition setup_logging :: "string \<Rightarrow> nat \<Rightarrow> log_handler list \<times> string \<Rightarrow> log_handler list \<times> string" where
  "setup_logging level stream root =
     (filter (\<lambda>h. \<not> lh_marked h) (fst root) @ [\<lparr>lh_marked = True, lh_stream = stream, lh_safe_formatter = True\<rparr>], level)"

lemma setup_logging_replaces:
  "setup_logging l2 s2 (setup_logging l1 s1 root) = setup_logging l2 s2 root"
  "filter lh_marked (fst (setup_logging l s root)) = [\<lparr>lh_marked = True, lh_stream = s, lh_safe_formatter = True\<rparr>]"
  by (simp_all add: setup_logging_def)

end
