(* ===== verification/Tool_Main.thy ===== *)
theory Tool_Main
  imports Dashboard_Html Startup
begin

section \<open>The tools from their parsed arguments on\<close>

text \<open>
  \<open>main\<close> of \<open>tools/dashboard.py\<close>, \<open>tools/dashboard_server.py\<close> and \<open>tools/status_check.py\<close>. \<open>argparse\<close> is left
  out: the arguments are the record it makes. \<open>conf\<close> is the logging part of a configuration that loads,
  \<open>disk\<close> the name of a file and its directory as they are when the tool looks, \<open>shown_path\<close> the text of a
  \<open>Path\<close>, and \<open>open_db\<close> what \<open>maxminddb.open_database\<close> does.
\<close>

subsection \<open>Which log\<close>

record tool_args =
  ta_config :: "string option"
  ta_events :: "string option"
  ta_no_rotated :: bool

record page_args = tool_args +
  pa_geoip :: "string option"

record dashboard_args = page_args +
  da_out :: string

record server_args = page_args +
  sv_host :: string
  sv_port :: int
  sv_refresh :: int

record status_args = tool_args +
  st_exclude :: "string list"
  st_top :: nat
  st_stale :: int

datatype log_place = Given string | Configured string string

text \<open>An empty argument counts as none; without either the parser reports an error.\<close>

definition given_arg :: "string option \<Rightarrow> string option" where
  "given_arg a = (if a = Some [] then None else a)"

definition events_place :: "(string \<Rightarrow> logging_config) \<Rightarrow> 'a tool_args_scheme \<Rightarrow> log_place option" where
  "events_place conf args =
     (case given_arg (ta_events args) of
        Some e \<Rightarrow> Some (Given e)
      | None \<Rightarrow>
          (case given_arg (ta_config args) of
             Some c \<Rightarrow> Some (Configured (lg_log_dir (conf c)) (lg_json_log_filename (conf c)))
           | None \<Rightarrow> None))"

datatype 'a tool_run = Usage_Error | Failed pyexn | Ran 'a

subsection \<open>The GeoIP database\<close>

text \<open>Opening may succeed, raise one of the three exceptions that are handled, or raise another.\<close>

type_synonym geo_db = "string \<Rightarrow> json option"

datatype geo_open = Opened geo_db | Unusable_Db string | Open_Raises pyexn

definition geo_lookup :: "bool \<Rightarrow> (string \<Rightarrow> geo_open) \<Rightarrow> (string \<Rightarrow> string) \<Rightarrow> string option
    \<Rightarrow> (geo_db option \<times> string list) result" where
  "geo_lookup installed open_db shown_path db_arg =
     (case given_arg db_arg of
        None \<Rightarrow> Inr (None, [])
      | Some p \<Rightarrow>
          if \<not> installed then
            Inr (None, [''warning: --geoip was given but the '' @ [CHR 0x27] @ ''maxminddb'' @ [CHR 0x27]
              @ '' package isn'' @ [CHR 0x27] @ ''t installed (pip install -e '' @ [CHR 0x27] @ ''.[dashboard]''
              @ [CHR 0x27] @ '') -- country/map sections will be omitted''])
          else
            (case open_db p of
               Opened db \<Rightarrow> Inr (Some db, [])
             | Unusable_Db e \<Rightarrow>
                 Inr (None, [''warning: could not open GeoIP database '' @ shown_path p @ '': '' @ e])
             | Open_Raises e \<Rightarrow> Inl e))"

subsection \<open>The page in a file\<close>

text \<open>What is written, where, and the lines on standard error.\<close>

definition dashboard_main ::
  "(string \<Rightarrow> logging_config) \<Rightarrow> (log_place \<Rightarrow> string \<times> log_dir) \<Rightarrow> bool \<Rightarrow> (string \<Rightarrow> geo_open)
     \<Rightarrow> (string \<Rightarrow> string) \<Rightarrow> numbers \<Rightarrow> 'a dashboard_args_scheme \<Rightarrow> (string \<times> string \<times> string list) tool_run" where
  "dashboard_main conf disk installed open_db shown_path nm args =
     (case events_place conf args of
        None \<Rightarrow> Usage_Error
      | Some place \<Rightarrow>
          (case disk place of (name, dir) \<Rightarrow>
             let r = make_report (fst (load_events name (\<not> ta_no_rotated args) dir []))
             in (case geo_lookup installed open_db shown_path (pa_geoip args) of
                   Inl e \<Rightarrow> Failed e
                 | Inr (db, warnings) \<Rightarrow>
                     Ran (da_out args, render_html nm db r,
                       warnings @ [''wrote '' @ shown_path (da_out args) @ '' (''
                         @ digits_of (length (rp_sessions r)) @ '' sessions, ''
                         @ digits_of (length (rp_commands r)) @ '' commands, ''
                         @ digits_of (length (rp_downloads r)) @ '' downloads)'']))))"

subsection \<open>The live page\<close>

text \<open>The module's globals, which \<open>main\<close> sets before it serves.\<close>

record server_state =
  sg_events :: log_place
  sg_geo :: "geo_db option"
  sg_refresh :: int
  sg_include_rotated :: bool

definition loopback_host :: "string \<Rightarrow> bool" where
  "loopback_host h \<longleftrightarrow> h \<in> {''127.0.0.1'', ''localhost'', ''::1''}"

definition bind_warning :: "string \<Rightarrow> string" where
  "bind_warning host =
     ''[dashboard_server] WARNING: binding '' @ host @ '', not loopback-only -- ''
     @ ''this page has no authentication and shows real captured credentials. ''
     @ ''Put an authenticating reverse proxy in front of it.''"

definition serving_line :: "string \<Rightarrow> string \<Rightarrow> int \<Rightarrow> string" where
  "serving_line path host port =
     ''[dashboard_server] serving '' @ path @ '' on http://'' @ host @ '':'' @ int_text port @ ''/''"

definition server_main ::
  "(string \<Rightarrow> logging_config) \<Rightarrow> bool \<Rightarrow> (string \<Rightarrow> geo_open) \<Rightarrow> (string \<Rightarrow> string) \<Rightarrow> (log_place \<Rightarrow> string)
     \<Rightarrow> 'a server_args_scheme \<Rightarrow> (server_state \<times> string list) tool_run" where
  "server_main conf installed open_db shown_path shown_place args =
     (case events_place conf args of
        None \<Rightarrow> Usage_Error
      | Some place \<Rightarrow>
          (case geo_lookup installed open_db shown_path (pa_geoip args) of
             Inl e \<Rightarrow> Failed e
           | Inr (db, warnings) \<Rightarrow>
               Ran (\<lparr>sg_events = place, sg_geo = db, sg_refresh = sv_refresh args,
                     sg_include_rotated = (\<not> ta_no_rotated args)\<rparr>,
                 warnings @ (if loopback_host (sv_host args) then [] else [bind_warning (sv_host args)])
                 @ [serving_line (shown_place place) (sv_host args) (sv_port args)])))"

text \<open>A request: the log's directory as it is then, and the cache that the process keeps.\<close>

definition serve_page :: "numbers \<Rightarrow> server_state \<Rightarrow> (log_place \<Rightarrow> string \<times> log_dir) \<Rightarrow> file_cache
    \<Rightarrow> string \<times> file_cache" where
  "serve_page nm sg disk cache =
     (case disk (sg_events sg) of (name, dir) \<Rightarrow>
        index_page nm (sg_geo sg) (sg_refresh sg) name (sg_include_rotated sg) dir cache)"

subsection \<open>The status report\<close>

definition rotated_note :: "string list \<Rightarrow> string list" where
  "rotated_note ps =
     (if ps = [] then []
      else [''(also read '' @ digits_of (length ps) @ '' rotated log file(s): '' @ hd ps @ '' .. '' @ last ps @ '')''])"

text \<open>The lines on standard output and on standard error.\<close>

definition status_main ::
  "(string \<Rightarrow> logging_config) \<Rightarrow> (log_place \<Rightarrow> string \<times> log_dir) \<Rightarrow> status_env \<Rightarrow> 'a status_args_scheme
     \<Rightarrow> (string list \<times> string list) tool_run" where
  "status_main conf disk env args =
     (case events_place conf args of
        None \<Rightarrow> Usage_Error
      | Some place \<Rightarrow>
          (case disk place of (name, dir) \<Rightarrow>
             let include_rotated = (\<not> ta_no_rotated args);
                 all_events = fst (load_events name include_rotated dir [])
             in Ran (status_lines (env\<lparr>se_stale := st_stale args\<rparr>) (st_top args) (st_exclude args) all_events,
                  if include_rotated then rotated_note (rotated_siblings name dir) else [])))"

subsection \<open>What the tools promise\<close>

lemma usage_error_iff:
  "events_place conf args = None \<longleftrightarrow> ta_events args \<in> {None, Some []} \<and> ta_config args \<in> {None, Some []}"
  by (auto simp: events_place_def given_arg_def split: option.splits if_splits)

text \<open>\<open>--events\<close> overrides the configuration.\<close>

lemma events_override: "e \<noteq> [] \<Longrightarrow> ta_events args = Some e \<Longrightarrow> events_place conf args = Some (Given e)"
  by (simp add: events_place_def given_arg_def)

text \<open>Loading through a cache that tells the truth, rotated files read or not.\<close>

lemma load_events_cached:
  assumes "stable_dir contents dir" "cache_ok contents cache"
  shows "fst (load_events name b dir cache) = fst (load_events name b dir [])"
proof (cases b)
  case True
  have "cache_ok contents []" by (simp add: cache_ok_def)
  with load_fresh [OF assms(1) this] load_fresh [OF assms] True show ?thesis by simp
qed (simp add: load_events_def split: option.split)

text \<open>
  With the same arguments the file and the live server show the same page, whatever earlier views have left
  in the server's cache.
\<close>

lemma file_and_server_agree:
  assumes "dashboard_main conf disk installed open_db shown_path nm args = Ran (out_path, page, err)"
    and "server_main conf installed open_db shown_path shown_place args' = Ran (sg, err')"
    and "page_args.truncate args' = page_args.truncate args" and "sv_refresh args' \<le> 0"
    and "stable_dir contents (snd (disk (sg_events sg)))" and "cache_ok contents cache"
  shows "fst (serve_page nm sg disk cache) = page"
proof -
  have same: "ta_config args' = ta_config args" "ta_events args' = ta_events args"
    "ta_no_rotated args' = ta_no_rotated args" "pa_geoip args' = pa_geoip args"
    using assms(3) by (simp_all add: page_args.defs)
  then have "events_place conf args' = events_place conf args" by (simp add: events_place_def split: option.split)
  then show ?thesis
    using assms(1,2,4) load_events_cached [OF assms(5,6), of "fst (disk (sg_events sg))" "\<not> ta_no_rotated args"]
    by (auto simp: dashboard_main_def server_main_def serve_page_def index_page_def Let_def same case_prod_beta'
        split: option.splits sum.splits)
qed

text \<open>The operator is warned before a page with credentials is served to the network, and only then.\<close>

lemma warned_iff_exposed:
  assumes "server_main conf installed open_db shown_path shown_place args = Ran (sg, err)"
    and "given_arg (pa_geoip args) = None"
  shows "bind_warning (sv_host args) \<in> set err \<longleftrightarrow> \<not> loopback_host (sv_host args)"
proof -
  have "bind_warning h \<noteq> serving_line p h n" for h p n
    by (simp add: bind_warning_def serving_line_def)
  with assms show ?thesis
    by (auto simp: server_main_def geo_lookup_def split: option.splits if_splits)
qed

text \<open>
  A missing or corrupt database, or a missing package, never stops a tool; any other failure to open it - a
  file that may not be read - does.
\<close>

lemma geo_lookup_fails_iff:
  "(\<exists>e. geo_lookup installed open_db shown_path a = Inl e)
     \<longleftrightarrow> (\<exists>p e. given_arg a = Some p \<and> installed \<and> open_db p = Open_Raises e)"
  by (auto simp: geo_lookup_def split: option.split geo_open.split)

lemma unreadable_database_stops_dashboard:
  "dashboard_main conf disk True (\<lambda>_. Open_Raises OSError) shown_path nm
     \<lparr>ta_config = None, ta_events = Some ''events.jsonl'', ta_no_rotated = False, pa_geoip = Some ''city.mmdb'',
      da_out = ''page.html''\<rparr> = Failed OSError"
  by (simp add: dashboard_main_def events_place_def given_arg_def geo_lookup_def case_prod_beta')

text \<open>The note on rotated files names the oldest first.\<close>

lemma rotated_note_order:
  assumes "rotated_siblings name dir = p # ps"
  shows "\<exists>x y. rotated_note (rotated_siblings name dir) = [x @ p @ '' .. '' @ y]
    \<and> age_number name (last (p # ps)) \<le> age_number name p"
proof -
  have "sorted_wrt (\<lambda>p q. age_number name q \<le> age_number name p) (p # ps)"
    using siblings_sorted [of name dir] unfolding assms .
  then have "age_number name (last (p # ps)) \<le> age_number name p" by (cases ps) auto
  moreover have "rotated_note (p # ps) = [(''(also read '' @ digits_of (Suc (length ps)) @ '' rotated log file(s): '')
      @ p @ '' .. '' @ last (p # ps) @ '')'']"
    by (simp add: rotated_note_def)
  ultimately show ?thesis unfolding assms by blast
qed

end
