(* ===== verification/Html_Safety.thy ===== *)
theory Html_Safety
  imports Dashboard_Html
begin

section \<open>The dashboard's page holds no tag of an attacker's\<close>

text \<open>
  A scanner over the page's text, and the proof that the page which \<open>render_html\<close> returns has only the
  page's own tags, whatever the log holds.
\<close>

subsection \<open>The scanner\<close>

text \<open>
  Outside a tag, everything but \<open><\<close> is text; inside one, everything up to the next \<open>>\<close>. Coordinates
  and numbers are left out of a tag before it is looked up.
\<close>

definition geometry :: "char \<Rightarrow> bool" where
  "geometry c \<longleftrightarrow> is_digit c \<or> c \<in> set ''.,- MLZ''"

definition page_tags :: "string list" where
  "page_tags =
     [''/div'',
      ''h'',
      ''/h'',
      ''div'',
      ''/p'',
      ''/span'',
      ''/title'',
      ''title'',
      ''divclass='' @ [CHR 0x22] @ ''panel'' @ [CHR 0x22],
      ''divclass='' @ [CHR 0x22] @ ''wrap'' @ [CHR 0x22],
      ''divclass='' @ [CHR 0x22] @ ''stats'' @ [CHR 0x22],
      ''divclass='' @ [CHR 0x22] @ ''grid'' @ [CHR 0x22],
      ''divclass='' @ [CHR 0x22] @ ''panel'' @ [CHR 0x22] @ ''style='gridcolumn:/'' @ [CHR 0x27],
      ''tr'',
      ''td'',
      ''/td'',
      ''/tr'',
      ''pclass='empty'' @ [CHR 0x27],
      ''table'',
      ''thead'',
      ''th'',
      ''/th'',
      ''/thead'',
      ''tbody'',
      ''/tbody'',
      ''/table'',
      ''spanclass='wrapcell'' @ [CHR 0x27],
      ''spanclass='pillok'' @ [CHR 0x27],
      ''spanclass='pillbad'' @ [CHR 0x27],
      ''circleclass='donutarcs'cx='' @ [CHR 0x27, CHR 0x27] @ ''cy='' @ [CHR 0x27, CHR 0x27] @ ''r='' @ [CHR 0x27, CHR 0x27] @ ''strokewidth='' @ [CHR 0x27, CHR 0x27] @ ''strokelinecap='butt'strokedasharray='' @ [CHR 0x27, CHR 0x27] @ ''strokedashoffset='' @ [CHR 0x27, CHR 0x27],
      ''circleclass='donutarcother'cx='' @ [CHR 0x27, CHR 0x27] @ ''cy='' @ [CHR 0x27, CHR 0x27] @ ''r='' @ [CHR 0x27, CHR 0x27] @ ''strokewidth='' @ [CHR 0x27, CHR 0x27] @ ''strokelinecap='butt'strokedasharray='' @ [CHR 0x27, CHR 0x27] @ ''strokedashoffset='' @ [CHR 0x27, CHR 0x27],
      ''/circle'',
      ''spanclass='donutlegendnote'' @ [CHR 0x27],
      ''spanclass='donutmatch'' @ [CHR 0x27],
      ''spanclass='donutmismatch'' @ [CHR 0x27],
      ''divclass='donutlegendrow'' @ [CHR 0x27],
      ''spanclass='swatchs'' @ [CHR 0x27],
      ''spanclass='swatchother'' @ [CHR 0x27],
      ''spanclass='donutlegendlabel'' @ [CHR 0x27],
      ''spanclass='donutlegendcount'' @ [CHR 0x27],
      ''divclass='donut'id='donutarm'' @ [CHR 0x27],
      ''divclass='donut'id='donutarchitecture'' @ [CHR 0x27],
      ''svgviewBox='' @ [CHR 0x27, CHR 0x27] @ ''width='' @ [CHR 0x27, CHR 0x27] @ ''height='' @ [CHR 0x27, CHR 0x27] @ ''role='img'arialabel='downloads:total'' @ [CHR 0x27],
      ''svgviewBox='' @ [CHR 0x27, CHR 0x27] @ ''width='' @ [CHR 0x27, CHR 0x27] @ ''height='' @ [CHR 0x27, CHR 0x27] @ ''role='img'arialabel='ARdownloads:total'' @ [CHR 0x27],
      ''gtransform='rotate()'' @ [CHR 0x27],
      ''/g'',
      ''textx='' @ [CHR 0x27, CHR 0x27] @ ''y='' @ [CHR 0x27, CHR 0x27] @ ''textanchor='middle'class='donuttotal'' @ [CHR 0x27],
      ''/text'',
      ''textx='' @ [CHR 0x27, CHR 0x27] @ ''y='' @ [CHR 0x27, CHR 0x27] @ ''textanchor='middle'class='donuttotallabel'' @ [CHR 0x27],
      ''/svg'',
      ''divclass='donutlegend'' @ [CHR 0x27],
      ''spanclass='cloudword'style='fontsize:em'title='x'' @ [CHR 0x27],
      ''divclass='cloud'' @ [CHR 0x27],
      ''circleclass='ipdot'cx='' @ [CHR 0x27, CHR 0x27] @ ''cy='' @ [CHR 0x27, CHR 0x27] @ ''r='' @ [CHR 0x27, CHR 0x27],
      ''svgviewBox='' @ [CHR 0x27, CHR 0x27] @ ''class='worldmap'role='img'arialabel='Attackersourcelocations'' @ [CHR 0x27],
      ''pathclass='land'd='' @ [CHR 0x27, CHR 0x27] @ ''/'',
      ''divclass='stat'' @ [CHR 0x27],
      ''divclass='n'' @ [CHR 0x27],
      ''divclass='l'' @ [CHR 0x27],
      ''pclass='' @ [CHR 0x22] @ ''subtitle'' @ [CHR 0x22] @ ''style='' @ [CHR 0x22] @ ''margin:pxpx'' @ [CHR 0x22],
      ''pclass='' @ [CHR 0x22] @ ''empty'' @ [CHR 0x22],
      ''!doctypehtml'',
      ''html'',
      ''head'',
      ''metacharset='' @ [CHR 0x22] @ ''utf'' @ [CHR 0x22],
      ''metaname='' @ [CHR 0x22] @ ''viewport'' @ [CHR 0x22] @ ''content='' @ [CHR 0x22] @ ''width=devicewidthinitialscale='' @ [CHR 0x22],
      ''style'',
      ''/style'',
      ''/head'',
      ''body'',
      ''pclass='' @ [CHR 0x22] @ ''subtitle'' @ [CHR 0x22],
      ''/body'',
      ''/html'',
      ''metahttpequiv='' @ [CHR 0x22] @ ''refresh'' @ [CHR 0x22] @ ''content='' @ [CHR 0x22, CHR 0x22]]"

datatype scan_state = Txt | Tag string | Foreign

fun scan_char :: "char \<Rightarrow> scan_state \<Rightarrow> scan_state" where
  "scan_char c Txt = (if c = CHR ''<'' then Tag [] else Txt)"
| "scan_char c (Tag t) =
     (if c = CHR ''>'' then (if rev t \<in> set page_tags then Txt else Foreign)
      else if c = CHR ''<'' then Foreign
      else if geometry c then Tag t
      else Tag (c # t))"
| "scan_char c Foreign = Foreign"

definition scan :: "string \<Rightarrow> scan_state \<Rightarrow> scan_state" where
  "scan s st = fold scan_char s st"

text \<open>A text that leaves the scanner where it was, outside every tag.\<close>

abbreviation own_tags_only :: "string \<Rightarrow> bool" where
  "own_tags_only s \<equiv> scan s Txt = Txt"

lemma scan_append [simp]: "scan (s @ t) st = scan t (scan s st)"
  by (simp add: scan_def)

lemma scan_Nil: "scan [] st = st" and scan_Cons: "scan (c # s) st = scan s (scan_char c st)"
  by (simp_all add: scan_def)

lemma scan_plain: "CHR ''<'' \<notin> set s \<Longrightarrow> scan s Txt = Txt"
  by (induction s) (auto simp: scan_Nil scan_Cons)

lemma not_geometry: "\<not> geometry CHR ''<''" "\<not> geometry CHR ''>''"
  by code_simp+

lemma scan_geometry: "list_all geometry s \<Longrightarrow> scan s (Tag t) = Tag t"
  using not_geometry by (induction s) (auto simp: scan_Nil scan_Cons)

lemma scan_geometry_text: "list_all geometry s \<Longrightarrow> scan s Txt = Txt"
  using not_geometry by (intro scan_plain) (auto simp: list_all_iff)

lemma own_concat: "list_all own_tags_only ss \<Longrightarrow> own_tags_only (concat ss)"
  by (induction ss) (simp_all add: scan_Nil)

lemma own_join: "own_tags_only sep \<Longrightarrow> list_all own_tags_only ss \<Longrightarrow> own_tags_only (join sep ss)"
  by (induction sep ss rule: join.induct) (simp_all add: scan_Nil)

lemma own_chunk: "list_all (\<lambda>s. CHR ''<'' \<notin> set s) ss \<Longrightarrow> own_tags_only (chunk ss)"
  by (rule scan_plain) (auto simp: chunk_def list_all_iff)

lemma list_append: "list_all P xs \<Longrightarrow> list_all P ys \<Longrightarrow> list_all P (xs @ ys)"
  by simp

lemma list_Cons: "P x \<Longrightarrow> list_all P xs \<Longrightarrow> list_all P (x # xs)"
  by simp

lemma own_concat_map [intro]: "(\<And>x. own_tags_only (f x)) \<Longrightarrow> own_tags_only (concat (map f xs))"
  by (rule own_concat) (simp add: list_all_iff)

lemma esc_safe: "set (esc s) \<inter> {CHR ''<'', CHR ''>'', CHR 0x22, CHR 0x27} = {}"
  by (induction s) (auto simp: esc_def esc_char_def)

lemma own_esc [simp]: "own_tags_only (esc s)"
  using esc_safe [of s] by (intro scan_plain) auto

lemma geometry_digits [simp]: "list_all geometry (digits_of n)"
  using digits_of_digits [of n] by (auto simp: list_all_iff geometry_def)

lemma scan_numbers [simp]: "scan (digits_of n) Txt = Txt" "scan (digits_of n) (Tag t) = Tag t"
  by (simp_all add: scan_geometry scan_geometry_text)

lemma geometry_int: "list_all geometry (int_text i)"
proof -
  have "geometry CHR ''-''" by code_simp
  then show ?thesis by (simp add: int_text_def)
qed

text \<open>A page is put together from texts with tags of their own, and from numbers inside a tag.\<close>

fun in_tag :: "scan_state \<Rightarrow> bool" where
  "in_tag (Tag t) \<longleftrightarrow> True"
| "in_tag _ \<longleftrightarrow> False"

lemma own_append: "own_tags_only s \<Longrightarrow> own_tags_only t \<Longrightarrow> own_tags_only (s @ t)"
  by simp

lemma own_hole:
  "in_tag (scan l st) \<Longrightarrow> list_all geometry n \<Longrightarrow> scan r (scan l st) = Txt \<Longrightarrow> scan (l @ n @ r) st = Txt"
  by (cases "scan l st") (simp_all add: scan_geometry)

lemma own_close: "scan l st = Txt \<Longrightarrow> own_tags_only r \<Longrightarrow> scan (l @ r) st = Txt"
  by simp

lemma own_tag: "scan (h @ r) (scan l Txt) = Txt \<Longrightarrow> own_tags_only t \<Longrightarrow> own_tags_only (l @ h @ r @ t)"
  by simp

lemma own_if: "own_tags_only s \<Longrightarrow> own_tags_only t \<Longrightarrow> own_tags_only (if b then s else t)"
  by simp

lemma own_option:
  "own_tags_only n \<Longrightarrow> (\<And>x. own_tags_only (f x)) \<Longrightarrow> own_tags_only (case v of None \<Rightarrow> n | Some x \<Rightarrow> f x)"
  by (cases v) simp_all

lemmas own_rules = own_append own_esc own_concat_map scan_numbers(1)

subsection \<open>Tables\<close>

lemma own_wrap_cell: "own_tags_only (wrap_cell s)"
  unfolding wrap_cell_def by (intro own_rules; code_simp)

lemma own_pill: "own_tags_only (pill ok s)"
proof -
  have h: "scan ((if ok then ''ok'' else ''bad'') @ chunk [[CHR 0x27], ''>'']) (scan ''<span class='pill '' Txt) = Txt"
    by (cases ok) (simp_all only: if_True if_False, code_simp+)
  show ?thesis unfolding pill_def by (intro own_tag [OF h] own_rules; code_simp)
qed

lemma own_table_row:
  assumes "list_all own_tags_only cells"
  shows "own_tags_only (table_row cells)"
proof -
  have "own_tags_only (''<td>'' @ cell @ ''</td>'')" if "own_tags_only cell" for cell
    by (intro own_append that; code_simp)
  then have r: "own_tags_only (concat (map (\<lambda>cell. ''<td>'' @ cell @ ''</td>'') cells))"
    using assms by (intro own_concat) (simp add: list_all_iff)
  show ?thesis unfolding table_row_def by (intro own_append r; code_simp)
qed

lemma own_table:
  assumes "list_all (list_all own_tags_only) rows"
  shows "own_tags_only (html_table headers rows)"
proof -
  have h: "own_tags_only (concat (map (\<lambda>h. ''<th>'' @ esc h @ ''</th>'') headers))"
    by (intro own_rules; code_simp)
  have r: "own_tags_only (concat (map table_row rows))"
    using assms own_table_row by (intro own_concat) (simp add: list_all_iff)
  have e: "own_tags_only ''<p class='empty'>No data yet.</p>''" by code_simp
  have "own_tags_only (''<table><thead><tr>'' @ concat (map (\<lambda>h. ''<th>'' @ esc h @ ''</th>'') headers) @
        ''</tr></thead><tbody>'' @ concat (map table_row rows) @ ''</tbody></table>'')"
    by (intro own_append h r; code_simp)
  with e show ?thesis unfolding html_table_def by (rule own_if)
qed

subsection \<open>Charts\<close>

definition numeric :: "numbers \<Rightarrow> bool" where
  "numeric nm \<longleftrightarrow>
     (\<forall>what ns. list_all geometry (nm_float nm what ns))
     \<and> (\<forall>ip. list_all geometry (nm_x nm ip) \<and> list_all geometry (nm_y nm ip))
     \<and> (\<forall>countries. nm_outline nm = Some countries \<longrightarrow>
          list_all (list_all (list_all (list_all (list_all geometry)))) countries)"

lemma geometry_join: "list_all geometry sep \<Longrightarrow> list_all (list_all geometry) ss \<Longrightarrow> list_all geometry (join sep ss)"
  by (rule list_all_join)

lemma land_geometry:
  assumes "numeric nm" "d \<in> set (land_paths nm)"
  shows "list_all geometry d"
proof -
  have c: "list_all geometry ''M''" "list_all geometry '' L''" "list_all geometry ''Z''" "list_all geometry '' ''"
    by code_simp+
  obtain countries polys where o: "nm_outline nm = Some countries" "polys \<in> set countries" "d = join '' '' (country_rings polys)"
    using assms(2) by (cases "nm_outline nm") (auto simp: land_paths_def)
  have "list_all (list_all (list_all (list_all (list_all geometry)))) countries"
    using assms(1) o(1) unfolding numeric_def by blast
  then have "list_all (list_all (list_all (list_all geometry))) polys"
    using o(2) unfolding list_all_iff [of _ countries] by (rule bspec)
  then have "list_all (list_all geometry) ps" if "ps \<in> set (concat polys)" for ps
    using that by (auto simp: list_all_iff)
  then have "list_all geometry (ring_path ps)" if "ps \<in> set (concat polys)" for ps
    using geometry_join [OF c(2)] that c unfolding ring_path_def by simp
  then have "list_all (list_all geometry) (country_rings polys)"
    unfolding country_rings_def list_all_iff [of "list_all geometry"] by auto
  then show ?thesis unfolding o(3) by (intro geometry_join c)
qed

lemma numericD:
  assumes "numeric nm"
  shows "list_all geometry (nm_float nm what ns)" "list_all geometry (nm_x nm ip)" "list_all geometry (nm_y nm ip)"
    "own_tags_only (nm_float nm what ns)" "d \<in> set (land_paths nm) \<Longrightarrow> list_all geometry d"
  using assms land_geometry [OF assms] by (simp_all add: numeric_def scan_geometry_text)

lemma slot_cases:
  "slot_for_label l = ''other'' \<or> (\<exists>n. slot_for_label l = ''s'' @ n \<and> list_all geometry n)"
proof -
  have "\<exists>n. s = ''s'' @ n \<and> list_all geometry n" if "map_of (slots names) l = Some s" for names s
    using map_of_SomeD [OF that] by (auto simp: slots_def)
  moreover have "\<exists>n. ''s'' @ digits_of k = ''s'' @ n \<and> list_all geometry n" for k
    by (rule exI [of _ "digits_of k"]) simp
  ultimately show ?thesis by (simp add: slot_for_label_def split: option.split)
qed

lemma slot_hole:
  assumes "in_tag (scan (l @ ''s'') st)" "scan r (scan (l @ ''s'') st) = Txt" "scan r (scan (l @ ''other'') st) = Txt"
  shows "scan (l @ slot_for_label x @ r) st = Txt"
proof -
  from slot_cases [of x] consider "slot_for_label x = ''other''"
    | n where "slot_for_label x = ''s'' @ n" "list_all geometry n" by blast
  then show ?thesis
  proof cases
    case 2
    from assms(1) obtain t where t: "scan (l @ ''s'') st = Tag t" by (cases "scan (l @ ''s'') st") auto
    have "l @ slot_for_label x @ r = (l @ ''s'') @ n @ r" using 2(1) by simp
    with scan_append [of "l @ ''s''" "n @ r" st] t 2(2) assms(2) show ?thesis by (simp only: scan_geometry scan_append [of n r])
    next
    case 1
    with assms(3) show ?thesis by (simp only: scan_append)
  qed
qed

lemma own_donut_arc:
  assumes "numeric nm"
  shows "own_tags_only (donut_arc nm tot slices sofar row)"
proof -
  note n = numericD [OF assms]
  obtain label k where row: "row = (label, k)" by (cases row)
  have t: "own_tags_only (esc label @ '': '' @ digits_of k @ '' ('' @ nm_float nm ''percent'' [k, tot] @ ''%)</title></circle>'')"
    by (intro own_rules n; code_simp)
  show ?thesis
    unfolding donut_arc_def row prod.case
    by (rule slot_hole; (rule own_hole, code_simp, rule n, rule own_hole, code_simp, rule n,
         rule own_hole, code_simp, rule n, rule own_close, code_simp, rule t | code_simp))
qed

lemma own_donut_arcs: "numeric nm \<Longrightarrow> own_tags_only (donut_arcs nm tot slices sofar rows)"
  by (induction rows arbitrary: sofar) (simp_all add: own_donut_arc scan_Nil)

lemma own_persona_note: "own_tags_only (persona_note v)"
proof -
  obtain m k where v: "v = (m, k)" by (cases v)
  have list: "list_all own_tags_only (if b then [] else [x])" if "own_tags_only x" for b x
    using that by simp
  show ?thesis
    unfolding persona_note_def v prod.case
    by (intro own_if own_append own_join list_append list scan_numbers; code_simp)
qed

lemma own_donut_legend:
  assumes "numeric nm"
  shows "own_tags_only (donut_legend nm tot persona row)"
proof -
  note n = numericD [OF assms]
  obtain label k where row: "row = (label, k)" by (cases row)
  have t: "own_tags_only (esc label @ ''</span><span class='donut-legend-count'>'' @ digits_of k @ '' &middot; '' @
     nm_float nm ''percent'' [k, tot] @ ''%</span>'' @
     persona_note (case map_of persona label of None \<Rightarrow> (0, 0) | Some v \<Rightarrow> v) @ ''</div>'')"
    by (intro own_rules own_persona_note n; code_simp)
  show ?thesis
    unfolding donut_legend_def row prod.case
    by (rule slot_hole; (rule own_close, code_simp, rule t | code_simp))
qed

text \<open>A donut's label and identifier are the code's own.\<close>

lemma own_donut_svg:
  assumes "numeric nm"
    and "in_tag (scan (chunk [''<div class='donut' id='', [CHR 0x27]] @ chart_id @
     chunk [[CHR 0x27], ''><svg viewBox='0 0 148 148' width='148' height='148' role='img' aria-label='',
       [CHR 0x27]] @ esc center @ '': '') Txt)"
    and "scan ('' total'><g transform='rotate(-90 74.0 74.0)'>'')
      (scan (chunk [''<div class='donut' id='', [CHR 0x27]] @ chart_id @
     chunk [[CHR 0x27], ''><svg viewBox='0 0 148 148' width='148' height='148' role='img' aria-label='',
       [CHR 0x27]] @ esc center @ '': '') Txt) = Txt"
  shows "own_tags_only (donut_svg nm d center chart_id)"
proof -
  let ?l = "chunk [''<div class='donut' id='', [CHR 0x27]] @ chart_id @
     chunk [[CHR 0x27], ''><svg viewBox='0 0 148 148' width='148' height='148' role='img' aria-label='',
       [CHR 0x27]] @ esc center @ '': ''"
  let ?t = "donut_arcs nm (total_of (dn_rows d)) (length (dn_rows d)) [] (dn_rows d) @
     ''</g><text x='74.0' y='71.0' text-anchor='middle' class='donut-total'>'' @ digits_of (total_of (dn_rows d)) @
     ''</text><text x='74.0' y='89.0' text-anchor='middle' class='donut-total-label'>'' @
     esc center @ ''</text></svg><div class='donut-legend'>'' @
     concat (map (donut_legend nm (total_of (dn_rows d)) (dn_persona d)) (dn_rows d)) @ ''</div></div>''"
  have t: "own_tags_only ?t"
    by (intro own_append own_esc scan_numbers own_donut_arcs own_concat_map own_donut_legend assms(1); code_simp)
  have "own_tags_only (?l @ digits_of (total_of (dn_rows d)) @ '' total'><g transform='rotate(-90 74.0 74.0)'>'' @ ?t)"
    by (rule own_hole [OF assms(2) geometry_digits], rule own_close [OF assms(3) t])
  moreover have "own_tags_only ''<p class='empty'>No data yet.</p>''" by code_simp
  ultimately show ?thesis unfolding donut_svg_def Let_def append_assoc by (intro own_if)
qed

lemma own_cloud_word:
  assumes "numeric nm"
  shows "own_tags_only (cloud_word nm most wc)"
proof -
  note n = numericD [OF assms]
  obtain word k where wc: "wc = (word, k)" by (cases wc)
  have t: "own_tags_only (esc word @ ''</span>'')" by (intro own_rules; code_simp)
  show ?thesis unfolding cloud_word_def wc prod.case
    by (rule own_hole, code_simp, rule n, rule own_hole, code_simp, rule geometry_digits, rule own_close, code_simp, rule t)
qed

lemma own_word_cloud:
  assumes "numeric nm"
  shows "own_tags_only (word_cloud nm counts label)"
  unfolding word_cloud_def Let_def
  by (intro own_if own_append own_esc own_concat_map own_cloud_word assms; code_simp)

lemma own_map_dot:
  assumes "numeric nm"
  shows "own_tags_only (map_dot nm most p)"
proof -
  note n = numericD [OF assms]
  obtain ip label k where p: "p = (ip, label, k)" by (cases p)
  have t: "own_tags_only (esc label @ '' ('' @ digits_of k @ ''x)</title></circle>'')" by (intro own_rules; code_simp)
  show ?thesis unfolding map_dot_def p prod.case
    by (rule own_hole, code_simp, rule n, rule own_hole, code_simp, rule n, rule own_hole, code_simp, rule n,
        rule own_close, code_simp, rule t)
qed

lemma own_render_map:
  assumes "numeric nm"
  shows "own_tags_only (render_map nm points)"
proof -
  have "own_tags_only (chunk [''<path class='land' d='', [CHR 0x27]] @ d @ chunk [[CHR 0x27], ''/>''])"
    if "list_all geometry d" for d
    by (rule own_hole, code_simp, rule that, code_simp)
  then have l: "own_tags_only (concat (map (\<lambda>d. chunk [''<path class='land' d='', [CHR 0x27]] @ d @ chunk [[CHR 0x27], ''/>'']) (land_paths nm)))"
    using land_geometry [OF assms] by (intro own_concat) (simp add: list_all_iff)
  show ?thesis unfolding render_map_def Let_def
    by (intro own_append l own_concat_map own_map_dot assms; code_simp)
qed

subsection \<open>The page\<close>

lemma own_css: "own_tags_only css"
  unfolding css_def by (rule own_chunk, intro list_Cons; code_simp)

lemma own_stat_box: "own_tags_only (stat_box s)"
  by (cases s) (simp only: stat_box_def prod.case, intro own_rules; code_simp)

lemma own_arm_section:
  assumes "numeric nm"
  shows "own_tags_only (arm_section nm evs)"
proof -
  have d: "own_tags_only (donut_svg nm d ''ARM downloads'' ''donut-arm'')" for d
    by (rule own_donut_svg [OF assms]; code_simp)
  show ?thesis unfolding arm_section_def by (intro own_option own_append d; code_simp)
qed

lemma own_architecture_html:
  assumes "numeric nm"
  shows "own_tags_only (architecture_html nm evs)"
proof -
  have d: "own_tags_only (donut_svg nm d ''downloads'' ''donut-architecture'')" for d
    by (rule own_donut_svg [OF assms]; code_simp)
  show ?thesis unfolding architecture_html_def by (intro own_option d; code_simp)
qed

lemma own_cells:
  "list_all (list_all own_tags_only) (map command_row evs)"
  "list_all (list_all own_tags_only) (map download_row evs)"
  "list_all (list_all own_tags_only) (map off_list_row evs)"
  "list_all (list_all own_tags_only) (map failure_row gs)"
  "list_all (list_all own_tags_only) (map (ip_row geo r) ips)"
  "list_all (list_all own_tags_only) (map (repeat_row geo) vs)"
  "list_all (list_all own_tags_only) (map (\<lambda>(c, n). [esc c, digits_of n]) cs)"
proof -
  have "own_tags_only ''-''" by code_simp
  note c = this own_esc own_wrap_cell own_pill scan_numbers(1)
  show "list_all (list_all own_tags_only) (map command_row evs)"
    by (simp add: list_all_iff command_row_def c)
  show "list_all (list_all own_tags_only) (map download_row evs)"
    by (simp add: list_all_iff download_row_def c)
  show "list_all (list_all own_tags_only) (map off_list_row evs)"
    by (simp add: list_all_iff off_list_row_def Let_def c)
  show "list_all (list_all own_tags_only) (map failure_row gs)"
    by (induction gs) (auto simp: failure_row_def c)
  show "list_all (list_all own_tags_only) (map (ip_row geo r) ips)"
    by (simp add: list_all_iff ip_row_def c)
  show "list_all (list_all own_tags_only) (map (repeat_row geo) vs)"
    by (induction vs) (auto simp: repeat_row_def Let_def c)
  show "list_all (list_all own_tags_only) (map (\<lambda>(c, n). [esc c, digits_of n]) cs)"
    by (induction cs) (auto simp: c)
qed

lemmas own_tables = own_cells [THEN own_table]

lemma own_off_list_section: "own_tags_only (off_list_section r)"
  unfolding off_list_section_def Let_def by (intro own_append own_if own_tables scan_numbers; code_simp)

lemma own_map_section:
  assumes "numeric nm"
  shows "own_tags_only (map_section nm db r)"
  unfolding map_section_def
  by (intro own_option own_append own_render_map assms; code_simp)

lemma own_repeat_html: "own_tags_only (repeat_html geo r)"
  unfolding repeat_html_def by (intro own_if own_tables; code_simp)

lemma own_page_head:
  assumes "numeric nm"
  shows "own_tags_only (page_head nm db r)"
  unfolding page_head_def Let_def
  by (intro own_append own_css own_esc own_concat_map own_stat_box own_map_section own_tables assms; code_simp)

lemma own_page_tables: "own_tags_only (page_tables db r)"
  unfolding page_tables_def Let_def by (intro own_append scan_numbers own_repeat_html own_tables; code_simp)

lemma own_page_figures:
  assumes "numeric nm"
  shows "own_tags_only (page_figures nm r)"
proof -
  let ?l = "chunk [''  <div class='', [CHR 0x22], ''grid-2'', [CHR 0x22], ''>'', nl,
       ''    <div class='', [CHR 0x22], ''panel'', [CHR 0x22]]"
  let ?h = "if arm_version_donut (rp_downloads r) \<noteq> None then [] else chunk ['' style='grid-column:1/-1'', [CHR 0x27]]"
  let ?r = "chunk [''>'', nl,
       ''      <h2>Downloads by architecture</h2>'', nl,
       ''      <p class='', [CHR 0x22], ''subtitle'', [CHR 0x22], '' style='', [CHR 0x22],
       ''margin:-4px 0 10px'', [CHR 0x22], ''>Successful downloads, grouped into CPU families'', nl,
       ''      (related machines lumped together, e.g. MIPS/MIPSEL) -- a &check; next to RISC-V is this honeypot's'',
       nl,
       ''      own persona architecture actually being matched, the whole point of the project.</p>'',
       nl,
       ''      '']"
  have h: "scan (?h @ ?r) (scan ?l Txt) = Txt"
    by (cases "arm_version_donut (rp_downloads r) \<noteq> None") (simp_all only: if_True if_False, code_simp+)
  show ?thesis unfolding page_figures_def
    by (intro own_tag [OF h] own_append own_architecture_html own_arm_section own_tables own_off_list_section
        own_word_cloud assms; code_simp)
qed

text \<open>Escaping loses nothing: two different texts are never shown as the same.\<close>

lemma esc_char_inj: "esc_char c @ s = esc_char d @ t \<Longrightarrow> c = d \<and> s = t"
  unfolding esc_char_def by (simp split: if_splits)

lemma esc_inj: "esc s = esc t \<Longrightarrow> s = t"
proof (induction s arbitrary: t)
  case Nil
  then show ?case by (cases t) (auto simp: esc_def esc_char_def split: if_splits)
next
  case (Cons c s)
  then obtain d t' where t: "t = d # t'" by (cases t) (auto simp: esc_def esc_char_def split: if_splits)
  from Cons.prems have "esc_char c @ esc s = esc_char d @ esc t'" by (simp add: t esc_def)
  with esc_char_inj Cons.IH show ?case unfolding t by blast
qed

subsection \<open>The live page\<close>

text \<open>Replacing the first occurrence of a text that does not begin earlier.\<close>

fun first_here :: "string \<Rightarrow> string \<Rightarrow> bool" where
  "first_here old [] \<longleftrightarrow> True"
| "first_here old (c # pre) \<longleftrightarrow> \<not> startswith (c # pre @ old) old \<and> first_here old pre"

lemma replace_first:
  assumes "old \<noteq> []" and "first_here old pre"
  shows "replace old new (Some 1) (pre @ old @ rest) = pre @ new @ rest"
proof -
  have "replace_sub old new (Some 1) (pre @ old @ rest) = pre @ new @ rest"
    using assms(2)
  proof (induction pre)
    case Nil
    have "replace_sub old new (Some 0) rest = rest" by (subst replace_sub.simps) simp
    then show ?case using assms(1) by (subst replace_sub.simps) (simp add: startswith_def)
  next
    case (Cons c pre)
    have "startswith ((c # pre @ old) @ rest) old = startswith (c # pre @ old) old"
      unfolding startswith_def by (subst take_append) simp
    with Cons.prems have "\<not> startswith (c # pre @ old @ rest) old" by simp
    with Cons assms(1) show ?case by (subst replace_sub.simps) simp
  qed
  with assms(1) show ?thesis by (simp add: replace_def)
qed

lemma page_split:
  obtains rest where "render_html nm db r = ''<!doctype html>'' @ nl @ ''<html>'' @ ''<head>'' @ rest"
    "own_tags_only (''<head>'' @ rest) = own_tags_only (render_html nm db r)"
proof -
  have "\<exists>x. render_html nm db r = (''<!doctype html>'' @ nl @ ''<html>'') @ ''<head>'' @ x"
    by (simp add: render_html_def page_head_def chunk_def Let_def)
  then obtain x where x: "render_html nm db r = (''<!doctype html>'' @ nl @ ''<html>'') @ ''<head>'' @ x" by blast
  have "own_tags_only (''<!doctype html>'' @ nl @ ''<html>'')" by code_simp
  then have "own_tags_only (''<head>'' @ x) = own_tags_only (render_html nm db r)"
    unfolding x by (simp only: scan_append)
  with x that show thesis by simp
qed

lemma own_refresh:
  assumes "own_tags_only (render_html nm db r)"
  shows "own_tags_only (replace ''<head>'' (refresh_tag n) (Some 1) (render_html nm db r))"
proof -
  let ?pre = "''<!doctype html>'' @ nl @ ''<html>''"
  obtain rest where p: "render_html nm db r = ?pre @ ''<head>'' @ rest"
    and own: "own_tags_only (''<head>'' @ rest) = own_tags_only (render_html nm db r)"
    by (rule page_split [of nm db r]) simp
  have f: "first_here ''<head>'' ?pre" by code_simp
  have "replace ''<head>'' (refresh_tag n) (Some 1) (render_html nm db r) = ?pre @ refresh_tag n @ rest"
    unfolding p by (rule replace_first [OF _ f]) simp
  moreover have "own_tags_only ?pre" "own_tags_only ''<head>''" by code_simp+
  moreover have "own_tags_only (refresh_tag n)"
    unfolding refresh_tag_def by (rule own_hole, code_simp, rule geometry_int, code_simp)
  ultimately show ?thesis using assms own by (simp only: scan_append)
qed

text \<open>
  C19. Whatever an attacker got into the log - names, passwords, commands, URLs, file names, error texts -
  the page that the live dashboard serves has no tag but its own, and no attribute of a tag holds such
  text: every \<open><\<close> opens one of the listed tags, up to the coordinates and counts in it, and the page ends
  outside of a tag. What is shown of the text is faithful: escaping is injective, and leaves no quote and
  no angle bracket. The numbers' texts are the hypothesis.
\<close>
theorem page_has_own_tags_only:
  assumes "numeric nm"
  shows "scan (render_html nm db r) Txt = Txt
    \<and> scan (fst (index_page nm db refresh name rotated dir cache)) Txt = Txt
    \<and> inj esc
    \<and> set (esc s) \<inter> {CHR ''<'', CHR ''>'', CHR 0x22, CHR 0x27} = {}"
proof (intro conjI)
  have page: "own_tags_only (render_html nm db r)" for r
    unfolding render_html_def by (intro own_append own_page_head own_page_tables own_page_figures assms)
  then show "scan (render_html nm db r) Txt = Txt" .
  show "scan (fst (index_page nm db refresh name rotated dir cache)) Txt = Txt"
    using own_refresh [OF page] by (simp add: index_page_def Let_def case_prod_beta page)
  show "inj esc" by (rule injI) (rule esc_inj)
qed (rule esc_safe)

theorem page_has_own_tags_only_witness:
  "numeric \<lparr>nm_float = (\<lambda>_ _. ''0.5''), nm_x = (\<lambda>_. ''1.0''), nm_y = (\<lambda>_. ''2.0''), nm_outline = Some [[[[''0.0,0.0'', ''1.0,1.0'']]]]\<rparr>
   \<and> scan (render_html \<lparr>nm_float = (\<lambda>_ _. ''0.5''), nm_x = (\<lambda>_. ''1.0''), nm_y = (\<lambda>_. ''2.0''), nm_outline = Some [[[[''0.0,0.0'', ''1.0,1.0'']]]]\<rparr>
       None (make_report [[(''event'', JStr ''command.input''), (''raw'', JStr ''<script>alert(1)</script>'')]])) Txt = Txt"
proof -
  have "list_all geometry ''0.5''" "list_all geometry ''1.0''" "list_all geometry ''2.0''" "list_all geometry ''0.0,0.0''" "list_all geometry ''1.0,1.0''"
    by code_simp+
  then have n: "numeric \<lparr>nm_float = (\<lambda>_ _. ''0.5''), nm_x = (\<lambda>_. ''1.0''), nm_y = (\<lambda>_. ''2.0''), nm_outline = Some [[[[''0.0,0.0'', ''1.0,1.0'']]]]\<rparr>"
    unfolding numeric_def by simp
  with page_has_own_tags_only [OF n] show ?thesis by blast
qed

end
