(* ===== verification/Log_Reading.thy ===== *)
theory Log_Reading
  imports Log_Files Telnet
begin

section \<open>From the log file back to the events\<close>

text \<open>
  The text of a log as \<open>_parse_file\<close> of \<open>tools/dashboard.py\<close> reads it: lines in text mode, stripped, each
  given to \<open>json.loads\<close>. With the writer of \<open>Events\<close> and the reader of \<open>Json_Reader\<close> this closes the circle
  from a session to the report over its log.
\<close>

subsection \<open>Reading a text\<close>

text \<open>
  One line; \<open>None\<close> is JSON that is no dictionary, which the code appends and then fails on.
\<close>

definition line_json :: "string \<Rightarrow> json_line option" where
  "line_json l =
     (let t = strip l
      in if t = [] then Some Empty_Line
         else case loads t of
                None \<Rightarrow> Some Malformed
              | Some (JObj kvs) \<Rightarrow> Some (Json kvs)
              | Some _ \<Rightarrow> None)"

definition file_of_text :: "(int \<times> nat) option \<Rightarrow> string \<Rightarrow> logged_file option" where
  "file_of_text st s =
     map_option (\<lambda>ls. \<lparr>lf_stat = st, lf_lines = ls, lf_cut = False\<rparr>) (those (map line_json (text_lines s)))"

text \<open>The entry of the log for a stamped event, and what it needs to be one.\<close>

definition entry_of :: "string \<times> event \<Rightarrow> log_event" where
  "entry_of e = logged (fst e) (snd e)"

definition event_ok :: "event \<Rightarrow> bool" where
  "event_ok e \<longleftrightarrow> json_ok (JObj (logged [] e))"

subsection \<open>Entries, lines and cut lines\<close>

lemma event_text_entry: "event_text e = dumps (JObj (entry_of e))"
  by (simp add: event_text_def entry_of_def logged_def)

lemma entry_ok: "event_ok (snd e) \<longleftrightarrow> json_ok (JObj (entry_of e))"
  by (simp add: event_ok_def entry_of_def logged_def)

lemma strip_event_text: "strip (event_text e) = event_text e"
  unfolding event_text_entry by (rule strip_object)

lemma line_json_event: "event_ok (snd e) \<Longrightarrow> line_json (event_text e) = Some (Json (entry_of e))"
  using strip_event_text [of e] loads_dumps [of "JObj (entry_of e)"]
  by (simp add: line_json_def entry_ok Let_def event_text_entry del: dumps.simps) simp

lemma rstrip_prefix: "\<exists>q. s = rstrip s @ q"
proof -
  have "rev s = takeWhile is_space (rev s) @ dropWhile is_space (rev s)" by simp
  then have "s = rev (dropWhile is_space (rev s)) @ rev (takeWhile is_space (rev s))"
    by (metis rev_append rev_rev_ident)
  then show ?thesis unfolding rstrip_def by blast
qed

lemma line_json_cut:
  assumes "event_ok (snd e)" and "event_text e = p @ q" and "q \<noteq> []"
  shows "line_json p \<in> {Some Empty_Line, Some Malformed}"
proof (cases p)
  case (Cons c p1)
  with assms(2) have "c = CHR ''{''" unfolding event_text_entry by simp
  then have "lstrip p = p" using Cons by (simp add: lstrip_def is_space_def)
  then have "strip p = rstrip p" by (simp add: strip_def)
  moreover obtain q1 where "p = rstrip p @ q1" using rstrip_prefix by blast
  ultimately have "event_text e = strip p @ q1 @ q" "q1 @ q \<noteq> []" using assms(2,3) by auto
  then have "loads (strip p) = None"
    using assms(1) loads_cut [of "entry_of e" "strip p"] unfolding entry_ok event_text_entry by blast
  then show ?thesis by (simp add: line_json_def Let_def)
qed (simp add: line_json_def strip_def lstrip_def rstrip_def)

text \<open>The entries that a text holds.\<close>

definition entries_in :: "string \<Rightarrow> log_event list option" where
  "entries_in s = map_option parse_file (file_of_text None s)"

lemma entries_in_lines: "entries_in s = map_option (\<lambda>js. concat (map (\<lambda>j. case j of Json ev \<Rightarrow> [ev] | _ \<Rightarrow> []) js))
    (those (map line_json (text_lines s)))"
  by (simp add: entries_in_def file_of_text_def parse_file_def option.map_comp comp_def)

lemma those_append: "those (xs @ ys) = (case those xs of None \<Rightarrow> None | Some vs \<Rightarrow> map_option ((@) vs) (those ys))"
  by (induction xs; cases "those ys") (auto split: option.splits)

text \<open>The whole events in the first \<open>k\<close> characters: an event is whole with or without its line end.\<close>

definition whole_events :: "nat \<Rightarrow> (string \<times> event) list \<Rightarrow> nat" where
  "whole_events k es = length (filter (\<lambda>c. c = CHR 0x0A) (take (Suc k) (log_file es)))"

lemma log_file_objects: "log_file es = object_file (map entry_of es)"
  by (simp add: log_file_def log_line_def object_file_def entry_of_def logged_def comp_def case_prod_beta')

lemma entries_of_cut_log:
  assumes "list_all (\<lambda>e. event_ok (snd e)) es"
  shows "entries_in (take k (log_file es)) = Some (map entry_of (take (whole_events k es) es))"
proof -
  let ?m = "whole_events k es"
  have m: "whole_objects k (map entry_of es) = ?m" by (simp add: whole_objects_def whole_events_def log_file_objects)
  have "list_all (\<lambda>kvs. json_ok (JObj kvs)) (map entry_of es)"
    using assms by (simp add: list_all_iff entry_ok del: json_ok.simps)
  from lines_of_cut_file [OF this, of k, unfolded m] obtain torn where
    l: "text_lines (take k (log_file es)) = map (\<lambda>kvs. dumps (JObj kvs)) (take ?m (map entry_of es)) @ torn"
    and torn': "torn = [] \<or> (\<exists>p q. torn = [p] \<and> q \<noteq> [] \<and> ?m < length (map entry_of es)
        \<and> dumps (JObj (map entry_of es ! ?m)) = p @ q)"
    unfolding log_file_objects by blast
  have lines: "text_lines (take k (log_file es)) = map event_text (take ?m es) @ torn"
    using l by (simp add: take_map event_text_entry del: dumps.simps)
  have torn: "torn = [] \<or> (\<exists>p q. torn = [p] \<and> q \<noteq> [] \<and> ?m < length es \<and> event_text (es ! ?m) = p @ q)"
    using torn' by (auto simp: event_text_entry simp del: dumps.simps)
  have "those (map line_json (map event_text xs)) = Some (map (\<lambda>e. Json (entry_of e)) xs)"
    if "list_all (\<lambda>e. event_ok (snd e)) xs" for xs
    using that by (induction xs) (simp_all add: line_json_event)
  moreover have "list_all (\<lambda>e. event_ok (snd e)) (take ?m es)"
    using assms by (auto simp: list_all_iff dest: in_set_takeD)
  ultimately have whole: "those (map line_json (map event_text (take ?m es))) = Some (map (\<lambda>e. Json (entry_of e)) (take ?m es))"
    by blast
  have "line_json p \<in> {Some Empty_Line, Some Malformed}" if "torn = [p]" for p
    using torn that assms line_json_cut [of "es ! ?m" p] by (auto simp: list_all_length)
  moreover have "torn = [] \<or> (\<exists>p. torn = [p])" using torn by blast
  ultimately show ?thesis
    unfolding entries_in_lines lines map_append those_append whole by (auto simp: comp_def)
qed

subsection \<open>A session logs entries\<close>

definition logs_ok :: "session \<Rightarrow> bool" where
  "logs_ok s \<longleftrightarrow> list_all event_ok (ss_events s)"

lemma logs_ok_log: "logs_ok s \<Longrightarrow> event_ok e \<Longrightarrow> logs_ok (log_event e s)"
  by (simp add: logs_ok_def)

lemma logs_ok_cong: "ss_events s' = ss_events s \<Longrightarrow> logs_ok s' = logs_ok s"
  by (simp add: logs_ok_def)

lemma opt_ok [simp]: "json_ok (j_opt_str x)" "json_ok (j_opt_nat n)" "json_ok (j_opt_bool b)"
  by (simp_all add: j_opt_str_def j_opt_nat_def j_opt_bool_def split: option.split)

lemma result_fields_ok: "list_all (\<lambda>(k, v). json_ok v) (result_fields fr)"
  "map fst (result_fields fr) = [''sha256'', ''md5'', ''size_bytes'', ''detected_type'', ''detected_bitness'',
     ''detected_machine'', ''detected_endianness'', ''detected_flags'', ''detected_abi'', ''arch_mismatch'',
     ''error'', ''http_status'']"
  by (simp_all add: result_fields_def Let_def)

lemma simple_events_ok:
  "event_ok (session_connect sid ip p dp proto ci)" "event_ok (client_version sid v)"
  "event_ok (login_attempt sid u pw acc ip uk pk)" "event_ok (command_input sid raw c args)"
  "event_ok (execution_attempt sid raw target)"
  "event_ok (session_closed sid duration reason) \<longleftrightarrow> float_text duration"
  "event_ok (auth_attempt sid [(''method'', JStr how), (''username'', JStr u), (''src_ip'', JStr ip)])"
  by (simp_all add: event_ok_def logged_def session_connect_def client_version_def login_attempt_def command_input_def
      execution_attempt_def session_closed_def auth_attempt_def list_all_iff)

lemma download_events_ok:
  "event_ok (file_download sid (download_fields req raw @ [(''outcome'', JStr what)]))"
  "event_ok (file_download sid (download_fields req raw @ [(''outcome'', JStr what), (''error'', JStr err)]))"
  "event_ok (file_download sid (download_fields req raw @ (''outcome'', outcome fr) # result_fields fr))"
  "event_ok (stage2_outcome_event sid child pu ps fr)"
  using result_fields_ok [of fr]
  by (simp_all add: event_ok_def logged_def file_download_def download_fields_def outcome_def stage2_outcome_event_def)

lemma stage2_scan_ok:
  "logs_ok s \<Longrightarrow> logs_ok (log_stage2_scan pu ps d found queued skip s)"
  by (simp add: log_stage2_scan_def logs_ok_log event_ok_def logged_def stage2_scan_def)

lemma begin_segment_logs_ok: "logs_ok s \<Longrightarrow> logs_ok (snd (begin_segment cfg sv i raw s))"
proof -
  have a: "logs_ok s \<Longrightarrow> logs_ok (log_attempt raw r (s\<lparr>ss_fs := fs, ss_should_exit := x\<rparr>))" for s r fs x
    using logs_ok_cong [of "s\<lparr>ss_fs := fs, ss_should_exit := x\<rparr>" s] simple_events_ok(5)
    by (auto simp: log_attempt_def logs_ok_log split: option.split)
  have d: "logs_ok s \<Longrightarrow> logs_ok (snd (begin_download cfg sv raw req s))" for s req
    using logs_ok_cong [of "s\<lparr>ss_download_count := Suc (ss_download_count s)\<rparr>" s] download_events_ok
    by (auto simp: begin_download_def Let_def logs_ok_log simp flip: append.simps)
  show "logs_ok s \<Longrightarrow> logs_ok (snd (begin_segment cfg sv i raw s))"
    using a d logs_ok_cong [of "s\<lparr>ss_fs := fs\<rparr>" s for fs]
    by (auto simp: begin_segment_def Let_def split: prod.split sum.split option.split)
qed

lemma finish_download_logs_ok: "logs_ok s \<Longrightarrow> logs_ok (snd (finish_download cfg raw req jb fr s))"
proof -
  have "logs_ok (start_stage2 cfg jb fr s) = logs_ok s" for s
    by (rule logs_ok_cong) (simp add: start_stage2_def)
  then show "logs_ok s \<Longrightarrow> logs_ok (snd (finish_download cfg raw req jb fr s))"
    by (simp add: finish_download_def logs_ok_log download_events_ok)
qed

lemma run_segment_logs_ok: "logs_ok s \<Longrightarrow> logs_ok (fst (snd (run_segment cfg sv i raw s w)))"
  using begin_segment_logs_ok [of s cfg sv i raw] finish_download_logs_ok
  by (auto simp: run_segment_def split: prod.split sum.split seg_step.split) (metis snd_conv)+

lemma run_chain_logs_ok: "logs_ok s \<Longrightarrow> logs_ok (fst (snd (run_chain cfg sv i segs status outs s w)))"
proof (induction segs arbitrary: i status outs s w)
  case (Cons x segs)
  obtain op seg where x: "x = (op, seg)" by (cases x)
  obtain r s1 w1 where r: "run_segment cfg sv i seg s w = (r, s1, w1)" by (metis prod_cases3)
  have "logs_ok s1" using run_segment_logs_ok [OF Cons.prems, of cfg sv i seg w] by (simp add: r)
  with Cons show ?case by (auto simp: x r Let_def split: sum.split)
qed simp

lemma handle_command_logs_ok: "logs_ok s \<Longrightarrow> logs_ok (fst (snd (handle_command cfg sv raw s w)))"
proof -
  assume "logs_ok s"
  then have "logs_ok (log_command raw s)"
    using logs_ok_cong [of "s\<lparr>ss_command_count := Suc (ss_command_count s)\<rparr>" s]
    by (simp add: log_command_def Let_def logs_ok_log simple_events_ok)
  from run_chain_logs_ok [OF this] show ?thesis
    by (simp add: handle_command_def case_prod_beta')
qed

lemma fetch_children_logs_ok: "logs_ok s \<Longrightarrow> logs_ok (fst (snd (fetch_children sv pu ps js s w)))"
proof (induction js arbitrary: s w)
  case (Cons j js)
  then have "logs_ok (log_stage2_outcome j pu ps fr s)" for fr
    by (simp add: log_stage2_outcome_def logs_ok_log download_events_ok)
  with Cons show ?case by (simp add: case_prod_beta' split: sum.split)
qed simp

lemma run_stage2_logs_ok: "logs_ok s \<Longrightarrow> logs_ok (fst (run_stage2_inline cfg sv pending s w lim))"
proof (induction cfg sv pending s w lim rule: run_stage2_inline.induct)
  case (2 cfg sv parent fr pending s w lim)
  obtain pl lim1 where p: "plan_for cfg sv parent fr w lim = (pl, lim1)" by fastforce
  let ?s1 = "log_stage2_scan (jb_url parent) (fr_sha256 fr) (jb_depth parent) (pl_found pl)
                   (length (pl_jobs pl)) (pl_skipped pl) s"
  obtain r s2 w2 where f: "fetch_children sv (jb_url parent) (fr_sha256 fr) (pl_jobs pl) ?s1 w = (r, s2, w2)"
    by (metis prod_cases3)
  have "logs_ok s2"
    using fetch_children_logs_ok [OF stage2_scan_ok [OF 2(2)], of sv "jb_url parent" "fr_sha256 fr" "pl_jobs pl"] f
    by (metis fst_conv snd_conv)
  then show ?case using 2(1) [OF p [symmetric] f [symmetric] _ refl] by (cases r) (auto simp: p f)
qed simp

subsection \<open>A Telnet connection logs entries\<close>

definition keeps_log :: "('w, 'a) step \<Rightarrow> bool" where
  "keeps_log f \<longleftrightarrow> (\<forall>c. logs_ok (cn_session c) \<longrightarrow> logs_ok (cn_session (snd (f c))))"

lemma keeps_logD: "keeps_log f \<Longrightarrow> logs_ok (cn_session c) \<Longrightarrow> f c = (r, c') \<Longrightarrow> logs_ok (cn_session c')"
  unfolding keeps_log_def by (metis snd_conv)

lemma keeps_logI: "(\<And>c. logs_ok (cn_session c) \<Longrightarrow> logs_ok (cn_session (snd (f c)))) \<Longrightarrow> keeps_log f"
  by (simp add: keeps_log_def)

lemma keeps_log_and_then:
  assumes "keeps_log f" and "\<And>x. keeps_log (g x)"
  shows "keeps_log (and_then f g)"
proof (rule keeps_logI)
  fix c :: "'a conn" assume c: "logs_ok (cn_session c)"
  obtain r c1 where f: "f c = (r, c1)" by fastforce
  have "logs_ok (cn_session c1)" using assms(1) c f by (rule keeps_logD)
  then show "logs_ok (cn_session (snd (and_then f g c)))"
    using assms(2) by (auto simp: and_then_def f keeps_log_def split: sum.split)
qed

lemma keeps_log_return [simp]: "keeps_log (return_step x)"
  by (simp add: keeps_log_def return_step_def)

lemma record_io_events: "record_io d bytes s = (r, s') \<Longrightarrow> ss_events s' = ss_events s"
  by (auto simp: record_io_def split: prod.splits)

lemma keeps_log_send [simp]: "keeps_log (send t)"
  by (auto simp: keeps_log_def send_def write_text_def logs_ok_def dest: record_io_events split: prod.split sum.split)

lemma read_line_events: "ss_events (snd (snd (read_line cl s))) = ss_events s"
proof (induction cl s rule: read_line.induct)
  case (1 cl s)
  show ?case
  proof (cases "cl_chunks cl")
    case Nil
    then show ?thesis by (subst read_line.simps) simp
  next
    case (Cons data chunks)
    obtain q s1 where q: "record_io Recv data s = (q, s1)" by fastforce
    obtain sc iac buf where b: "read_bytes data (cl_iac cl) (cl_buf cl) = (sc, iac, buf)" by (metis prod_cases3)
    have "ss_events (snd (snd (read_line (cl\<lparr>cl_chunks := chunks, cl_iac := iac, cl_buf := buf\<rparr>) s1))) = ss_events s1"
      if "data \<noteq> []" "sc = More" "q = Inr u" for u
      using 1 [OF Cons refl that(1) q [symmetric] that(3) b [symmetric] refl refl that(2)] by simp
    then show ?thesis
      using record_io_events [OF q]
      by (subst read_line.simps) (auto simp: Cons q b Let_def split: sum.split scanned_chunk.split)
  qed
qed

lemma keeps_log_next_line [simp]: "keeps_log next_line"
  by (simp add: keeps_log_def next_line_def logs_ok_def read_line_events case_prod_beta')

lemma keeps_log_snd: "keeps_log f \<Longrightarrow> logs_ok (cn_session c) \<Longrightarrow> logs_ok (cn_session (snd (f c)))"
  by (simp add: keeps_log_def)

lemma keeps_log_reply: "keeps_log (and_then (send t) (\<lambda>_. return_step x))"
  by (intro keeps_log_and_then keeps_log_send keeps_log_return)

lemmas reply_logs_ok = keeps_log_snd [OF keeps_log_reply]

lemma keeps_log_check_login [simp]: "keeps_log (check_login cfg sv u p)"
proof (rule keeps_logI)
  fix c :: "'a conn" assume c: "logs_ok (cn_session c)"
  obtain ok s where s: "try_login cfg sv (strip u) (strip p) (cn_session c) = (ok, s)" by fastforce
  then have "logs_ok s"
    using c by (auto simp: try_login_def Let_def logs_ok_def simple_events_ok split: if_splits)
  then show "logs_ok (cn_session (snd (check_login cfg sv u p c)))"
    by (simp add: check_login_def s reply_logs_ok)
qed

lemma keeps_log_login_rounds [simp]: "keeps_log (login_rounds cfg sv n)"
proof (induction n)
  case (Suc n)
  have "keeps_log (login_round cfg sv)"
    unfolding login_round_def
    by (intro keeps_log_and_then keeps_log_send keeps_log_next_line allI)
      (auto intro!: keeps_log_and_then split: option.split)
  with Suc show ?case by (auto intro: keeps_log_and_then)
qed simp

lemma keeps_log_run_line: "keeps_log (run_line cfg sv l)"
proof (rule keeps_logI)
  fix c :: "'a conn" assume c: "logs_ok (cn_session c)"
  obtain r s w where h: "handle_command cfg sv l (cn_session c) (cn_world c) = (r, s, w)" by (metis prod_cases3)
  have "logs_ok s" using handle_command_logs_ok [OF c, of cfg sv l "cn_world c"] by (simp add: h)
  then show "logs_ok (cn_session (snd (run_line cfg sv l c)))"
    by (simp add: run_line_def h reply_logs_ok Let_def split: sum.split)
qed

lemma keeps_log_command_loop: "logs_ok (cn_session c) \<Longrightarrow> logs_ok (cn_session (snd (command_loop cfg sv c)))"
proof (induction cfg sv c rule: command_loop.induct)
  case (1 cfg sv c)
  obtain r c1 where n: "next_line c = (r, c1)" by fastforce
  note ok1 = keeps_logD [OF keeps_log_next_line 1(2) n]
  show ?case
  proof (cases "\<exists>l. r = Inr (Some l)")
    case True
    then obtain l where r: "r = Inr (Some l)" by blast
    obtain q c2 where q: "run_line cfg sv l c1 = (q, c2)" by fastforce
    note ok2 = keeps_logD [OF keeps_log_run_line ok1 q]
    show ?thesis
      using 1(1) [OF n [symmetric] r refl q [symmetric]] ok2
      by (subst command_loop.simps) (auto simp: n r q split: sum.split)
  next
    case False
    with ok1 show ?thesis by (subst command_loop.simps) (auto simp: n split: sum.split option.split)
  qed
qed

lemma keeps_log_run_session: "keeps_log (run_session cfg sv)"
proof -
  have l: "keeps_log (command_loop cfg sv)" by (simp add: keeps_log_def keeps_log_command_loop)
  let ?rest = "\<lambda>r c. if r = Accepted
         then and_then (send (newline_str @ prompt cfg (cn_session c))) (\<lambda>_. command_loop cfg sv) c
         else (Inr (), c)"
  have "keeps_log (?rest r)" for r
    using keeps_log_and_then [OF keeps_log_send l] by (auto simp: keeps_log_def)
  then have "keeps_log (and_then (send t) (\<lambda>_. and_then (login_rounds cfg sv 3) ?rest))" for t
    by (intro keeps_log_and_then keeps_log_send keeps_log_login_rounds)
  then show ?thesis
    unfolding keeps_log_def run_session_def by blast
qed

lemma serve_logs_ok:
  assumes "logs_ok s" and "float_text duration"
  shows "logs_ok (cn_session (snd (serve cfg sv duration cl s w)))"
proof -
  have "logs_ok (on_connect s)" using assms(1) by (simp add: on_connect_def logs_ok_log simple_events_ok)
  moreover have "logs_ok (on_disconnect duration reason s)" if "logs_ok s" for s reason
    using that assms(2) by (simp add: on_disconnect_def logs_ok_def simple_events_ok)
  moreover have "logs_ok (cn_session (snd (run_session cfg sv c)))" if "logs_ok (cn_session c)" for c
    using that keeps_log_run_session [of cfg sv] by (simp add: keeps_log_def)
  ultimately show ?thesis
    by (simp add: serve_def Let_def case_prod_beta')
qed

lemma handle_telnet_logs_ok:
  assumes "handle_telnet_connection cfg sv sample sid duration ip port chunks ending w lim = (Some s, w', lim')"
    and "float_text duration"
  shows "logs_ok s"
proof -
  have "logs_ok (new_session cfg sample sid ip port (lc_telnet_port (cf_listeners cfg)) ''telnet'' None)"
    by (simp add: logs_ok_def new_session_def)
  note ok = serve_logs_ok [OF this assms(2), of cfg sv
      "\<lparr>cl_chunks = chunks, cl_ending = ending, cl_iac = Normal, cl_buf = []\<rparr>" w]
  obtain b lim1 where "try_acquire ip lim = (b, lim1)" by fastforce
  then show ?thesis
    using assms(1) ok by (cases b) (auto simp: handle_telnet_connection_def split: prod.splits)
qed

subsection \<open>What the dashboard sees of a log that was rotated and cut\<close>

lemma entries_inD: "entries_in t = Some es \<Longrightarrow> \<exists>f. file_of_text st t = Some f \<and> lf_stat f = st \<and> parse_file f = es"
  by (auto simp: entries_in_def file_of_text_def parse_file_def)

lemma one_sibling: "rotated_siblings name [(name @ ''.1'', f1), (name, f2)] = [name @ ''.1'']"
proof -
  have "rotation_number ''.1'' = Some 1" by code_simp
  then have "is_rotated name (name @ ''.1'')" by (simp add: is_rotated_def startswith_iff)
  moreover have "\<not> is_rotated name name" by (auto simp: is_rotated_def startswith_iff)
  ultimately show ?thesis by (simp add: rotated_siblings_def Let_def sort_desc_def)
qed

lemma whole_log:
  assumes "list_all (\<lambda>e. event_ok (snd e)) es"
  shows "entries_in (log_file es) = Some (map entry_of es)"
proof -
  have n: "list_all (\<lambda>e. event_ok (snd e)) es \<Longrightarrow> length (filter (\<lambda>c. c = CHR 0x0A) (log_file es)) = length es"
  proof (induction es)
    case (Cons e es)
    then have "CHR 0x0A \<notin> set (event_text e)"
      using dumps_no_line_end [of "JObj (entry_of e)"] by (simp add: event_text_entry entry_ok del: dumps.simps json_ok.simps)
    with Cons show ?case using filter_no_line_end [of "event_text e" "length (event_text e)"]
      by (simp add: log_file_objects object_file_Cons event_text_entry del: dumps.simps)
  qed (simp add: log_file_def)
  from entries_of_cut_log [OF assms, of "length (log_file es)"] n [OF assms] show ?thesis
    by (simp add: whole_events_def)
qed

text \<open>
  C26. The log is read back as it was written, wherever it was rotated and wherever the last write was torn: if the
  events \<open>old\<close> went into the file that is now the first rotated copy, and of the text of the events \<open>new\<close> only the
  first \<open>k\<close> characters reached the disk, the dashboard loads exactly the entries of \<open>old\<close>, then those of the
  events of \<open>new\<close> that are whole - every field, list and number as it was logged, and the torn rest as nothing.
\<close>
theorem log_survives_rotation_and_tearing:
  assumes "list_all (\<lambda>e. event_ok (snd e)) (old @ new)"
  shows "\<exists>f1 f2. file_of_text (Some v) (log_file old) = Some f1
    \<and> file_of_text st (take k (log_file new)) = Some f2
    \<and> fst (load_events name True [(name @ ''.1'', f1), (name, f2)] [])
        = map entry_of (old @ take (whole_events k new) new)"
proof -
  from assms have ok: "list_all (\<lambda>e. event_ok (snd e)) old" "list_all (\<lambda>e. event_ok (snd e)) new" by simp_all
  obtain f1 f2 where f1: "file_of_text (Some v) (log_file old) = Some f1" "lf_stat f1 = Some v"
      "parse_file f1 = map entry_of old"
    and f2: "file_of_text st (take k (log_file new)) = Some f2" "parse_file f2 = map entry_of (take (whole_events k new) new)"
    using entries_inD [OF whole_log [OF ok(1)], of "Some v"] entries_inD [OF entries_of_cut_log [OF ok(2)], of st k] by blast
  obtain m n where "v = (m, n)" by (cases v)
  with f1 f2 show ?thesis
    by (simp add: load_events_def one_sibling parse_rotated_def Let_def)
qed

theorem log_survives_rotation_and_tearing_witness:
  "\<exists>f1 f2. file_of_text (Some (7, 9)) (log_file [(''T'', command_input ''s'' [CHR 0x0A, CHR 0x22] ''x'' [''y''])]) = Some f1
    \<and> file_of_text None (take 40 (log_file [(''U'', client_version ''s'' ''SSH-2.0-x'')])) = Some f2
    \<and> fst (load_events ''events.jsonl'' True [(''events.jsonl'' @ ''.1'', f1), (''events.jsonl'', f2)] [])
        = [entry_of (''T'', command_input ''s'' [CHR 0x0A, CHR 0x22] ''x'' [''y''])]"
proof -
  let ?old = "[(''T'', command_input ''s'' [CHR 0x0A, CHR 0x22] ''x'' [''y''])]"
  let ?new = "[(''U'', client_version ''s'' ''SSH-2.0-x'')]"
  have "list_all (\<lambda>e. event_ok (snd e)) (?old @ ?new)" by (simp add: simple_events_ok)
  moreover have "whole_events 40 ?new = 0" by code_simp
  ultimately show ?thesis
    using log_survives_rotation_and_tearing [of ?old ?new "(7, 9)" None 40 "''events.jsonl''"] by simp
qed

text \<open>A Telnet connection's events are such: whatever the client sends, its log reads back.\<close>

lemma telnet_log_reads_back:
  assumes "handle_telnet_connection cfg sv sample sid duration ip port chunks ending w lim = (Some s, w', lim')"
    and "float_text duration"
  shows "entries_in (log_file (zip stamps (ss_events s))) = Some (map entry_of (zip stamps (ss_events s)))"
proof (rule whole_log)
  have "list_all event_ok (ss_events s)" using handle_telnet_logs_ok [OF assms] by (simp add: logs_ok_def)
  then show "list_all (\<lambda>e. event_ok (snd e)) (zip stamps (ss_events s))"
    by (auto simp: list_all_iff dest: set_zip_rightD)
qed

end
