(* ===== verification/Job_Files.thy ===== *)
theory Job_Files
  imports Job_Queue Json_Reader "HOL-Library.Monad_Syntax"
begin

section \<open>Jobs and results as files\<close>

text \<open>
  What \<open>Job_Queue\<close> leaves out: the JSON in a job file (\<open>enqueue_job\<close>, \<open>claim_pending_jobs\<close>) and in a result
  file (\<open>worker.py\<close>, \<open>_load_fetch_result\<close>), written and read back. Times are floats: \<open>ftext\<close> is their
  \<open>repr\<close> and \<open>ftime\<close> reads it. A text whose JSON has a field of another kind than the honeypot writes is
  \<open>None\<close>: Python builds the dataclass from it all the same.
\<close>

subsection \<open>Reading a field\<close>

definition as_str :: "json \<Rightarrow> string option" where
  "as_str v = (case v of JStr s \<Rightarrow> Some s | _ \<Rightarrow> None)"

definition as_bool :: "json \<Rightarrow> bool option" where
  "as_bool v = (case v of JBool b \<Rightarrow> Some b | _ \<Rightarrow> None)"

definition as_nat :: "json \<Rightarrow> nat option" where
  "as_nat v = (case v of JInt i \<Rightarrow> if 0 \<le> i then Some (nat i) else None | _ \<Rightarrow> None)"

definition as_opt :: "(json \<Rightarrow> 'a option) \<Rightarrow> json \<Rightarrow> 'a option option" where
  "as_opt f v = (if v = JNull then Some None else map_option Some (f v))"

definition kwarg :: "string \<Rightarrow> json \<Rightarrow> (string \<times> json) list \<Rightarrow> json" where
  "kwarg k dflt kvs = (case map_of kvs k of None \<Rightarrow> dflt | Some v \<Rightarrow> v)"

subsection \<open>The job file\<close>

text \<open>\<open>asdict(job)\<close>.\<close>

definition job_json :: "(int \<Rightarrow> string) \<Rightarrow> job \<Rightarrow> json" where
  "job_json ftext j = JObj
     [(''job_id'', JStr (jb_id j)), (''session_id'', JStr (jb_session j)), (''src_ip'', JStr (jb_src_ip j)),
      (''url'', JStr (jb_url j)), (''protocol'', JStr (jb_protocol j)),
      (''requested_filename'', JStr (jb_filename j)), (''raw_command'', JStr (jb_raw j)),
      (''timestamp'', JFloat (ftext (jb_time j))), (''depth'', JInt (int (jb_depth j))),
      (''parent_sha256'', j_opt_str (jb_parent j))]"

definition job_required :: "string list" where
  "job_required = [''job_id'', ''session_id'', ''src_ip'', ''url'', ''protocol'', ''requested_filename'',
     ''raw_command'', ''timestamp'']"

definition job_optional :: "string list" where
  "job_optional = [''depth'', ''parent_sha256'']"

definition as_time :: "(string \<Rightarrow> int) \<Rightarrow> json \<Rightarrow> int option" where
  "as_time ftime v = (case v of JFloat t \<Rightarrow> Some (ftime t) | _ \<Rightarrow> None)"

definition job_of_kwargs :: "(string \<Rightarrow> int) \<Rightarrow> (string \<times> json) list \<Rightarrow> job option" where
  "job_of_kwargs ftime kvs = do {
     jid \<leftarrow> as_str (kwarg ''job_id'' JNull kvs);
     sid \<leftarrow> as_str (kwarg ''session_id'' JNull kvs);
     ip \<leftarrow> as_str (kwarg ''src_ip'' JNull kvs);
     url \<leftarrow> as_str (kwarg ''url'' JNull kvs);
     protocol \<leftarrow> as_str (kwarg ''protocol'' JNull kvs);
     filename \<leftarrow> as_str (kwarg ''requested_filename'' JNull kvs);
     raw \<leftarrow> as_str (kwarg ''raw_command'' JNull kvs);
     time \<leftarrow> as_time ftime (kwarg ''timestamp'' JNull kvs);
     depth \<leftarrow> as_nat (kwarg ''depth'' (JInt 0) kvs);
     parent \<leftarrow> as_opt as_str (kwarg ''parent_sha256'' JNull kvs);
     Some \<lparr>jb_id = jid, jb_session = sid, jb_src_ip = ip, jb_url = url, jb_protocol = protocol,
           jb_filename = filename, jb_raw = raw, jb_time = time, jb_depth = depth, jb_parent = parent\<rparr> }"

text \<open>\<open>DownloadJob(**json.loads(text))\<close>: malformed JSON, no mapping, a field missing or unknown.\<close>

definition read_job :: "(string \<Rightarrow> int) \<Rightarrow> string \<Rightarrow> job result option" where
  "read_job ftime t =
     (case loads t of
        None \<Rightarrow> Some (Inl ValueError)
      | Some (JObj kvs) \<Rightarrow>
          if set (map fst kvs) \<subseteq> set (job_required @ job_optional) \<and> set job_required \<subseteq> set (map fst kvs)
          then map_option Inr (job_of_kwargs ftime kvs) else Some (Inl TypeError)
      | Some _ \<Rightarrow> Some (Inl TypeError))"

subsection \<open>The result file\<close>

definition summary_json :: "job \<Rightarrow> json" where
  "summary_json j = JObj
     [(''job_id'', JStr (jb_id j)), (''url'', JStr (jb_url j)), (''protocol'', JStr (jb_protocol j)),
      (''requested_filename'', JStr (jb_filename j)), (''depth'', JInt (int (jb_depth j)))]"

definition result_kwargs :: "fetch_result \<Rightarrow> (string \<times> json) list" where
  "result_kwargs fr =
     (let d = fr_detected fr
      in [(''success'', JBool (fr_success fr)), (''sha256'', j_opt_str (fr_sha256 fr)),
          (''md5'', j_opt_str (fr_md5 fr)), (''size_bytes'', JInt (int (fr_size fr))),
          (''detected_type'', j_opt_str (map_option file_type d)),
          (''detected_bitness'', j_opt_nat (Option.bind d bitness)),
          (''detected_machine'', j_opt_str (Option.bind d machine)),
          (''detected_endianness'', j_opt_str (Option.bind d endianness)),
          (''detected_flags'', j_opt_nat (map_option unat (Option.bind d flags))),
          (''detected_abi'', j_opt_str (Option.bind d abi)),
          (''arch_mismatch'', j_opt_bool (fr_arch_mismatch fr)),
          (''quarantine_path'', j_opt_str (fr_quarantine fr)), (''error'', j_opt_str (fr_error fr)),
          (''http_status'', j_opt_nat (fr_http_status fr)),
          (''stage2_jobs'', case fr_stage2_jobs fr of None \<Rightarrow> JNull | Some js \<Rightarrow> JList (map summary_json js)),
          (''stage2_found'', JInt (int (fr_stage2_found fr))),
          (''stage2_skipped'', JInt (int (fr_stage2_skipped fr)))])"

text \<open>\<open>{"job_id": ..., "processed_at": time.time(), **dataclasses.asdict(result)}\<close>.\<close>

definition payload_json :: "string \<Rightarrow> string \<Rightarrow> fetch_result \<Rightarrow> json" where
  "payload_json jid at fr =
     JObj ((''job_id'', JStr jid) # (''processed_at'', JFloat at) # result_kwargs fr)"

definition result_names :: "string list" where
  "result_names = [''success'', ''sha256'', ''md5'', ''size_bytes'', ''detected_type'', ''detected_bitness'',
     ''detected_machine'', ''detected_endianness'', ''detected_flags'', ''detected_abi'', ''arch_mismatch'',
     ''quarantine_path'', ''error'', ''http_status'', ''stage2_jobs'', ''stage2_found'', ''stage2_skipped'']"

text \<open>
  The dictionaries of \<open>stage2_jobs\<close> are as the worker writes them. A job that is known by its summary only has
  the other fields empty.
\<close>

definition summary_of :: "json \<Rightarrow> job option" where
  "summary_of v =
     (case v of
        JObj kvs \<Rightarrow> do {
          jid \<leftarrow> as_str (kwarg ''job_id'' JNull kvs);
          url \<leftarrow> as_str (kwarg ''url'' JNull kvs);
          protocol \<leftarrow> as_str (kwarg ''protocol'' JNull kvs);
          filename \<leftarrow> as_str (kwarg ''requested_filename'' JNull kvs);
          depth \<leftarrow> as_nat (kwarg ''depth'' JNull kvs);
          Some (make_job (jid, 0) [] [] url protocol filename [] depth None) }
      | _ \<Rightarrow> None)"

definition as_summaries :: "json \<Rightarrow> job list option" where
  "as_summaries v = (case v of JList vs \<Rightarrow> those (map summary_of vs) | _ \<Rightarrow> None)"

definition result_of_kwargs :: "(string \<times> json) list \<Rightarrow> fetch_result option" where
  "result_of_kwargs kvs = do {
     ok \<leftarrow> as_bool (kwarg ''success'' JNull kvs);
     sha \<leftarrow> as_opt as_str (kwarg ''sha256'' JNull kvs);
     md5 \<leftarrow> as_opt as_str (kwarg ''md5'' JNull kvs);
     sz \<leftarrow> as_nat (kwarg ''size_bytes'' (JInt 0) kvs);
     kind \<leftarrow> as_opt as_str (kwarg ''detected_type'' JNull kvs);
     bits \<leftarrow> as_opt as_nat (kwarg ''detected_bitness'' JNull kvs);
     mach \<leftarrow> as_opt as_str (kwarg ''detected_machine'' JNull kvs);
     endian \<leftarrow> as_opt as_str (kwarg ''detected_endianness'' JNull kvs);
     fl \<leftarrow> as_opt as_nat (kwarg ''detected_flags'' JNull kvs);
     ab \<leftarrow> as_opt as_str (kwarg ''detected_abi'' JNull kvs);
     mismatch \<leftarrow> as_opt as_bool (kwarg ''arch_mismatch'' JNull kvs);
     path \<leftarrow> as_opt as_str (kwarg ''quarantine_path'' JNull kvs);
     err \<leftarrow> as_opt as_str (kwarg ''error'' JNull kvs);
     status \<leftarrow> as_opt as_nat (kwarg ''http_status'' JNull kvs);
     jobs \<leftarrow> as_opt as_summaries (kwarg ''stage2_jobs'' JNull kvs);
     found \<leftarrow> as_nat (kwarg ''stage2_found'' (JInt 0) kvs);
     skip \<leftarrow> as_nat (kwarg ''stage2_skipped'' (JInt 0) kvs);
     Some \<lparr>fr_success = ok, fr_sha256 = sha, fr_md5 = md5, fr_size = sz,
           fr_detected = map_option (\<lambda>k. \<lparr>file_type = k, is_elf = bits \<noteq> None, bitness = bits, machine = mach,
             endianness = endian, flags = map_option word_of_nat fl, abi = ab\<rparr>) kind,
           fr_arch_mismatch = mismatch, fr_quarantine = path, fr_error = err, fr_http_status = status,
           fr_stage2_jobs = jobs, fr_stage2_found = found, fr_stage2_skipped = skip\<rparr> }"

text \<open>
  One poll for a result file: \<open>None\<close> where there is no file; else \<open>_load_fetch_result\<close> on its text. What the
  file holds besides the fields of \<open>FetchResult\<close> is passed over.
\<close>

definition poll_file :: "string option \<Rightarrow> poll option" where
  "poll_file content =
     (case content of
        None \<Rightarrow> Some Missing
      | Some t \<Rightarrow>
          (case loads t of
             None \<Rightarrow> Some Unreadable
           | Some (JObj kvs) \<Rightarrow>
               let known = filter (\<lambda>(k, v). k \<in> set result_names) kvs
               in if ''success'' \<notin> set (map fst known) then Some (Malformed TypeError)
                  else map_option Loaded (result_of_kwargs known)
           | Some _ \<Rightarrow> Some (Malformed AttributeError)))"

subsection \<open>What comes back\<close>

definition seen_job :: "job \<Rightarrow> job" where
  "seen_job j = make_job (jb_id j, 0) [] [] (jb_url j) (jb_protocol j) (jb_filename j) [] (jb_depth j) None"

text \<open>A result as the other process sees it.\<close>

definition seen_result :: "fetch_result \<Rightarrow> fetch_result" where
  "seen_result fr =
     fr\<lparr>fr_detected := map_option (\<lambda>d. d\<lparr>is_elf := bitness d \<noteq> None\<rparr>) (fr_detected fr),
        fr_stage2_jobs := map_option (map seen_job) (fr_stage2_jobs fr)\<rparr>"

lemma opt_back [simp]:
  "as_opt as_str (j_opt_str x) = Some x" "as_opt as_nat (j_opt_nat n) = Some n" "as_opt as_bool (j_opt_bool b) = Some b"
  by (simp_all add: as_opt_def j_opt_str_def as_str_def j_opt_nat_def as_nat_def j_opt_bool_def as_bool_def split: option.split)

lemma field_back [simp]: "as_str (JStr s) = Some s" "as_nat (JInt (int n)) = Some n" "as_bool (JBool b) = Some b"
  "as_time f (JFloat t) = Some (f t)"
  by (simp_all add: as_str_def as_nat_def as_bool_def as_time_def)

lemma kwarg_simps [simp]:
  "kwarg k d ((k', v) # kvs) = (if k = k' then v else kwarg k d kvs)" "kwarg k d [] = d"
  by (simp_all add: kwarg_def)

lemma summary_back [simp]: "summary_of (summary_json j) = Some (seen_job j)"
  by (simp add: summary_of_def summary_json_def seen_job_def)

lemma summaries_back [simp]:
  "as_opt as_summaries (case js of None \<Rightarrow> JNull | Some js \<Rightarrow> JList (map summary_json js)) = Some (map_option (map seen_job) js)"
proof -
  have "those (map summary_of (map summary_json xs)) = Some (map seen_job xs)" for xs by (induction xs) simp_all
  then show ?thesis by (simp add: as_opt_def as_summaries_def split: option.split)
qed

lemma job_json_ok: "float_text (ftext (jb_time j)) \<Longrightarrow> json_ok (job_json ftext j)"
  by (simp add: job_json_def j_opt_str_def split: option.split)

lemma read_job_back:
  assumes "float_text (ftext (jb_time j))" and "ftime (ftext (jb_time j)) = jb_time j"
  shows "read_job ftime (dumps (job_json ftext j)) = Some (Inr j)"
proof -
  have "loads (dumps (job_json ftext j)) = Some (job_json ftext j)"
    by (rule loads_dumps) (rule job_json_ok [where ftext = ftext and j = j, OF assms(1)])
  then show ?thesis
    by (simp add: read_job_def job_required_def job_optional_def job_of_kwargs_def job_json_def assms(2) del: dumps.simps)
qed

lemma result_kwargs_back: "result_of_kwargs (result_kwargs fr) = Some (seen_result fr)"
proof -
  have f: "map_option word_of_nat (map_option unat fl) = (fl :: 32 word option)" for fl by (cases fl) simp_all
  show ?thesis
    by (cases fr; cases "fr_detected fr")
      (auto simp: result_of_kwargs_def result_kwargs_def Let_def seen_result_def f)
qed

lemma summary_json_ok: "json_ok (summary_json j)"
  by (simp add: summary_json_def)

lemma opt_json_ok [simp]: "json_ok (j_opt_str x)" "json_ok (j_opt_nat n)" "json_ok (j_opt_bool b)"
  by (simp_all add: j_opt_str_def j_opt_nat_def j_opt_bool_def split: option.split)

lemma payload_ok: "float_text at \<Longrightarrow> json_ok (payload_json jid at fr)"
  by (simp add: payload_json_def result_kwargs_def Let_def list_all_iff summary_json_ok split: option.split)

lemma result_names_kwargs: "map fst (result_kwargs fr) = result_names"
  by (simp add: result_kwargs_def result_names_def Let_def)

lemma poll_file_back:
  assumes "float_text at"
  shows "poll_file (Some (dumps (payload_json jid at fr))) = Some (Loaded (seen_result fr))"
proof -
  have "loads (dumps (payload_json jid at fr)) = Some (payload_json jid at fr)"
    by (rule loads_dumps) (rule payload_ok [OF assms])
  moreover have "''job_id'' \<notin> set result_names" "''processed_at'' \<notin> set result_names" "''success'' \<in> set result_names"
    by (simp_all add: result_names_def)
  moreover have "filter (\<lambda>(k, v). k \<in> set result_names) (result_kwargs fr) = result_kwargs fr"
    unfolding result_names_kwargs [of fr, symmetric] by (rule filter_True) force
  moreover have "fst ` set (result_kwargs fr) = set result_names" by (simp flip: set_map add: result_names_kwargs)
  ultimately show ?thesis
    by (simp add: poll_file_def payload_json_def result_kwargs_back Let_def del: dumps.simps)
qed

lemma poll_file_cut:
  assumes "float_text at" and "dumps (payload_json jid at fr) = p @ q" and "q \<noteq> []"
  shows "poll_file (Some p) = Some Unreadable"
  using loads_cut [OF payload_ok [OF assms(1), unfolded payload_json_def] assms(2) [unfolded payload_json_def] assms(3)]
  by (simp add: poll_file_def)

subsection \<open>The other side needs no more\<close>

fun seen_poll :: "poll \<Rightarrow> poll" where
  "seen_poll (Loaded fr) = Loaded (seen_result fr)"
| "seen_poll p = p"

definition seen_awaited :: "awaited \<Rightarrow> awaited" where
  "seen_awaited a = (fst a, fst (snd a), seen_job (snd (snd a)))"

lemma seen_job_simps [simp]:
  "jb_id (seen_job j) = jb_id j" "jb_url (seen_job j) = jb_url j" "jb_protocol (seen_job j) = jb_protocol j"
  "jb_filename (seen_job j) = jb_filename j" "jb_depth (seen_job j) = jb_depth j"
  by (simp_all add: seen_job_def make_job_def)

lemma seen_result_simps [simp]:
  "fr_sha256 (seen_result fr) = fr_sha256 fr" "fr_stage2_found (seen_result fr) = fr_stage2_found fr"
  "fr_stage2_skipped (seen_result fr) = fr_stage2_skipped fr"
  "children_of (seen_result fr) = map seen_job (children_of fr)"
  "result_fields (seen_result fr) = result_fields fr" "outcome (seen_result fr) = outcome fr"
  by (cases "fr_detected fr"; simp add: seen_result_def children_of_def result_fields_def Let_def outcome_def
      split: option.split)+

lemma seen_failed [simp]: "seen_result (failed_fetch err) = failed_fetch err"
  by (simp add: seen_result_def failed_fetch_def)

lemma log_outcome_seen [simp]:
  "log_stage2_outcome (seen_job j) pu ps fr s = log_stage2_outcome j pu ps fr s"
  "log_stage2_outcome j pu ps (seen_result fr) s = log_stage2_outcome j pu ps fr s"
  by (simp_all add: log_stage2_outcome_def stage2_outcome_event_def)

lemma log_answer_seen: "log_answer (seen_awaited a) (seen_result fr) s = log_answer a fr s"
  by (simp add: log_answer_def seen_awaited_def case_prod_beta')

lemma awaited_seen: "awaited_children (seen_awaited a) (seen_result fr) = map seen_awaited (awaited_children a fr)"
  by (simp add: awaited_children_def seen_awaited_def)

lemma poll_child_seen:
  "poll_child (\<lambda>n. seen_poll (p n)) (seen_job j) = map_sum id (map_option seen_result) (poll_child p j)"
  by (simp add: poll_child_def split: poll.split)

lemma collect_round_seen:
  "collect_round (\<lambda>n. seen_poll (p n)) (map seen_awaited as) (map seen_awaited waiting) s
     = (case collect_round p as waiting s of (r, w, s1) \<Rightarrow> (r, map seen_awaited w, s1))"
proof (induction p as waiting s rule: collect_round.induct)
  case (2 p a as waiting s)
  have j: "snd (snd (seen_awaited a)) = seen_job (snd (snd a))" by (simp add: seen_awaited_def)
  consider (raised) e where "poll_child p (snd (snd a)) = Inl e"
    | (missing) "poll_child p (snd (snd a)) = Inr None"
    | (answer) fr where "poll_child p (snd (snd a)) = Inr (Some fr)"
    by (metis obj_sumE option.exhaust)
  then show ?case
  proof cases
    case missing
    with 2(1) [OF missing refl] show ?thesis by (simp add: j poll_child_seen)
  next
    case (answer fr)
    with 2(2) [OF answer refl] show ?thesis by (simp add: j poll_child_seen log_answer_seen awaited_seen)
  qed (simp add: j poll_child_seen)
qed simp

lemma collect_rounds_seen:
  "collect_rounds (map (\<lambda>p n. seen_poll (p n)) polls) (map seen_awaited as) s
     = (case collect_rounds polls as s of (r, w, s1) \<Rightarrow> (r, map seen_awaited w, s1))"
proof (induction polls arbitrary: as s)
  case (Cons p polls)
  then show ?case
    using collect_round_seen [of p as "[]" s] by (simp split: prod.split sum.split)
qed simp

lemma log_timeouts_seen: "log_timeouts (map seen_awaited as) s = log_timeouts as s"
  by (induction as s rule: log_timeouts.induct) (simp_all add: seen_awaited_def)

lemma collect_seen:
  "collect_stage2_queued (map (\<lambda>p n. seen_poll (p n)) polls) jb (seen_result fr) s = collect_stage2_queued polls jb fr s"
proof -
  have "map (\<lambda>i. (jb_url jb, fr_sha256 fr, i)) (map seen_job js) = map seen_awaited (map (\<lambda>i. (jb_url jb, fr_sha256 fr, i)) js)" for js
    by (simp add: seen_awaited_def)
  then show ?thesis
    by (simp add: collect_stage2_queued_def collect_rounds_seen log_timeouts_seen del: map_map split: prod.split sum.split)
qed

lemma fetch_via_queue_seen:
  "fetch_via_queue (map (\<lambda>p n. seen_poll (p n)) polls) j = map_sum id seen_result (fetch_via_queue polls j)"
  by (induction polls) (auto split: poll.split)

text \<open>
  C27. The files between the processes carry what they must: a job is read back as it was written; a result comes
  back without the fields the session never uses, and a result file that is not all there yet is not taken for
  one, wherever it is cut; and the session that collects the follow-ups from what it reads does exactly, event by
  event, what it would do if it were handed the worker's own results.
\<close>
theorem files_between_processes_are_faithful:
  assumes "float_text (ftext (jb_time j))" and "ftime (ftext (jb_time j)) = jb_time j" and "float_text at"
  shows "read_job ftime (dumps (job_json ftext j)) = Some (Inr j)
    \<and> poll_file (Some (dumps (payload_json jid at fr))) = Some (seen_poll (Loaded fr))
    \<and> (if k < length (dumps (payload_json jid at fr))
       then poll_file (Some (take k (dumps (payload_json jid at fr)))) = Some Unreadable else True)
    \<and> collect_stage2_queued (map (\<lambda>p n. seen_poll (p n)) polls) jb (seen_result fr) s
       = collect_stage2_queued polls jb fr s"
proof -
  let ?t = "dumps (payload_json jid at fr)"
  have "poll_file (Some (take k ?t)) = Some Unreadable" if "k < length ?t"
    using poll_file_cut [OF assms(3), of jid fr "take k ?t" "drop k ?t"] that by simp
  then show ?thesis
    using read_job_back [where ftext = ftext and j = j and ftime = ftime, OF assms(1,2)] poll_file_back [OF assms(3)]
      collect_seen by simp
qed

text \<open>Whole seconds, written as Python writes them.\<close>

definition second_text :: "int \<Rightarrow> string" where
  "second_text t = int_text t @ ''.0''"

definition second_of :: "string \<Rightarrow> int" where
  "second_of t = (case read_number (take (length t - 2) t) of Some (JInt i, _) \<Rightarrow> i | _ \<Rightarrow> 0)"

theorem files_between_processes_are_faithful_witness:
  "read_job second_of (dumps (job_json second_text (make_job (''9.5-ab'', 1700) ''s'' ''1.2.3.4'' ''http://h/a'' ''http'' ''a''
       ''wget http://h/a'' 0 None))) = Some (Inr (make_job (''9.5-ab'', 1700) ''s'' ''1.2.3.4'' ''http://h/a'' ''http'' ''a''
       ''wget http://h/a'' 0 None))
   \<and> poll_file (Some (take 30 (dumps (payload_json ''9.5-ab'' ''1.5'' (failed_fetch ''timeout''))))) = Some Unreadable"
proof -
  let ?j = "make_job (''9.5-ab'', 1700) ''s'' ''1.2.3.4'' ''http://h/a'' ''http'' ''a'' ''wget http://h/a'' 0 None"
  have t: "jb_time ?j = 1700" by (simp add: make_job_def)
  have "float_text (second_text 1700)" "second_of (second_text 1700) = 1700" "float_text ''1.5''" by code_simp+
  moreover have "30 < length (dumps (payload_json ''9.5-ab'' ''1.5'' (failed_fetch ''timeout'')))" by code_simp
  ultimately show ?thesis
    using files_between_processes_are_faithful [of second_text ?j second_of "''1.5''" "''9.5-ab''" "failed_fetch ''timeout''" 30]
    unfolding t by simp
qed

end
