(* ===== verification/Host_Key.thy ===== *)
theory Host_Key
  imports Main
begin

section \<open>The SSH host key across restarts\<close>

text \<open>
  \<open>_load_or_create_host_key\<close> of \<open>listeners/ssh.py\<close>. The directory of the key is the key file and the
  temporary files, by the process identifier in their names. Every file operation may fail with an
  \<open>OSError\<close>, and the process may be killed between two of them: the function returns the states that the
  directory goes through, and a crash leaves one of them behind. Keys are a parameter: \<open>fresh\<close> is the one
  that this start generates first, \<open>spare\<close> the temporary one.
\<close>

datatype 'k key_file = Absent | Whole 'k | Unusable

record 'k key_dir =
  kd_key :: "'k key_file"
  kd_tmp :: "(nat \<times> 'k key_file) list"

datatype file_op = Read_Key | Make_Parent | Open_Tmp | Write_Tmp | Replace_Key | Unlink_Tmp

text \<open>\<open>tmp.unlink(missing_ok=True)\<close>, unless that fails as well.\<close>

definition remove_tmp :: "nat \<Rightarrow> (file_op \<Rightarrow> bool) \<Rightarrow> 'k key_dir \<Rightarrow> 'k key_dir" where
  "remove_tmp pid fails d =
     (if fails Unlink_Tmp then d else d\<lparr>kd_tmp := filter (\<lambda>(p, f). p \<noteq> pid) (kd_tmp d)\<rparr>)"

text \<open>\<open>O_EXCL\<close>: opening the temporary file fails when it exists. A file just opened, or half written, is unusable.\<close>

definition create_key :: "nat \<Rightarrow> (file_op \<Rightarrow> bool) \<Rightarrow> 'k \<Rightarrow> 'k key_dir \<Rightarrow> 'k option \<times> 'k key_dir list" where
  "create_key pid fails fresh d =
     (if fails Make_Parent \<or> fails Open_Tmp \<or> pid \<in> fst ` set (kd_tmp d) then (None, [])
      else
        let opened = d\<lparr>kd_tmp := (pid, Unusable) # kd_tmp d\<rparr>
        in if fails Write_Tmp then (None, [opened, remove_tmp pid fails opened])
           else
             let written = d\<lparr>kd_tmp := (pid, Whole fresh) # kd_tmp d\<rparr>
             in if fails Replace_Key then (None, [opened, written, remove_tmp pid fails written])
                else (Some fresh, [opened, written, d\<lparr>kd_key := Whole fresh\<rparr>]))"

definition load_or_create_host_key ::
  "nat \<Rightarrow> (file_op \<Rightarrow> bool) \<Rightarrow> 'k \<Rightarrow> 'k \<Rightarrow> 'k key_dir \<Rightarrow> 'k \<times> 'k key_dir list" where
  "load_or_create_host_key pid fails fresh spare d =
     (if fails Read_Key then (spare, [d])
      else
        case kd_key d of
          Whole k \<Rightarrow> (k, [d])
        | Unusable \<Rightarrow> (spare, [d])
        | Absent \<Rightarrow>
            (case create_key pid fails fresh d of
               (Some k, states) \<Rightarrow> (k, d # states)
             | (None, states) \<Rightarrow> (spare, d # states)))"

text \<open>
  A start: the process identifier, the operations that fail, the keys it would generate, and after how
  many of its file operations it is killed, if it is.
\<close>

record 'k start =
  st_pid :: nat
  st_fails :: "file_op \<Rightarrow> bool"
  st_fresh :: 'k
  st_spare :: 'k
  st_killed :: "nat option"

definition start_once :: "'k start \<Rightarrow> 'k key_dir \<Rightarrow> 'k option \<times> 'k key_dir" where
  "start_once s d =
     (case load_or_create_host_key (st_pid s) (st_fails s) (st_fresh s) (st_spare s) d of
        (k, states) \<Rightarrow>
          (case st_killed s of
             None \<Rightarrow> (Some k, last states)
           | Some n \<Rightarrow> if n < length states then (None, states ! n) else (Some k, last states)))"

text \<open>The keys that the restarts of a deployment show to its visitors.\<close>

fun restarts :: "'k start list \<Rightarrow> 'k key_dir \<Rightarrow> 'k option list \<times> 'k key_dir" where
  "restarts [] d = ([], d)"
| "restarts (s # ss) d =
     (let (k, d1) = start_once s d; (ks, d2) = restarts ss d1 in (k # ks, d2))"

subsection \<open>A key that was written stays\<close>

lemma states_nonempty: "snd (load_or_create_host_key pid fails fresh spare d) \<noteq> []"
  by (simp add: load_or_create_host_key_def split: key_file.split prod.split option.split)

lemma create_states:
  assumes "kd_key d = Absent" "d' \<in> set (snd (create_key pid fails fresh d))"
  shows "kd_key d' = Absent \<or> kd_key d' = Whole fresh"
  using assms by (auto simp: create_key_def remove_tmp_def Let_def split: if_splits)

lemma start_keeps_key:
  assumes "kd_key d \<noteq> Absent"
  shows "snd (start_once s d) = d"
  using assms
  by (cases "kd_key d") (simp_all add: start_once_def load_or_create_host_key_def split: option.split)

lemma start_shows_key:
  assumes "kd_key d = Whole k" "\<not> st_fails s Read_Key"
  shows "fst (start_once s d) \<in> {None, Some k}"
  using assms by (simp add: start_once_def load_or_create_host_key_def split: option.split)

lemma start_states:
  assumes "kd_key d = Absent"
  shows "kd_key (snd (start_once s d)) \<in> {Absent, Whole (st_fresh s)}"
proof -
  let ?r = "load_or_create_host_key (st_pid s) (st_fails s) (st_fresh s) (st_spare s) d"
  obtain r states where c: "create_key (st_pid s) (st_fails s) (st_fresh s) d = (r, states)" by fastforce
  have all: "kd_key d' \<in> {Absent, Whole (st_fresh s)}" if "d' \<in> set (snd ?r)" for d'
    using that assms c create_states [OF assms, of d' "st_pid s" "st_fails s" "st_fresh s"]
    by (auto simp: load_or_create_host_key_def split: if_splits option.splits)
  have "snd (start_once s d) \<in> set (snd ?r)"
    using states_nonempty [of "st_pid s" "st_fails s" "st_fresh s" "st_spare s" d]
    by (auto simp: start_once_def split: prod.split option.split)
  then show ?thesis by (rule all)
qed

lemma restarts_Cons:
  "restarts (s # ss) d =
     (fst (start_once s d) # fst (restarts ss (snd (start_once s d))), snd (restarts ss (snd (start_once s d))))"
  by (simp add: Let_def case_prod_beta)

lemma restarts_keep: "kd_key d \<noteq> Absent \<Longrightarrow> snd (restarts ss d) = d"
proof (induction ss)
  case (Cons s ss)
  then show ?case by (simp del: restarts.simps add: restarts_Cons start_keeps_key [OF Cons.prems])
qed simp

lemma restarts_show:
  "kd_key d = Whole k \<Longrightarrow> list_all (\<lambda>s. \<not> st_fails s Read_Key) ss \<Longrightarrow> set (fst (restarts ss d)) \<subseteq> {None, Some k}"
proof (induction ss)
  case (Cons s ss)
  from Cons.prems(1) have "snd (start_once s d) = d" by (intro start_keeps_key) simp
  with Cons start_shows_key [of d k s] show ?case by (simp only: restarts_Cons) simp
qed simp

lemma restarts_origin:
  "kd_key (snd (restarts ss d)) \<in> (if kd_key d = Absent then insert Absent (Whole ` st_fresh ` set ss) else {kd_key d})"
proof (induction ss arbitrary: d)
  case (Cons s ss)
  show ?case
  proof (cases "kd_key d = Absent")
    case True
    with start_states [OF True, of s] Cons.IH [of "snd (start_once s d)"] show ?thesis
      by (simp only: restarts_Cons) (auto split: if_splits)
  qed (simp add: restarts_keep del: restarts.simps)
qed simp

text \<open>
  C28. The host key, over any history of starts whose operations fail and whose processes are killed
  wherever they may: the key file is never left truncated - it changes only from absent to one whole key
  that a start generated - and once it is there, every later start that can read it shows exactly that
  key and leaves the directory as it is.
\<close>
theorem host_key_persists:
  assumes "kd_key (snd (restarts starts d)) = Whole k"
    and "list_all (\<lambda>s. \<not> st_fails s Read_Key) later"
  shows "set (fst (restarts later (snd (restarts starts d)))) \<subseteq> {None, Some k}
    \<and> snd (restarts later (snd (restarts starts d))) = snd (restarts starts d)
    \<and> Whole k \<in> (if kd_key d = Absent then Whole ` st_fresh ` set starts else {kd_key d})
    \<and> (kd_key (snd (restarts others e)) = Unusable \<longleftrightarrow> kd_key e = Unusable)"
  using assms restarts_show [OF assms] restarts_keep [of "snd (restarts starts d)" later]
    restarts_origin [of starts d] restarts_origin [of others e]
  by (auto split: if_splits)

theorem host_key_persists_witness:
  "let crash = \<lparr>st_pid = 1, st_fails = (\<lambda>_. False), st_fresh = ''k0'', st_spare = ''t0'', st_killed = Some 1\<rparr>;
       create = \<lparr>st_pid = 2, st_fails = (\<lambda>_. False), st_fresh = ''k1'', st_spare = ''t1'', st_killed = None\<rparr>;
       again = \<lparr>st_pid = 3, st_fails = (\<lambda>_. False), st_fresh = ''k2'', st_spare = ''t2'', st_killed = None\<rparr>;
       d = \<lparr>kd_key = Absent, kd_tmp = []\<rparr>
   in kd_key (snd (restarts [crash, create] d)) = Whole ''k1''
      \<and> set (fst (restarts [again] (snd (restarts [crash, create] d)))) \<subseteq> {None, Some ''k1''}"
proof -
  let ?crash = "\<lparr>st_pid = 1, st_fails = (\<lambda>_. False), st_fresh = ''k0'', st_spare = ''t0'', st_killed = Some 1\<rparr>"
  let ?create = "\<lparr>st_pid = 2, st_fails = (\<lambda>_. False), st_fresh = ''k1'', st_spare = ''t1'', st_killed = None\<rparr>"
  let ?again = "\<lparr>st_pid = 3, st_fails = (\<lambda>_. False), st_fresh = ''k2'', st_spare = ''t2'', st_killed = None\<rparr>"
  have k: "kd_key (snd (restarts [?crash, ?create] \<lparr>kd_key = Absent, kd_tmp = []\<rparr>)) = Whole ''k1''"
    by (simp add: start_once_def load_or_create_host_key_def create_key_def remove_tmp_def Let_def)
  have "list_all (\<lambda>s. \<not> st_fails s Read_Key) [?again]" by simp
  from host_key_persists [OF k this] k show ?thesis unfolding Let_def by blast
qed

text \<open>
  A temporary file that a killed process left behind stops every later process with the same identifier
  from writing the key: nothing removes it. In a container the identifier is always the same, so each
  restart shows a new temporary key, for good.
\<close>

lemma leftover_tmp_blocks_key:
  assumes "kd_key d = Absent" and "p \<in> fst ` set (kd_tmp d)" and "list_all (\<lambda>s. st_pid s = p \<and> st_killed s = None) ss"
  shows "restarts ss d = (map (\<lambda>s. Some (st_spare s)) ss, d)"
  using assms(3)
proof (induction ss)
  case (Cons s ss)
  have "start_once s d = (Some (st_spare s), d)"
    using assms(1,2) Cons.prems by (simp add: start_once_def load_or_create_host_key_def create_key_def)
  with Cons show ?case by simp
qed simp

lemma leftover_tmp_witness:
  "fst (restarts
     (\<lparr>st_pid = 1, st_fails = (\<lambda>_. False), st_fresh = ''k0'', st_spare = ''t0'', st_killed = Some 1\<rparr>
      # map (\<lambda>n. \<lparr>st_pid = 1, st_fails = (\<lambda>_. False), st_fresh = ''k'', st_spare = n, st_killed = None\<rparr>) [''t1'', ''t2'', ''t3''])
     \<lparr>kd_key = Absent, kd_tmp = []\<rparr>) = [None, Some ''t1'', Some ''t2'', Some ''t3'']"
  by (simp add: start_once_def load_or_create_host_key_def create_key_def Let_def)

end
