(* ===== verification/System_Clock.thy ===== *)
theory System_Clock
  imports Persona Complex_Main
begin

section \<open>The fake system state over time\<close>

text \<open>
  \<open>shell/sysstate.py\<close> over the clock: which seed a figure is drawn from, and the reading that a command
  takes at a moment. A pseudo-random generator is a parameter: the sequence of draws that a seed gives, as
  rationals in the range that is asked for. Rounding of the products in binary is left out.
\<close>

text \<open>\<open>up_offset\<close> and \<open>up_start\<close> are the constants of the process; times are seconds.\<close>

record process_clock =
  up_offset :: rat
  up_start :: rat

definition uptime_seconds :: "process_clock \<Rightarrow> rat \<Rightarrow> rat" where
  "uptime_seconds p monotonic = up_offset p + (monotonic - up_start p)"

definition bucket :: "rat \<Rightarrow> rat \<Rightarrow> int" where
  "bucket width now = \<lfloor>now / width\<rfloor>"

text \<open>
  The draws: per bucket for the load, the memory and the processor, per hour of uptime for the network.
\<close>

record draws =
  dr_load :: "int \<Rightarrow> rat \<times> rat \<times> rat \<times> rat"
  dr_memory :: "int \<Rightarrow> rat"
  dr_cpu :: "int \<Rightarrow> rat \<times> rat"
  dr_rates :: "int \<Rightarrow> rat \<times> rat"
  dr_sizes :: "int \<Rightarrow> nat \<times> nat"

definition in_range :: "rat \<Rightarrow> rat \<Rightarrow> rat \<Rightarrow> bool" where
  "in_range a b x \<longleftrightarrow> a \<le> x \<and> x \<le> b"

definition draws_ok :: "draws \<Rightarrow> bool" where
  "draws_ok g \<longleftrightarrow>
     (\<forall>k. in_range 0 0.12 (fst (dr_load g k)) \<and> in_range 0 0.04 (fst (snd (dr_load g k)))
        \<and> in_range 0 0.03 (fst (snd (snd (dr_load g k)))) \<and> in_range 0 0.02 (snd (snd (snd (dr_load g k)))))
     \<and> (\<forall>k. in_range 0.16 0.24 (dr_memory g k))
     \<and> (\<forall>k. in_range 0.5 4 (fst (dr_cpu g k)) \<and> in_range 0.3 2.5 (snd (dr_cpu g k)))
     \<and> (\<forall>k. in_range 0.9 1.3 (fst (dr_rates g k)) \<and> in_range 0.6 0.9 (snd (dr_rates g k)))
     \<and> (\<forall>k. 350 \<le> fst (dr_sizes g k) \<and> fst (dr_sizes g k) \<le> 850 \<and> 250 \<le> snd (dr_sizes g k) \<and> snd (dr_sizes g k) \<le> 650)"

text \<open>\<open>round(x, 2)\<close> and \<open>round(x, 1)\<close> of a number that is not negative, in hundredths and tenths.\<close>

definition round_nat :: "rat \<Rightarrow> nat" where
  "round_nat x =
     (let n = nat \<lfloor>x\<rfloor>; r = x - of_int \<lfloor>x\<rfloor>
      in if r < 1 / 2 then n else if r > 1 / 2 then n + 1 else if even n then n else n + 1)"

definition load_average :: "draws \<Rightarrow> rat \<Rightarrow> nat \<times> nat \<times> nat" where
  "load_average g now =
     (case dr_load g (bucket 5 now) of
        (u0, u1, u2, u3) \<Rightarrow>
          let base = 0.03 + u0
          in (round_nat (100 * (base + u1)), round_nat (100 * (base * 0.75 + u2)), round_nat (100 * (base * 0.5 + u3))))"

definition used_kb :: "draws \<Rightarrow> rat \<Rightarrow> nat" where
  "used_kb g now = nat \<lfloor>of_nat total_kb * dr_memory g (bucket 30 now)\<rfloor>"

definition cpu_draw :: "draws \<Rightarrow> rat \<Rightarrow> nat \<times> nat" where
  "cpu_draw g now = (case dr_cpu g (bucket 5 now) of (u, s) \<Rightarrow> (round_nat (10 * u), round_nat (10 * s)))"

definition packets :: "draws \<Rightarrow> rat \<Rightarrow> nat \<times> nat" where
  "packets g up =
     (case dr_rates g (bucket 3600 up) of (rx, tx) \<Rightarrow> (nat \<lfloor>up * rx\<rfloor>, nat \<lfloor>up * tx\<rfloor>))"

text \<open>The reading that a command takes: \<open>now\<close> is the wall clock, \<open>monotonic\<close> the other one.\<close>

definition read_system :: "process_clock \<Rightarrow> draws \<Rightarrow> rat \<Rightarrow> rat \<Rightarrow> reading" where
  "read_system p g now monotonic =
     (let up = uptime_seconds p monotonic; sizes = dr_sizes g (bucket 3600 up)
      in \<lparr>rd_uptime = round_nat (100 * up), rd_idle = round_nat (100 * (up * 0.93)), rd_load = load_average g now,
          rd_used_kb = used_kb g now, rd_usr = fst (cpu_draw g now), rd_sys = snd (cpu_draw g now),
          rd_rx_packets = fst (packets g up), rd_rx_size = fst sizes,
          rd_tx_packets = snd (packets g up), rd_tx_size = snd sizes\<rparr>)"

subsection \<open>Readings are in range, steady and drifting\<close>

lemma round_nat_bounds: "of_nat a \<le> x \<Longrightarrow> x \<le> of_nat b \<Longrightarrow> a \<le> round_nat x \<and> round_nat x \<le> b"
proof -
  assume a: "of_nat a \<le> x" and b: "x \<le> of_nat b"
  then have f: "int a \<le> \<lfloor>x\<rfloor>" "\<lfloor>x\<rfloor> \<le> int b" by (simp_all add: le_floor_iff floor_le_iff)
  have "\<lfloor>x\<rfloor> < int b" if "of_int \<lfloor>x\<rfloor> < x"
  proof -
    have "(of_int \<lfloor>x\<rfloor> :: rat) < of_int (int b)" using that b by simp
    then show ?thesis by (simp only: of_int_less_iff)
  qed
  with f show "a \<le> round_nat x \<and> round_nat x \<le> b" by (auto simp: round_nat_def Let_def)
qed

lemma reading_in_range:
  assumes "draws_ok g"
  shows "reading_ok (read_system p g now m)"
proof -
  let ?m = "dr_memory g (bucket 30 now)" and ?c = "dr_cpu g (bucket 5 now)"
  have m: "0.16 \<le> ?m" "?m \<le> 0.24" and c: "0.5 \<le> fst ?c" "fst ?c \<le> 4" "0.3 \<le> snd ?c" "snd ?c \<le> 2.5"
    using assms unfolding draws_ok_def in_range_def by blast+
  define F where "F = \<lfloor>of_nat total_kb * ?m\<rfloor>"
  have "40960 \<le> F" "F \<le> 61440"
    using m by (simp_all add: F_def le_floor_iff floor_le_iff total_kb_def)
  moreover have "used_kb g now = nat F" by (simp add: used_kb_def F_def)
  ultimately have "40960 \<le> used_kb g now" "used_kb g now \<le> 61440" by simp_all
  moreover have "5 \<le> fst (cpu_draw g now)" "fst (cpu_draw g now) \<le> 40" "3 \<le> snd (cpu_draw g now)" "snd (cpu_draw g now) \<le> 25"
    using round_nat_bounds [of 5 "10 * fst ?c" 40] round_nat_bounds [of 3 "10 * snd ?c" 25] c
    by (simp_all add: cpu_draw_def case_prod_beta)
  moreover have "350 \<le> fst (dr_sizes g k) \<and> fst (dr_sizes g k) \<le> 850 \<and> 250 \<le> snd (dr_sizes g k) \<and> snd (dr_sizes g k) \<le> 650" for k
    using assms unfolding draws_ok_def by blast
  ultimately show ?thesis by (simp add: reading_ok_def read_system_def Let_def)
qed

lemma packets_mono:
  assumes "draws_ok g" "bucket 3600 up = bucket 3600 up'" "0 \<le> up" "up \<le> up'"
  shows "fst (packets g up) \<le> fst (packets g up')" "snd (packets g up) \<le> snd (packets g up')"
proof -
  have "0.9 \<le> fst (dr_rates g (bucket 3600 up'))" "0.6 \<le> snd (dr_rates g (bucket 3600 up'))"
    using assms(1) unfolding draws_ok_def in_range_def by blast+
  then have "0 \<le> fst (dr_rates g (bucket 3600 up'))" "0 \<le> snd (dr_rates g (bucket 3600 up'))" by simp_all
  with assms(2-4) show "fst (packets g up) \<le> fst (packets g up')" "snd (packets g up) \<le> snd (packets g up')"
    by (simp_all add: packets_def case_prod_beta nat_mono floor_mono mult_right_mono)
qed

text \<open>
  What two commands a moment apart see of the device: every figure is in the range that the shell's
  printing relies on; while the seeds stay the same, load, memory and processor are the same, and within
  an hour of uptime the network counters only grow.
\<close>
theorem readings_steady_within_an_hour:
  assumes "draws_ok g" "bucket 5 now = bucket 5 now'" "bucket 30 now = bucket 30 now'"
    and "bucket 3600 (uptime_seconds p m) = bucket 3600 (uptime_seconds p m')" "0 \<le> uptime_seconds p m" "m \<le> m'"
  shows "reading_ok (read_system p g now m)
    \<and> rd_load (read_system p g now m) = rd_load (read_system p g now' m')
    \<and> memory_kb (read_system p g now m) = memory_kb (read_system p g now' m')
    \<and> cpu_percentages (read_system p g now m) = cpu_percentages (read_system p g now' m')
    \<and> rx_packets (network_counters (read_system p g now m)) \<le> rx_packets (network_counters (read_system p g now' m'))
    \<and> tx_packets (network_counters (read_system p g now m)) \<le> tx_packets (network_counters (read_system p g now' m'))
    \<and> rx_bytes (network_counters (read_system p g now m)) \<le> rx_bytes (network_counters (read_system p g now' m'))
    \<and> tx_bytes (network_counters (read_system p g now m)) \<le> tx_bytes (network_counters (read_system p g now' m'))"
proof -
  have "uptime_seconds p m \<le> uptime_seconds p m'" using assms(6) by (simp add: uptime_seconds_def)
  note n = packets_mono [OF assms(1,4,5) this]
  show ?thesis
  proof (intro conjI)
    show "reading_ok (read_system p g now m)" by (rule reading_in_range [OF assms(1)])
  qed (use n assms(2-4) in \<open>simp_all add: read_system_def network_counters_def memory_kb_def cpu_percentages_def
      load_average_def used_kb_def cpu_draw_def Let_def\<close>)
qed

definition sample_draws :: draws where
  "sample_draws = \<lparr>dr_load = (\<lambda>_. (0.1, 0, 0, 0)), dr_memory = (\<lambda>_. 0.2), dr_cpu = (\<lambda>_. (1, 1)),
     dr_rates = (\<lambda>k. if even k then (0.9, 0.6) else (1.3, 0.9)), dr_sizes = (\<lambda>_. (500, 500))\<rparr>"

lemma sample_draws_ok: "draws_ok sample_draws"
  by (simp add: draws_ok_def sample_draws_def in_range_def)

theorem readings_steady_within_an_hour_witness:
  "draws_ok sample_draws \<and>
   rx_packets (network_counters (read_system \<lparr>up_offset = 0, up_start = 0\<rparr> sample_draws 0 3700))
     \<le> rx_packets (network_counters (read_system \<lparr>up_offset = 0, up_start = 0\<rparr> sample_draws 1 3701))"
proof -
  have b: "bucket 5 0 = bucket 5 1" "bucket 30 0 = bucket 30 1" by (simp_all add: bucket_def floor_eq_iff)
  have h: "bucket 3600 (uptime_seconds \<lparr>up_offset = 0, up_start = 0\<rparr> 3700)
      = bucket 3600 (uptime_seconds \<lparr>up_offset = 0, up_start = 0\<rparr> 3701)"
  proof -
    have "\<lfloor>3700 / 3600 :: rat\<rfloor> = 1" "\<lfloor>3701 / 3600 :: rat\<rfloor> = 1" by (simp_all add: floor_eq_iff)
    then show ?thesis by (simp add: bucket_def uptime_seconds_def)
  qed
  have u: "0 \<le> uptime_seconds \<lparr>up_offset = 0, up_start = 0\<rparr> 3700" "(3700 :: rat) \<le> 3701"
    by (simp_all add: uptime_seconds_def)
  from readings_steady_within_an_hour [OF sample_draws_ok b h u] sample_draws_ok show ?thesis by blast
qed

text \<open>
  At the turn of an hour the rates are drawn again and the whole uptime is multiplied by the new rate: a
  counter can fall, by almost a third here, which no interface's does.
\<close>

lemma counters_fall_at_the_hour:
  "rx_packets (network_counters (read_system \<lparr>up_offset = 0, up_start = 0\<rparr> sample_draws 0 7199)) = 9358
   \<and> rx_packets (network_counters (read_system \<lparr>up_offset = 0, up_start = 0\<rparr> sample_draws 1 7200)) = 6480"
proof -
  have "bucket 3600 7199 = 1" "bucket 3600 7200 = 2" by (simp_all add: bucket_def floor_eq_iff)
  moreover have "\<lfloor>7199 * 1.3 :: rat\<rfloor> = 9358" "\<lfloor>7200 * 0.9 :: rat\<rfloor> = 6480" by (simp_all add: floor_eq_iff)
  ultimately show ?thesis
    by (simp add: read_system_def network_counters_def packets_def uptime_seconds_def sample_draws_def Let_def)
qed

end
