(* ===== verification/Spec2Isabelle.thy ===== *)
theory Spec2Isabelle
  imports Telnet Job_Queue Ssh Transcript_File Tool_Main Html_Safety Log_Reading Job_Files Host_Key Startup System_Clock
begin

text \<open>
  A verification library for the RISC-V honeypot: a program that pretends to be an embedded Linux
  device behind SSH and Telnet, records what attackers type, fetches the files they ask for into a
  quarantine and follows captured scripts to the files those list.

  \<^bold>\<open>How the program works.\<close> A listener (\<open>honeypot/listeners\<close>) accepts a connection if the limiter has
  a slot for its source address, and makes a session (\<open>honeypot/session/manager.py\<close>). A line of input
  is split into a chain of commands; each is dispatched (\<open>honeypot/shell/commands.py\<close>) over the
  session's fake filesystem. A download command becomes a job, up to a cap per session, which the
  fetcher (\<open>honeypot/fetcher/fetcher.py\<close>) performs through a guard on destinations, here or in a
  separate worker behind a queue of files. A captured script is scanned for further URLs, and a budget
  decides which become jobs of the next depth. Every step is an event of the log.

  \<^bold>\<open>Theories and sources.\<close>
  \<^item> \<open>Prelude\<close>: exceptions as values, results, association lists, shared lemmas. \<open>Py_Text\<close>: the
    Python string functions the sources use. \<open>Utf8\<close>: UTF-8 in both directions. \<open>Url\<close>: \<open>urlsplit\<close>.
  \<^item> \<open>Elf\<close>: \<open>fetcher/elf.py\<close>, over bytes and 16- and 32-bit words.
  \<^item> \<open>Ip_Address\<close>: \<open>fetcher/ssrf_guard.py\<close> with Python's address parsers and classes.
  \<^item> \<open>Limiter\<close>: \<open>listeners/limiter.py\<close>, and the locale \<open>slot_limiter\<close> of what a listener relies on.
  \<^item> \<open>Shell_Lex\<close>, \<open>Download_Args\<close>, \<open>Commands\<close>: \<open>shell/commands.py\<close>. \<open>Help_Text\<close>, \<open>Persona\<close>:
    \<open>shell/help_text.py\<close>, \<open>shell/persona.py\<close>, \<open>shell/sysstate.py\<close>, whose clock and seeds are in
    \<open>System_Clock\<close>.
  \<^item> \<open>Fake_FS\<close>: \<open>shell/filesystem.py\<close>. Directories live in a store of addresses, because \<open>cp\<close> and
    \<open>mv\<close> differ in what they share.
  \<^item> \<open>Script_Scan\<close>, \<open>Stage2\<close>: \<open>fetcher/script_scan.py\<close>, \<open>fetcher/stage2.py\<close>. \<open>Config\<close>, \<open>Jobs\<close>: the
    records of \<open>config/schema.py\<close>, \<open>DownloadJob\<close> and \<open>FetchResult\<close>.
  \<^item> \<open>Events\<close>, \<open>Sanitize\<close>: \<open>logging/events.py\<close>, \<open>logging/sanitize.py\<close>.
  \<^item> \<open>Session\<close>: \<open>session/manager.py\<close>. The record \<open>session\<close> is a \<open>SessionManager\<close>; what lies outside is
    the record \<open>services\<close>. The locale \<open>fetch_service\<close> is what a session relies on in its fetcher.
  \<^item> \<open>Fetcher\<close>: \<open>fetcher/fetcher.py\<close> over an explicit quarantine; it interprets \<open>fetch_service\<close>.
  \<^item> \<open>Telnet\<close>, \<open>Ssh\<close>: \<open>listeners/telnet.py\<close> as a sequence of steps that may stop, \<open>listeners/ssh.py\<close>
    as a step function over the events of a connection whose channels interleave. \<open>Host_Key\<close>: the
    latter's host key over restarts, with every file operation that may fail and every point of a crash.
  \<^item> \<open>Startup\<close>: \<open>main.py\<close> up to its tasks, the heartbeat, the worker's loop, \<open>setup_logging\<close>.
  \<^item> \<open>Job_Queue\<close>: \<open>fetcher/queue.py\<close>, one pass of \<open>fetcher/worker.py\<close>, and the polling side of the
    session manager. \<open>Json_Reader\<close>, \<open>Job_Files\<close>, \<open>Log_Reading\<close>: \<open>json.loads\<close>, and the characters of the
    job, result and log files - what one process writes and another reads.
  \<^item> \<open>Report\<close>, \<open>Log_Files\<close>, \<open>Charts\<close>, \<open>Dashboard_Html\<close>: \<open>tools/dashboard.py\<close> - the aggregation of the log, the
    rotated files and their cache, the figures, and the page's text; \<open>tools/dashboard_server.py\<close>'s view.
    \<open>Html_Safety\<close> scans that page. \<open>Status_Check\<close>: \<open>tools/status_check.py\<close> (its session filter and command
    patterns are in \<open>Report\<close>). \<open>Transcript_Tool\<close>, \<open>Transcript_File\<close>: \<open>tools/transcript.py\<close> over lines and over
    the characters of a file. \<open>Tool_Main\<close>: the tools' \<open>main\<close> from their parsed arguments on.

  \<^bold>\<open>How code becomes definitions.\<close> An object is a record that operations return updated. A call that may
  raise returns a sum with the exception on the left, beside the state it had reached. Concurrency is
  explicit: an SSH channel stops at each \<open>await\<close> and resumes at an event; the stage-two tasks that a
  session started take turns at theirs (the relation \<open>background\<close> of \<open>Session\<close>); the queue is an inductive
  step relation in which any file operation of any process may come next. Loops are structural where
  they can be; the others carry a measure: the chunks left to read (\<open>command_loop\<close>, \<open>read_line\<close>), the
  bytes left to decode, and for the stage-two worklist the sum, over its jobs, of \<open>(U + 1)\<close> to the
  power of the levels left, which a plan of at most \<open>U\<close> jobs one level down always decreases. Only
  the JSON reader of \<open>Json_Reader\<close> runs on fuel (\<open>read_fuel\<close>, linear in the length of the text), and
  \<open>read_value_fuel\<close> proves that no text ever needs more. (\<open>drive\<close> in \<open>Ssh\<close>, a reference definition,
  counts downloads: a chain has at most one per segment, and the number of segments is its fuel.)

  \<^bold>\<open>What is proved.\<close>
  \<^item> Containment: no fetch connects to an address the guard refuses, redirects included; of all IPv4
    addresses the guard refuses exactly those that are not public, the shared space 100.64.0.0/10 apart,
    which passes; and it is all or nothing over a host's addresses.
  \<^item> Bounds: connections per address; direct downloads per session on both listeners and, with them,
    the stage-two requests of the tasks a session starts; jobs of a script's tree; the session's budget,
    with full tables too; URLs per host over time, as often as the limiter forgets the host; segments of
    a chain; keys logged per connection.
  \<^item> Capture: the quarantine is content-addressed and append-only; success means the served bytes are
    there. A log line is one printable line; text in the process's own log cannot act on a terminal,
    where what acts on one is defined by itself (\<open>acts_on_terminal\<close>) and not by the tables of the code.
  \<^item> Lifecycle: nothing runs before a login; every connection ends as one closed session and returns
    its slot; no job is lost or claimed twice; every follow-up gets the outcome that the polls determine,
    unless a result file is malformed; the host key, once written, is the one that is shown, whatever fails.
  \<^item> Fidelity of the shell: the filesystem stays well formed under every operation; writing and reading,
    copying and moving, splitting and printing, the download parser, the scanner's loops; the replies to
    a dropper's write test and a botnet's probe; which lines make the shell raise, and what.
  \<^item> Agreement: cutting a chain of commands at its awaits and running it to the end is \<open>handle_command\<close>;
    a background task alone is the inline worklist; fetching a job through the queue and the worker is
    fetching it.
  \<^item> Reporting: every number and list of the report, in its order, and every row of the charts is what
    the log says; a view of the live dashboard shows each rotated file as the first view of that version
    found it; silence is reported exactly when there is silence; and nothing that an attacker got into
    the log is a tag of the page or acts on the operator's terminal.
  \<^item> Files: what was dumped is loaded back, and a cut object is never taken for a whole one; the log of
    a connection reads back as its events, wherever it was rotated or torn; a transcript is printed with
    every byte accounted for (\<open>reads_as\<close>); a job and its result cross the directory between session and
    worker unchanged.

  \<^bold>\<open>Parameters.\<close> The network, \<open>aiohttp\<close> and \<open>asyncssh\<close> (as the data or events they produce), the digests,
  clocks, job identifiers, wordlist files, pseudo-random draws, and the call frames that the interpreter
  has left when a command copies a directory (\<open>frames\<close>). A hypothesis about one of them is
  stated in the theorem that uses it, and its witness instantiates it.

  \<^bold>\<open>Not modelled.\<close> Characters are code points below 256 (a decoded character above is represented by one
  of its class), except in \<open>Sanitize\<close>, where they are all code points. Address classes are those of
  Python 3.11.12 and later. Setting up a Telnet session may fail (\<open>client_connected\<close>), but a write to a
  socket or to the log after that succeeds; memory does not run out. A session's background tasks take
  their turns after its connection: the two share only the quarantine. An SSH channel that still awaits a
  download when its connection is lost is not followed further. A log file with bytes that are no UTF-8,
  or compressed data that is damaged rather than cut short, stops a tool; this is not modelled. File modes, sockets,
  signals, the YAML of a configuration and key generation are I/O or third-party code. Of the tools under \<open>tools/\<close>, \<open>argparse\<close>
  and the HTTP server are left out, and text computed from floating-point numbers is a parameter.
\<close>

end
